(* ===== verification/Prelude.thy ===== *)
theory Prelude
  imports Main "HOL-Library.Word" "HOL-Library.Signed_Division" "HOL-Library.Monad_Syntax"
begin

text \<open>
  What every component shares: the collections of rewrite rules, the C++ int64
  arithmetic with its undefined behaviour as \<open>None\<close>, the Euclidean division that
  the Halide language promises, and bit-level lemmas on fixed-width integers.
\<close>

unbundle bit_operations_syntax

named_theorems halide_defs \<open>definitions unfolded when a model function is evaluated\<close>
named_theorems range_intros \<open>introduction rules for width invariants\<close>

section \<open>The int64_t of C++\<close>

abbreviation int64_min :: int where "int64_min \<equiv> - (2 ^ 63)"
abbreviation int64_max :: int where "int64_max \<equiv> 2 ^ 63 - 1"

definition int64 :: "int \<Rightarrow> bool" where
  "int64 v \<longleftrightarrow> int64_min \<le> v \<and> v \<le> int64_max"

text \<open>A signed operation whose mathematical result does not fit is undefined behaviour.\<close>

definition chk64 :: "int \<Rightarrow> int option" where
  "chk64 v = (if int64 v then Some v else None)"

definition cdiv64 :: "int \<Rightarrow> int \<Rightarrow> int option" where
  "cdiv64 a b = (if b = 0 then None else chk64 (a sdiv b))"

definition crem64 :: "int \<Rightarrow> int \<Rightarrow> int option" where
  "crem64 a b = (if b = 0 \<or> \<not> int64 (a sdiv b) then None else Some (a smod b))"

text \<open>Reading a 64-bit pattern as a signed number.\<close>

definition wrap64 :: "int \<Rightarrow> int" where
  "wrap64 v = signed_take_bit 63 v"

lemma chk64_Some [simp]: "chk64 v = Some w \<longleftrightarrow> w = v \<and> int64 v"
  by (auto simp: chk64_def)

lemma chk64_int64: "int64 v \<Longrightarrow> chk64 v = Some v"
  by (simp add: chk64_def)

lemma int64_0 [simp]: "int64 0" and int64_1 [simp]: "int64 1" and int64_m1 [simp]: "int64 (- 1)"
  by (auto simp: int64_def)

lemma int64_abs_le: "int64 a \<Longrightarrow> 0 \<le> b \<Longrightarrow> b < \<bar>a\<bar> \<Longrightarrow> int64 b"
  by (auto simp: int64_def)

section \<open>Truncating division\<close>

lemma sdiv_int_unfold:
  "(a::int) sdiv b = (if 0 \<le> a \<longleftrightarrow> 0 \<le> b then \<bar>a\<bar> div \<bar>b\<bar> else - (\<bar>a\<bar> div \<bar>b\<bar>))"
  by (auto simp: signed_divide_int_def sgn_if)

lemma smod_int_unfold: "(a::int) smod b = sgn a * (\<bar>a\<bar> mod \<bar>b\<bar>)"
  by (simp add: signed_modulo_int_def)

lemma sdiv_smod_eq: "(a::int) sdiv b * b + a smod b = a"
proof -
  have "a sdiv b * b + a smod b = sgn a * (\<bar>a\<bar> div \<bar>b\<bar> * (sgn b * b) + \<bar>a\<bar> mod \<bar>b\<bar>)"
    by (simp add: signed_divide_int_def smod_int_unfold algebra_simps)
  also have "sgn b * b = \<bar>b\<bar>"
    by (simp add: abs_sgn mult.commute)
  also have "sgn a * (\<bar>a\<bar> div \<bar>b\<bar> * \<bar>b\<bar> + \<bar>a\<bar> mod \<bar>b\<bar>) = a"
    by (simp only: div_mult_mod_eq sgn_mult_abs)
  finally show ?thesis .
qed

lemma smod_abs_less: "b \<noteq> 0 \<Longrightarrow> \<bar>(a::int) smod b\<bar> < \<bar>b\<bar>"
  by (simp add: smod_int_unfold abs_mult abs_sgn_eq)

lemma smod_sign: "0 \<le> a \<Longrightarrow> 0 \<le> (a::int) smod b" "a \<le> 0 \<Longrightarrow> (a::int) smod b \<le> 0"
  by (cases "b = 0"; simp add: smod_int_unfold sgn_if abs_if)+

lemma abs_div_abs_nonneg [simp]: "0 \<le> \<bar>a::int\<bar> div \<bar>b\<bar>"
  by (cases "b = 0") (simp_all add: pos_imp_zdiv_nonneg_iff)

lemma sdiv_abs_le: "\<bar>(a::int) sdiv b\<bar> \<le> \<bar>a\<bar>"
proof -
  have "\<bar>a\<bar> div \<bar>b\<bar> \<le> \<bar>a\<bar>"
    using zdiv_mono2 [of "\<bar>a\<bar>" 1 "\<bar>b\<bar>"] by (cases "b = 0") simp_all
  moreover have "0 \<le> \<bar>a\<bar> div \<bar>b\<bar>"
    by simp
  ultimately show ?thesis
    by (simp add: sdiv_int_unfold)
qed

lemma int64_sdiv:
  assumes "int64 a"
  shows "int64 (a sdiv b) \<longleftrightarrow> \<not> (a = int64_min \<and> b = - 1)"
proof (cases "a = int64_min")
  case False
  then show ?thesis
    using assms sdiv_abs_le [of a b] by (auto simp: int64_def)
next
  case True
  show ?thesis
  proof (cases "\<bar>b\<bar> \<le> 1")
    case True
    then have "b = 0 \<or> b = 1 \<or> b = - 1" by auto
    then show ?thesis
      using \<open>a = int64_min\<close> by (auto simp: sdiv_int_unfold int64_def)
  next
    case False
    then have "\<bar>a\<bar> div \<bar>b\<bar> \<le> \<bar>a\<bar> div 2"
      by (intro zdiv_mono2) auto
    moreover have "0 \<le> \<bar>a\<bar> div \<bar>b\<bar>"
      by simp
    ultimately have "\<bar>a sdiv b\<bar> \<le> 2 ^ 62"
      using \<open>a = int64_min\<close> by (cases "0 \<le> b") (simp_all add: sdiv_int_unfold)
    then show ?thesis
      using \<open>a = int64_min\<close> False by (auto simp: int64_def)
  qed
qed

section \<open>Euclidean division\<close>

text \<open>The division and remainder of the Halide language: the remainder is never negative.\<close>

definition ediv :: "int \<Rightarrow> int \<Rightarrow> int" where
  "ediv a b = (if 0 \<le> b then a div b else - (a div (- b)))"

definition emod :: "int \<Rightarrow> int \<Rightarrow> int" where
  "emod a b = a mod \<bar>b\<bar>"

lemma ediv_emod: "ediv a b * b + emod a b = a"
  using div_mult_mod_eq [of a "- b"] by (simp add: ediv_def emod_def abs_if)

lemma emod_bounds: "b \<noteq> 0 \<Longrightarrow> 0 \<le> emod a b \<and> emod a b < \<bar>b\<bar>"
  by (simp add: emod_def)

lemma ediv_pos [simp]: "0 < b \<Longrightarrow> ediv a b = a div b"
  by (simp add: ediv_def)

lemma ediv_neg [simp]: "b < 0 \<Longrightarrow> ediv a b = - (a div (- b))"
  by (simp add: ediv_def)

lemma emod_pos [simp]: "0 < b \<Longrightarrow> emod a b = a mod b"
  by (simp add: emod_def)

lemma emod_neg [simp]: "b < 0 \<Longrightarrow> emod a b = a mod (- b)"
  by (simp add: emod_def)

lemma ediv_0 [simp]: "ediv a 0 = 0" and ediv_0' [simp]: "ediv 0 a = 0"
  and emod_0 [simp]: "emod a 0 = a" and emod_0' [simp]: "emod 0 a = 0"
  by (simp_all add: ediv_def emod_def)

lemma ediv_unique:
  assumes "a = q * b + r" "0 \<le> r" "r < \<bar>b\<bar>"
  shows "ediv a b = q" "emod a b = r"
proof -
  have "b \<noteq> 0" using assms by auto
  show m: "emod a b = r"
  proof (cases "b < 0")
    case True
    then have "a = r + (- q) * (- b)" using assms by simp
    then show ?thesis
      using True assms by (simp only: emod_neg mod_mult_self1) simp
  next
    case False
    then show ?thesis using assms by (simp add: emod_def)
  qed
  have "ediv a b * b = q * b"
    using ediv_emod [of a b] m assms(1) by simp
  then show "ediv a b = q" using \<open>b \<noteq> 0\<close> by simp
qed

end
