(* ===== verification/IntArith.thy ===== *)
theory IntArith
  imports Prelude
begin

text \<open>
  The checked 64-bit arithmetic that the simplifier's constant folding rests on:
  the overflow predicates of \<open>Util.cpp\<close>, Halide's division and remainder of
  \<open>IROperator.h\<close> (computed with C++'s truncating operators and a sign trick, and
  proved to be Euclidean division), and \<open>gcd\<close> and \<open>lcm\<close> of \<open>ModulusRemainder.cpp\<close>.
\<close>

section \<open>Overflow predicates (Util.cpp)\<close>

definition max_val :: "nat \<Rightarrow> int" where
  "max_val bits = drop_bit (64 - bits) int64_max"

definition min_val :: "nat \<Rightarrow> int" where
  "min_val bits = - max_val bits - 1"

definition add_would_overflow :: "nat \<Rightarrow> int \<Rightarrow> int \<Rightarrow> bool" where
  "add_would_overflow bits a b \<longleftrightarrow>
     (b > 0 \<and> a > max_val bits - b) \<or> (b < 0 \<and> a < min_val bits - b)"

definition sub_would_overflow :: "nat \<Rightarrow> int \<Rightarrow> int \<Rightarrow> bool" where
  "sub_would_overflow bits a b \<longleftrightarrow>
     (b < 0 \<and> a > max_val bits + b) \<or> (b > 0 \<and> a < min_val bits + b)"

definition mul_would_overflow :: "nat \<Rightarrow> int \<Rightarrow> int \<Rightarrow> bool" where
  "mul_would_overflow bits a b =
     (if a = 0 then False
      else if a = - 1 then b = min_val bits
      else (let ab = wrap64 (a * b) in
            ab < min_val bits \<or> ab > max_val bits \<or> ab sdiv a \<noteq> b))"

text \<open>The specification: the mathematical result does not fit in the width.\<close>

definition fits :: "nat \<Rightarrow> int \<Rightarrow> bool" where
  "fits bits v \<longleftrightarrow> - (2 ^ (bits - 1)) \<le> v \<and> v < 2 ^ (bits - 1)"

lemma max_val_eq: "0 < bits \<Longrightarrow> bits \<le> 64 \<Longrightarrow> max_val bits = 2 ^ (bits - 1) - 1"
proof -
  assume a: "0 < bits" "bits \<le> 64"
  have e: "(2::int) ^ 63 = 2 ^ (bits - 1) * 2 ^ (64 - bits)"
    using a by (simp flip: power_add)
  have "(2 ^ (bits - 1) * 2 ^ (64 - bits) - 1) div (2 ^ (64 - bits)) = (2::int) ^ (bits - 1) - 1"
  proof (rule int_div_pos_eq)
    show "(2::int) ^ (bits - 1) * 2 ^ (64 - bits) - 1
        = 2 ^ (64 - bits) * (2 ^ (bits - 1) - 1) + (2 ^ (64 - bits) - 1)"
      by (simp add: algebra_simps)
  qed simp_all
  then show ?thesis
    unfolding max_val_def drop_bit_eq_div e .
qed

lemma min_val_eq: "0 < bits \<Longrightarrow> bits \<le> 64 \<Longrightarrow> min_val bits = - (2 ^ (bits - 1))"
  by (simp add: min_val_def max_val_eq)

lemma fits_int64: "fits bits v \<Longrightarrow> bits \<le> 64 \<Longrightarrow> int64 v"
proof -
  assume "fits bits v" "bits \<le> 64"
  moreover from this have "(2::int) ^ (bits - 1) \<le> 2 ^ 63"
    by (intro power_increasing) auto
  ultimately show ?thesis
    by (auto simp: fits_def int64_def)
qed

lemma fits_64: "fits 64 v \<longleftrightarrow> int64 v"
  by (auto simp: fits_def int64_def)

lemma add_would_overflow_iff:
  "0 < bits \<Longrightarrow> bits \<le> 64 \<Longrightarrow> fits bits a \<Longrightarrow> add_would_overflow bits a b \<longleftrightarrow> \<not> fits bits (a + b)"
  by (auto simp: add_would_overflow_def max_val_eq min_val_eq fits_def)

lemma sub_would_overflow_iff:
  "0 < bits \<Longrightarrow> bits \<le> 64 \<Longrightarrow> fits bits a \<Longrightarrow> sub_would_overflow bits a b \<longleftrightarrow> \<not> fits bits (a - b)"
  by (auto simp: sub_would_overflow_def max_val_eq min_val_eq fits_def)

lemma wrap64_id: "int64 v \<Longrightarrow> wrap64 v = v"
  by (auto simp: wrap64_def int64_def intro: signed_take_bit_int_eq_self)

lemma wrap64_int64: "int64 (wrap64 v)"
  using signed_take_bit_int_greater_eq_minus_exp [of 63 v] signed_take_bit_int_less_exp [of 63 v]
  by (auto simp: wrap64_def int64_def)

lemma wrap64_cong: "2 ^ 64 dvd wrap64 v - v"
proof -
  have "take_bit 64 (signed_take_bit 63 v) = take_bit 64 v"
    by (simp add: take_bit_signed_take_bit)
  then have "wrap64 v mod 2 ^ 64 = v mod 2 ^ 64"
    by (simp only: take_bit_eq_mod wrap64_def)
  then show ?thesis
    by (simp only: mod_eq_dvd_iff)
qed

lemma wrap64_sdiv_back:
  assumes "int64 a" "a \<noteq> 0" "wrap64 (a * b) sdiv a = b"
  shows "wrap64 (a * b) = a * b"
proof -
  let ?w = "wrap64 (a * b)"
  have r: "?w - a * b = ?w smod a"
    using sdiv_smod_eq [of ?w a] assms(3) by (simp add: algebra_simps)
  have "\<bar>?w - a * b\<bar> < \<bar>a\<bar>"
    unfolding r using assms(2) by (rule smod_abs_less)
  moreover have "\<bar>a\<bar> \<le> 2 ^ 63"
    using assms(1) by (auto simp: int64_def)
  ultimately have "\<bar>?w - a * b\<bar> < 2 ^ 64"
    by simp
  moreover have "2 ^ 64 dvd \<bar>?w - a * b\<bar>"
    using wrap64_cong [of "a * b"] by (simp only: dvd_abs_iff)
  ultimately show ?thesis
    by (metis abs_ge_zero abs_0_eq eq_iff_diff_eq_0 zdvd_not_zless less_le)
qed

lemma mul_would_overflow_iff:
  assumes "0 < bits" "bits \<le> 64" "fits bits a" "fits bits b"
  shows "mul_would_overflow bits a b \<longleftrightarrow> \<not> fits bits (a * b)"
proof -
  have a64: "int64 a" using assms fits_int64 by blast
  consider "a = 0" | "a = - 1" | "a \<noteq> 0" "a \<noteq> - 1" by blast
  then show ?thesis
  proof cases
    case 1
    then show ?thesis by (simp add: mul_would_overflow_def fits_def)
  next
    case 2
    then show ?thesis
      using assms by (auto simp: mul_would_overflow_def fits_def min_val_eq)
  next
    case 3
    show ?thesis
    proof (cases "int64 (a * b)")
      case True
      then show ?thesis
        using 3 assms
        by (auto simp: mul_would_overflow_def Let_def wrap64_id max_val_eq min_val_eq fits_def
            sdiv_int_unfold abs_mult zero_le_mult_iff mult_less_0_iff)
    next
      case False
      then have "wrap64 (a * b) sdiv a \<noteq> b"
        using wrap64_sdiv_back [OF a64 3(1), of b] wrap64_int64 [of "a * b"] by auto
      then show ?thesis
        using 3 False fits_int64 [of bits "a * b"] assms(2)
        by (auto simp: mul_would_overflow_def Let_def)
    qed
  qed
qed

section \<open>Division and remainder (IROperator.h)\<close>

text \<open>
  \<open>mod_imp<int64_t>\<close> and \<open>div_imp<int64_t>\<close>. The C++ operators trap on a zero divisor
  and on \<open>INT64_MIN / -1\<close>, and \<open>std::abs\<close> is undefined at \<open>INT64_MIN\<close>.
\<close>

definition mod_imp :: "int \<Rightarrow> int \<Rightarrow> int option" where
  "mod_imp a b = do {
     r \<leftarrow> crem64 a b;
     if r < 0 then do { m \<leftarrow> chk64 \<bar>b\<bar>; Some (r + m) } else Some (r + 0) }"

definition div_imp :: "int \<Rightarrow> int \<Rightarrow> int option" where
  "div_imp a b = do {
     q \<leftarrow> cdiv64 a b;
     let r = a - q * b;
     let bs = drop_bit (64 - 1) b;
     let rs = drop_bit (64 - 1) r;
     Some (q - (rs AND bs) + (rs AND (NOT bs))) }"

lemma drop_bit_63: "int64 v \<Longrightarrow> drop_bit 63 v = (if v < 0 then - 1 else 0)"
proof -
  assume "int64 v"
  then have "v div 2 ^ 63 = (if v < 0 then - 1 else 0)"
    by (auto simp: int64_def intro: int_div_pos_eq [where r = v] int_div_pos_eq [where r = "v + 2 ^ 63"])
  then show ?thesis by (simp only: drop_bit_eq_div)
qed

lemma trunc_to_euclid:
  assumes "b \<noteq> 0"
  shows "ediv a b = (if a smod b < 0 then if b < 0 then a sdiv b + 1 else a sdiv b - 1 else a sdiv b)"
    and "emod a b = (if a smod b < 0 then a smod b + \<bar>b\<bar> else a smod b)"
proof -
  let ?q = "a sdiv b" and ?r = "a smod b"
  have eq: "a = ?q * b + ?r" and lt: "\<bar>?r\<bar> < \<bar>b\<bar>"
    using sdiv_smod_eq [of a b] smod_abs_less [OF assms] by simp_all
  let ?Q = "if ?r < 0 then if b < 0 then ?q + 1 else ?q - 1 else ?q"
  let ?R = "if ?r < 0 then ?r + \<bar>b\<bar> else ?r"
  have "a = ?Q * b + ?R" "0 \<le> ?R" "?R < \<bar>b\<bar>"
    using eq lt by (auto simp: algebra_simps abs_if split: if_splits)
  then show "ediv a b = ?Q" "emod a b = ?R"
    using ediv_unique by blast+
qed

lemma div_imp_euclid:
  assumes "int64 a" "int64 b" "b \<noteq> 0" "\<not> (a = int64_min \<and> b = - 1)"
  shows "div_imp a b = Some (ediv a b)"
proof -
  have q: "cdiv64 a b = Some (a sdiv b)"
    using assms by (simp add: cdiv64_def int64_sdiv chk64_int64)
  have r: "a - a sdiv b * b = a smod b"
    using sdiv_smod_eq [of a b] by simp
  have "int64 (a smod b)"
    using smod_abs_less [OF assms(3), of a] assms(2) by (auto simp: int64_def)
  then show ?thesis
    using trunc_to_euclid(1) [OF assms(3), of a] assms(2)
    by (simp add: div_imp_def q r Let_def drop_bit_63)
qed

lemma mod_imp_euclid:
  assumes "int64 a" "int64 b" "b \<noteq> 0" "b \<noteq> int64_min" "\<not> (a = int64_min \<and> b = - 1)"
  shows "mod_imp a b = Some (emod a b)"
proof -
  have "crem64 a b = Some (a smod b)" "int64 \<bar>b\<bar>"
    using assms by (simp_all add: crem64_def int64_sdiv) (auto simp: int64_def)
  then show ?thesis
    using trunc_to_euclid(2) [OF assms(3), of a] by (simp add: mod_imp_def chk64_int64)
qed

lemma mod_imp_SomeD: "mod_imp a b = Some r \<Longrightarrow> b \<noteq> 0 \<and> r = emod a b"
  using trunc_to_euclid(2) [of b a]
  by (auto simp: mod_imp_def crem64_def bind_eq_Some_conv split: if_splits)

lemma div_imp_SomeD:
  assumes "div_imp a b = Some q" "int64 a" "int64 b"
  shows "b \<noteq> 0 \<and> q = ediv a b"
proof -
  have nz: "b \<noteq> 0" and "int64 (a sdiv b)"
    using assms(1) by (auto simp: div_imp_def cdiv64_def bind_eq_Some_conv split: if_splits)
  then show ?thesis
    using div_imp_euclid [of a b] assms int64_sdiv by auto
qed

section \<open>gcd and lcm (ModulusRemainder.cpp)\<close>

function gcd_loop :: "int \<Rightarrow> int \<Rightarrow> int option" where
  "gcd_loop a b =
     (if b \<noteq> 0 then do { r \<leftarrow> crem64 a b; gcd_loop b r } else Some a)"
  by pat_completeness auto

termination gcd_loop
  by (relation "measure (\<lambda>(a, b). nat \<bar>b\<bar>)") (auto simp: crem64_def smod_abs_less split: if_splits)

declare gcd_loop.simps [simp del]

definition gcd_imp :: "int \<Rightarrow> int \<Rightarrow> int option" where
  "gcd_imp a b = (let (a, b) = (if a < b then (b, a) else (a, b)) in gcd_loop a b)"

definition lcm_imp :: "int \<Rightarrow> int \<Rightarrow> int option" where
  "lcm_imp a b = do {
     g \<leftarrow> gcd_imp a b;
     b' \<leftarrow> cdiv64 b g;
     if mul_would_overflow 64 a b' then Some 0 else Some (a * b') }"

lemma gcd_smod: "gcd b (a smod b) = gcd (a::int) b"
  by (metis add.commute gcd.commute gcd_add_mult sdiv_smod_eq)

lemma gcd_loop_abs: "gcd_loop a b = Some g \<Longrightarrow> \<bar>g\<bar> = gcd a b"
proof (induction a b rule: gcd_loop.induct)
  case (1 a b)
  show ?case
  proof (cases "b = 0")
    case True
    then show ?thesis using "1.prems" by (simp add: gcd_loop.simps [of a 0])
  next
    case False
    then obtain r where "crem64 a b = Some r" "gcd_loop b r = Some g"
      using "1.prems" by (auto simp: gcd_loop.simps [of a b] bind_eq_Some_conv)
    then show ?thesis
      using "1.IH" [OF False] gcd_smod [of b a] by (auto simp: crem64_def split: if_splits)
  qed
qed

lemma gcd_loop_total:
  "0 \<le> a \<Longrightarrow> 0 \<le> b \<Longrightarrow> int64 a \<Longrightarrow> int64 b \<Longrightarrow> gcd_loop a b = Some (gcd a b)"
proof (induction a b rule: gcd_loop.induct)
  case (1 a b)
  show ?case
  proof (cases "b = 0")
    case True
    then show ?thesis using "1.prems" by (simp add: gcd_loop.simps [of a 0])
  next
    case False
    have r: "crem64 a b = Some (a smod b)"
      using False "1.prems" by (simp add: crem64_def int64_sdiv)
    have "0 \<le> a smod b" "int64 (a smod b)"
      using "1.prems" False smod_sign(1) [of a b] smod_abs_less [OF False, of a]
      by (auto simp: int64_def)
    then show ?thesis
      using "1.IH" [OF False r] "1.prems" r False gcd_smod [of b a]
      by (simp add: gcd_loop.simps [of a b])
  qed
qed

lemma gcd_imp_abs: "gcd_imp a b = Some g \<Longrightarrow> \<bar>g\<bar> = gcd a b"
  using gcd_loop_abs [of a b g] gcd_loop_abs [of b a g]
  by (auto simp: gcd_imp_def gcd.commute split: if_splits)

lemma gcd_imp_dvd: "gcd_imp a b = Some g \<Longrightarrow> g dvd a \<and> g dvd b"
  using gcd_imp_abs [of a b g] by (metis abs_dvd_iff gcd_dvd1 gcd_dvd2)

lemma gcd_imp_total:
  "0 \<le> a \<Longrightarrow> 0 \<le> b \<Longrightarrow> int64 a \<Longrightarrow> int64 b \<Longrightarrow> gcd_imp a b = Some (gcd a b)"
  by (simp add: gcd_imp_def gcd_loop_total gcd.commute)

end
