(* ===== verification/HalideType.thy ===== *)
theory HalideType
  imports IntArith
begin

text \<open>
  The value types of the language (\<open>Type.h\<close>, \<open>Type.cpp\<close>): a code, a width in bits
  and a number of vector lanes. C++ handle descriptors of pointer types are not
  modelled. Type constructors truncate their arguments to the fields' widths.
\<close>

datatype type_code = Halide_Int | Halide_UInt | Halide_Float | Halide_Handle | Halide_BFloat

record halide_type =
  code :: type_code
  bits :: nat
  lanes :: nat

text \<open>\<open>Type(code, bits, lanes)\<close> stores \<open>(uint8_t)bits\<close> and \<open>(uint16_t)lanes\<close>.\<close>

definition mk_type :: "type_code \<Rightarrow> nat \<Rightarrow> nat \<Rightarrow> halide_type" where
  "mk_type c b l = \<lparr>code = c, bits = take_bit 8 b, lanes = take_bit 16 l\<rparr>"

definition IntT :: "nat \<Rightarrow> nat \<Rightarrow> halide_type" where
  "IntT b l = mk_type Halide_Int b l"

definition UIntT :: "nat \<Rightarrow> nat \<Rightarrow> halide_type" where
  "UIntT b l = mk_type Halide_UInt b l"

definition FloatT :: "nat \<Rightarrow> nat \<Rightarrow> halide_type" where
  "FloatT b l = mk_type Halide_Float b l"

definition BoolT :: "nat \<Rightarrow> halide_type" where
  "BoolT l = UIntT 1 l"

definition HandleT :: "nat \<Rightarrow> halide_type" where
  "HandleT l = mk_type Halide_Handle 64 l"

definition is_bool :: "halide_type \<Rightarrow> bool" where
  "is_bool t \<longleftrightarrow> code t = Halide_UInt \<and> bits t = 1"

definition is_vector :: "halide_type \<Rightarrow> bool" where
  "is_vector t \<longleftrightarrow> lanes t \<noteq> 1"

definition is_scalar :: "halide_type \<Rightarrow> bool" where
  "is_scalar t \<longleftrightarrow> lanes t = 1"

definition is_float :: "halide_type \<Rightarrow> bool" where
  "is_float t \<longleftrightarrow> code t = Halide_Float \<or> code t = Halide_BFloat"

definition is_bfloat :: "halide_type \<Rightarrow> bool" where
  "is_bfloat t \<longleftrightarrow> code t = Halide_BFloat"

definition is_int :: "halide_type \<Rightarrow> bool" where
  "is_int t \<longleftrightarrow> code t = Halide_Int"

definition is_uint :: "halide_type \<Rightarrow> bool" where
  "is_uint t \<longleftrightarrow> code t = Halide_UInt"

definition is_handle :: "halide_type \<Rightarrow> bool" where
  "is_handle t \<longleftrightarrow> code t = Halide_Handle"

definition with_lanes :: "nat \<Rightarrow> halide_type \<Rightarrow> halide_type" where
  "with_lanes l t = mk_type (code t) (bits t) l"

definition with_bits :: "nat \<Rightarrow> halide_type \<Rightarrow> halide_type" where
  "with_bits b t = mk_type (code t) b (lanes t)"

definition with_code :: "type_code \<Rightarrow> halide_type \<Rightarrow> halide_type" where
  "with_code c t = mk_type c (bits t) (lanes t)"

definition element_of :: "halide_type \<Rightarrow> halide_type" where
  "element_of t = with_lanes 1 t"

definition bytes :: "halide_type \<Rightarrow> nat" where
  "bytes t = (bits t + 7) div 8"

lemmas type_defs [halide_defs] =
  mk_type_def IntT_def UIntT_def FloatT_def BoolT_def HandleT_def is_bool_def is_vector_def
  is_scalar_def is_float_def is_bfloat_def is_int_def is_uint_def is_handle_def
  with_lanes_def with_bits_def with_code_def element_of_def

section \<open>Ranges (Type.cpp)\<close>

definition max_uint :: "nat \<Rightarrow> int" where
  "max_uint b = drop_bit (64 - b) (2 ^ 64 - 1)"

definition max_int :: "nat \<Rightarrow> int" where
  "max_int b = drop_bit (64 - b) int64_max"

definition min_int :: "nat \<Rightarrow> int" where
  "min_int b = - max_int b - 1"

text \<open>\<open>is_max(uint64_t)\<close>, \<open>is_max(int64_t)\<close> and \<open>is_min(int64_t)\<close>.\<close>

definition is_max_u :: "halide_type \<Rightarrow> int \<Rightarrow> bool" where
  "is_max_u t x = (if is_int t then x = max_int (bits t)
                   else if is_uint t then x = max_uint (bits t) else False)"

definition is_max :: "halide_type \<Rightarrow> int \<Rightarrow> bool" where
  "is_max t x \<longleftrightarrow> x > 0 \<and> is_max_u t x"

definition is_min :: "halide_type \<Rightarrow> int \<Rightarrow> bool" where
  "is_min t x = (if is_int t then x = min_int (bits t)
                 else if is_uint t then x = 0 else False)"

text \<open>\<open>can_represent(Type)\<close>.\<close>

definition can_represent :: "halide_type \<Rightarrow> halide_type \<Rightarrow> bool" where
  "can_represent t other =
     (if t = other then True
      else if lanes t \<noteq> lanes other then False
      else if is_int t then
        (is_int other \<and> bits other \<le> bits t) \<or> (is_uint other \<and> bits other < bits t)
      else if is_uint t then is_uint other \<and> bits other \<le> bits t
      else if is_bfloat t then is_bfloat other \<and> bits other \<le> bits t
      else if is_float t then
        (if is_bfloat other then bits t > bits other
         else (is_float other \<and> bits other \<le> bits t) \<or>
              (bits t = 64 \<and> bits other \<le> 32) \<or> (bits t = 32 \<and> bits other \<le> 16))
      else False)"

text \<open>\<open>can_represent(int64_t)\<close> for the integer types.\<close>

definition can_represent_int :: "halide_type \<Rightarrow> int \<Rightarrow> bool" where
  "can_represent_int t x =
     (if is_int t then x \<ge> min_int (bits t) \<and> x \<le> max_int (bits t)
      else if is_uint t then x \<ge> 0 \<and> x \<le> max_uint (bits t)
      else False)"

section \<open>Legal types\<close>

text \<open>
  The types that the IR constructors accept: the integer widths of \<open>IntImm\<close> and
  \<open>UIntImm\<close>, and a lane count that leaves the two top bits of its 16 bits free (the
  matcher keeps its special values there).
\<close>

definition legal_type :: "halide_type \<Rightarrow> bool" where
  "legal_type t \<longleftrightarrow> 0 < lanes t \<and> lanes t < 2 ^ 14 \<and>
     (case code t of
        Halide_Int \<Rightarrow> bits t \<in> {8, 16, 32, 64}
      | Halide_UInt \<Rightarrow> bits t \<in> {1, 8, 16, 32, 64}
      | Halide_Handle \<Rightarrow> bits t = 64
      | _ \<Rightarrow> bits t \<in> {16, 32, 64})"

lemma legal_bits: "legal_type t \<Longrightarrow> 0 < bits t \<and> bits t \<le> 64"
  by (auto simp: legal_type_def split: type_code.splits)

lemma with_lanes_eq: "legal_type t \<Longrightarrow> l < 2 ^ 14 \<Longrightarrow> with_lanes l t = t\<lparr>lanes := l\<rparr>"
  using legal_bits [of t] by (simp add: with_lanes_def mk_type_def take_bit_nat_eq_self)

lemma legal_with_lanes: "legal_type t \<Longrightarrow> 0 < l \<Longrightarrow> l < 2 ^ 14 \<Longrightarrow> legal_type (with_lanes l t)"
  by (simp add: with_lanes_eq) (simp add: legal_type_def split: type_code.splits)

lemma with_lanes_sel:
  "legal_type t \<Longrightarrow> code (with_lanes l t) = code t"
  "legal_type t \<Longrightarrow> bits (with_lanes l t) = bits t"
  "l < 2 ^ 14 \<Longrightarrow> lanes (with_lanes l t) = l"
  using legal_bits [of t] by (simp_all add: with_lanes_def mk_type_def take_bit_nat_eq_self)

lemma max_int_eq: "0 < b \<Longrightarrow> b \<le> 64 \<Longrightarrow> max_int b = 2 ^ (b - 1) - 1"
  using max_val_eq [of b] by (simp add: max_val_def max_int_def)

lemma min_int_eq: "0 < b \<Longrightarrow> b \<le> 64 \<Longrightarrow> min_int b = - (2 ^ (b - 1))"
  by (simp add: min_int_def max_int_eq)

lemma max_uint_eq: "b \<le> 64 \<Longrightarrow> max_uint b = 2 ^ b - 1"
proof -
  assume a: "b \<le> 64"
  have e: "(2::int) ^ 64 = 2 ^ b * 2 ^ (64 - b)"
    using a by (simp flip: power_add)
  have "(2 ^ b * 2 ^ (64 - b) - 1) div (2 ^ (64 - b)) = (2::int) ^ b - 1"
    by (rule int_div_pos_eq [where r = "2 ^ (64 - b) - 1"]) (simp_all add: algebra_simps)
  then show ?thesis
    unfolding max_uint_def drop_bit_eq_div e .
qed

end
