(* ===== verification/ModRem.thy ===== *)
theory ModRem
  imports IntArith
begin

text \<open>
  The congruence domain of \<open>ModulusRemainder.h\<close> and \<open>ModulusRemainder.cpp\<close>: an
  element \<open>{m, r}\<close> stands for the integers congruent to \<open>r\<close> modulo \<open>m\<close> (modulus 0: only
  \<open>r\<close>). Each operation is proved sound for the integers it abstracts, whatever the
  signs of its operands; \<open>None\<close> is C++ undefined behaviour or a failed assertion,
  excluded for canonical operands.
\<close>

record modulus_remainder =
  modulus :: int
  remainder :: int

abbreviation MR :: "int \<Rightarrow> int \<Rightarrow> modulus_remainder" where
  "MR m r \<equiv> \<lparr>modulus = m, remainder = r\<rparr>"

definition mr_top :: modulus_remainder where
  "mr_top = MR 1 0"

definition mr_mod :: "int \<Rightarrow> int \<Rightarrow> int option" where
  "mr_mod a m = (if m = 0 then Some a else mod_imp a m)"

definition mr_add :: "modulus_remainder \<Rightarrow> modulus_remainder \<Rightarrow> modulus_remainder option" where
  "mr_add a b =
     (if add_would_overflow 64 (remainder a) (remainder b) then Some (MR 1 0)
      else do {
        m \<leftarrow> gcd_imp (modulus a) (modulus b);
        r \<leftarrow> mr_mod (remainder a + remainder b) m;
        Some (MR m r) })"

definition mr_sub :: "modulus_remainder \<Rightarrow> modulus_remainder \<Rightarrow> modulus_remainder option" where
  "mr_sub a b =
     (if sub_would_overflow 64 (remainder a) (remainder b) then Some (MR 1 0)
      else do {
        m \<leftarrow> gcd_imp (modulus a) (modulus b);
        r \<leftarrow> mr_mod (remainder a - remainder b) m;
        Some (MR m r) })"

definition mr_mul :: "modulus_remainder \<Rightarrow> modulus_remainder \<Rightarrow> modulus_remainder option" where
  "mr_mul a b =
     (if modulus a = 0 then
        if \<not> mul_would_overflow 64 (remainder a) (modulus b) \<and>
           \<not> mul_would_overflow 64 (remainder a) (remainder b)
        then Some (MR (remainder a * modulus b) (remainder a * remainder b))
        else Some mr_top
      else if modulus b = 0 then
        if \<not> mul_would_overflow 64 (remainder b) (modulus a) \<and>
           \<not> mul_would_overflow 64 (remainder a) (remainder b)
        then Some (MR (remainder b * modulus a) (remainder a * remainder b))
        else Some mr_top
      else if remainder a = 0 \<and> remainder b = 0 then
        if \<not> mul_would_overflow 64 (modulus a) (modulus b)
        then Some (MR (modulus a * modulus b) 0)
        else Some mr_top
      else if remainder a = 0 then do {
        g \<leftarrow> gcd_imp (modulus b) (remainder b);
        if \<not> mul_would_overflow 64 (modulus a) g
        then Some (MR (modulus a * g) 0)
        else Some mr_top }
      else if remainder b = 0 then do {
        g \<leftarrow> gcd_imp (modulus a) (remainder a);
        if \<not> mul_would_overflow 64 (modulus b) g
        then Some (MR (modulus b * g) 0)
        else Some mr_top }
      else if \<not> mul_would_overflow 64 (remainder a) (remainder b) then do {
        m \<leftarrow> gcd_imp (modulus a) (modulus b);
        r \<leftarrow> mr_mod (remainder a * remainder b) m;
        Some (MR m r) }
      else Some mr_top)"

definition mr_div :: "modulus_remainder \<Rightarrow> modulus_remainder \<Rightarrow> modulus_remainder option" where
  "mr_div a b =
     (if modulus b = 0 \<and> remainder b \<noteq> 0 then do {
        k \<leftarrow> mr_mod (modulus a) (remainder b);
        if k = 0 then do {
          m \<leftarrow> cdiv64 (modulus a) (remainder b);
          r \<leftarrow> div_imp (remainder a) (remainder b);
          Some (MR m r) }
        else Some mr_top }
      else Some mr_top)"

definition mr_modulo :: "modulus_remainder \<Rightarrow> modulus_remainder \<Rightarrow> modulus_remainder option" where
  "mr_modulo a b = do {
     m \<leftarrow> gcd_imp (modulus a) (modulus b);
     m \<leftarrow> gcd_imp m (remainder b);
     r \<leftarrow> mr_mod (remainder a) m;
     Some (MR m r) }"

definition mr_unify :: "modulus_remainder \<Rightarrow> modulus_remainder \<Rightarrow> modulus_remainder option" where
  "mr_unify a b =
     (let (a, b) = (if remainder b > remainder a then (b, a) else (a, b)) in do {
        m \<leftarrow> gcd_imp (modulus a) (modulus b);
        diff \<leftarrow> chk64 (remainder a - remainder b);
        m \<leftarrow> gcd_imp diff m;
        ra \<leftarrow> mr_mod (remainder a) m;
        rb \<leftarrow> mr_mod (remainder b) m;
        if ra = rb then Some (MR m ra) else None })"

definition mr_intersect :: "modulus_remainder \<Rightarrow> modulus_remainder \<Rightarrow> modulus_remainder" where
  "mr_intersect a b =
     (if modulus a = 0 then a else if modulus b = 0 then b
      else if modulus a > modulus b then a else b)"

text \<open>\<open>reduce_expr_modulo\<close>, from the analysis result on.\<close>

definition mr_reduce :: "modulus_remainder \<Rightarrow> int \<Rightarrow> int option option" where
  "mr_reduce a m = do {
     k \<leftarrow> mr_mod (modulus a) m;
     if k = 0 then do { r \<leftarrow> mr_mod (remainder a) m; Some (Some r) } else Some None }"

section \<open>Meaning\<close>

definition mr_has :: "modulus_remainder \<Rightarrow> int \<Rightarrow> bool" where
  "mr_has a x \<longleftrightarrow> modulus a dvd x - remainder a"

definition mr_int64 :: "modulus_remainder \<Rightarrow> bool" where
  "mr_int64 a \<longleftrightarrow> int64 (modulus a) \<and> int64 (remainder a)"

text \<open>Canonical elements: what \<open>0 \<le> r < m\<close> the comments of the class take for granted.\<close>

definition mr_canonical :: "modulus_remainder \<Rightarrow> bool" where
  "mr_canonical a \<longleftrightarrow> mr_int64 a \<and>
     (modulus a = 0 \<or> 0 < modulus a \<and> 0 \<le> remainder a \<and> remainder a < modulus a)"

lemma mr_has_top [simp]: "mr_has mr_top x" and mr_has_1 [simp]: "mr_has (MR 1 r) x"
  by (simp_all add: mr_has_def mr_top_def)

lemma mr_has_const [simp]: "mr_has (MR 0 r) x \<longleftrightarrow> x = r"
  by (simp add: mr_has_def)

lemma mr_has_MR: "mr_has (MR m r) x \<longleftrightarrow> m dvd x - r"
  by (simp add: mr_has_def)

text \<open>Reducing the remainder by the modulus does not change the set.\<close>

lemma emod_dvd_diff: "m dvd r - emod r m"
  by (cases "m = 0") (simp_all add: emod_def minus_mod_eq_mult_div)

lemma mr_mod_Some: "mr_mod r m = Some k \<Longrightarrow> k = emod r m"
  by (auto simp: mr_mod_def dest: mod_imp_SomeD split: if_splits)

lemma mr_mod_shift: "mr_mod r m = Some k \<Longrightarrow> m dvd x - k \<longleftrightarrow> m dvd x - r"
proof -
  assume "mr_mod r m = Some k"
  then have "m dvd r - k" using emod_dvd_diff [of m r] mr_mod_Some by simp
  then show ?thesis
    by (metis diff_add_cancel dvd_add_left_iff add_diff_eq diff_add_eq)
qed

lemma mr_mod_zero_dvd: "mr_mod a m = Some 0 \<Longrightarrow> m dvd a"
  using emod_dvd_diff [of m a] mr_mod_Some [of a m 0] by auto

lemma dvd_both: "gcd_imp a b = Some g \<Longrightarrow> a dvd x \<Longrightarrow> g dvd x"
  "gcd_imp a b = Some g \<Longrightarrow> b dvd x \<Longrightarrow> g dvd x"
  using gcd_imp_dvd dvd_trans by blast+

lemma int64_mod_total: "int64 a \<Longrightarrow> int64 m \<Longrightarrow> 0 \<le> m \<Longrightarrow> mr_mod a m = Some (emod a m)"
  using mod_imp_euclid [of a m] by (cases "m = 0") (auto simp: mr_mod_def int64_def)

section \<open>Soundness of the operations\<close>

lemma mr_add_sound:
  assumes "mr_add a b = Some c" "mr_has a x" "mr_has b y"
  shows "mr_has c (x + y)"
proof (cases "add_would_overflow 64 (remainder a) (remainder b)")
  case False
  then obtain m r where m: "gcd_imp (modulus a) (modulus b) = Some m"
    and r: "mr_mod (remainder a + remainder b) m = Some r" and c: "c = MR m r"
    using assms(1) by (auto simp: mr_add_def bind_eq_Some_conv)
  have "m dvd (x - remainder a) + (y - remainder b)"
    using dvd_both [OF m] assms(2,3) by (auto simp: mr_has_def intro: dvd_add)
  then show ?thesis
    by (simp add: c mr_has_MR mr_mod_shift [OF r] algebra_simps)
qed (use assms in \<open>auto simp: mr_add_def\<close>)

lemma mr_sub_sound:
  assumes "mr_sub a b = Some c" "mr_has a x" "mr_has b y"
  shows "mr_has c (x - y)"
proof (cases "sub_would_overflow 64 (remainder a) (remainder b)")
  case False
  then obtain m r where m: "gcd_imp (modulus a) (modulus b) = Some m"
    and r: "mr_mod (remainder a - remainder b) m = Some r" and c: "c = MR m r"
    using assms(1) by (auto simp: mr_sub_def bind_eq_Some_conv)
  have "m dvd (x - remainder a) - (y - remainder b)"
    using dvd_both [OF m] assms(2,3) by (auto simp: mr_has_def intro: dvd_diff)
  moreover have "(x - remainder a) - (y - remainder b) = (x - y) - (remainder a - remainder b)"
    by simp
  ultimately show ?thesis
    by (simp only: c mr_has_MR mr_mod_shift [OF r])
qed (use assms in \<open>auto simp: mr_sub_def\<close>)

lemma dvd_mult_residues:
  fixes x y :: int
  assumes "m dvd x - r" "m dvd y - s"
  shows "m dvd x * y - r * s"
proof -
  have "x * y - r * s = (x - r) * y + r * (y - s)" by (simp add: algebra_simps)
  then show ?thesis using assms by simp
qed

lemma dvd_gcd_multiple:
  assumes "gcd_imp m r = Some g" "m dvd (y::int) - r"
  shows "g dvd y"
  using gcd_imp_dvd [OF assms(1)] assms(2) by (metis diff_add_cancel dvd_add dvd_trans)

lemma mr_mul_sound:
  assumes "mr_mul a b = Some c" "mr_has a x" "mr_has b y"
  shows "mr_has c (x * y)"
proof -
  have x: "modulus a dvd x - remainder a" and y: "modulus b dvd y - remainder b"
    using assms by (simp_all add: mr_has_def)
  consider (ca) "modulus a = 0" | (cb) "modulus a \<noteq> 0" "modulus b = 0"
    | (mm) "modulus a \<noteq> 0" "modulus b \<noteq> 0" "remainder a = 0" "remainder b = 0"
    | (ma) "modulus a \<noteq> 0" "modulus b \<noteq> 0" "remainder a = 0" "remainder b \<noteq> 0"
    | (mb) "modulus a \<noteq> 0" "modulus b \<noteq> 0" "remainder a \<noteq> 0" "remainder b = 0"
    | (gen) "modulus a \<noteq> 0" "modulus b \<noteq> 0" "remainder a \<noteq> 0" "remainder b \<noteq> 0"
    by blast
  then show ?thesis
  proof cases
    case ca
    then have "x = remainder a" using x by simp
    then show ?thesis
      using ca assms(1) y
      by (auto simp: mr_mul_def mr_has_MR simp flip: right_diff_distrib split: if_splits)
  next
    case cb
    then have "y = remainder b" using y by simp
    then show ?thesis
      using cb assms(1) x
      by (auto simp: mr_mul_def mr_has_MR mult.commute [of _ "remainder b"]
          simp flip: right_diff_distrib split: if_splits)
  next
    case mm
    then show ?thesis
      using assms(1) x y by (auto simp: mr_mul_def mr_has_MR intro: mult_dvd_mono split: if_splits)
  next
    case ma
    then show ?thesis
      using assms(1) x y dvd_gcd_multiple [OF _ y]
      by (auto simp: mr_mul_def mr_has_MR bind_eq_Some_conv intro: mult_dvd_mono split: if_splits)
  next
    case mb
    then show ?thesis
      using assms(1) x y dvd_gcd_multiple [OF _ x]
      by (auto simp: mr_mul_def mr_has_MR bind_eq_Some_conv mult.commute [of x]
          intro: mult_dvd_mono split: if_splits)
  next
    case gen
    show ?thesis
    proof (cases "mul_would_overflow 64 (remainder a) (remainder b)")
      case True
      then show ?thesis using assms(1) gen by (simp add: mr_mul_def)
    next
      case False
      then obtain m r where m: "gcd_imp (modulus a) (modulus b) = Some m"
        and r: "mr_mod (remainder a * remainder b) m = Some r" and c: "c = MR m r"
        using assms(1) gen by (auto simp: mr_mul_def bind_eq_Some_conv)
      show ?thesis
        using dvd_mult_residues [OF dvd_both(1) [OF m x] dvd_both(2) [OF m y]]
        by (simp add: c mr_has_MR mr_mod_shift [OF r])
    qed
  qed
qed

lemma sdiv_exact: "(b::int) \<noteq> 0 \<Longrightarrow> b dvd a \<Longrightarrow> a sdiv b * b = a"
proof -
  assume b: "b \<noteq> 0" and d: "b dvd a"
  have "b dvd a smod b" using sdiv_smod_eq [of a b] d by (metis dvd_add_right_iff dvd_triv_right)
  then have "a smod b = 0" using smod_abs_less [OF b, of a] dvd_imp_le_int by force
  then show ?thesis using sdiv_smod_eq [of a b] by simp
qed

lemma ediv_add_multiple: "b \<noteq> 0 \<Longrightarrow> ediv (k * b + r) b = k + ediv r b"
  using ediv_unique(1) [of "k * b + r" "k + ediv r b" b "emod r b"] ediv_emod [of r b] emod_bounds [of b r]
  by (simp add: algebra_simps)

lemma mr_div_sound:
  assumes "mr_div a b = Some c" "mr_has a x" "mr_has b y" "mr_int64 a" "mr_int64 b"
  shows "mr_has c (ediv x y)"
proof (cases "modulus b = 0 \<and> remainder b \<noteq> 0 \<and> mr_mod (modulus a) (remainder b) = Some 0")
  case False
  then have "c = mr_top"
    using assms(1) by (auto simp: mr_div_def bind_eq_Some_conv split: if_splits)
  then show ?thesis by simp
next
  case True
  let ?n = "remainder b"
  have n: "?n \<noteq> 0" "y = ?n" and d: "?n dvd modulus a"
    using True assms(3) mr_mod_zero_dvd by (auto simp: mr_has_def)
  obtain r where r: "div_imp (remainder a) ?n = Some r" and c: "c = MR (modulus a sdiv ?n) r"
    using True assms(1) by (auto simp: mr_div_def bind_eq_Some_conv cdiv64_def)
  have r': "r = ediv (remainder a) ?n"
    using div_imp_SomeD [OF r] assms(4,5) by (simp add: mr_int64_def)
  have m: "modulus a sdiv ?n * ?n = modulus a"
    by (rule sdiv_exact [OF n(1) d])
  obtain k where "x = k * modulus a + remainder a"
    using assms(2) by (auto simp: mr_has_def dvd_def algebra_simps)
  then have "x = (k * (modulus a sdiv ?n)) * ?n + remainder a"
    by (simp add: m mult.assoc)
  then have "ediv x y = k * (modulus a sdiv ?n) + r"
    using ediv_add_multiple [OF n(1)] by (simp add: n(2) r')
  then show ?thesis
    by (simp add: c mr_has_MR)
qed

lemma mr_modulo_sound:
  assumes "mr_modulo a b = Some c" "mr_has a x" "mr_has b y"
  shows "mr_has c (emod x y)"
proof -
  obtain m m' r where m: "gcd_imp (modulus a) (modulus b) = Some m"
    and m': "gcd_imp m (remainder b) = Some m'"
    and r: "mr_mod (remainder a) m' = Some r" and c: "c = MR m' r"
    using assms(1) by (auto simp: mr_modulo_def bind_eq_Some_conv)
  have "m' dvd x - remainder a"
    using dvd_both [OF m'] dvd_both [OF m] assms(2) by (auto simp: mr_has_def)
  moreover have "m' dvd y"
    using dvd_gcd_multiple [OF m'] dvd_both(2) [OF m] assms(3) by (auto simp: mr_has_def)
  then have "m' dvd emod x y - x"
    using emod_dvd_diff [of y x] by (metis dvd_diff_commute dvd_trans)
  ultimately have "m' dvd emod x y - remainder a"
    by (metis (no_types) diff_add_cancel add_diff_eq dvd_add)
  then show ?thesis
    by (simp add: c mr_has_MR mr_mod_shift [OF r])
qed

lemma mr_unify_commute: "remainder b > remainder a \<Longrightarrow> mr_unify a b = mr_unify b a"
  by (simp add: mr_unify_def)

lemma mr_unify_ordered:
  assumes "mr_unify a b = Some c" "remainder b \<le> remainder a"
  shows "(mr_has a x \<longrightarrow> mr_has c x) \<and> (mr_has b x \<longrightarrow> mr_has c x)"
proof -
  obtain m m' ra where m: "gcd_imp (modulus a) (modulus b) = Some m"
    and m': "gcd_imp (remainder a - remainder b) m = Some m'"
    and ra: "mr_mod (remainder a) m' = Some ra" and rb: "mr_mod (remainder b) m' = Some ra"
    and c: "c = MR m' ra"
    using assms by (auto simp: mr_unify_def bind_eq_Some_conv split: if_splits)
  show ?thesis
    using dvd_both(2) [OF m'] dvd_both [OF m] mr_mod_shift [OF ra] mr_mod_shift [OF rb]
    by (auto simp: mr_has_def c)
qed

lemma mr_unify_sound:
  assumes "mr_unify a b = Some c" "mr_has a x \<or> mr_has b x"
  shows "mr_has c x"
  using mr_unify_ordered [of a b c x] mr_unify_ordered [of b a c x] mr_unify_commute [of a b] assms
  by (cases "remainder b > remainder a") auto

lemma mr_intersect_sound: "mr_has a x \<Longrightarrow> mr_has b x \<Longrightarrow> mr_has (mr_intersect a b) x"
  by (simp add: mr_intersect_def)

lemma mr_reduce_sound:
  assumes "mr_reduce a m = Some (Some r)" "mr_has a x"
  shows "r = emod x m"
proof -
  have d: "m dvd modulus a" and r: "mr_mod (remainder a) m = Some r"
    using assms(1) by (auto simp: mr_reduce_def bind_eq_Some_conv mr_mod_zero_dvd split: if_splits)
  then have "m dvd x - remainder a"
    using assms(2) by (metis dvd_trans mr_has_def)
  then have "x mod \<bar>m\<bar> = remainder a mod \<bar>m\<bar>"
    by (simp add: mod_eq_dvd_iff)
  then show ?thesis
    using mr_mod_Some [OF r] by (simp add: emod_def)
qed

section \<open>Totality and canonical form\<close>

lemma int64_between: "int64 b \<Longrightarrow> 0 \<le> a \<Longrightarrow> a \<le> b \<Longrightarrow> int64 a"
  unfolding int64_def by linarith

lemma emod_canonical:
  assumes "0 \<le> m" "int64 m" "int64 r"
  shows "mr_canonical (MR m (emod r m))"
proof (cases "m = 0")
  case True
  then show ?thesis using assms by (simp add: mr_canonical_def mr_int64_def)
next
  case False
  then have "0 \<le> emod r m" "emod r m < m"
    using emod_bounds [of m r] assms(1) by auto
  then show ?thesis
    using assms False int64_between [OF assms(2), of "emod r m"]
    by (simp add: mr_canonical_def mr_int64_def del: emod_pos)
qed

lemma gcd_int64: "int64 a \<Longrightarrow> int64 b \<Longrightarrow> 0 \<le> a \<Longrightarrow> 0 \<le> b \<Longrightarrow> int64 (gcd a b)"
  using int64_between [of a "gcd a b"] gcd_le1_int [of a b] by (cases "a = 0") simp_all

lemma mr_canonicalD:
  "mr_canonical a \<Longrightarrow> 0 \<le> modulus a \<and> int64 (modulus a) \<and> int64 (remainder a)"
  by (auto simp: mr_canonical_def mr_int64_def)

lemma mr_top_canonical: "mr_canonical mr_top" and mr_1_canonical: "mr_canonical (MR 1 0)"
  by (simp_all add: mr_canonical_def mr_int64_def mr_top_def)

lemma mr_add_canonical:
  assumes "mr_canonical a" "mr_canonical b"
  shows "\<exists>c. mr_add a b = Some c \<and> mr_canonical c"
proof (cases "add_would_overflow 64 (remainder a) (remainder b)")
  case False
  note ab = mr_canonicalD [OF assms(1)] mr_canonicalD [OF assms(2)]
  have "int64 (remainder a + remainder b)"
    using False ab by (simp add: add_would_overflow_iff fits_64)
  then show ?thesis
    using False ab
    by (simp add: mr_add_def gcd_imp_total int64_mod_total gcd_int64 emod_canonical)
qed (simp add: mr_add_def mr_1_canonical)

lemma mr_sub_canonical:
  assumes "mr_canonical a" "mr_canonical b"
  shows "\<exists>c. mr_sub a b = Some c \<and> mr_canonical c"
proof (cases "sub_would_overflow 64 (remainder a) (remainder b)")
  case False
  note ab = mr_canonicalD [OF assms(1)] mr_canonicalD [OF assms(2)]
  have "int64 (remainder a - remainder b)"
    using False ab by (simp add: sub_would_overflow_iff fits_64)
  then show ?thesis
    using False ab
    by (simp add: mr_sub_def gcd_imp_total int64_mod_total gcd_int64 emod_canonical)
qed (simp add: mr_sub_def mr_1_canonical)

text \<open>
  \<open>unify\<close> subtracts remainders without an overflow check. Its comment is that
  remainders are positive; for constants (modulus 0) they need not be, so the
  difference is a premise here.
\<close>

lemma mr_unify_canonical:
  assumes "mr_canonical a" "mr_canonical b" "int64 (remainder a - remainder b)"
    and "int64 (remainder b - remainder a)"
  shows "\<exists>c. mr_unify a b = Some c \<and> mr_canonical c"
proof -
  have main: "\<exists>c. mr_unify a b = Some c \<and> mr_canonical c"
    if "mr_canonical a" "mr_canonical b" "int64 (remainder a - remainder b)"
      "remainder b \<le> remainder a" for a b
  proof -
    note ab = mr_canonicalD [OF that(1)] mr_canonicalD [OF that(2)]
    let ?m = "gcd (remainder a - remainder b) (gcd (modulus a) (modulus b))"
    have m: "0 \<le> ?m" "int64 ?m"
      using ab that(3,4) by (auto intro: gcd_int64)
    have "emod (remainder a) ?m = emod (remainder b) ?m"
      by (simp add: emod_def mod_eq_dvd_iff)
    then show ?thesis
      using ab m that(3,4)
      by (simp add: mr_unify_def gcd_imp_total gcd_int64 chk64_int64 int64_mod_total emod_canonical)
  qed
  show ?thesis
    using main [of a b] main [of b a] assms mr_unify_commute [of a b]
    by (cases "remainder b > remainder a") auto
qed

section \<open>The contract of an integer abstraction\<close>

text \<open>
  What an analysis of integer expressions relies on: a meaning for abstract values
  and one operation per operator, sound for the values they stand for.
\<close>

locale int_abstraction =
  fixes has :: "'a \<Rightarrow> int \<Rightarrow> bool"
    and ok :: "'a \<Rightarrow> bool"
    and add sub mul quot modulo join :: "'a \<Rightarrow> 'a \<Rightarrow> 'a option"
    and const :: "int \<Rightarrow> 'a"
    and top :: 'a
  assumes add_sound: "add a b = Some c \<Longrightarrow> has a x \<Longrightarrow> has b y \<Longrightarrow> has c (x + y)"
    and sub_sound: "sub a b = Some c \<Longrightarrow> has a x \<Longrightarrow> has b y \<Longrightarrow> has c (x - y)"
    and mul_sound: "mul a b = Some c \<Longrightarrow> has a x \<Longrightarrow> has b y \<Longrightarrow> has c (x * y)"
    and quot_sound: "quot a b = Some c \<Longrightarrow> has a x \<Longrightarrow> has b y \<Longrightarrow> ok a \<Longrightarrow> ok b \<Longrightarrow> has c (ediv x y)"
    and modulo_sound: "modulo a b = Some c \<Longrightarrow> has a x \<Longrightarrow> has b y \<Longrightarrow> has c (emod x y)"
    and join_sound: "join a b = Some c \<Longrightarrow> has a x \<or> has b x \<Longrightarrow> has c x"
    and const_sound: "has (const v) v"
    and top_sound: "has top x"
begin

lemma join_min: "join a b = Some c \<Longrightarrow> has a x \<Longrightarrow> has b y \<Longrightarrow> has c (min x y)"
  and join_max: "join a b = Some c \<Longrightarrow> has a x \<Longrightarrow> has b y \<Longrightarrow> has c (max x y)"
  and join_if: "join a b = Some c \<Longrightarrow> has a x \<Longrightarrow> has b y \<Longrightarrow> has c (if p then x else y)"
  by (auto intro: join_sound simp: min_def max_def)

end

interpretation mr: int_abstraction mr_has mr_int64 mr_add mr_sub mr_mul mr_div mr_modulo mr_unify
  "MR 0" mr_top
  by unfold_locales
    (auto intro: mr_add_sound mr_sub_sound mr_mul_sound mr_div_sound mr_modulo_sound mr_unify_sound)

end
