(* ===== verification/IR.thy ===== *)
theory IR
  imports HalideType ModRem "HOL-Library.Char_ord" "HOL-Library.List_Lexorder"
begin

text \<open>
  The expression nodes of the intermediate representation (\<open>Expr.h\<close>, \<open>IR.h\<close>), their
  \<open>make\<close> functions (\<open>IR.cpp\<close>; \<open>None\<close> is a failed \<open>internal_assert\<close>), the constant
  tests and constructors of \<open>IROperator.cpp\<close> and the structural equality of
  \<open>IRMatch.cpp\<close>. The value of an \<open>IntImm\<close> or \<open>UIntImm\<close> is the integer its 64 bits denote.
  Floating-point arithmetic is the machine's: a record of its operations.
\<close>

section \<open>Floating-point operations of the machine\<close>

type_synonym float64 = "64 word"

record float_ops =
  fl_of_int :: "int \<Rightarrow> float64"
  fl_to_int :: "float64 \<Rightarrow> int"
  fl_round :: "type_code \<Rightarrow> nat \<Rightarrow> float64 \<Rightarrow> float64"
  fl_add :: "float64 \<Rightarrow> float64 \<Rightarrow> float64"
  fl_sub :: "float64 \<Rightarrow> float64 \<Rightarrow> float64"
  fl_mul :: "float64 \<Rightarrow> float64 \<Rightarrow> float64"
  fl_div :: "float64 \<Rightarrow> float64 \<Rightarrow> float64"
  fl_floor :: "float64 \<Rightarrow> float64"
  fl_neg :: "float64 \<Rightarrow> float64"
  fl_eq :: "float64 \<Rightarrow> float64 \<Rightarrow> bool"
  fl_lt :: "float64 \<Rightarrow> float64 \<Rightarrow> bool"
  fl_le :: "float64 \<Rightarrow> float64 \<Rightarrow> bool"

section \<open>Nodes\<close>

datatype bin_op = OpAdd | OpSub | OpMod | OpMul | OpDiv | OpMin | OpMax | OpAnd | OpOr

datatype cmp_op = OpEQ | OpNE | OpLT | OpLE | OpGT | OpGE

datatype call_type = Image | Extern | ExternCPlusPlus | PureExtern | Halide_Call | Intrinsic | PureIntrinsic

text \<open>
  The \<open>image\<close> and \<open>param\<close> of a \<open>Load\<close> are kept as whether they are defined; the extra
  handles of a \<open>Variable\<close> and a \<open>Call\<close> are never read by the modelled code.
\<close>

datatype expr =
    IntImm halide_type int
  | UIntImm halide_type int
  | FloatImm halide_type float64
  | StringImm string
  | Broadcast expr nat
  | Cast halide_type expr
  | Variable halide_type string
  | Bin bin_op expr expr
  | Cmp cmp_op expr expr
  | NotE expr
  | Select expr expr expr
  | Load halide_type string expr expr bool bool modulus_remainder
  | Ramp expr expr nat
  | Call halide_type string "expr list" call_type int
  | LetE string expr expr
  | Shuffle "expr list" "nat list"

abbreviation "Add \<equiv> Bin OpAdd"
abbreviation "Sub \<equiv> Bin OpSub"
abbreviation "Mod \<equiv> Bin OpMod"
abbreviation "Mul \<equiv> Bin OpMul"
abbreviation "Div \<equiv> Bin OpDiv"
abbreviation "MinE \<equiv> Bin OpMin"
abbreviation "MaxE \<equiv> Bin OpMax"
abbreviation "And \<equiv> Bin OpAnd"
abbreviation "Or \<equiv> Bin OpOr"
abbreviation "EQ \<equiv> Cmp OpEQ"
abbreviation "NE \<equiv> Cmp OpNE"
abbreviation "LT \<equiv> Cmp OpLT"
abbreviation "LE \<equiv> Cmp OpLE"
abbreviation "GT \<equiv> Cmp OpGT"
abbreviation "GE \<equiv> Cmp OpGE"

text \<open>The \<open>type\<close> field of a node.\<close>

fun etype :: "expr \<Rightarrow> halide_type" where
  "etype (IntImm t v) = t"
| "etype (UIntImm t v) = t"
| "etype (FloatImm t v) = t"
| "etype (StringImm s) = HandleT 1"
| "etype (Broadcast e n) = with_lanes n (etype e)"
| "etype (Cast t e) = t"
| "etype (Variable t n) = t"
| "etype (Bin op a b) = etype a"
| "etype (Cmp op a b) = BoolT (lanes (etype a))"
| "etype (NotE a) = BoolT (lanes (etype a))"
| "etype (Select c a b) = etype a"
| "etype (Load t n p i im pa al) = t"
| "etype (Ramp a b n) = with_lanes n (etype a)"
| "etype (Call t n as ct vi) = t"
| "etype (LetE n v b) = etype b"
| "etype (Shuffle vs is) =
     (case vs of [] \<Rightarrow> HandleT 0 | v # _ \<Rightarrow> with_lanes (length is) (element_of (etype v)))"

text \<open>The numbering of \<open>IRNodeType\<close>, restricted to expressions.\<close>

fun node_type :: "expr \<Rightarrow> nat" where
  "node_type (IntImm t v) = 0"
| "node_type (UIntImm t v) = 1"
| "node_type (FloatImm t v) = 2"
| "node_type (StringImm s) = 3"
| "node_type (Broadcast e n) = 4"
| "node_type (Cast t e) = 5"
| "node_type (Variable t n) = 6"
| "node_type (Bin op a b) = (case op of OpAdd \<Rightarrow> 7 | OpSub \<Rightarrow> 8 | OpMod \<Rightarrow> 9 | OpMul \<Rightarrow> 10
     | OpDiv \<Rightarrow> 11 | OpMin \<Rightarrow> 12 | OpMax \<Rightarrow> 13 | OpAnd \<Rightarrow> 20 | OpOr \<Rightarrow> 21)"
| "node_type (Cmp op a b) = (case op of OpEQ \<Rightarrow> 14 | OpNE \<Rightarrow> 15 | OpLT \<Rightarrow> 16 | OpLE \<Rightarrow> 17
     | OpGT \<Rightarrow> 18 | OpGE \<Rightarrow> 19)"
| "node_type (NotE a) = 22"
| "node_type (Select c a b) = 23"
| "node_type (Load t n p i im pa al) = 24"
| "node_type (Ramp a b n) = 25"
| "node_type (Call t n as ct vi) = 26"
| "node_type (LetE n v b) = 27"
| "node_type (Shuffle vs is) = 28"

section \<open>Constructors (Expr.h, IR.cpp)\<close>

text \<open>The shifts that keep the low bits of a 64-bit value, sign- or zero-extended.\<close>

definition sext :: "nat \<Rightarrow> int \<Rightarrow> int" where
  "sext b v = drop_bit (64 - b) (wrap64 (push_bit (64 - b) v))"

definition zext :: "nat \<Rightarrow> int \<Rightarrow> int" where
  "zext b v = drop_bit (64 - b) (take_bit 64 (push_bit (64 - b) v))"

definition IntImm_make :: "halide_type \<Rightarrow> int \<Rightarrow> expr option" where
  "IntImm_make t v =
     (if is_int t \<and> is_scalar t \<and> bits t \<in> {8, 16, 32, 64}
      then Some (IntImm t (sext (bits t) v)) else None)"

definition UIntImm_make :: "halide_type \<Rightarrow> int \<Rightarrow> expr option" where
  "UIntImm_make t v =
     (if is_uint t \<and> is_scalar t \<and> bits t \<in> {1, 8, 16, 32, 64}
      then Some (UIntImm t (zext (bits t) v)) else None)"

definition FloatImm_make :: "float_ops \<Rightarrow> halide_type \<Rightarrow> float64 \<Rightarrow> expr option" where
  "FloatImm_make F t v =
     (if is_float t \<and> is_scalar t then
        if bits t = 16 \<or> bits t = 32 then Some (FloatImm t (fl_round F (code t) (bits t) v))
        else if bits t = 64 then Some (FloatImm t v)
        else None
      else None)"

definition Cast_make :: "halide_type \<Rightarrow> expr \<Rightarrow> expr option" where
  "Cast_make t v = (if lanes t = lanes (etype v) then Some (Cast t v) else None)"

definition Bin_make :: "bin_op \<Rightarrow> expr \<Rightarrow> expr \<Rightarrow> expr option" where
  "Bin_make op a b =
     (if (op = OpAnd \<or> op = OpOr) \<and> \<not> (is_bool (etype a) \<and> is_bool (etype b)) then None
      else if etype a = etype b then Some (Bin op a b) else None)"

definition Cmp_make :: "cmp_op \<Rightarrow> expr \<Rightarrow> expr \<Rightarrow> expr option" where
  "Cmp_make op a b = (if etype a = etype b then Some (Cmp op a b) else None)"

definition Not_make :: "expr \<Rightarrow> expr option" where
  "Not_make a = (if is_bool (etype a) then Some (NotE a) else None)"

definition Select_make :: "expr \<Rightarrow> expr \<Rightarrow> expr \<Rightarrow> expr option" where
  "Select_make c a b =
     (if is_bool (etype c) \<and> etype b = etype a \<and>
         (is_scalar (etype c) \<or> lanes (etype c) = lanes (etype a))
      then Some (Select c a b) else None)"

definition Load_make ::
  "halide_type \<Rightarrow> string \<Rightarrow> expr \<Rightarrow> bool \<Rightarrow> bool \<Rightarrow> expr \<Rightarrow> modulus_remainder \<Rightarrow> expr option" where
  "Load_make t n i im pa p al =
     (if lanes t = lanes (etype i) \<and> lanes t = lanes (etype p)
      then Some (Load t n p i im pa al) else None)"

definition Ramp_make :: "expr \<Rightarrow> expr \<Rightarrow> nat \<Rightarrow> expr option" where
  "Ramp_make a b n =
     (if is_scalar (etype a) \<and> is_scalar (etype b) \<and> n > 1 \<and> etype b = etype a
      then Some (Ramp a b n) else None)"

definition Broadcast_make :: "expr \<Rightarrow> nat \<Rightarrow> expr option" where
  "Broadcast_make v n = (if is_scalar (etype v) \<and> n \<noteq> 1 then Some (Broadcast v n) else None)"

definition Let_make :: "string \<Rightarrow> expr \<Rightarrow> expr \<Rightarrow> expr option" where
  "Let_make n v b = Some (LetE n v b)"

definition Variable_make :: "halide_type \<Rightarrow> string \<Rightarrow> expr option" where
  "Variable_make t n = (if n \<noteq> [] then Some (Variable t n) else None)"

definition Call_make :: "halide_type \<Rightarrow> string \<Rightarrow> expr list \<Rightarrow> call_type \<Rightarrow> int \<Rightarrow> bool \<Rightarrow> expr option" where
  "Call_make t n as ct vi image_or_param =
     (if n = ''prefetch'' \<and> ct = Intrinsic \<and> odd (length as) then None
      else if ct = Halide_Call \<and> \<not> list_all (\<lambda>a. etype a = IntT 32 1) as then None
      else if ct = Image \<and> (\<not> image_or_param \<or> \<not> list_all (\<lambda>a. etype a = IntT 32 1) as) then None
      else Some (Call t n as ct vi))"

definition Shuffle_make :: "expr list \<Rightarrow> nat list \<Rightarrow> expr option" where
  "Shuffle_make vs is =
     (if vs \<noteq> [] \<and> is \<noteq> [] \<and>
         list_all (\<lambda>v. element_of (etype v) = element_of (etype (hd vs))) vs \<and>
         list_all (\<lambda>i. i < sum_list (map (\<lambda>v. lanes (etype v)) vs)) is
      then Some (Shuffle vs is) else None)"

lemmas make_defs [halide_defs] =
  IntImm_make_def UIntImm_make_def FloatImm_make_def Cast_make_def Bin_make_def Cmp_make_def
  Not_make_def Select_make_def Load_make_def Ramp_make_def Broadcast_make_def Let_make_def
  Variable_make_def Call_make_def Shuffle_make_def

section \<open>Constants (IROperator.cpp)\<close>

definition is_intrinsic :: "string \<Rightarrow> call_type \<Rightarrow> string \<Rightarrow> bool" where
  "is_intrinsic n ct intrin_name \<longleftrightarrow> (ct = Intrinsic \<or> ct = PureIntrinsic) \<and> n = intrin_name"

fun is_const :: "expr \<Rightarrow> bool" where
  "is_const (IntImm t v) = True"
| "is_const (UIntImm t v) = True"
| "is_const (FloatImm t v) = True"
| "is_const (StringImm s) = True"
| "is_const (Cast t e) = is_const e"
| "is_const (Ramp a b n) = (is_const a \<and> is_const b)"
| "is_const (Broadcast e n) = is_const e"
| "is_const _ = False"

fun as_const_int :: "expr \<Rightarrow> int option" where
  "as_const_int (Broadcast e n) = as_const_int e"
| "as_const_int (IntImm t v) = Some v"
| "as_const_int _ = None"

fun as_const_uint :: "expr \<Rightarrow> int option" where
  "as_const_uint (Broadcast e n) = as_const_uint e"
| "as_const_uint (UIntImm t v) = Some v"
| "as_const_uint _ = None"

fun as_const_float :: "expr \<Rightarrow> float64 option" where
  "as_const_float (Broadcast e n) = as_const_float e"
| "as_const_float (FloatImm t v) = Some v"
| "as_const_float _ = None"

text \<open>\<open>is_zero\<close> and \<open>is_one\<close>: a literal under casts, broadcasts and mask intrinsics.\<close>

fun is_literal :: "float_ops \<Rightarrow> int \<Rightarrow> expr \<Rightarrow> bool" where
  "is_literal F k (IntImm t v) = (v = k)"
| "is_literal F k (UIntImm t v) = (v = k)"
| "is_literal F k (FloatImm t v) = fl_eq F v (fl_of_int F k)"
| "is_literal F k (Cast t e) = is_literal F k e"
| "is_literal F k (Broadcast e n) = is_literal F k e"
| "is_literal F k (Call t n as ct vi) =
     ((is_intrinsic n ct ''bool_to_mask'' \<or> is_intrinsic n ct ''cast_mask'') \<and>
      (case as of [] \<Rightarrow> False | a # _ \<Rightarrow> is_literal F k a))"
| "is_literal F k _ = False"

definition is_zero :: "float_ops \<Rightarrow> expr \<Rightarrow> bool" where
  "is_zero F e = is_literal F 0 e"

definition is_one :: "float_ops \<Rightarrow> expr \<Rightarrow> bool" where
  "is_one F e = is_literal F 1 e"

definition make_const :: "float_ops \<Rightarrow> halide_type \<Rightarrow> int \<Rightarrow> expr option" where
  "make_const F t v =
     (let scalar = (\<lambda>t. if is_int t then IntImm_make t v
                        else if is_uint t then UIntImm_make t v
                        else if is_float t then FloatImm_make F t (fl_of_int F v)
                        else None)
      in if is_vector t then do { e \<leftarrow> scalar (element_of t); Broadcast_make e (lanes t) }
         else scalar t)"

definition reinterpret_make :: "halide_type \<Rightarrow> expr \<Rightarrow> expr option" where
  "reinterpret_make t e =
     (if bits (etype e) * lanes (etype e) = bits t * lanes t
      then Call_make t ''reinterpret'' [e] PureIntrinsic 0 False else None)"

definition make_zero :: "float_ops \<Rightarrow> halide_type \<Rightarrow> expr option" where
  "make_zero F t =
     (if is_handle t then do { z \<leftarrow> make_const F (UIntT 64 1) 0; reinterpret_make t z }
      else make_const F t 0)"

definition make_one :: "float_ops \<Rightarrow> halide_type \<Rightarrow> expr option" where
  "make_one F t = make_const F t 1"

definition const_true :: "float_ops \<Rightarrow> nat \<Rightarrow> expr option" where
  "const_true F w = make_one F (UIntT 1 w)"

definition const_false :: "float_ops \<Rightarrow> nat \<Rightarrow> expr option" where
  "const_false F w = make_zero F (UIntT 1 w)"

text \<open>
  The special values carry a fresh number, taken from a counter that is static in the
  function that makes them, one for each kind: the counter is threaded through (\<open>k\<close> and
  its successor).
\<close>

definition make_indeterminate_expression :: "halide_type \<Rightarrow> nat \<Rightarrow> (expr \<times> nat) option" where
  "make_indeterminate_expression t k = do {
     i \<leftarrow> IntImm_make (IntT 32 1) (int k);
     e \<leftarrow> Call_make t ''indeterminate_expression'' [i] Intrinsic 0 False;
     Some (e, k + 1) }"

definition make_signed_integer_overflow :: "halide_type \<Rightarrow> nat \<Rightarrow> (expr \<times> nat) option" where
  "make_signed_integer_overflow t k = do {
     i \<leftarrow> IntImm_make (IntT 32 1) (int k);
     e \<leftarrow> Call_make t ''signed_integer_overflow'' [i] Intrinsic 0 False;
     Some (e, k + 1) }"

definition likely_make :: "string \<Rightarrow> expr \<Rightarrow> expr option" where
  "likely_make n e = Call_make (etype e) n [e] PureIntrinsic 0 False"

lemmas const_defs [halide_defs] =
  is_intrinsic_def is_zero_def is_one_def make_const_def reinterpret_make_def make_zero_def
  make_one_def const_true_def const_false_def make_indeterminate_expression_def
  make_signed_integer_overflow_def likely_make_def

definition make_const_float :: "float_ops \<Rightarrow> halide_type \<Rightarrow> float64 \<Rightarrow> expr option" where
  "make_const_float F t v =
     (let scalar = (\<lambda>t. if is_int t then IntImm_make t (fl_to_int F v)
                        else if is_uint t then UIntImm_make t (fl_to_int F v)
                        else if is_float t then FloatImm_make F t v
                        else None)
      in if is_vector t then do { e \<leftarrow> scalar (element_of t); Broadcast_make e (lanes t) }
         else scalar t)"

text \<open>The bounds of a type (Type.cpp): of a float, the IEEE pattern of an infinity.\<close>

definition infinity64 :: float64 where
  "infinity64 = 0x7FF0000000000000"

definition type_max :: "float_ops \<Rightarrow> halide_type \<Rightarrow> expr option" where
  "type_max F t =
     (let scalar = (\<lambda>t. if is_int t then IntImm_make t (max_int (bits t))
                        else if is_uint t then UIntImm_make t (max_uint (bits t))
                        else if is_float t then
                          (if bits t = 16 then FloatImm_make F t (fl_of_int F 65504)
                           else if bits t = 32 \<or> bits t = 64 then FloatImm_make F t infinity64 else None)
                        else None)
      in if is_vector t then do { e \<leftarrow> scalar (element_of t); Broadcast_make e (lanes t) }
         else scalar t)"

definition type_min :: "float_ops \<Rightarrow> halide_type \<Rightarrow> expr option" where
  "type_min F t =
     (let scalar = (\<lambda>t. if is_int t then IntImm_make t (min_int (bits t))
                        else if is_uint t then UIntImm_make t 0
                        else if is_float t then
                          (if bits t = 16 then FloatImm_make F t (fl_of_int F (- 65504))
                           else if bits t = 32 \<or> bits t = 64
                           then FloatImm_make F t (push_bit 63 1 OR infinity64) else None)
                        else None)
      in if is_vector t then do { e \<leftarrow> scalar (element_of t); Broadcast_make e (lanes t) }
         else scalar t)"

text \<open>\<open>cast(Type, Expr)\<close> of \<open>IROperator.h\<close>: constants are converted at once.\<close>

definition cast_const :: "float_ops \<Rightarrow> halide_type \<Rightarrow> expr \<Rightarrow> expr option option" where
  "cast_const F t a =
     (case as_const_int a of Some i \<Rightarrow> Some (make_const F t i)
      | None \<Rightarrow> (case as_const_uint a of Some u \<Rightarrow> Some (make_const F t u)
      | None \<Rightarrow> (case as_const_float a of Some f \<Rightarrow> Some (make_const_float F t f)
      | None \<Rightarrow> None)))"

definition cast_scalar :: "float_ops \<Rightarrow> halide_type \<Rightarrow> expr \<Rightarrow> expr option" where
  "cast_scalar F t a =
     (if etype a = t then Some a
      else if is_handle t \<noteq> is_handle (etype a) then None
      else case cast_const F t a of Some r \<Rightarrow> r | None \<Rightarrow> Cast_make t a)"

definition cast_e :: "float_ops \<Rightarrow> halide_type \<Rightarrow> expr \<Rightarrow> expr option" where
  "cast_e F t a =
     (if etype a = t then Some a
      else if is_handle t \<noteq> is_handle (etype a) then None
      else case cast_const F t a of Some r \<Rightarrow> r | None \<Rightarrow>
        if is_vector t \<and> is_scalar (etype a) then do {
          e \<leftarrow> cast_scalar F (element_of t) a; Broadcast_make e (lanes t) }
        else if is_vector t then
          (case a of Broadcast v n \<Rightarrow>
             if n = lanes t then do {
               e \<leftarrow> cast_scalar F (element_of t) v; Broadcast_make e (lanes t) } else None
           | _ \<Rightarrow> Cast_make t a)
        else Cast_make t a)"

section \<open>Structural equality (IRMatch.cpp)\<close>

definition same_head :: "expr \<Rightarrow> expr \<Rightarrow> bool" where
  "same_head a b \<longleftrightarrow> etype a = etype b \<and> node_type a = node_type b"

fun equal_helper :: "float_ops \<Rightarrow> expr \<Rightarrow> expr \<Rightarrow> bool"
and equal_args :: "float_ops \<Rightarrow> expr list \<Rightarrow> expr list \<Rightarrow> bool" where
  "equal_helper F (IntImm t v) e = (case e of IntImm t' v' \<Rightarrow> v = v' | _ \<Rightarrow> False)"
| "equal_helper F (UIntImm t v) e = (case e of UIntImm t' v' \<Rightarrow> v = v' | _ \<Rightarrow> False)"
| "equal_helper F (FloatImm t v) e = (case e of FloatImm t' v' \<Rightarrow> fl_eq F v v' | _ \<Rightarrow> False)"
| "equal_helper F (StringImm s) e = (case e of StringImm s' \<Rightarrow> s = s' | _ \<Rightarrow> False)"
| "equal_helper F (Broadcast a n) e =
     (case e of Broadcast a' n' \<Rightarrow> same_head a a' \<and> equal_helper F a a' | _ \<Rightarrow> False)"
| "equal_helper F (Cast t a) e =
     (case e of Cast t' a' \<Rightarrow> same_head a a' \<and> equal_helper F a a' | _ \<Rightarrow> False)"
| "equal_helper F (Variable t n) e = (case e of Variable t' n' \<Rightarrow> n = n' | _ \<Rightarrow> False)"
| "equal_helper F (Bin op a b) e =
     (case e of Bin op' a' b' \<Rightarrow> (same_head a a' \<and> equal_helper F a a') \<and>
                                  (same_head b b' \<and> equal_helper F b b') | _ \<Rightarrow> False)"
| "equal_helper F (Cmp op a b) e =
     (case e of Cmp op' a' b' \<Rightarrow> (same_head a a' \<and> equal_helper F a a') \<and>
                                  (same_head b b' \<and> equal_helper F b b') | _ \<Rightarrow> False)"
| "equal_helper F (NotE a) e =
     (case e of NotE a' \<Rightarrow> same_head a a' \<and> equal_helper F a a' | _ \<Rightarrow> False)"
| "equal_helper F (Select c a b) e =
     (case e of Select c' a' b' \<Rightarrow> (same_head c c' \<and> equal_helper F c c') \<and>
                                    (same_head a a' \<and> equal_helper F a a') \<and>
                                    (same_head b b' \<and> equal_helper F b b') | _ \<Rightarrow> False)"
| "equal_helper F (Load t n p i im pa al) e =
     (case e of Load t' n' p' i' im' pa' al' \<Rightarrow> n = n' \<and> same_head i i' \<and> equal_helper F i i' | _ \<Rightarrow> False)"
| "equal_helper F (Ramp a b n) e =
     (case e of Ramp a' b' n' \<Rightarrow> (same_head a a' \<and> equal_helper F a a') \<and>
                                  (same_head b b' \<and> equal_helper F b b') | _ \<Rightarrow> False)"
| "equal_helper F (Call t n as ct vi) e =
     (case e of Call t' n' as' ct' vi' \<Rightarrow> n = n' \<and> ct = ct' \<and> vi = vi' \<and> equal_args F as as' | _ \<Rightarrow> False)"
| "equal_helper F (LetE n v b) e =
     (case e of LetE n' v' b' \<Rightarrow> n = n' \<and> (same_head v v' \<and> equal_helper F v v') \<and>
                                 (same_head b b' \<and> equal_helper F b b') | _ \<Rightarrow> False)"
| "equal_helper F (Shuffle vs is) e =
     (case e of Shuffle vs' is' \<Rightarrow> equal_args F vs vs' \<and> is = is' | _ \<Rightarrow> False)"
| "equal_args F [] es = (es = [])"
| "equal_args F (a # as) es =
     (case es of [] \<Rightarrow> False | a' # as' \<Rightarrow> (same_head a a' \<and> equal_helper F a a') \<and> equal_args F as as')"

definition equal :: "float_ops \<Rightarrow> expr \<Rightarrow> expr \<Rightarrow> bool" where
  "equal F a b \<longleftrightarrow> same_head a b \<and> equal_helper F a b"

end
