(* ===== verification/Semantics.thy ===== *)
theory Semantics
  imports IR
begin

text \<open>
  The meaning of expressions, lane by lane, that the theorems about the simplifier
  refer to. An unsigned or narrow signed type wraps; a signed type of 32 bits or more
  has no overflow behaviour (\<open>no_overflow_int\<close>): its values are the mathematical
  integers. Division and remainder are Euclidean, and undefined at a zero divisor;
  all operators are strict. A variable has a meaning at a type to which its value
  belongs. Floating-point values, strings and handles have no
  meaning here, so that a theorem says nothing of an expression that computes them.
\<close>

section \<open>Wrapping\<close>

definition no_overflow_int :: "halide_type \<Rightarrow> bool" where
  "no_overflow_int t \<longleftrightarrow> is_int t \<and> bits t \<ge> 32"

definition no_overflow_scalar_int :: "halide_type \<Rightarrow> bool" where
  "no_overflow_scalar_int t \<longleftrightarrow> is_scalar t \<and> no_overflow_int t"

definition no_overflow :: "halide_type \<Rightarrow> bool" where
  "no_overflow t \<longleftrightarrow> is_float t \<or> no_overflow_int t"

definition wrap_ty :: "type_code \<Rightarrow> nat \<Rightarrow> int \<Rightarrow> int" where
  "wrap_ty c b v =
     (case c of
        Halide_Int \<Rightarrow> if 32 \<le> b then v else signed_take_bit (b - 1) v
      | Halide_UInt \<Rightarrow> take_bit b v
      | _ \<Rightarrow> v)"

definition norm :: "halide_type \<Rightarrow> int \<Rightarrow> int" where
  "norm t v = wrap_ty (code t) (bits t) v"

text \<open>A conversion between integer types; one that widens a signed value keeps it.\<close>

definition cast_val :: "halide_type \<Rightarrow> halide_type \<Rightarrow> int \<Rightarrow> int" where
  "cast_val from to v =
     (if is_int to \<and> is_int from \<and> bits from \<le> bits to then v
      else if is_int to then signed_take_bit (bits to - 1) v
      else if is_uint to then take_bit (bits to) v else v)"

section \<open>Evaluation\<close>

record eval_env =
  vars :: "string \<Rightarrow> nat \<Rightarrow> int option"
  mem :: "string \<Rightarrow> int \<Rightarrow> int option"
  fns :: "string \<Rightarrow> call_type \<Rightarrow> int \<Rightarrow> int list \<Rightarrow> int option"

fun bin_val :: "bin_op \<Rightarrow> (int \<Rightarrow> int) \<Rightarrow> int \<Rightarrow> int \<Rightarrow> int option" where
  "bin_val OpAdd N a b = Some (N (a + b))"
| "bin_val OpSub N a b = Some (N (a - b))"
| "bin_val OpMul N a b = Some (N (a * b))"
| "bin_val OpDiv N a b = (if b = 0 then None else Some (N (ediv a b)))"
| "bin_val OpMod N a b = (if b = 0 then None else Some (emod a b))"
| "bin_val OpMin N a b = Some (min a b)"
| "bin_val OpMax N a b = Some (max a b)"
| "bin_val OpAnd N a b = Some (if a \<noteq> 0 \<and> b \<noteq> 0 then 1 else 0)"
| "bin_val OpOr N a b = Some (if a \<noteq> 0 \<or> b \<noteq> 0 then 1 else 0)"

fun cmp_holds :: "cmp_op \<Rightarrow> int \<Rightarrow> int \<Rightarrow> bool" where
  "cmp_holds OpEQ a b \<longleftrightarrow> a = b"
| "cmp_holds OpNE a b \<longleftrightarrow> a \<noteq> b"
| "cmp_holds OpLT a b \<longleftrightarrow> a < b"
| "cmp_holds OpLE a b \<longleftrightarrow> a \<le> b"
| "cmp_holds OpGT a b \<longleftrightarrow> a > b"
| "cmp_holds OpGE a b \<longleftrightarrow> a \<ge> b"

definition cmp_val :: "cmp_op \<Rightarrow> int \<Rightarrow> int \<Rightarrow> int" where
  "cmp_val op a b = of_bool (cmp_holds op a b)"

definition is_special :: "string \<Rightarrow> call_type \<Rightarrow> bool" where
  "is_special n ct \<longleftrightarrow> is_intrinsic n ct ''signed_integer_overflow'' \<or>
                      is_intrinsic n ct ''indeterminate_expression''"

definition is_likely :: "string \<Rightarrow> call_type \<Rightarrow> bool" where
  "is_likely n ct \<longleftrightarrow> is_intrinsic n ct ''likely'' \<or> is_intrinsic n ct ''likely_if_innermost''"

definition call_val ::
  "(string \<Rightarrow> call_type \<Rightarrow> int \<Rightarrow> int list \<Rightarrow> int option) \<Rightarrow> halide_type \<Rightarrow> string \<Rightarrow> call_type \<Rightarrow>
   int \<Rightarrow> int list \<Rightarrow> int option" where
  "call_val fs t n ct vi xs =
     (if is_special n ct then None
      else if is_likely n ct then (case xs of [x] \<Rightarrow> Some x | _ \<Rightarrow> None)
      else if is_intrinsic n ct ''bool_to_mask'' then
        (case xs of [x] \<Rightarrow> Some (norm t (if x = 0 then 0 else - 1)) | _ \<Rightarrow> None)
      else if is_intrinsic n ct ''cast_mask'' then
        (case xs of [x] \<Rightarrow> Some (norm t x) | _ \<Rightarrow> None)
      else map_option (norm t) (fs n ct vi xs))"

text \<open>Which vector, and which of its lanes, an index into a concatenation selects.\<close>

fun find_lane :: "nat list \<Rightarrow> nat \<Rightarrow> nat \<times> nat" where
  "find_lane [] i = (0, i)"
| "find_lane (n # ns) i =
     (if i < n then (0, i) else case find_lane ns (i - n) of (k, j) \<Rightarrow> (k + 1, j))"

definition is_num :: "halide_type \<Rightarrow> bool" where
  "is_num t \<longleftrightarrow> is_int t \<or> is_uint t"

definition lane_in :: "halide_type \<Rightarrow> nat \<Rightarrow> nat" where
  "lane_in t l = (if lanes t = 1 then 0 else l)"

fun eval :: "eval_env \<Rightarrow> expr \<Rightarrow> nat \<Rightarrow> int option" where
  "eval env (IntImm t v) l = Some v"
| "eval env (UIntImm t v) l = Some v"
| "eval env (FloatImm t v) l = None"
| "eval env (StringImm s) l = None"
| "eval env (Broadcast e n) l = eval env e l"
| "eval env (Cast t e) l =
     (if is_num t then map_option (cast_val (etype e) t) (eval env e l) else None)"
| "eval env (Variable t n) l = do {
     v \<leftarrow> vars env n (lane_in t l); if is_num t \<and> norm t v = v then Some v else None }"
| "eval env (Bin op a b) l = do {
     x \<leftarrow> eval env a l; y \<leftarrow> eval env b l; bin_val op (norm (etype a)) x y }"
| "eval env (Cmp op a b) l = do {
     x \<leftarrow> eval env a l; y \<leftarrow> eval env b l; Some (cmp_val op x y) }"
| "eval env (NotE a) l = do { x \<leftarrow> eval env a l; Some (if x = 0 then 1 else 0) }"
| "eval env (Select c a b) l = do {
     p \<leftarrow> eval env c l; x \<leftarrow> eval env a l; y \<leftarrow> eval env b l;
     Some (if p \<noteq> 0 then x else y) }"
| "eval env (Load t n p i im pa al) l = do {
     q \<leftarrow> eval env p l; x \<leftarrow> eval env i l;
     if q \<noteq> 0 \<and> is_num t then map_option (norm t) (mem env n x) else None }"
| "eval env (Ramp a b n) l = do {
     x \<leftarrow> eval env a l; y \<leftarrow> eval env b l; Some (norm (etype a) (x + int l * y)) }"
| "eval env (Call t n as ct vi) l =
     (if is_num t then
        case those (map (\<lambda>a. eval env a (if is_likely n ct then l else lane_in t l)) as) of
          None \<Rightarrow> None
        | Some xs \<Rightarrow> call_val (fns env) t n ct vi xs
      else None)"
| "eval env (LetE n v b) l = eval (env\<lparr>vars := (vars env)(n := (\<lambda>l. eval env v l))\<rparr>) b l"
| "eval env (Shuffle vs is) l =
     (let l = (if length is = 1 then 0 else l) in
      if l < length is then
        case find_lane (map (\<lambda>v. lanes (etype v)) vs) (is ! l) of
          (k, j) \<Rightarrow> if k < length vs then map (\<lambda>v. eval env v j) vs ! k else None
      else None)"

section \<open>Well-formed expressions\<close>

text \<open>What the \<open>make\<close> functions assert, at every node, and literals within their width.\<close>

fun wf :: "expr \<Rightarrow> bool" where
  "wf (IntImm t v) = (legal_type t \<and> is_int t \<and> is_scalar t \<and> fits (bits t) v)"
| "wf (UIntImm t v) = (legal_type t \<and> is_uint t \<and> is_scalar t \<and> 0 \<le> v \<and> v < 2 ^ bits t)"
| "wf (FloatImm t v) = (legal_type t \<and> is_float t \<and> is_scalar t)"
| "wf (StringImm s) = True"
| "wf (Broadcast e n) = (wf e \<and> is_scalar (etype e) \<and> 1 < n \<and> n < 2 ^ 14)"
| "wf (Cast t e) = (legal_type t \<and> wf e \<and> lanes t = lanes (etype e))"
| "wf (Variable t n) = legal_type t"
| "wf (Bin op a b) = (wf a \<and> wf b \<and> etype a = etype b \<and>
                      (op = OpAnd \<or> op = OpOr \<longrightarrow> is_bool (etype a)))"
| "wf (Cmp op a b) = (wf a \<and> wf b \<and> etype a = etype b)"
| "wf (NotE a) = (wf a \<and> is_bool (etype a))"
| "wf (Select c a b) = (wf c \<and> wf a \<and> wf b \<and> is_bool (etype c) \<and> etype b = etype a \<and>
                        (is_scalar (etype c) \<or> lanes (etype c) = lanes (etype a)))"
| "wf (Load t n p i im pa al) = (legal_type t \<and> wf p \<and> wf i \<and> lanes t = lanes (etype i) \<and>
                                 lanes t = lanes (etype p))"
| "wf (Ramp a b n) = (wf a \<and> wf b \<and> is_scalar (etype a) \<and> etype b = etype a \<and> 1 < n \<and> n < 2 ^ 14)"
| "wf (Call t n as ct vi) = (legal_type t \<and> list_all wf as \<and>
     (is_likely n ct \<longrightarrow> (\<exists>a. as = [a] \<and> etype a = t)) \<and>
     (is_intrinsic n ct ''bool_to_mask'' \<or> is_intrinsic n ct ''cast_mask'' \<longrightarrow> is_int t \<and> length as = 1))"
| "wf (LetE n v b) = (wf v \<and> wf b)"
| "wf (Shuffle vs is) = (vs \<noteq> [] \<and> is \<noteq> [] \<and> length is < 2 ^ 14 \<and> list_all wf vs \<and>
     list_all (\<lambda>v. element_of (etype v) = element_of (etype (hd vs))) vs \<and>
     list_all (\<lambda>i. i < sum_list (map (\<lambda>v. lanes (etype v)) vs)) is)"

end
