(* ===== verification/SemanticsFacts.thy ===== *)
theory SemanticsFacts
  imports Semantics
begin

text \<open>
  Facts about the meaning of expressions: wrapping is compatible with the ring
  operations, every value is in the range of its type, structural equality implies
  equal values, and what the constant constructors and tests denote.
\<close>

section \<open>Shifts as wrapping\<close>

lemma sext_eq: "0 < b \<Longrightarrow> b \<le> 64 \<Longrightarrow> sext b v = signed_take_bit (b - 1) v"
  unfolding sext_def wrap64_def
  by (rule bit_eqI) (auto simp: bit_simps min_def intro!: arg_cong [where f = "bit v"])

lemma zext_eq: "b \<le> 64 \<Longrightarrow> zext b v = take_bit b v"
  unfolding zext_def by (rule bit_eqI) (auto simp: bit_simps)

lemma fits_signed_take_bit: "0 < b \<Longrightarrow> fits b (signed_take_bit (b - 1) v)"
  using signed_take_bit_int_greater_eq_minus_exp [of "b - 1" v]
    signed_take_bit_int_less_exp [of "b - 1" v]
  by (simp add: fits_def)

lemma fits_signed_take_bit_id: "fits b v \<Longrightarrow> signed_take_bit (b - 1) v = v"
  by (auto simp: fits_def intro: signed_take_bit_int_eq_self)

section \<open>The wrapping function\<close>

text \<open>
  Wrapping maps every integer to a representative of its class modulo \<open>m\<close>; \<open>m = 0\<close> is
  the identity of the types without overflow behaviour.
\<close>

locale wrapping =
  fixes m :: int and N :: "int \<Rightarrow> int"
  assumes N_cong: "m dvd N v - v"
    and N_eq: "m dvd v - w \<Longrightarrow> N v = N w"
begin

lemma eq_iff: "N v = N w \<longleftrightarrow> m dvd v - w"
proof
  assume e: "N v = N w"
  have "v - w = (N w - w) - (N v - v)" using e by simp
  then show "m dvd v - w"
    using dvd_diff [OF N_cong [of w] N_cong [of v]] by (simp only:)
qed (rule N_eq)

lemma idem [simp]: "N (N v) = N v"
  by (rule N_eq) (rule N_cong)

lemma add_left [simp]: "N (N v + w) = N (v + w)" and add_right [simp]: "N (v + N w) = N (v + w)"
  using N_cong [of v] N_cong [of w] by (auto intro!: N_eq simp: algebra_simps)

lemma sub_left [simp]: "N (N v - w) = N (v - w)" and sub_right [simp]: "N (v - N w) = N (v - w)"
  using N_cong [of v] N_cong [of w] by (auto intro!: N_eq simp: algebra_simps dvd_diff_commute)

lemma mult_left [simp]: "N (N v * w) = N (v * w)" and mult_right [simp]: "N (v * N w) = N (v * w)"
  using N_cong [of v] N_cong [of w]
  by (auto intro!: N_eq simp flip: left_diff_distrib right_diff_distrib)

lemma neg [simp]: "N (- N v) = N (- v)"
  using sub_right [of 0 v] by simp

lemma cancel_add: "N (v + k) = N (w + k) \<longleftrightarrow> N v = N w"
  by (simp add: eq_iff)

lemma cancel_neg: "N (- v) = N (- w) \<longleftrightarrow> N v = N w"
  by (simp add: eq_iff dvd_diff_commute)

end

definition ty_modulus :: "halide_type \<Rightarrow> int" where
  "ty_modulus t =
     (if is_int t \<and> bits t < 32 then 2 ^ Suc (bits t - 1)
      else if is_uint t then 2 ^ bits t else 0)"

lemma signed_take_bit_cong_iff:
  "signed_take_bit b v = signed_take_bit b w \<longleftrightarrow> (2::int) ^ Suc b dvd v - w"
  using signed_take_bit_eq_iff_take_bit_eq [of b v w] by (simp add: take_bit_eq_mod mod_eq_dvd_iff)

lemma take_bit_cong_iff: "take_bit b v = take_bit b w \<longleftrightarrow> (2::int) ^ b dvd v - w"
  by (simp add: take_bit_eq_mod mod_eq_dvd_iff)

interpretation norm: wrapping "ty_modulus t" "norm t" for t
proof
  fix v w :: int
  have *: "ty_modulus t dvd v - w \<longleftrightarrow> norm t v = norm t w" for v w
    using signed_take_bit_cong_iff [of "bits t - 1" v w] take_bit_cong_iff [of "bits t" v w]
    by (auto simp: ty_modulus_def norm_def wrap_ty_def is_int_def is_uint_def split: type_code.splits)
  show "ty_modulus t dvd norm t v - v"
    unfolding * by (simp add: norm_def wrap_ty_def split: type_code.splits)
  show "norm t v = norm t w" if "ty_modulus t dvd v - w"
    using that by (simp only: *)
qed

section \<open>Types of well-formed expressions\<close>

lemma take_bit_16_lanes: "l < 2 ^ 14 \<Longrightarrow> take_bit 16 l = (l::nat)"
  by (rule take_bit_nat_eq_self) simp

lemma legal_BoolT: "0 < l \<Longrightarrow> l < 2 ^ 14 \<Longrightarrow> legal_type (BoolT l)"
  by (simp add: legal_type_def BoolT_def UIntT_def mk_type_def take_bit_16_lanes)

lemma BoolT_sel: "code (BoolT l) = Halide_UInt" "bits (BoolT l) = 1" "lanes (BoolT l) = take_bit 16 l"
  by (simp_all add: BoolT_def UIntT_def mk_type_def)

lemma legal_lanes: "legal_type t \<Longrightarrow> 0 < lanes t \<and> lanes t < 2 ^ 14"
  by (simp add: legal_type_def)

lemma wf_legal: "wf e \<Longrightarrow> legal_type (etype e)"
proof (induction e)
  case (StringImm s)
  show ?case by (simp add: HandleT_def mk_type_def legal_type_def)
next
  case (Broadcast e n)
  then show ?case using legal_with_lanes [of "etype e" n] by simp
next
  case (Ramp a b n)
  then show ?case using legal_with_lanes [of "etype a" n] by simp
next
  case (Cmp op a b)
  then show ?case using legal_BoolT legal_lanes by simp
next
  case (NotE a)
  then show ?case using legal_BoolT legal_lanes by simp
next
  case (Shuffle vs "is")
  then obtain v vs' where v: "vs = v # vs'" "legal_type (etype v)" by (cases vs) auto
  then have "legal_type (element_of (etype v))"
    using legal_with_lanes [of "etype v" 1] by (simp add: element_of_def)
  then show ?case
    using legal_with_lanes [of "element_of (etype v)" "length is"] v Shuffle.prems by simp
qed auto

lemma norm_with_lanes: "legal_type t \<Longrightarrow> 0 < n \<Longrightarrow> n < 2 ^ 14 \<Longrightarrow> norm (with_lanes n t) = norm t"
  by (simp add: norm_def fun_eq_iff with_lanes_sel)

lemma norm_element_of: "legal_type t \<Longrightarrow> norm (element_of t) = norm t"
  by (simp add: element_of_def norm_with_lanes)

section \<open>Values are in range\<close>

lemma norm_int_fits: "legal_type t \<Longrightarrow> is_int t \<Longrightarrow> fits (bits t) v \<Longrightarrow> norm t v = v"
  using fits_signed_take_bit_id [of "bits t" v] by (simp add: norm_def wrap_ty_def is_int_def)

lemma norm_fixed_iff:
  assumes "legal_type t"
  shows "norm t v = v \<longleftrightarrow>
    (is_int t \<and> bits t < 32 \<longrightarrow> fits (bits t) v) \<and> (is_uint t \<longrightarrow> 0 \<le> v \<and> v < 2 ^ bits t)"
proof -
  have "fits (bits t) (signed_take_bit (bits t - 1) v)"
    using legal_bits [OF assms] fits_signed_take_bit by blast
  then have i: "signed_take_bit (bits t - 1) v = v \<longleftrightarrow> fits (bits t) v"
    using fits_signed_take_bit_id by metis
  have u: "take_bit (bits t) v = v \<longleftrightarrow> 0 \<le> v \<and> v < 2 ^ bits t"
    by (metis take_bit_int_eq_self_iff)
  show ?thesis
    using i u by (auto simp: norm_def wrap_ty_def is_int_def is_uint_def split: type_code.splits)
qed

lemma norm_01: "legal_type t \<Longrightarrow> is_bool t \<Longrightarrow> v = 0 \<or> v = 1 \<Longrightarrow> norm t v = v"
  by (auto simp: norm_fixed_iff is_bool_def is_int_def is_uint_def)

lemma norm_bool_01: "is_bool t \<Longrightarrow> norm t v = v \<Longrightarrow> v = 0 \<or> v = 1"
  by (auto simp: norm_def wrap_ty_def is_bool_def take_bit_eq_mod)

lemma emod_range:
  assumes "legal_type t" "norm t x = x" "norm t y = y" "y \<noteq> 0"
  shows "norm t (emod x y) = emod x y"
  using emod_bounds [OF assms(4), of x] assms(2,3)
  unfolding norm_fixed_iff [OF assms(1)]
  by (auto simp: fits_def abs_if simp del: emod_pos emod_neg split: if_splits)

lemma bin_val_range:
  assumes "bin_val op (norm t) x y = Some v" "legal_type t" "norm t x = x" "norm t y = y"
    and "op = OpAnd \<or> op = OpOr \<longrightarrow> is_bool t"
  shows "norm t v = v"
  using assms emod_range [OF assms(2-4)] norm_01 [OF assms(2)]
  by (cases op) (auto simp: min_def max_def split: if_splits)

lemma cast_val_range:
  assumes "is_num to" "legal_type to" "legal_type from" "norm from v = v" "is_num from"
  shows "norm to (cast_val from to v) = cast_val from to v"
proof (cases "is_int to \<and> is_int from \<and> bits from \<le> bits to")
  case True
  have "fits (bits to) v" if "fits (bits from) v"
  proof -
    have "(2::int) ^ (bits from - 1) \<le> 2 ^ (bits to - 1)"
      using True by (intro power_increasing) auto
    then show ?thesis using that unfolding fits_def by linarith
  qed
  then show ?thesis
    using True assms by (auto simp: cast_val_def norm_fixed_iff is_int_def is_uint_def)
next
  case False
  then show ?thesis
    using assms(1) by (auto simp: cast_val_def norm_def wrap_ty_def is_num_def is_int_def is_uint_def)
qed

lemma those_SomeD: "those xs = Some ys \<Longrightarrow> xs = map Some ys"
  by (induction xs arbitrary: ys) (auto split: option.splits)

lemma those_map_iff: "those (map f as) = Some ys \<longleftrightarrow> list_all2 (\<lambda>a y. f a = Some y) as ys"
  by (induction as arbitrary: ys)
    (auto simp: list_all2_Cons1 split: option.splits)

lemma is_num_cong: "code t = code t' \<Longrightarrow> is_num t \<longleftrightarrow> is_num t'"
  by (simp add: is_num_def is_int_def is_uint_def)

lemma norm_cong: "code t = code t' \<Longrightarrow> bits t = bits t' \<Longrightarrow> norm t = norm t'"
  by (simp add: norm_def fun_eq_iff)

lemma element_of_sel:
  "legal_type t \<Longrightarrow> code (element_of t) = code t" "legal_type t \<Longrightarrow> bits (element_of t) = bits t"
  "lanes (element_of t) = 1"
  by (simp_all add: element_of_def with_lanes_sel)

lemma bool_num: "is_bool t \<Longrightarrow> is_num t"
  by (simp add: is_bool_def is_num_def is_uint_def)

lemma BoolT_num [simp]: "is_num (BoolT n)" and BoolT_bool [simp]: "is_bool (BoolT n)"
  by (simp_all add: BoolT_sel is_num_def is_int_def is_uint_def is_bool_def)

lemma BoolT_range: "v = 0 \<or> v = 1 \<Longrightarrow> norm (BoolT n) v = v"
  by (auto simp: BoolT_sel norm_def wrap_ty_def)

lemma call_val_range:
  assumes "call_val fs t n ct vi xs = Some v"
  shows "norm t v = v \<or> (is_likely n ct \<and> xs = [v])"
  using assms by (auto simp: call_val_def split: if_splits list.splits)

definition ranged :: "halide_type \<Rightarrow> int \<Rightarrow> bool" where
  "ranged t v \<longleftrightarrow> is_num t \<and> norm t v = v"

lemma ranged_cong: "code t = code t' \<Longrightarrow> bits t = bits t' \<Longrightarrow> ranged t v \<longleftrightarrow> ranged t' v"
  unfolding ranged_def using is_num_cong norm_cong by metis

theorem eval_range: "wf e \<Longrightarrow> eval env e l = Some v \<Longrightarrow> ranged (etype e) v"
proof (induction e arbitrary: env l v)
  case (IntImm t c)
  then show ?case using norm_int_fits by (auto simp: ranged_def is_num_def)
next
  case (UIntImm t c)
  then show ?case by (auto simp: ranged_def is_num_def norm_fixed_iff is_int_def is_uint_def)
next
  case (Broadcast e n)
  then show ?case
    using ranged_cong [of "with_lanes n (etype e)" "etype e"] by (auto simp: with_lanes_sel wf_legal)
next
  case (Cast t e)
  then obtain x where "is_num t" "eval env e l = Some x" "v = cast_val (etype e) t x"
    by (auto split: if_splits)
  then show ?case
    using Cast cast_val_range [of t "etype e" x] by (auto simp: ranged_def wf_legal)
next
  case (Variable t n)
  then show ?case by (auto simp: ranged_def bind_eq_Some_conv split: if_splits)
next
  case (Bin op a b)
  then obtain x y where "eval env a l = Some x" "eval env b l = Some y"
    "bin_val op (norm (etype a)) x y = Some v"
    by (auto simp: bind_eq_Some_conv)
  then show ?case
    using Bin bin_val_range [of op "etype a" x y v] by (auto simp: ranged_def wf_legal)
next
  case (Cmp op a b)
  then show ?case by (auto simp: bind_eq_Some_conv cmp_val_def ranged_def BoolT_range)
next
  case (NotE a)
  then show ?case by (auto simp: bind_eq_Some_conv ranged_def BoolT_range)
next
  case (Select c a b)
  then show ?case by (auto simp: bind_eq_Some_conv)
next
  case (Load t n p i im pa al)
  then show ?case by (auto simp: bind_eq_Some_conv ranged_def split: if_splits)
next
  case (Ramp a b n)
  then have w: "wf a" and ev: "\<exists>x. eval env a l = Some x" "\<exists>x. v = norm (etype a) x"
    by (auto simp: bind_eq_Some_conv)
  then have "ranged (etype a) v"
    using Ramp.IH(1) [OF w] by (auto simp: ranged_def)
  then show ?case
    using ranged_cong [of "with_lanes n (etype a)" "etype a"] w by (auto simp: with_lanes_sel wf_legal)
next
  case (Call t n as ct vi)
  then obtain xs where t: "is_num t" and xs: "list_all2 (\<lambda>a y. eval env a (if is_likely n ct then l else lane_in t l) = Some y) as xs"
    and cv: "call_val (fns env) t n ct vi xs = Some v"
    by (auto simp: those_map_iff split: if_splits option.splits)
  from call_val_range [OF cv] show ?case
  proof
    assume "norm t v = v"
    then show ?thesis using t by (simp add: ranged_def)
  next
    assume l: "is_likely n ct \<and> xs = [v]"
    then obtain a where "as = [a]" "etype a = t" "wf a"
      using Call.prems(1) by auto
    then show ?thesis
      using Call.IH [of a env l v] xs l by simp
  qed
next
  case (LetE n e b)
  then show ?case by auto
next
  case (Shuffle vs "is")
  obtain k j where k: "k < length vs" "eval env (vs ! k) j = Some v"
    using Shuffle.prems(2) by (auto simp: Let_def split: if_splits prod.splits)
  have all: "\<forall>i < length vs. wf (vs ! i) \<and> element_of (etype (vs ! i)) = element_of (etype (hd vs))"
    using Shuffle.prems(1) by (simp add: list_all_length)
  have "vs \<noteq> []" using k(1) by auto
  then have e: "element_of (etype (vs ! k)) = element_of (etype (hd vs))" "wf (vs ! k)" "wf (hd vs)"
    using all k(1) hd_conv_nth [of vs] by (blast, blast, fastforce)
  have "ranged (etype (vs ! k)) v"
    using Shuffle.IH [of "vs ! k"] k e by simp
  moreover have "code (element_of (etype (hd vs))) = code (etype (vs ! k))"
    "bits (element_of (etype (hd vs))) = bits (etype (vs ! k))"
    using e by (metis element_of_sel wf_legal)+
  ultimately have "ranged (element_of (etype (hd vs))) v"
    using ranged_cong by blast
  moreover have "etype (Shuffle vs is) = with_lanes (length is) (element_of (etype (hd vs)))"
    using Shuffle.prems(1) by (cases vs) auto
  moreover have "legal_type (element_of (etype (hd vs)))"
    using e legal_with_lanes [of "etype (hd vs)" 1] by (simp add: element_of_def wf_legal)
  ultimately show ?case
    using ranged_cong [of "with_lanes (length is) (element_of (etype (hd vs)))" "element_of (etype (hd vs))"]
    by (simp add: with_lanes_sel del: etype.simps)
qed auto

lemma bool_value: "wf e \<Longrightarrow> is_bool (etype e) \<Longrightarrow> eval env e l = Some v \<Longrightarrow> v = 0 \<or> v = 1"
  using eval_range [of e env l v] norm_bool_01 by (auto simp: ranged_def)

section \<open>Equality\<close>

text \<open>
  The matcher's equality ignores the predicate of a load: two loads that it equates
  have the same value where both have one.
\<close>

definition agree :: "eval_env \<Rightarrow> eval_env \<Rightarrow> bool" where
  "agree E E' \<longleftrightarrow> mem E = mem E' \<and> fns E = fns E' \<and>
     (\<forall>n l v w. vars E n l = Some v \<longrightarrow> vars E' n l = Some w \<longrightarrow> v = w)"

lemma agree_refl: "agree E E"
  by (simp add: agree_def)

lemma same_head_bin: "same_head (Bin op a b) (Bin op' a' b') \<Longrightarrow> op = op'"
  by (auto simp: same_head_def split: bin_op.splits)

lemma same_head_cmp: "same_head (Cmp op a b) (Cmp op' a' b') \<Longrightarrow> op = op'"
  by (auto simp: same_head_def split: cmp_op.splits)

lemma equal_args_length: "equal_args F as bs \<Longrightarrow> length as = length bs"
  by (induction as arbitrary: bs) (auto split: list.splits)

lemma equal_args_iff:
  "equal_args F as bs \<longleftrightarrow> list_all2 (\<lambda>a b. same_head a b \<and> equal_helper F a b) as bs"
  by (induction as arbitrary: bs) (auto split: list.splits simp: list_all2_Cons1)

lemma list_all2_agree:
  assumes "list_all2 (\<lambda>a b. same_head a b \<and> equal_helper F a b) as bs"
    and "list_all2 (\<lambda>a y. eval E a l = Some y) as xs"
    and "list_all2 (\<lambda>a y. eval E' a l = Some y) bs ys"
    and "\<And>a b v w. a \<in> set as \<Longrightarrow> same_head a b \<Longrightarrow> equal_helper F a b \<Longrightarrow>
           eval E a l = Some v \<Longrightarrow> eval E' b l = Some w \<Longrightarrow> v = w"
  shows "xs = ys"
  using assms
proof (induction as arbitrary: bs xs ys)
  case (Cons a as)
  then obtain b bs' x xs' y ys' where [simp]: "bs = b # bs'" "xs = x # xs'" "ys = y # ys'"
    by (auto simp: list_all2_Cons1)
  show ?case
    using Cons.prems Cons.IH [of bs' xs' ys'] by simp blast
qed simp

theorem equal_sound:
  "same_head a b \<Longrightarrow> equal_helper F a b \<Longrightarrow> agree E E' \<Longrightarrow>
   eval E a l = Some v \<Longrightarrow> eval E' b l = Some w \<Longrightarrow> v = w"
proof (induction a arbitrary: b E E' l v w)
  case (Variable t n)
  then show ?case
    by (fastforce simp: same_head_def agree_def bind_eq_Some_conv split: expr.splits if_splits)
next
  case (Bin op a1 a2)
  from Bin.prems(2) obtain op' b1 b2 where "b = Bin op' b1 b2" by (auto split: expr.splits)
  then have b: "b = Bin op b1 b2" using same_head_bin Bin.prems(1) by blast
  have t: "etype a1 = etype b1" using b Bin.prems(2) by (simp add: same_head_def)
  from Bin.prems(4,5) obtain x y x' y' where
    ev: "eval E a1 l = Some x" "eval E a2 l = Some y" "eval E' b1 l = Some x'" "eval E' b2 l = Some y'"
    and r: "bin_val op (norm (etype a1)) x y = Some v" "bin_val op (norm (etype b1)) x' y' = Some w"
    by (auto simp: b bind_eq_Some_conv)
  have "x = x'" "y = y'"
    using Bin.IH Bin.prems(2,3) ev by (auto simp: b)
  then show ?case using r t by simp
next
  case (Cmp op a1 a2)
  from Cmp.prems(2) obtain op' b1 b2 where "b = Cmp op' b1 b2" by (auto split: expr.splits)
  then have b: "b = Cmp op b1 b2" using same_head_cmp Cmp.prems(1) by blast
  then show ?case
    using Cmp.prems Cmp.IH(1) [of b1 E E' l] Cmp.IH(2) [of b2 E E' l]
    by (auto simp: b bind_eq_Some_conv)
next
  case (Broadcast a n)
  then show ?case by (auto split: expr.splits)
next
  case (Cast t a)
  then show ?case
    by (auto simp: same_head_def [of "Cast _ _"] split: expr.splits if_splits)
      (metis same_head_def)+
next
  case (NotE a)
  from NotE.prems(2) obtain b1 where "b = NotE b1" by (auto split: expr.splits)
  then show ?case
    using NotE.prems NotE.IH [of b1 E E' l] by (auto simp: bind_eq_Some_conv)
next
  case (Select c x y)
  from Select.prems(2) obtain c' x' y' where b: "b = Select c' x' y'" by (auto split: expr.splits)
  from Select.prems(4,5) obtain p q r p' q' r' where
    ev: "eval E c l = Some p" "eval E x l = Some q" "eval E y l = Some r"
      "eval E' c' l = Some p'" "eval E' x' l = Some q'" "eval E' y' l = Some r'"
    and r: "v = (if p \<noteq> 0 then q else r)" "w = (if p' \<noteq> 0 then q' else r')"
    by (simp add: b bind_eq_Some_conv) blast
  have "p = p'" "q = q'" "r = r'"
    using Select.IH Select.prems(2,3) ev by (auto simp: b)
  then show ?case using r by simp
next
  case (Load t n p i im pa al)
  from Load.prems(1,2) obtain p' i' im' pa' al' where b: "b = Load t n p' i' im' pa' al'"
    by (auto simp: same_head_def [of "Load t n p i im pa al"] split: expr.splits)
  from Load.prems(4,5) obtain x x' where
    ev: "eval E i l = Some x" "eval E' i' l = Some x'"
    and r: "map_option (norm t) (mem E n x) = Some v" "map_option (norm t) (mem E' n x') = Some w"
    by (auto simp: b bind_eq_Some_conv split: if_splits)
  have "x = x'" "mem E = mem E'"
    using Load.IH(2) Load.prems(2,3) ev by (auto simp: b agree_def)
  then show ?case using r by simp
next
  case (Ramp x y n)
  from Ramp.prems(2) obtain x' y' n' where b: "b = Ramp x' y' n'" by (auto split: expr.splits)
  then have "etype x = etype x'" using Ramp.prems(2) by (simp add: same_head_def)
  then show ?case
    using Ramp.prems Ramp.IH(1) [of x' E E' l] Ramp.IH(2) [of y' E E' l]
    by (auto simp: b bind_eq_Some_conv)
next
  case (Call t n as ct vi)
  from Call.prems(1,2) obtain bs where b: "b = Call t n bs ct vi"
    by (auto simp: same_head_def [of "Call t n as ct vi"] split: expr.splits)
  have eq: "fns E = fns E'" and args: "list_all2 (\<lambda>a b. same_head a b \<and> equal_helper F a b) as bs"
    using Call.prems by (simp_all add: b agree_def equal_args_iff)
  obtain xs ys where
    xs: "list_all2 (\<lambda>a y. eval E a (if is_likely n ct then l else lane_in t l) = Some y) as xs" "call_val (fns E) t n ct vi xs = Some v" and
    ys: "list_all2 (\<lambda>a y. eval E' a (if is_likely n ct then l else lane_in t l) = Some y) bs ys" "call_val (fns E') t n ct vi ys = Some w"
    using Call.prems by (auto simp: b those_map_iff split: if_splits option.splits)
  have "xs = ys"
    by (rule list_all2_agree [OF args xs(1) ys(1)]) (use Call.IH Call.prems(3) in blast)
  then show ?case using xs(2) ys(2) eq by simp
next
  case (LetE n x y)
  from LetE.prems(2) obtain x' y' where b: "b = LetE n x' y'" by (auto split: expr.splits)
  then have sub: "same_head x x'" "equal_helper F x x'" "same_head y y'" "equal_helper F y y'"
    using LetE.prems by auto
  have "agree (E\<lparr>vars := (vars E)(n := eval E x)\<rparr>) (E'\<lparr>vars := (vars E')(n := eval E' x')\<rparr>)"
    using LetE.prems(3) LetE.IH(1) [OF sub(1,2) LetE.prems(3)] by (auto simp: agree_def)
  then show ?case
    using LetE.IH(2) [OF sub(3,4)] LetE.prems(4,5) by (auto simp: b)
next
  case (Shuffle vs "is")
  from Shuffle.prems(2) obtain vs' where b: "b = Shuffle vs' is" and args: "equal_args F vs vs'"
    by (auto split: expr.splits)
  have all2: "list_all2 (\<lambda>a b. same_head a b \<and> equal_helper F a b) vs vs'"
    using args by (simp add: equal_args_iff)
  then have len: "map (\<lambda>v. lanes (etype v)) vs = map (\<lambda>v. lanes (etype v)) vs'"
    by (induction rule: list_all2_induct) (auto simp: same_head_def)
  obtain k j where k: "k < length vs" "eval E (vs ! k) j = Some v" "eval E' (vs' ! k) j = Some w"
    using Shuffle.prems(4,5) list_all2_lengthD [OF all2]
    by (auto simp: b Let_def len split: if_splits prod.splits)
  show ?case
    using Shuffle.IH [of "vs ! k" "vs' ! k" E E' j v w] list_all2_nthD [OF all2 k(1)] k Shuffle.prems(3)
    by auto
qed (auto split: expr.splits)

lemma equal_value: "equal F a b \<Longrightarrow> eval E a l = Some v \<Longrightarrow> eval E b l = Some w \<Longrightarrow> v = w"
  using equal_sound [OF _ _ agree_refl] by (auto simp: equal_def)

lemma equal_etype: "equal F a b \<Longrightarrow> etype a = etype b"
  by (simp add: equal_def same_head_def)

section \<open>Constants\<close>

text \<open>The value of a literal made from an arbitrary number: its low bits.\<close>

definition const_val :: "halide_type \<Rightarrow> int \<Rightarrow> int" where
  "const_val t v = (if is_int t then signed_take_bit (bits t - 1) v else take_bit (bits t) v)"

lemma const_val_fits: "is_int t \<Longrightarrow> fits (bits t) v \<Longrightarrow> const_val t v = v"
  using fits_signed_take_bit_id [of "bits t" v] by (simp add: const_val_def)

lemma const_val_norm: "is_num t \<Longrightarrow> \<not> no_overflow_int t \<Longrightarrow> const_val t v = norm t v"
  by (auto simp: const_val_def norm_def wrap_ty_def no_overflow_int_def is_num_def is_int_def is_uint_def)

lemma IntImm_make_Some:
  "IntImm_make t v = Some e \<longleftrightarrow>
     is_int t \<and> is_scalar t \<and> bits t \<in> {8, 16, 32, 64} \<and> e = IntImm t (const_val t v)"
proof -
  have "sext (bits t) v = const_val t v" if "is_int t" "bits t \<in> {8, 16, 32, 64}"
    using that sext_eq [of "bits t" v] by (auto simp: const_val_def)
  then show ?thesis by (auto simp: IntImm_make_def)
qed

lemma UIntImm_make_Some:
  "UIntImm_make t v = Some e \<longleftrightarrow>
     is_uint t \<and> is_scalar t \<and> bits t \<in> {1, 8, 16, 32, 64} \<and> e = UIntImm t (const_val t v)"
proof -
  have "zext (bits t) v = const_val t v" if "is_uint t" "bits t \<in> {1, 8, 16, 32, 64}"
    using that zext_eq [of "bits t" v] by (auto simp: const_val_def is_uint_def is_int_def)
  then show ?thesis by (auto simp: UIntImm_make_def)
qed

lemma const_val_cong: "code t = code t' \<Longrightarrow> bits t = bits t' \<Longrightarrow> const_val t = const_val t'"
  by (simp add: const_val_def fun_eq_iff is_int_def)

lemma is_int_element_of [simp]: "is_int (element_of t) = is_int t"
  and is_uint_element_of [simp]: "is_uint (element_of t) = is_uint t"
  and is_float_element_of [simp]: "is_float (element_of t) = is_float t"
  and is_handle_element_of [simp]: "is_handle (element_of t) = is_handle t"
  by (simp_all add: element_of_def with_lanes_def mk_type_def is_int_def is_uint_def is_float_def is_handle_def)

lemma code_element_of [simp]: "code (element_of t) = code t"
  by (simp add: element_of_def with_lanes_def mk_type_def)

lemma fits_const_val:
  assumes "bits t \<in> {8, 16, 32, 64}" "is_int t" shows "fits (bits t) (const_val t v)"
  using assms fits_signed_take_bit [of "bits t" v] by (auto simp: const_val_def)

lemma element_of_lanes: "legal_type t \<Longrightarrow> with_lanes (lanes t) (element_of t) = t"
  using legal_bits [of t] legal_lanes [of t]
  by (simp add: with_lanes_def element_of_def mk_type_def take_bit_nat_eq_self)

lemma make_const_eval:
  assumes "make_const F t v = Some e" "is_num t" "legal_type t"
  shows "eval env e l = Some (const_val t v)" "etype e = t" "wf e"
proof -
  let ?s = "if is_vector t then element_of t else t"
  have bits: "bits (element_of t) = bits t" and lanes: "lanes t < 2 ^ 14" "0 < lanes t"
    using assms(3) legal_lanes by (auto simp: element_of_sel)
  have cv: "const_val ?s v = const_val t v"
    using const_val_cong [of ?s t] bits by simp
  have leg: "legal_type ?s" "is_scalar ?s"
    using assms(3) legal_with_lanes [of t 1] by (auto simp: element_of_def is_vector_def is_scalar_def with_lanes_sel)
  obtain s where s: "s = IntImm ?s (const_val t v) \<and> is_int t \<and> bits t \<in> {8, 16, 32, 64} \<or>
      s = UIntImm ?s (const_val t v) \<and> is_uint t"
    and e: "if is_vector t then Broadcast_make s (lanes t) = Some e else e = s"
    using assms(1,2) cv
    by (auto simp: make_const_def Let_def bind_eq_Some_conv IntImm_make_Some UIntImm_make_Some bits
        is_num_def split: if_splits)
  have fit: "is_int t \<Longrightarrow> bits t \<in> {8, 16, 32, 64} \<Longrightarrow> fits (bits t) (const_val t v)"
    "is_uint t \<Longrightarrow> 0 \<le> const_val t v \<and> const_val t v < 2 ^ bits t"
    using fits_const_val [of t v] by (auto simp: const_val_def is_int_def is_uint_def)
  have ws: "wf s \<and> etype s = ?s \<and> eval env s l = Some (const_val t v)"
    using s fit leg bits by (auto simp: is_int_def is_uint_def)
  have wl: "with_lanes (lanes t) ?s = t" if "is_vector t"
    using that element_of_lanes [OF assms(3)] by simp
  show "eval env e l = Some (const_val t v)" "etype e = t" "wf e"
    using ws e wl leg lanes
    by (auto simp: Broadcast_make_def is_vector_def is_scalar_def split: if_splits)
qed

lemma norm_0 [simp]: "norm t 0 = 0"
  by (simp add: norm_def wrap_ty_def split: type_code.splits)

lemma is_literal_eval:
  assumes "is_literal F k e" "eval env e l = Some v" "wf e" "k = 0 \<or> k = 1"
  shows "if k = 0 then v = 0 else odd v"
  using assms
proof (induction e arbitrary: v l)
  case (Cast t e)
  then obtain x where x: "eval env e l = Some x" "v = cast_val (etype e) t x" "is_num t"
    by (auto split: if_splits)
  have b: "0 < bits t" using Cast.prems(3) legal_bits by auto
  have "if k = 0 then x = 0 else odd x"
    using Cast.IH [of l x] Cast.prems x by auto
  then show ?case
    using b x(2) by (auto simp: cast_val_def even_signed_take_bit_iff split: if_splits)
next
  case (Call t n as ct vi)
  then obtain a where m: "is_intrinsic n ct ''bool_to_mask'' \<or> is_intrinsic n ct ''cast_mask''"
    and a: "as = [a]" "is_literal F k a" "wf a"
    by (auto split: list.splits)
  obtain x where x: "eval env a (lane_in t l) = Some x"
    and v: "v = norm t (if is_intrinsic n ct ''bool_to_mask'' then if x = 0 then 0 else - 1 else x)"
    using Call.prems(2) m
    by (auto simp: a call_val_def is_special_def is_likely_def is_intrinsic_def split: if_splits option.splits)
  have b: "0 < bits t" "is_int t" using Call.prems(3) m legal_bits by auto
  have "if k = 0 then x = 0 else odd x"
    using Call.IH [of a "lane_in t l" x] Call.prems(4) a x by simp
  moreover have "odd (norm t y) \<longleftrightarrow> odd y" for y
    using b by (auto simp: norm_def wrap_ty_def is_int_def even_signed_take_bit_iff)
  ultimately show ?case
    using v by (auto split: if_splits)
qed auto

lemma is_zero_eval: "is_zero F e \<Longrightarrow> eval env e l = Some v \<Longrightarrow> wf e \<Longrightarrow> v = 0"
  using is_literal_eval [of F 0 e env l v] by (simp add: is_zero_def)

lemma is_one_eval: "is_one F e \<Longrightarrow> eval env e l = Some v \<Longrightarrow> wf e \<Longrightarrow> odd v"
  using is_literal_eval [of F 1 e env l v] by (simp add: is_one_def)

lemma is_one_true: "is_one F e \<Longrightarrow> eval env e l = Some v \<Longrightarrow> wf e \<Longrightarrow> is_bool (etype e) \<Longrightarrow> v = 1"
  using is_one_eval [of F e env l v] bool_value [of e env l v] by auto

lemma as_const_int_eval: "as_const_int e = Some c \<Longrightarrow> eval env e l = Some c"
  by (induction e arbitrary: l) auto

lemma as_const_uint_eval: "as_const_uint e = Some c \<Longrightarrow> eval env e l = Some c"
  by (induction e arbitrary: l) auto

end
