(* ===== verification/Matcher.thy ===== *)
theory Matcher
  imports SemanticsFacts
begin

text \<open>
  The pattern matcher of \<open>IRMatch.h\<close>: pattern elements, matching, construction of the
  replacement, constant folding of patterns and the rewriter. A C++ pattern is a type
  built from the templates \<open>Wild\<close>, \<open>WildConst\<close>, \<open>BinOp\<close>, ...; here it is a value of
  \<open>pat\<close>. The mask of already bound wildcards, a template argument in the code, is
  whether the state binds them. \<open>None\<close> is undefined behaviour or a failed assertion.
\<close>

section \<open>Pattern elements\<close>

datatype pat =
    SpecificExpr expr
  | WildConst nat
  | Wild nat
  | Const int
  | BinOp bin_op pat pat
  | CmpOp cmp_op pat pat
  | Intrin string "pat list"
  | NotOp pat
  | SelectOp pat pat pat
  | BroadcastOp pat "nat option"
  | RampOp pat pat "nat option"
  | NegateOp pat
  | CastOp halide_type pat
  | Fold pat
  | Overflows pat
  | Overflow
  | Indeterminate
  | IsConst pat
  | CanProve pat
  | IsFloat pat

instantiation pat :: "{plus, minus, times, divide, modulo, uminus}"
begin

definition plus_pat :: "pat \<Rightarrow> pat \<Rightarrow> pat" where "plus_pat = BinOp OpAdd"
definition minus_pat :: "pat \<Rightarrow> pat \<Rightarrow> pat" where "minus_pat = BinOp OpSub"
definition times_pat :: "pat \<Rightarrow> pat \<Rightarrow> pat" where "times_pat = BinOp OpMul"
definition divide_pat :: "pat \<Rightarrow> pat \<Rightarrow> pat" where "divide_pat = BinOp OpDiv"
definition modulo_pat :: "pat \<Rightarrow> pat \<Rightarrow> pat" where "modulo_pat = BinOp OpMod"
definition uminus_pat :: "pat \<Rightarrow> pat" where "uminus_pat = NegateOp"

instance ..

end

lemmas pat_ops =
  plus_pat_def minus_pat_def times_pat_def divide_pat_def modulo_pat_def uminus_pat_def

abbreviation "pmin \<equiv> BinOp OpMin"
abbreviation "pmax \<equiv> BinOp OpMax"
abbreviation "and_op \<equiv> BinOp OpAnd"
abbreviation "or_op \<equiv> BinOp OpOr"
abbreviation "lt \<equiv> CmpOp OpLT"
abbreviation "gt \<equiv> CmpOp OpGT"
abbreviation "le \<equiv> CmpOp OpLE"
abbreviation "ge \<equiv> CmpOp OpGE"
abbreviation "eq \<equiv> CmpOp OpEQ"
abbreviation "ne \<equiv> CmpOp OpNE"
abbreviation "not_op \<equiv> NotOp"
abbreviation "select \<equiv> SelectOp"
abbreviation "broadcast_n a n \<equiv> BroadcastOp a (Some n)"
abbreviation "broadcast a \<equiv> BroadcastOp a None"
abbreviation "ramp_n a b n \<equiv> RampOp a b (Some n)"
abbreviation "ramp a b \<equiv> RampOp a b None"

section \<open>State\<close>

type_synonym scalar_value = "64 word"

record matcher_state =
  bindings :: "nat \<Rightarrow> expr option"
  bound_const :: "nat \<Rightarrow> (scalar_value \<times> halide_type) option"

definition empty_state :: matcher_state where
  "empty_state = \<lparr>bindings = Map.empty, bound_const = Map.empty\<rparr>"

definition set_binding :: "nat \<Rightarrow> expr \<Rightarrow> matcher_state \<Rightarrow> matcher_state" where
  "set_binding i e \<sigma> = \<sigma>\<lparr>bindings := (bindings \<sigma>)(i \<mapsto> e)\<rparr>"

definition set_bound_const :: "nat \<Rightarrow> scalar_value \<Rightarrow> halide_type \<Rightarrow> matcher_state \<Rightarrow> matcher_state" where
  "set_bound_const i v t \<sigma> = \<sigma>\<lparr>bound_const := (bound_const \<sigma>)(i \<mapsto> (v, t))\<rparr>"

text \<open>Values of the \<open>lanes\<close> field with special meaning.\<close>

abbreviation signed_integer_overflow_bit :: nat where "signed_integer_overflow_bit \<equiv> 0x8000"
abbreviation indeterminate_expression_bit :: nat where "indeterminate_expression_bit \<equiv> 0x4000"
abbreviation special_values_mask :: nat where "special_values_mask \<equiv> 0xc000"

definition special :: "nat \<Rightarrow> bool" where
  "special l \<longleftrightarrow> l AND special_values_mask \<noteq> 0"

definition or_lanes :: "nat \<Rightarrow> halide_type \<Rightarrow> halide_type" where
  "or_lanes l t = t\<lparr>lanes := lanes t OR l\<rparr>"

text \<open>
  What outlives a rewrite: the counters that number special values, one for each
  kind, and a history
  variable of the verification, not in the code: \<open>tainted\<close> records that a special
  value was built, or that a folded signed constant did not fit its type.
\<close>

record mach =
  indeterminates :: nat
  overflows :: nat
  tainted :: bool

definition make_const_special_expr ::
  "halide_type \<Rightarrow> 'a mach_scheme \<Rightarrow> (expr \<times> 'a mach_scheme) option" where
  "make_const_special_expr ty s =
     (let flags = lanes ty AND special_values_mask;
          ty = ty\<lparr>lanes := take_bit 14 (lanes ty)\<rparr>
      in if flags AND indeterminate_expression_bit \<noteq> 0 then do {
           (e, k) \<leftarrow> make_indeterminate_expression ty (indeterminates s);
           Some (e, s\<lparr>indeterminates := k, tainted := True\<rparr>) }
         else if flags AND signed_integer_overflow_bit \<noteq> 0 then do {
           (e, k) \<leftarrow> make_signed_integer_overflow ty (overflows s);
           Some (e, s\<lparr>overflows := k, tainted := True\<rparr>) }
         else None)"

definition make_const_expr ::
  "float_ops \<Rightarrow> scalar_value \<Rightarrow> halide_type \<Rightarrow> 'a mach_scheme \<Rightarrow> (expr \<times> 'a mach_scheme) option" where
  "make_const_expr F val ty s =
     (if special (lanes ty) then make_const_special_expr ty s
      else do {
        let scalar_type = ty\<lparr>lanes := 1\<rparr>;
        e \<leftarrow> (case code ty of
                Halide_Int \<Rightarrow> IntImm_make scalar_type (sint val)
              | Halide_UInt \<Rightarrow> UIntImm_make scalar_type (uint val)
              | Halide_Float \<Rightarrow> FloatImm_make F scalar_type val
              | Halide_BFloat \<Rightarrow> FloatImm_make F scalar_type val
              | Halide_Handle \<Rightarrow> None);
        e \<leftarrow> (if lanes ty > 1 then Broadcast_make e (lanes ty) else Some e);
        Some (e, s\<lparr>tainted := tainted s \<or> (no_overflow_int ty \<and> \<not> fits (bits ty) (sint val))\<rparr>) })"

section \<open>Matching\<close>

definition scalar_of :: "expr \<Rightarrow> expr" where
  "scalar_of e = (case e of Broadcast v n \<Rightarrow> v | _ \<Rightarrow> e)"

text \<open>A constant, or the broadcast of one, is bound, or compared with the bound constant.\<close>

definition WildConstInt_match :: "nat \<Rightarrow> expr \<Rightarrow> matcher_state \<Rightarrow> matcher_state option" where
  "WildConstInt_match i e \<sigma> =
     (case scalar_of e of
        IntImm t v \<Rightarrow>
          (case bound_const \<sigma> i of
             Some (val, t') \<Rightarrow> if t = t' \<and> v = sint val then Some \<sigma> else None
           | None \<Rightarrow> Some (set_bound_const i (word_of_int v) (etype e) \<sigma>))
      | _ \<Rightarrow> None)"

definition WildConstUInt_match :: "nat \<Rightarrow> expr \<Rightarrow> matcher_state \<Rightarrow> matcher_state option" where
  "WildConstUInt_match i e \<sigma> =
     (case scalar_of e of
        UIntImm t v \<Rightarrow>
          (case bound_const \<sigma> i of
             Some (val, t') \<Rightarrow> if t = t' \<and> v = uint val then Some \<sigma> else None
           | None \<Rightarrow> Some (set_bound_const i (word_of_int v) (etype e) \<sigma>))
      | _ \<Rightarrow> None)"

definition WildConstFloat_match ::
  "float_ops \<Rightarrow> nat \<Rightarrow> expr \<Rightarrow> matcher_state \<Rightarrow> matcher_state option" where
  "WildConstFloat_match F i e \<sigma> =
     (case scalar_of e of
        FloatImm t v \<Rightarrow>
          (case bound_const \<sigma> i of
             Some (val, t') \<Rightarrow> if t = t' \<and> fl_eq F v val then Some \<sigma> else None
           | None \<Rightarrow> Some (set_bound_const i v (etype e) \<sigma>))
      | _ \<Rightarrow> None)"

definition WildConst_match :: "float_ops \<Rightarrow> nat \<Rightarrow> expr \<Rightarrow> matcher_state \<Rightarrow> matcher_state option" where
  "WildConst_match F i e \<sigma> =
     (case scalar_of e of
        IntImm t v \<Rightarrow> WildConstInt_match i e \<sigma>
      | UIntImm t v \<Rightarrow> WildConstUInt_match i e \<sigma>
      | FloatImm t v \<Rightarrow> WildConstFloat_match F i e \<sigma>
      | _ \<Rightarrow> None)"

definition Wild_match :: "float_ops \<Rightarrow> nat \<Rightarrow> expr \<Rightarrow> matcher_state \<Rightarrow> matcher_state option" where
  [simp]: "Wild_match F i e \<sigma> =
     (case bindings \<sigma> i of
        Some e' \<Rightarrow> if equal F e' e then Some \<sigma> else None
      | None \<Rightarrow> Some (set_binding i e \<sigma>))"

definition match_const :: "float_ops \<Rightarrow> int \<Rightarrow> expr \<Rightarrow> bool" where
  "match_const F v e =
     (case scalar_of e of
        IntImm t c \<Rightarrow> c = v
      | UIntImm t c \<Rightarrow> c = take_bit 64 v
      | FloatImm t c \<Rightarrow> fl_eq F c (fl_of_int F v)
      | _ \<Rightarrow> False)"

text \<open>The nodes: \<open>ma\<close>, \<open>mb\<close>, ... match the operands of the pattern.\<close>

type_synonym match_fun = "expr \<Rightarrow> matcher_state \<Rightarrow> matcher_state option"

definition BinOp_match :: "bin_op \<Rightarrow> match_fun \<Rightarrow> match_fun \<Rightarrow> match_fun" where
  [simp]: "BinOp_match op ma mb e \<sigma> =
     (case e of Bin op' ea eb \<Rightarrow>
        if op = op' then do { \<sigma> \<leftarrow> ma ea \<sigma>; mb eb \<sigma> } else None
      | _ \<Rightarrow> None)"

definition CmpOp_match :: "cmp_op \<Rightarrow> match_fun \<Rightarrow> match_fun \<Rightarrow> match_fun" where
  [simp]: "CmpOp_match op ma mb e \<sigma> =
     (case e of Cmp op' ea eb \<Rightarrow>
        if op = op' then do { \<sigma> \<leftarrow> ma ea \<sigma>; mb eb \<sigma> } else None
      | _ \<Rightarrow> None)"

definition Intrin_match ::
  "string \<Rightarrow> (expr list \<Rightarrow> matcher_state \<Rightarrow> matcher_state option) \<Rightarrow> match_fun" where
  [simp]: "Intrin_match name margs e \<sigma> =
     (case e of Call t n as ct vi \<Rightarrow> if is_intrinsic n ct name then margs as \<sigma> else None
      | _ \<Rightarrow> None)"

definition NotOp_match :: "match_fun \<Rightarrow> match_fun" where
  [simp]: "NotOp_match ma e \<sigma> = (case e of NotE ea \<Rightarrow> ma ea \<sigma> | _ \<Rightarrow> None)"

definition SelectOp_match :: "match_fun \<Rightarrow> match_fun \<Rightarrow> match_fun \<Rightarrow> match_fun" where
  [simp]: "SelectOp_match mc mt mf e \<sigma> =
     (case e of Select ec et ef \<Rightarrow> do { \<sigma> \<leftarrow> mc ec \<sigma>; \<sigma> \<leftarrow> mt et \<sigma>; mf ef \<sigma> }
      | _ \<Rightarrow> None)"

definition BroadcastOp_match :: "nat option \<Rightarrow> match_fun \<Rightarrow> match_fun" where
  [simp]: "BroadcastOp_match l ma e \<sigma> =
     (case e of Broadcast ea n \<Rightarrow> if l = None \<or> l = Some n then ma ea \<sigma> else None
      | _ \<Rightarrow> None)"

definition RampOp_match :: "nat option \<Rightarrow> match_fun \<Rightarrow> match_fun \<Rightarrow> match_fun" where
  [simp]: "RampOp_match l ma mb e \<sigma> =
     (case e of Ramp ea eb n \<Rightarrow>
        if l = Some (lanes (etype e)) \<or> l = None
        then do { \<sigma> \<leftarrow> ma ea \<sigma>; mb eb \<sigma> } else None
      | _ \<Rightarrow> None)"

definition NegateOp_match :: "float_ops \<Rightarrow> match_fun \<Rightarrow> match_fun" where
  [simp]: "NegateOp_match F ma e \<sigma> =
     (case e of Bin op ea eb \<Rightarrow>
        if op = OpSub then do { \<sigma> \<leftarrow> ma eb \<sigma>; if is_zero F ea then Some \<sigma> else None } else None
      | _ \<Rightarrow> None)"

definition CastOp_match :: "halide_type \<Rightarrow> match_fun \<Rightarrow> match_fun" where
  [simp]: "CastOp_match t ma e \<sigma> =
     (case e of Cast t' ea \<Rightarrow> if etype e = t then ma ea \<sigma> else None
      | _ \<Rightarrow> None)"

definition Indeterminate_match :: match_fun where
  [simp]: "Indeterminate_match e \<sigma> =
     (case e of Call t n as ct vi \<Rightarrow>
        if is_intrinsic n ct ''indeterminate_expression'' then Some \<sigma> else None
      | _ \<Rightarrow> None)"

definition Overflow_match :: match_fun where
  [simp]: "Overflow_match e \<sigma> =
     (case e of Call t n as ct vi \<Rightarrow>
        if is_intrinsic n ct ''signed_integer_overflow'' then Some \<sigma> else None
      | _ \<Rightarrow> None)"

fun pmatch :: "float_ops \<Rightarrow> pat \<Rightarrow> expr \<Rightarrow> matcher_state \<Rightarrow> matcher_state option"
and pmatch_args :: "float_ops \<Rightarrow> pat list \<Rightarrow> expr list \<Rightarrow> matcher_state \<Rightarrow> matcher_state option" where
  "pmatch F (SpecificExpr e') e \<sigma> = (if equal F e' e then Some \<sigma> else None)"
| "pmatch F (WildConst i) e \<sigma> = WildConst_match F i e \<sigma>"
| "pmatch F (Wild i) e \<sigma> = Wild_match F i e \<sigma>"
| "pmatch F (Const v) e \<sigma> = (if match_const F v e then Some \<sigma> else None)"
| "pmatch F (BinOp op a b) e \<sigma> = BinOp_match op (pmatch F a) (pmatch F b) e \<sigma>"
| "pmatch F (CmpOp op a b) e \<sigma> = CmpOp_match op (pmatch F a) (pmatch F b) e \<sigma>"
| "pmatch F (Intrin name ps) e \<sigma> = Intrin_match name (pmatch_args F ps) e \<sigma>"
| "pmatch F (NotOp a) e \<sigma> = NotOp_match (pmatch F a) e \<sigma>"
| "pmatch F (SelectOp c t f) e \<sigma> = SelectOp_match (pmatch F c) (pmatch F t) (pmatch F f) e \<sigma>"
| "pmatch F (BroadcastOp a l) e \<sigma> = BroadcastOp_match l (pmatch F a) e \<sigma>"
| "pmatch F (RampOp a b l) e \<sigma> = RampOp_match l (pmatch F a) (pmatch F b) e \<sigma>"
| "pmatch F (NegateOp a) e \<sigma> = NegateOp_match F (pmatch F a) e \<sigma>"
| "pmatch F (CastOp t a) e \<sigma> = CastOp_match t (pmatch F a) e \<sigma>"
| "pmatch F Indeterminate e \<sigma> = Indeterminate_match e \<sigma>"
| "pmatch F Overflow e \<sigma> = Overflow_match e \<sigma>"
| "pmatch F _ e \<sigma> = None"
| "pmatch_args F [] es \<sigma> = Some \<sigma>"
| "pmatch_args F (p # ps) es \<sigma> =
     (case es of [] \<Rightarrow> None
      | e # es \<Rightarrow> do { \<sigma> \<leftarrow> pmatch F p e \<sigma>; pmatch_args F ps es \<sigma> })"

section \<open>Constant folding\<close>

definition flag_if :: "bool \<Rightarrow> nat \<Rightarrow> halide_type \<Rightarrow> halide_type" where
  "flag_if c flag t = or_lanes (if c then flag else 0) t"

text \<open>Drop the high bits then sign-extend them back.\<close>

definition sign_bits :: "halide_type \<Rightarrow> scalar_value \<Rightarrow> scalar_value" where
  "sign_bits t v = (let dead_bits = 64 - bits t in signed_drop_bit dead_bits (push_bit dead_bits v))"

definition mask_bits :: "halide_type \<Rightarrow> scalar_value \<Rightarrow> scalar_value" where
  "mask_bits t v = v AND drop_bit (64 - bits t) (- 1)"

text \<open>
  One definition per operator, its three cases the overloads for signed, unsigned and
  floating-point operands; they return the value and the type with its flags. There
  is none for handles: the caller leaves the value undefined.
\<close>

type_synonym fold_fun =
  "float_ops \<Rightarrow> halide_type \<Rightarrow> scalar_value \<Rightarrow> scalar_value \<Rightarrow> (scalar_value \<times> halide_type) option"

definition fold_Add :: fold_fun where
  "fold_Add F t a b =
     (case code t of
        Halide_Int \<Rightarrow> Some (sign_bits t (a + b),
          flag_if (bits t \<ge> 32 \<and> add_would_overflow (bits t) (sint a) (sint b)) signed_integer_overflow_bit t)
      | Halide_UInt \<Rightarrow> Some (mask_bits t (a + b), t)
      | Halide_Handle \<Rightarrow> None
      | _ \<Rightarrow> Some (fl_add F a b, t))"

definition fold_Sub :: fold_fun where
  "fold_Sub F t a b =
     (case code t of
        Halide_Int \<Rightarrow> Some (sign_bits t (a - b),
          flag_if (bits t \<ge> 32 \<and> sub_would_overflow (bits t) (sint a) (sint b)) signed_integer_overflow_bit t)
      | Halide_UInt \<Rightarrow> Some (mask_bits t (a - b), t)
      | Halide_Handle \<Rightarrow> None
      | _ \<Rightarrow> Some (fl_sub F a b, t))"

definition fold_Mul :: fold_fun where
  "fold_Mul F t a b =
     (case code t of
        Halide_Int \<Rightarrow> Some (sign_bits t (a * b),
          flag_if (bits t \<ge> 32 \<and> mul_would_overflow (bits t) (sint a) (sint b)) signed_integer_overflow_bit t)
      | Halide_UInt \<Rightarrow> Some (mask_bits t (a * b), t)
      | Halide_Handle \<Rightarrow> None
      | _ \<Rightarrow> Some (fl_mul F a b, t))"

definition fold_Div :: fold_fun where
  "fold_Div F t a b =
     (case code t of
        Halide_Int \<Rightarrow> if b = 0 then Some (0, or_lanes indeterminate_expression_bit t)
          else do { q \<leftarrow> div_imp (sint a) (sint b); Some (word_of_int q, t) }
      | Halide_UInt \<Rightarrow> if b = 0 then Some (0, or_lanes indeterminate_expression_bit t) else Some (a div b, t)
      | Halide_Handle \<Rightarrow> None
      | _ \<Rightarrow> Some (fl_div F a b, t))"

definition fold_Mod :: fold_fun where
  "fold_Mod F t a b =
     (case code t of
        Halide_Int \<Rightarrow> if b = 0 then Some (0, or_lanes indeterminate_expression_bit t)
          else do { q \<leftarrow> mod_imp (sint a) (sint b); Some (word_of_int q, t) }
      | Halide_UInt \<Rightarrow> if b = 0 then Some (0, or_lanes indeterminate_expression_bit t) else Some (a mod b, t)
      | Halide_Handle \<Rightarrow> None
      | _ \<Rightarrow> Some (fl_sub F a (fl_mul F b (fl_floor F (fl_div F a b))), t))"

definition fold_Min :: fold_fun where
  "fold_Min F t a b =
     (case code t of
        Halide_Int \<Rightarrow> Some (if sint b < sint a then b else a, t)
      | Halide_UInt \<Rightarrow> Some (if b < a then b else a, t)
      | Halide_Handle \<Rightarrow> None
      | _ \<Rightarrow> Some (if fl_lt F b a then b else a, t))"

definition fold_Max :: fold_fun where
  "fold_Max F t a b =
     (case code t of
        Halide_Int \<Rightarrow> Some (if sint a < sint b then b else a, t)
      | Halide_UInt \<Rightarrow> Some (if a < b then b else a, t)
      | Halide_Handle \<Rightarrow> None
      | _ \<Rightarrow> Some (if fl_lt F a b then b else a, t))"

definition fold_Or :: fold_fun where
  "fold_Or F t a b =
     (case code t of
        Halide_Int \<Rightarrow> Some ((a OR b) AND 1, t)
      | Halide_UInt \<Rightarrow> Some ((a OR b) AND 1, t)
      | Halide_Handle \<Rightarrow> None
      | _ \<Rightarrow> Some (fl_of_int F 0, or_lanes indeterminate_expression_bit t))"

definition fold_And :: fold_fun where
  "fold_And F t a b =
     (case code t of
        Halide_Int \<Rightarrow> Some (a AND b AND 1, t)
      | Halide_UInt \<Rightarrow> Some (a AND b AND 1, t)
      | Halide_Handle \<Rightarrow> None
      | _ \<Rightarrow> Some (fl_of_int F 0, or_lanes indeterminate_expression_bit t))"

fun constant_fold_bin_op :: "float_ops \<Rightarrow> bin_op \<Rightarrow> halide_type \<Rightarrow> scalar_value \<Rightarrow> scalar_value \<Rightarrow>
   (scalar_value \<times> halide_type) option" where
  "constant_fold_bin_op F OpAdd = fold_Add F"
| "constant_fold_bin_op F OpSub = fold_Sub F"
| "constant_fold_bin_op F OpMul = fold_Mul F"
| "constant_fold_bin_op F OpDiv = fold_Div F"
| "constant_fold_bin_op F OpMod = fold_Mod F"
| "constant_fold_bin_op F OpMin = fold_Min F"
| "constant_fold_bin_op F OpMax = fold_Max F"
| "constant_fold_bin_op F OpOr = fold_Or F"
| "constant_fold_bin_op F OpAnd = fold_And F"

type_synonym fold_cmp_fun =
  "float_ops \<Rightarrow> halide_type \<Rightarrow> scalar_value \<Rightarrow> scalar_value \<Rightarrow> scalar_value option"

definition fold_LT :: fold_cmp_fun where
  "fold_LT F t a b =
     (case code t of
        Halide_Int \<Rightarrow> Some (of_bool (sint a < sint b))
      | Halide_UInt \<Rightarrow> Some (of_bool (a < b))
      | Halide_Handle \<Rightarrow> None
      | _ \<Rightarrow> Some (of_bool (fl_lt F a b)))"

definition fold_GT :: fold_cmp_fun where
  "fold_GT F t a b =
     (case code t of
        Halide_Int \<Rightarrow> Some (of_bool (sint a > sint b))
      | Halide_UInt \<Rightarrow> Some (of_bool (a > b))
      | Halide_Handle \<Rightarrow> None
      | _ \<Rightarrow> Some (of_bool (fl_lt F b a)))"

definition fold_LE :: fold_cmp_fun where
  "fold_LE F t a b =
     (case code t of
        Halide_Int \<Rightarrow> Some (of_bool (sint a \<le> sint b))
      | Halide_UInt \<Rightarrow> Some (of_bool (a \<le> b))
      | Halide_Handle \<Rightarrow> None
      | _ \<Rightarrow> Some (of_bool (fl_le F a b)))"

definition fold_GE :: fold_cmp_fun where
  "fold_GE F t a b =
     (case code t of
        Halide_Int \<Rightarrow> Some (of_bool (sint a \<ge> sint b))
      | Halide_UInt \<Rightarrow> Some (of_bool (a \<ge> b))
      | Halide_Handle \<Rightarrow> None
      | _ \<Rightarrow> Some (of_bool (fl_le F b a)))"

definition fold_EQ :: fold_cmp_fun where
  "fold_EQ F t a b =
     (case code t of
        Halide_Int \<Rightarrow> Some (of_bool (sint a = sint b))
      | Halide_UInt \<Rightarrow> Some (of_bool (a = b))
      | Halide_Handle \<Rightarrow> None
      | _ \<Rightarrow> Some (of_bool (fl_eq F a b)))"

definition fold_NE :: fold_cmp_fun where
  "fold_NE F t a b =
     (case code t of
        Halide_Int \<Rightarrow> Some (of_bool (sint a \<noteq> sint b))
      | Halide_UInt \<Rightarrow> Some (of_bool (a \<noteq> b))
      | Halide_Handle \<Rightarrow> None
      | _ \<Rightarrow> Some (of_bool (\<not> fl_eq F a b)))"

fun constant_fold_cmp_op :: "float_ops \<Rightarrow> cmp_op \<Rightarrow> halide_type \<Rightarrow> scalar_value \<Rightarrow> scalar_value \<Rightarrow>
   scalar_value option" where
  "constant_fold_cmp_op F OpLT = fold_LT F"
| "constant_fold_cmp_op F OpGT = fold_GT F"
| "constant_fold_cmp_op F OpLE = fold_LE F"
| "constant_fold_cmp_op F OpGE = fold_GE F"
| "constant_fold_cmp_op F OpEQ = fold_EQ F"
| "constant_fold_cmp_op F OpNE = fold_NE F"

definition fold_negate ::
  "float_ops \<Rightarrow> halide_type \<Rightarrow> scalar_value \<Rightarrow> scalar_value \<times> halide_type" where
  "fold_negate F t v =
     (case code t of
        Halide_Int \<Rightarrow>
          if bits t \<ge> 32 \<and> v \<noteq> 0 \<and> push_bit (65 - bits t) v = 0
          then (v, or_lanes signed_integer_overflow_bit t) else (sign_bits t (- v), t)
      | Halide_UInt \<Rightarrow> (drop_bit (64 - bits t) (push_bit (64 - bits t) (- v)), t)
      | Halide_Handle \<Rightarrow> (v, t)
      | _ \<Rightarrow> (fl_neg F v, t))"

text \<open>The default \<open>halide_type_t\<close>, passed as a type hint where none is known.\<close>

definition no_type :: halide_type where
  "no_type = \<lparr>code = Halide_Int, bits = 0, lanes = 0\<rparr>"

fun is_literal_pat :: "pat \<Rightarrow> bool" where
  "is_literal_pat (Const v) = True"
| "is_literal_pat _ = False"

section \<open>Construction\<close>

text \<open>Rules mix vectors and scalars: a broadcast is inserted if necessary.\<close>

definition match_lanes :: "expr \<Rightarrow> expr \<Rightarrow> (expr \<times> expr) option" where
  "match_lanes ea eb = do {
     eb \<leftarrow> (if is_vector (etype ea) \<and> \<not> is_vector (etype eb)
            then Broadcast_make eb (lanes (etype ea)) else Some eb);
     ea \<leftarrow> (if is_vector (etype eb) \<and> \<not> is_vector (etype ea)
            then Broadcast_make ea (lanes (etype eb)) else Some ea);
     Some (ea, eb) }"

text \<open>The nodes again: \<open>ma\<close>, \<open>mb\<close>, ... construct, and \<open>fa\<close>, \<open>fb\<close>, ... fold, the operands.\<close>

type_synonym make_fun = "halide_type \<Rightarrow> mach \<Rightarrow> (expr \<times> mach) option"
type_synonym folded_fun = "halide_type \<Rightarrow> (scalar_value \<times> halide_type) option"

definition Wild_folded :: "nat \<Rightarrow> matcher_state \<Rightarrow> folded_fun" where
  [simp]: "Wild_folded i \<sigma> ty = do {
     e \<leftarrow> bindings \<sigma> i;
     Some (case e of IntImm t v \<Rightarrow> word_of_int v | UIntImm t v \<Rightarrow> word_of_int v
             | FloatImm t v \<Rightarrow> v | _ \<Rightarrow> 0, etype e) }"

definition Const_folded :: "float_ops \<Rightarrow> int \<Rightarrow> folded_fun" where
  [simp]: "Const_folded F v ty =
     Some (case code ty of
             Halide_Int \<Rightarrow> word_of_int v
           | Halide_UInt \<Rightarrow> word_of_int v
           | Halide_Float \<Rightarrow> fl_of_int F v
           | Halide_BFloat \<Rightarrow> fl_of_int F v
           | Halide_Handle \<Rightarrow> 0, ty)"

definition BinOp_make :: "bin_op \<Rightarrow> bool \<Rightarrow> make_fun \<Rightarrow> make_fun \<Rightarrow> make_fun" where
  [simp]: "BinOp_make op const_a ma mb hint s = do {
     (ea, eb, s) \<leftarrow>
       (if const_a then do {
          (eb, s) \<leftarrow> mb hint s; (ea, s) \<leftarrow> ma (etype eb) s; Some (ea, eb, s) }
        else do {
          (ea, s) \<leftarrow> ma hint s; (eb, s) \<leftarrow> mb (etype ea) s; Some (ea, eb, s) });
     (ea, eb) \<leftarrow> match_lanes ea eb;
     e \<leftarrow> Bin_make op ea eb;
     Some (e, s) }"

definition BinOp_folded :: "float_ops \<Rightarrow> bin_op \<Rightarrow> bool \<Rightarrow> folded_fun \<Rightarrow> folded_fun \<Rightarrow> folded_fun" where
  [simp]: "BinOp_folded F op const_a fa fb ty =
     (if const_a then do {
        (val_b, ty) \<leftarrow> fb ty;
        if (op = OpAnd \<and> val_b = 0) \<or> (op = OpOr \<and> val_b = 1) then Some (val_b, ty)
        else do {
          let l = lanes ty;
          (val_a, ty) \<leftarrow> fa ty;
          constant_fold_bin_op F op (or_lanes l ty) val_a val_b } }
      else do {
        (val_a, ty) \<leftarrow> fa ty;
        if (op = OpAnd \<and> val_a = 0) \<or> (op = OpOr \<and> val_a = 1) then Some (val_a, ty)
        else do {
          let l = lanes ty;
          (val_b, ty) \<leftarrow> fb ty;
          constant_fold_bin_op F op (or_lanes l ty) val_a val_b } })"

definition CmpOp_make :: "cmp_op \<Rightarrow> bool \<Rightarrow> make_fun \<Rightarrow> make_fun \<Rightarrow> make_fun" where
  [simp]: "CmpOp_make op const_a ma mb hint s = do {
     (ea, eb, s) \<leftarrow>
       (if const_a then do {
          (eb, s) \<leftarrow> mb no_type s; (ea, s) \<leftarrow> ma (etype eb) s; Some (ea, eb, s) }
        else do {
          (ea, s) \<leftarrow> ma no_type s; (eb, s) \<leftarrow> mb (etype ea) s; Some (ea, eb, s) });
     (ea, eb) \<leftarrow> match_lanes ea eb;
     e \<leftarrow> Cmp_make op ea eb;
     Some (e, s) }"

definition CmpOp_folded :: "float_ops \<Rightarrow> cmp_op \<Rightarrow> bool \<Rightarrow> folded_fun \<Rightarrow> folded_fun \<Rightarrow> folded_fun" where
  [simp]: "CmpOp_folded F op const_a fa fb ty = do {
     (val_a, val_b, ty) \<leftarrow>
       (if const_a then do {
          (val_b, ty) \<leftarrow> fb ty;
          let l = lanes ty;
          (val_a, ty) \<leftarrow> fa ty;
          Some (val_a, val_b, or_lanes l ty) }
        else do {
          (val_a, ty) \<leftarrow> fa ty;
          let l = lanes ty;
          (val_b, ty) \<leftarrow> fb ty;
          Some (val_a, val_b, or_lanes l ty) });
     val \<leftarrow> constant_fold_cmp_op F op ty val_a val_b;
     Some (val, ty\<lparr>code := Halide_UInt, bits := 1\<rparr>) }"

definition NotOp_folded :: "folded_fun \<Rightarrow> folded_fun" where
  [simp]: "NotOp_folded fa ty = do {
     (val, ty) \<leftarrow> fa ty;
     Some (NOT val AND 1, flag_if (is_float ty) indeterminate_expression_bit ty) }"

definition SelectOp_folded :: "folded_fun \<Rightarrow> folded_fun \<Rightarrow> folded_fun \<Rightarrow> folded_fun" where
  [simp]: "SelectOp_folded fc ft ff ty = do {
     (c_val, c_ty) \<leftarrow> fc no_type;
     (val, ty) \<leftarrow> (if c_val AND 1 = 1 then ft ty else ff ty);
     Some (val, or_lanes (lanes c_ty AND special_values_mask) ty) }"

definition BroadcastOp_make :: "nat option \<Rightarrow> make_fun \<Rightarrow> make_fun" where
  [simp]: "BroadcastOp_make l ma hint s = do {
     let n = (case l of Some n \<Rightarrow> n | None \<Rightarrow> lanes hint);
     (ea, s) \<leftarrow> ma (hint\<lparr>lanes := 1\<rparr>) s;
     e \<leftarrow> Broadcast_make ea n;
     Some (e, s) }"

definition BroadcastOp_folded :: "nat option \<Rightarrow> folded_fun \<Rightarrow> folded_fun" where
  [simp]: "BroadcastOp_folded l fa ty = do {
     let n = (case l of Some n \<Rightarrow> n | None \<Rightarrow> lanes ty);
     (val, ty) \<leftarrow> fa ty;
     Some (val, ty\<lparr>lanes := n OR (lanes ty AND special_values_mask)\<rparr>) }"

definition RampOp_make :: "nat option \<Rightarrow> bool \<Rightarrow> make_fun \<Rightarrow> make_fun \<Rightarrow> make_fun" where
  [simp]: "RampOp_make l const_a ma mb hint s = do {
     let n = (case l of Some n \<Rightarrow> n | None \<Rightarrow> lanes hint);
     let hint = hint\<lparr>lanes := 1\<rparr>;
     (ea, eb, s) \<leftarrow>
       (if const_a then do {
          (eb, s) \<leftarrow> mb hint s; (ea, s) \<leftarrow> ma (etype eb) s; Some (ea, eb, s) }
        else do {
          (ea, s) \<leftarrow> ma hint s; (eb, s) \<leftarrow> mb (etype ea) s; Some (ea, eb, s) });
     e \<leftarrow> Ramp_make ea eb n;
     Some (e, s) }"

definition NegateOp_make :: "float_ops \<Rightarrow> make_fun \<Rightarrow> make_fun" where
  [simp]: "NegateOp_make F ma hint s = do {
     (ea, s) \<leftarrow> ma hint s;
     z \<leftarrow> make_zero F (etype ea);
     e \<leftarrow> Bin_make OpSub z ea;
     Some (e, s) }"

definition NegateOp_folded :: "float_ops \<Rightarrow> folded_fun \<Rightarrow> folded_fun" where
  [simp]: "NegateOp_folded F fa ty = do { (val, ty) \<leftarrow> fa ty; Some (fold_negate F ty val) }"

definition Overflows_folded :: "folded_fun \<Rightarrow> folded_fun" where
  [simp]: "Overflows_folded fa ty = do {
     (val, ty) \<leftarrow> fa ty;
     Some (of_bool (special (lanes ty)), \<lparr>code = Halide_UInt, bits = 64, lanes = 1\<rparr>) }"

definition IsConst_folded :: "make_fun \<Rightarrow> folded_fun" where
  [simp]: "IsConst_folded ma ty = do {
     (e, _) \<leftarrow> ma no_type \<lparr>indeterminates = 0, overflows = 0, tainted = False\<rparr>;
     Some (of_bool (is_const e), \<lparr>code = Halide_UInt, bits = 64, lanes = 1\<rparr>) }"

definition IsFloat_folded :: "make_fun \<Rightarrow> folded_fun" where
  [simp]: "IsFloat_folded ma ty = do {
     (e, _) \<leftarrow> ma no_type \<lparr>indeterminates = 0, overflows = 0, tainted = False\<rparr>;
     Some (of_bool (is_float (etype e)),
           \<lparr>code = Halide_UInt, bits = 1, lanes = lanes (etype e)\<rparr>) }"

definition Intrin_make :: "string \<Rightarrow> make_fun option \<Rightarrow> make_fun" where
  [simp]: "Intrin_make n arg hint s =
     (case arg of None \<Rightarrow> None
      | Some ma \<Rightarrow>
        if n = ''likely'' \<or> n = ''likely_if_innermost'' then do {
          (ea, s) \<leftarrow> ma hint s; e \<leftarrow> likely_make n ea; Some (e, s) }
        else None)"

definition Fold_make :: "float_ops \<Rightarrow> folded_fun \<Rightarrow> make_fun" where
  [simp]: "Fold_make F fa hint s = do { (c, ty) \<leftarrow> fa hint; make_const_expr F c ty s }"

function pat_make :: "float_ops \<Rightarrow> pat \<Rightarrow> matcher_state \<Rightarrow> make_fun"
and make_folded_const :: "float_ops \<Rightarrow> pat \<Rightarrow> matcher_state \<Rightarrow> folded_fun" where
  "pat_make F (SpecificExpr e) \<sigma> hint s = Some (e, s)"
| "pat_make F (Wild i) \<sigma> hint s = do { e \<leftarrow> bindings \<sigma> i; Some (e, s) }"
| "pat_make F (WildConst i) \<sigma> hint s = do { (val, ty) \<leftarrow> bound_const \<sigma> i; make_const_expr F val ty s }"
| "pat_make F (Const v) \<sigma> hint s = do { e \<leftarrow> make_const F hint v; Some (e, s) }"
| "pat_make F (BinOp op a b) \<sigma> hint s =
     BinOp_make op (is_literal_pat a) (pat_make F a \<sigma>) (pat_make F b \<sigma>) hint s"
| "pat_make F (CmpOp op a b) \<sigma> hint s =
     CmpOp_make op (is_literal_pat a) (pat_make F a \<sigma>) (pat_make F b \<sigma>) hint s"
| "pat_make F (Intrin n ps) \<sigma> hint s =
     Intrin_make n (case ps of [] \<Rightarrow> None | a # _ \<Rightarrow> Some (pat_make F a \<sigma>)) hint s"
| "pat_make F (NotOp a) \<sigma> hint s = do {
     (ea, s) \<leftarrow> pat_make F a \<sigma> hint s; e \<leftarrow> Not_make ea; Some (e, s) }"
| "pat_make F (SelectOp c t f) \<sigma> hint s = do {
     (ec, s) \<leftarrow> pat_make F c \<sigma> no_type s;
     (et, s) \<leftarrow> pat_make F t \<sigma> hint s;
     (ef, s) \<leftarrow> pat_make F f \<sigma> hint s;
     e \<leftarrow> Select_make ec et ef;
     Some (e, s) }"
| "pat_make F (BroadcastOp a l) \<sigma> hint s = BroadcastOp_make l (pat_make F a \<sigma>) hint s"
| "pat_make F (RampOp a b l) \<sigma> hint s =
     RampOp_make l (is_literal_pat a) (pat_make F a \<sigma>) (pat_make F b \<sigma>) hint s"
| "pat_make F (NegateOp a) \<sigma> hint s = NegateOp_make F (pat_make F a \<sigma>) hint s"
| "pat_make F (CastOp t a) \<sigma> hint s = do {
     (ea, s) \<leftarrow> pat_make F a \<sigma> no_type s; e \<leftarrow> cast_e F t ea; Some (e, s) }"
| "pat_make F (Fold a) \<sigma> hint s = Fold_make F (make_folded_const F a \<sigma>) hint s"
| "pat_make F Indeterminate \<sigma> hint s =
     make_const_special_expr (or_lanes indeterminate_expression_bit hint) s"
| "pat_make F Overflow \<sigma> hint s =
     make_const_special_expr (or_lanes signed_integer_overflow_bit hint) s"
| "pat_make F (Overflows a) \<sigma> hint s = None"
| "pat_make F (IsConst a) \<sigma> hint s = None"
| "pat_make F (CanProve a) \<sigma> hint s = None"
| "pat_make F (IsFloat a) \<sigma> hint s = None"
| "make_folded_const F (WildConst i) \<sigma> ty = bound_const \<sigma> i"
| "make_folded_const F (Wild i) \<sigma> ty = Wild_folded i \<sigma> ty"
| "make_folded_const F (Const v) \<sigma> ty = Const_folded F v ty"
| "make_folded_const F (BinOp op a b) \<sigma> ty =
     BinOp_folded F op (is_literal_pat a) (make_folded_const F a \<sigma>) (make_folded_const F b \<sigma>) ty"
| "make_folded_const F (CmpOp op a b) \<sigma> ty =
     CmpOp_folded F op (is_literal_pat a) (make_folded_const F a \<sigma>) (make_folded_const F b \<sigma>) ty"
| "make_folded_const F (NotOp a) \<sigma> ty = NotOp_folded (make_folded_const F a \<sigma>) ty"
| "make_folded_const F (SelectOp c t f) \<sigma> ty =
     SelectOp_folded (make_folded_const F c \<sigma>) (make_folded_const F t \<sigma>) (make_folded_const F f \<sigma>) ty"
| "make_folded_const F (BroadcastOp a l) \<sigma> ty = BroadcastOp_folded l (make_folded_const F a \<sigma>) ty"
| "make_folded_const F (NegateOp a) \<sigma> ty = NegateOp_folded F (make_folded_const F a \<sigma>) ty"
| "make_folded_const F (Fold a) \<sigma> ty = make_folded_const F a \<sigma> ty"
| "make_folded_const F (Overflows a) \<sigma> ty = Overflows_folded (make_folded_const F a \<sigma>) ty"
| "make_folded_const F Indeterminate \<sigma> ty = Some (0, or_lanes indeterminate_expression_bit ty)"
| "make_folded_const F Overflow \<sigma> ty = Some (0, or_lanes signed_integer_overflow_bit ty)"
| "make_folded_const F (IsConst a) \<sigma> ty = IsConst_folded (pat_make F a \<sigma>) ty"
| "make_folded_const F (IsFloat a) \<sigma> ty = IsFloat_folded (pat_make F a \<sigma>) ty"
| "make_folded_const F (SpecificExpr e) \<sigma> ty = None"
| "make_folded_const F (Intrin n ps) \<sigma> ty = None"
| "make_folded_const F (RampOp a b l) \<sigma> ty = None"
| "make_folded_const F (CastOp t a) \<sigma> ty = None"
| "make_folded_const F (CanProve a) \<sigma> ty = None"
  by pat_completeness auto

termination
  by (relation "measure (\<lambda>x. case x of
        Inl (F, p, \<sigma>, h, s) \<Rightarrow> size p | Inr (F, p, \<sigma>, h) \<Rightarrow> size p)") auto

section \<open>The rewriter\<close>

text \<open>
  A rule has a pattern, a replacement that is a pattern, a given expression or an
  integer, and a predicate. \<open>can_prove\<close> asks the simplifier itself: it is the parameter
  \<open>prover\<close>, which threads the simplifier's state. The tables use it only as the whole
  predicate of a rule.
\<close>

datatype after = After pat | AfterExpr expr | AfterInt int

datatype rule = Rewrite pat after "pat option"

abbreviation rewrite :: "pat \<Rightarrow> pat \<Rightarrow> rule" where
  "rewrite before aft \<equiv> Rewrite before (After aft) None"
abbreviation rewrite_if :: "pat \<Rightarrow> pat \<Rightarrow> pat \<Rightarrow> rule" where
  "rewrite_if before aft p \<equiv> Rewrite before (After aft) (Some p)"
abbreviation rewrite_expr :: "pat \<Rightarrow> expr \<Rightarrow> rule" where
  "rewrite_expr before e \<equiv> Rewrite before (AfterExpr e) None"
abbreviation rewrite_expr_if :: "pat \<Rightarrow> expr \<Rightarrow> pat \<Rightarrow> rule" where
  "rewrite_expr_if before e p \<equiv> Rewrite before (AfterExpr e) (Some p)"
abbreviation rewrite_int :: "pat \<Rightarrow> int \<Rightarrow> rule" where
  "rewrite_int before v \<equiv> Rewrite before (AfterInt v) None"
abbreviation rewrite_int_if :: "pat \<Rightarrow> int \<Rightarrow> pat \<Rightarrow> rule" where
  "rewrite_int_if before v p \<equiv> Rewrite before (AfterInt v) (Some p)"

type_synonym 's prover = "expr \<Rightarrow> 's \<Rightarrow> (expr \<times> 's) option"

definition bool_type :: halide_type where
  "bool_type = \<lparr>code = Halide_UInt, bits = 1, lanes = 1\<rparr>"

definition set_mach :: "mach \<Rightarrow> 'a mach_scheme \<Rightarrow> 'a mach_scheme" where
  "set_mach m s = s\<lparr>indeterminates := indeterminates m, overflows := overflows m, tainted := tainted m\<rparr>"

definition get_mach :: "'a mach_scheme \<Rightarrow> mach" where
  "get_mach s = \<lparr>indeterminates = indeterminates s, overflows = overflows s, tainted = tainted s\<rparr>"

definition evaluate_predicate ::
  "float_ops \<Rightarrow> 'a mach_scheme prover \<Rightarrow> pat option \<Rightarrow> matcher_state \<Rightarrow> 'a mach_scheme \<Rightarrow>
   (bool \<times> 'a mach_scheme) option" where
  "evaluate_predicate F prover p \<sigma> s =
     (case p of
        None \<Rightarrow> Some (True, s)
      | Some (CanProve a) \<Rightarrow> do {
          (condition, m) \<leftarrow> pat_make F a \<sigma> no_type (get_mach s);
          (condition, s) \<leftarrow> prover condition (set_mach m s);
          Some (is_one F condition \<and> \<not> special (lanes (etype condition)), s) }
      | Some p \<Rightarrow> do {
          (c, ty) \<leftarrow> make_folded_const F p \<sigma> bool_type;
          Some (c \<noteq> 0 \<and> \<not> special (lanes ty), s) })"

definition build_replacement ::
  "float_ops \<Rightarrow> after \<Rightarrow> matcher_state \<Rightarrow> halide_type \<Rightarrow> 'a mach_scheme \<Rightarrow>
   (expr \<times> 'a mach_scheme) option" where
  "build_replacement F aft \<sigma> output_type s =
     (case aft of
        After p \<Rightarrow> do { (e, m) \<leftarrow> pat_make F p \<sigma> output_type (get_mach s); Some (e, set_mach m s) }
      | AfterExpr e \<Rightarrow> Some (e, s)
      | AfterInt v \<Rightarrow> do { e \<leftarrow> make_const F output_type v; Some (e, s) })"

text \<open>One rule; \<open>Some (None, s)\<close>: it does not apply.\<close>

definition apply_rule ::
  "float_ops \<Rightarrow> 'a mach_scheme prover \<Rightarrow> rule \<Rightarrow> expr \<Rightarrow> halide_type \<Rightarrow> 'a mach_scheme \<Rightarrow>
   (expr option \<times> 'a mach_scheme) option" where
  "apply_rule F prover r inst output_type s =
     (case r of Rewrite lhs aft p \<Rightarrow>
        case pmatch F lhs inst empty_state of
          None \<Rightarrow> Some (None, s)
        | Some \<sigma> \<Rightarrow> do {
            (b, s) \<leftarrow> evaluate_predicate F prover p \<sigma> s;
            if b then do { (e, s) \<leftarrow> build_replacement F aft \<sigma> output_type s; Some (Some e, s) }
            else Some (None, s) })"

text \<open>The disjunction of a list of rules: the first that applies.\<close>

fun apply_rules ::
  "float_ops \<Rightarrow> 'a mach_scheme prover \<Rightarrow> rule list \<Rightarrow> expr \<Rightarrow> halide_type \<Rightarrow> 'a mach_scheme \<Rightarrow>
   (expr option \<times> 'a mach_scheme) option" where
  "apply_rules F prover [] inst ot s = Some (None, s)"
| "apply_rules F prover (r # rs) inst ot s = do {
     (res, s) \<leftarrow> apply_rule F prover r inst ot s;
     case res of Some e \<Rightarrow> Some (Some e, s) | None \<Rightarrow> apply_rules F prover rs inst ot s }"

lemmas matcher_defs [halide_defs] =
  empty_state_def set_binding_def set_bound_const_def special_def or_lanes_def flag_if_def
  make_const_special_expr_def make_const_expr_def scalar_of_def match_const_def
  WildConstInt_match_def WildConstUInt_match_def WildConstFloat_match_def WildConst_match_def
  sign_bits_def mask_bits_def fold_Add_def fold_Sub_def fold_Mul_def fold_Div_def fold_Mod_def
  fold_Min_def fold_Max_def fold_Or_def fold_And_def fold_LT_def fold_LE_def fold_GT_def
  fold_GE_def fold_EQ_def fold_NE_def fold_negate_def no_type_def match_lanes_def bool_type_def
  set_mach_def get_mach_def evaluate_predicate_def build_replacement_def apply_rule_def

end
