(* ===== verification/FoldSound.thy ===== *)
theory FoldSound
  imports Matcher
begin

text \<open>
  The denotation of patterns: the value of a pattern under an assignment of types and
  values to its wildcards, at a type \<open>h\<close> (code and width). This theory states it and
  proves that constant folding computes it, unless it flags a special value.
\<close>

section \<open>Element types\<close>

type_synonym ety = "type_code \<times> nat"

definition ety :: "halide_type \<Rightarrow> ety" where
  "ety t = (code t, bits t)"

definition nrm :: "ety \<Rightarrow> int \<Rightarrow> int" where
  "nrm h = wrap_ty (fst h) (snd h)"

definition wide :: "ety \<Rightarrow> bool" where
  "wide h \<longleftrightarrow> fst h = Halide_Int \<and> 32 \<le> snd h"

definition num_ety :: "ety \<Rightarrow> bool" where
  "num_ety h \<longleftrightarrow> h \<in> {(Halide_Int, 8), (Halide_Int, 16), (Halide_Int, 32), (Halide_Int, 64),
     (Halide_UInt, 1), (Halide_UInt, 8), (Halide_UInt, 16), (Halide_UInt, 32), (Halide_UInt, 64)}"

abbreviation bool_ety :: ety where "bool_ety \<equiv> (Halide_UInt, 1)"

lemma norm_nrm: "norm t = nrm (ety t)"
  by (simp add: norm_def nrm_def ety_def fun_eq_iff)

lemma wide_nrm [simp]: "wide h \<Longrightarrow> nrm h v = v"
  by (simp add: wide_def nrm_def wrap_ty_def)

lemma nrm_0 [simp]: "nrm h 0 = 0"
  by (simp add: nrm_def wrap_ty_def split: type_code.splits)

lemma legal_num_ety: "legal_type t \<Longrightarrow> is_num t \<Longrightarrow> num_ety (ety t)"
  by (auto simp: legal_type_def is_num_def is_int_def is_uint_def num_ety_def ety_def)

lemma is_bool_ety: "is_bool t \<longleftrightarrow> ety t = bool_ety"
  by (simp add: is_bool_def ety_def)

lemma no_overflow_int_wide: "no_overflow_int t \<longleftrightarrow> wide (ety t)"
  by (simp add: no_overflow_int_def wide_def ety_def is_int_def)

definition hmod :: "ety \<Rightarrow> int" where
  "hmod h = (case fst h of Halide_Int \<Rightarrow> if 32 \<le> snd h then 0 else 2 ^ Suc (snd h - 1)
                         | Halide_UInt \<Rightarrow> 2 ^ snd h | _ \<Rightarrow> 0)"

interpretation nrm: wrapping "hmod h" "nrm h" for h
proof -
  have "norm \<lparr>code = fst h, bits = snd h, lanes = 1\<rparr> = nrm h"
    by (simp add: norm_nrm ety_def)
  moreover have "ty_modulus \<lparr>code = fst h, bits = snd h, lanes = 1\<rparr> = hmod h"
    by (auto simp: ty_modulus_def hmod_def is_int_def is_uint_def split: type_code.splits)
  ultimately show "wrapping (hmod h) (nrm h)"
    using norm.wrapping_axioms [of "\<lparr>code = fst h, bits = snd h, lanes = 1\<rparr>"] by simp
qed

section \<open>Folding by type\<close>

fun fold_bin_int ::
  "bin_op \<Rightarrow> halide_type \<Rightarrow> scalar_value \<Rightarrow> scalar_value \<Rightarrow> (scalar_value \<times> halide_type) option" where
  "fold_bin_int OpAdd t a b = Some (sign_bits t (a + b),
     flag_if (bits t \<ge> 32 \<and> add_would_overflow (bits t) (sint a) (sint b)) signed_integer_overflow_bit t)"
| "fold_bin_int OpSub t a b = Some (sign_bits t (a - b),
     flag_if (bits t \<ge> 32 \<and> sub_would_overflow (bits t) (sint a) (sint b)) signed_integer_overflow_bit t)"
| "fold_bin_int OpMul t a b = Some (sign_bits t (a * b),
     flag_if (bits t \<ge> 32 \<and> mul_would_overflow (bits t) (sint a) (sint b)) signed_integer_overflow_bit t)"
| "fold_bin_int OpDiv t a b =
     (if b = 0 then Some (0, or_lanes indeterminate_expression_bit t)
      else do { q \<leftarrow> div_imp (sint a) (sint b); Some (word_of_int q, t) })"
| "fold_bin_int OpMod t a b =
     (if b = 0 then Some (0, or_lanes indeterminate_expression_bit t)
      else do { r \<leftarrow> mod_imp (sint a) (sint b); Some (word_of_int r, t) })"
| "fold_bin_int OpMin t a b = Some (if sint b < sint a then b else a, t)"
| "fold_bin_int OpMax t a b = Some (if sint a < sint b then b else a, t)"
| "fold_bin_int OpOr t a b = Some ((a OR b) AND 1, t)"
| "fold_bin_int OpAnd t a b = Some (a AND b AND 1, t)"

fun fold_bin_uint ::
  "bin_op \<Rightarrow> halide_type \<Rightarrow> scalar_value \<Rightarrow> scalar_value \<Rightarrow> scalar_value \<times> halide_type" where
  "fold_bin_uint OpAdd t a b = (mask_bits t (a + b), t)"
| "fold_bin_uint OpSub t a b = (mask_bits t (a - b), t)"
| "fold_bin_uint OpMul t a b = (mask_bits t (a * b), t)"
| "fold_bin_uint OpDiv t a b =
     (if b = 0 then (0, or_lanes indeterminate_expression_bit t) else (a div b, t))"
| "fold_bin_uint OpMod t a b =
     (if b = 0 then (0, or_lanes indeterminate_expression_bit t) else (a mod b, t))"
| "fold_bin_uint OpMin t a b = (if b < a then b else a, t)"
| "fold_bin_uint OpMax t a b = (if a < b then b else a, t)"
| "fold_bin_uint OpOr t a b = ((a OR b) AND 1, t)"
| "fold_bin_uint OpAnd t a b = (a AND b AND 1, t)"

text \<open>The operators again, for a given type of the operands.\<close>

lemmas fold_defs =
  fold_Add_def fold_Sub_def fold_Mul_def fold_Div_def fold_Mod_def fold_Min_def fold_Max_def
  fold_Or_def fold_And_def fold_LT_def fold_LE_def fold_GT_def fold_GE_def fold_EQ_def fold_NE_def

lemma constant_fold_int: "code t = Halide_Int \<Longrightarrow> constant_fold_bin_op F op t a b = fold_bin_int op t a b"
  and constant_fold_uint: "code t = Halide_UInt \<Longrightarrow> constant_fold_bin_op F op t a b = Some (fold_bin_uint op t a b)"
  by (cases op; simp add: fold_defs)+

lemma constant_fold_cmp:
  "code t = Halide_Int \<Longrightarrow> constant_fold_cmp_op F op t a b = Some (of_bool (cmp_holds op (sint a) (sint b)))"
  "code t = Halide_UInt \<Longrightarrow> constant_fold_cmp_op F op t a b = Some (of_bool (cmp_holds op (uint a) (uint b)))"
  by (cases op; simp add: fold_defs word_less_def word_le_def word_uint_eq_iff)+

lemma constant_fold_cmp_handle: "code t = Halide_Handle \<Longrightarrow> constant_fold_cmp_op F op t a b = None"
  by (cases op; simp add: fold_defs)

section \<open>Assignments\<close>

record vctx =
  wty :: "nat \<Rightarrow> ety"
  wval :: "nat \<Rightarrow> int"
  cty :: "nat \<Rightarrow> ety"
  cval :: "nat \<Rightarrow> int"
  sval :: "expr \<Rightarrow> int"
  lane :: nat

fun bin_tot :: "bin_op \<Rightarrow> (int \<Rightarrow> int) \<Rightarrow> int \<Rightarrow> int \<Rightarrow> int" where
  "bin_tot OpAdd N a b = N (a + b)"
| "bin_tot OpSub N a b = N (a - b)"
| "bin_tot OpMul N a b = N (a * b)"
| "bin_tot OpDiv N a b = N (ediv a b)"
| "bin_tot OpMod N a b = emod a b"
| "bin_tot OpMin N a b = min a b"
| "bin_tot OpMax N a b = max a b"
| "bin_tot OpAnd N a b = (if a \<noteq> 0 \<and> b \<noteq> 0 then 1 else 0)"
| "bin_tot OpOr N a b = (if a \<noteq> 0 \<or> b \<noteq> 0 then 1 else 0)"

abbreviation divides :: "bin_op \<Rightarrow> bool" where
  "divides op \<equiv> op = OpDiv \<or> op = OpMod"

lemma bin_val_tot: "bin_val op N a b = (if divides op \<and> b = 0 then None else Some (bin_tot op N a b))"
  by (cases op) auto

fun or_else :: "'a option \<Rightarrow> 'a option \<Rightarrow> 'a option" where
  "or_else (Some x) y = Some x"
| "or_else None y = y"

lemma or_else_None [simp]: "or_else x None = x"
  by (cases x) auto

text \<open>The element type of a pattern, where its leaves determine it.\<close>

fun lty :: "vctx \<Rightarrow> pat \<Rightarrow> ety option" where
  "lty V (SpecificExpr e) = Some (ety (etype e))"
| "lty V (WildConst i) = Some (cty V i)"
| "lty V (Wild i) = Some (wty V i)"
| "lty V (BinOp op a b) =
     (if op = OpAnd \<or> op = OpOr then Some bool_ety else or_else (lty V a) (lty V b))"
| "lty V (CmpOp op a b) = Some bool_ety"
| "lty V (NotOp a) = Some bool_ety"
| "lty V (Intrin n ps) = (case ps of [] \<Rightarrow> None | p # _ \<Rightarrow> lty V p)"
| "lty V (SelectOp c t f) = or_else (lty V t) (lty V f)"
| "lty V (BroadcastOp a l) = lty V a"
| "lty V (RampOp a b l) = or_else (lty V a) (lty V b)"
| "lty V (NegateOp a) = lty V a"
| "lty V (CastOp t a) = Some (ety t)"
| "lty V (Fold a) = lty V a"
| "lty V _ = None"

definition chint :: "vctx \<Rightarrow> pat \<Rightarrow> pat \<Rightarrow> ety" where
  "chint V a b = the (or_else (lty V a) (lty V b))"

text \<open>Values of folded patterns and of patterns.\<close>

fun fval :: "vctx \<Rightarrow> ety \<Rightarrow> pat \<Rightarrow> int" where
  "fval V h (WildConst i) = cval V i"
| "fval V h (Const v) = (if fst h = Halide_UInt then take_bit 64 v else v)"
| "fval V h (BinOp op a b) = bin_tot op (nrm h) (fval V h a) (fval V h b)"
| "fval V h (CmpOp op a b) = cmp_val op (fval V (chint V a b) a) (fval V (chint V a b) b)"
| "fval V h (NotOp a) = (if fval V h a = 0 then 1 else 0)"
| "fval V h (NegateOp a) = nrm h (- fval V h a)"
| "fval V h (Fold a) = fval V h a"
| "fval V h _ = 0"

fun fdef :: "vctx \<Rightarrow> ety \<Rightarrow> pat \<Rightarrow> bool" where
  "fdef V h (BinOp op a b) \<longleftrightarrow> fdef V h a \<and> fdef V h b \<and> (divides op \<longrightarrow> fval V h b \<noteq> 0)"
| "fdef V h (CmpOp op a b) \<longleftrightarrow> fdef V (chint V a b) a \<and> fdef V (chint V a b) b"
| "fdef V h (NotOp a) = fdef V h a"
| "fdef V h (NegateOp a) = fdef V h a"
| "fdef V h (Fold a) = fdef V h a"
| "fdef V h _ = True"

text \<open>Shapes: division-free arithmetic on constants, with small literals.\<close>

fun arith :: "pat \<Rightarrow> bool" where
  "arith (WildConst i) = True"
| "arith (Const v) \<longleftrightarrow> - (2 ^ 30) < v \<and> v < 2 ^ 30"
| "arith (BinOp op a b) \<longleftrightarrow> op \<notin> {OpDiv, OpAnd, OpOr} \<and> arith a \<and> arith b"
| "arith (NegateOp a) = arith a"
| "arith (Fold a) = arith a"
| "arith _ = False"

text \<open>The leaf that is evaluated first is a constant wildcard, which has a type.\<close>

fun typed_leaf :: "pat \<Rightarrow> bool" where
  "typed_leaf (WildConst i) = True"
| "typed_leaf (BinOp op a b) = (if is_literal_pat a then typed_leaf b else typed_leaf a)"
| "typed_leaf (NegateOp a) = typed_leaf a"
| "typed_leaf (Fold a) = typed_leaf a"
| "typed_leaf _ = False"

text \<open>All constant wildcards have the type \<open>h\<close>.\<close>

fun fwt :: "vctx \<Rightarrow> ety \<Rightarrow> pat \<Rightarrow> bool" where
  "fwt V h (WildConst i) \<longleftrightarrow> cty V i = h"
| "fwt V h (Const v) = True"
| "fwt V h (BinOp op a b) \<longleftrightarrow> fwt V h a \<and> fwt V h b"
| "fwt V h (NegateOp a) = fwt V h a"
| "fwt V h (Fold a) = fwt V h a"
| "fwt V h _ = False"

text \<open>Reading a folded value at a type.\<close>

definition rd :: "ety \<Rightarrow> scalar_value \<Rightarrow> int" where
  "rd h v = (if fst h = Halide_Int then sint v else uint v)"

definition in_ety :: "ety \<Rightarrow> int \<Rightarrow> bool" where
  "in_ety h v \<longleftrightarrow> (if fst h = Halide_Int then fits (snd h) v else 0 \<le> v \<and> v < 2 ^ snd h)"

text \<open>What a matcher state binds is well formed and has a value.\<close>

definition good :: "eval_env \<Rightarrow> nat \<Rightarrow> matcher_state \<Rightarrow> bool" where
  "good env l \<sigma> \<longleftrightarrow>
     (\<forall>i e. bindings \<sigma> i = Some e \<longrightarrow> wf e \<and> eval env e l \<noteq> None) \<and>
     (\<forall>i v t. bound_const \<sigma> i = Some (v, t) \<longrightarrow>
        legal_type t \<and> is_num t \<and> in_ety (ety t) (rd (ety t) v))"

definition agrees :: "eval_env \<Rightarrow> vctx \<Rightarrow> matcher_state \<Rightarrow> bool" where
  "agrees env V \<sigma> \<longleftrightarrow>
     (\<forall>i e. bindings \<sigma> i = Some e \<longrightarrow> wty V i = ety (etype e) \<and> eval env e (lane V) = Some (wval V i)) \<and>
     (\<forall>i v t. bound_const \<sigma> i = Some (v, t) \<longrightarrow> cty V i = ety t \<and> cval V i = rd (ety t) v) \<and>
     (\<forall>e v. eval env e (lane V) = Some v \<longrightarrow> sval V e = v)"

section \<open>Words\<close>

lemma sint_sign_bits:
  assumes "0 < bits t" "bits t \<le> 64"
  shows "sint (sign_bits t (word_of_int v)) = signed_take_bit (bits t - 1) v"
proof -
  obtain k where k: "bits t = Suc k" "k \<le> 63"
    using assms by (cases "bits t") auto
  show ?thesis
  proof (rule bit_eqI)
    fix n
    consider "n < k" | "n = k" | "k < n" by linarith
    then show "bit (sint (sign_bits t (word_of_int v))) n = bit (signed_take_bit (bits t - 1) v) n"
      using k
      by cases (cases "k = 63"; auto simp: sign_bits_def Let_def bit_simps min_def)+
  qed
qed

lemma uint_mask_bits:
  assumes "bits t \<le> 64"
  shows "uint (mask_bits t (word_of_int v)) = take_bit (bits t) v"
  using assms by (intro bit_eqI) (auto simp: mask_bits_def bit_simps)

lemma sint_word_of_int: "int64 v \<Longrightarrow> sint (word_of_int v :: scalar_value) = v"
  using wrap64_id [of v] by (simp add: wrap64_def sint_sbintrunc')

lemma uint_word_of_int: "uint (word_of_int v :: scalar_value) = take_bit 64 v"
  by (simp add: unsigned_of_int)

lemma int64_sint [simp]: "int64 (sint (v :: scalar_value))"
  using sint_range_size [of v] by (simp add: int64_def word_size)

section \<open>Special lanes\<close>

lemma special_or [simp]: "special (a OR b) \<longleftrightarrow> special a \<or> special b"
proof -
  have "(a OR b) AND m = (a AND m) OR (b AND m)" for m :: nat
    by (rule bit_eqI) (auto simp: bit_simps)
  then show ?thesis by (simp add: special_def or_eq_0_iff)
qed

lemma special_flags [simp]:
  "special signed_integer_overflow_bit" "special indeterminate_expression_bit" "\<not> special 0" "\<not> special 1"
  by (simp_all add: special_def)

lemma or_less_2p: "a < 2 ^ n \<Longrightarrow> b < 2 ^ n \<Longrightarrow> (a OR b :: nat) < 2 ^ n"
  by (metis take_bit_nat_eq_self_iff take_bit_or)

lemma or_pos: "0 < a \<Longrightarrow> 0 < (a OR b :: nat)"
  by (simp add: or_eq_0_iff neq0_conv [symmetric] del: neq0_conv)

lemma not_special_less:
  assumes "\<not> special l" "l < 2 ^ 16"
  shows "l < 2 ^ 14"
proof -
  have "\<not> bit l 14 \<and> \<not> bit l 15"
  proof (rule ccontr)
    assume a: "\<not> (\<not> bit l 14 \<and> \<not> bit l 15)"
    have "bit (special_values_mask) 14" "bit (special_values_mask) 15"
      by (simp_all add: bit_iff_odd)
    then have "bit (l AND special_values_mask) 14 \<or> bit (l AND special_values_mask) 15"
      using a by (auto simp: bit_and_iff)
    then show False using assms(1) by (auto simp: special_def)
  qed
  moreover have t: "take_bit 16 l = l" using assms(2) by (rule take_bit_nat_eq_self)
  have "\<not> bit l n" if "16 \<le> n" for n
    using that t by (metis bit_take_bit_iff not_less)
  ultimately have "\<not> bit l n" if "14 \<le> n" for n
    using that by (cases "n = 14"; cases "n = 15") auto
  then have "take_bit 14 l = l"
    by (intro bit_eqI) (meson bit_take_bit_iff linorder_not_less)
  then show ?thesis by (metis take_bit_nat_less_exp)
qed

lemma less_not_special: "l < 2 ^ 14 \<Longrightarrow> \<not> special l"
proof -
  assume "l < 2 ^ 14"
  then have t: "take_bit 14 l = l" by (rule take_bit_nat_eq_self)
  have "take_bit 14 special_values_mask = (0::nat)" by (simp add: take_bit_eq_mod)
  then have "take_bit 14 (l AND special_values_mask) = 0" by simp
  moreover have "take_bit 14 (l AND special_values_mask) = l AND special_values_mask"
    using t by (metis and.assoc and.commute take_bit_eq_mask)
  ultimately show ?thesis by (simp add: special_def)
qed

lemma or_lanes_sel [simp]:
  "lanes (or_lanes l t) = lanes t OR l" "code (or_lanes l t) = code t" "bits (or_lanes l t) = bits t"
  "ety (or_lanes l t) = ety t"
  by (simp_all add: or_lanes_def ety_def)

lemma flag_if_sel [simp]:
  "lanes (flag_if c f t) = lanes t OR (if c then f else 0)" "code (flag_if c f t) = code t"
  "bits (flag_if c f t) = bits t" "ety (flag_if c f t) = ety t"
  by (simp_all add: flag_if_def)

section \<open>Folding arithmetic\<close>

lemma num_ety_cases:
  assumes "num_ety h"
  obtains "fst h = Halide_Int" "0 < snd h" "snd h \<le> 64" | "fst h = Halide_UInt" "0 < snd h" "snd h \<le> 64"
  using assms by (auto simp: num_ety_def)

lemma nrm_int: "fst h = Halide_Int \<Longrightarrow> snd h < 32 \<Longrightarrow> nrm h v = signed_take_bit (snd h - 1) v"
  and nrm_uint: "fst h = Halide_UInt \<Longrightarrow> nrm h v = take_bit (snd h) v"
  by (simp_all add: nrm_def wrap_ty_def)

text \<open>What an arithmetic operator folds to, at a signed and at an unsigned type.\<close>

definition ring_op :: "bin_op \<Rightarrow> bool" where
  "ring_op op \<longleftrightarrow> op \<in> {OpAdd, OpSub, OpMul}"

lemma word_ring:
  "(a + b :: scalar_value) = word_of_int (sint a + sint b)"
  "(a - b :: scalar_value) = word_of_int (sint a - sint b)"
  "(a * b :: scalar_value) = word_of_int (sint a * sint b)"
  "(- b :: scalar_value) = word_of_int (- sint b)"
  by simp_all

lemma word_ring_u:
  "(a + b :: scalar_value) = word_of_int (uint a + uint b)"
  "(a - b :: scalar_value) = word_of_int (uint a - uint b)"
  "(a * b :: scalar_value) = word_of_int (uint a * uint b)"
  "(- b :: scalar_value) = word_of_int (- uint b)"
  by simp_all

lemma sign_bits_ring:
  assumes "0 < bits t" "bits t \<le> 64"
  shows "sint (sign_bits t (a + b)) = signed_take_bit (bits t - 1) (sint a + sint b)"
    "sint (sign_bits t (a - b)) = signed_take_bit (bits t - 1) (sint a - sint b)"
    "sint (sign_bits t (a * b)) = signed_take_bit (bits t - 1) (sint a * sint b)"
    "sint (sign_bits t (- b)) = signed_take_bit (bits t - 1) (- sint b)"
  by (simp_all only: word_ring sint_sign_bits [OF assms])

lemma mask_bits_ring:
  assumes "bits t \<le> 64"
  shows "uint (mask_bits t (a + b)) = take_bit (bits t) (uint a + uint b)"
    "uint (mask_bits t (a - b)) = take_bit (bits t) (uint a - uint b)"
    "uint (mask_bits t (a * b)) = take_bit (bits t) (uint a * uint b)"
  by (simp_all only: word_ring_u uint_mask_bits [OF assms])

definition op_overflows :: "bin_op \<Rightarrow> nat \<Rightarrow> int \<Rightarrow> int \<Rightarrow> bool" where
  "op_overflows op = (case op of OpAdd \<Rightarrow> add_would_overflow | OpSub \<Rightarrow> sub_would_overflow
                      | _ \<Rightarrow> mul_would_overflow)"

lemma fold_ring_int:
  assumes "ring_op op" "code t = Halide_Int" "num_ety (ety t)"
    and "wide (ety t) \<Longrightarrow> fits (bits t) (sint a) \<and> fits (bits t) (sint b)"
    and "fold_bin_int op t a b = Some (v, t')" "\<not> special (lanes t')"
  shows "sint v = bin_tot op (nrm (ety t)) (sint a) (sint b) \<and> (wide (ety t) \<longrightarrow> fits (bits t) (sint v))"
proof -
  have b: "0 < bits t" "bits t \<le> 64" and n: "num_ety (Halide_Int, bits t)"
    using assms(2,3) by (auto simp: num_ety_def ety_def)
  let ?r = "bin_tot op id (sint a) (sint b)"
  have v: "sint v = signed_take_bit (bits t - 1) ?r"
    and no: "\<not> (bits t \<ge> 32 \<and> op_overflows op (bits t) (sint a) (sint b))"
    using assms(1,5,6) sign_bits_ring(1-3) [OF b, of a b]
    by (auto simp: ring_op_def op_overflows_def simp del: One_nat_def split: if_splits)
  show ?thesis
  proof (cases "wide (ety t)")
    case True
    then have "\<not> op_overflows op (bits t) (sint a) (sint b)"
      using no by (simp add: wide_def ety_def)
    then have "fits (bits t) ?r"
      using assms(1) assms(4) [OF True] b
      by (auto simp: ring_op_def op_overflows_def add_would_overflow_iff sub_would_overflow_iff
          mul_would_overflow_iff)
    moreover have "bin_tot op (nrm (ety t)) (sint a) (sint b) = ?r"
      using assms(1) True by (auto simp: ring_op_def)
    ultimately show ?thesis
      using v fits_signed_take_bit_id by simp
  next
    case False
    then have "nrm (ety t) = signed_take_bit (bits t - 1)"
      using assms(2) nrm_int [of "ety t"] by (auto simp: wide_def ety_def fun_eq_iff)
    then show ?thesis
      using v assms(1) False by (auto simp: ring_op_def)
  qed
qed

lemma fold_ring_uint:
  assumes "ring_op op" "code t = Halide_UInt" "num_ety (ety t)" "fold_bin_uint op t a b = (v, t')"
  shows "uint v = bin_tot op (nrm (ety t)) (uint a) (uint b)"
proof -
  have b: "bits t \<le> 64" using assms(3) by (auto simp: num_ety_def ety_def)
  have "nrm (ety t) = take_bit (bits t)"
    using assms(2) nrm_uint [of "ety t"] by (auto simp: ety_def fun_eq_iff)
  then show ?thesis
    using assms(1,4) mask_bits_ring [OF b, of a b] by (auto simp: ring_op_def)
qed

lemma sint_0_iff: "sint (b :: scalar_value) = 0 \<longleftrightarrow> b = 0"
  and uint_0_iff: "uint (b :: scalar_value) = 0 \<longleftrightarrow> b = 0"
  by (simp_all add: unsigned_eq_0_iff signed_eq_0_iff)

lemma emod_between: "b \<noteq> 0 \<Longrightarrow> int64 b \<Longrightarrow> int64 (emod a b)"
  using emod_bounds [of b a] by (auto simp: int64_def abs_if simp del: emod_pos emod_neg split: if_splits)

lemma fits_emod: "b \<noteq> 0 \<Longrightarrow> fits n b \<Longrightarrow> fits n (emod a b)"
  using emod_bounds [of b a] by (auto simp: fits_def abs_if simp del: emod_pos emod_neg split: if_splits)

lemma fold_select_int:
  assumes "op \<in> {OpMod, OpMin, OpMax}" "fold_bin_int op t a b = Some (v, t')" "\<not> special (lanes t')"
  shows "sint v = bin_tot op N (sint a) (sint b) \<and> (divides op \<longrightarrow> sint b \<noteq> 0) \<and>
    (fits (bits t) (sint a) \<and> fits (bits t) (sint b) \<longrightarrow> fits (bits t) (sint v))"
proof (cases "op = OpMod")
  case True
  then obtain r where "b \<noteq> 0" and r: "mod_imp (sint a) (sint b) = Some r" and v: "v = word_of_int r"
    using assms(2,3) by (auto simp: bind_eq_Some_conv split: if_splits)
  then have nz: "sint b \<noteq> 0" and "r = emod (sint a) (sint b)"
    using mod_imp_SomeD [OF r] by (simp_all add: sint_0_iff)
  then have "sint v = emod (sint a) (sint b)"
    using v emod_between [OF nz int64_sint] by (simp add: sint_word_of_int)
  then show ?thesis
    using True nz fits_emod [OF nz] by auto
next
  case False
  then show ?thesis using assms(1,2) by (auto simp: min_def max_def)
qed

lemma fold_select_uint:
  assumes "op \<in> {OpMod, OpMin, OpMax}" "fold_bin_uint op t a b = (v, t')" "\<not> special (lanes t')"
  shows "uint v = bin_tot op N (uint a) (uint b) \<and> (divides op \<longrightarrow> uint b \<noteq> 0)"
proof (cases "op = OpMod")
  case True
  then have nz: "b \<noteq> 0" and v: "v = a mod b"
    using assms(2,3) by (auto split: if_splits)
  have "0 < uint b" using nz by (simp add: uint_0_iff less_le)
  then show ?thesis
    using True nz v by (simp add: uint_mod uint_0_iff)
next
  case False
  then show ?thesis using assms(1,2) by (auto simp: min_def max_def word_le_def word_less_def)
qed

lemma push_bit_min_iff:
  assumes "32 \<le> n" "n \<le> 64" "fits n (sint v)" "v \<noteq> 0"
  shows "push_bit (65 - n) v = (0 :: scalar_value) \<longleftrightarrow> sint v = - (2 ^ (n - 1))"
proof -
  have "push_bit (65 - n) v = 0 \<longleftrightarrow> (word_of_int (push_bit (65 - n) (sint v)) :: scalar_value) = 0"
    by (simp only: push_bit_eq_mult) simp
  also have "\<dots> \<longleftrightarrow> 2 ^ 64 dvd 2 ^ (65 - n) * sint v"
    by (simp only: word_of_int_eq_0_iff push_bit_eq_mult mult.commute) simp
  also have "(2::int) ^ 64 = 2 ^ (65 - n) * 2 ^ (n - 1)"
    using assms(1,2) by (simp flip: power_add)
  also have "2 ^ (65 - n) * 2 ^ (n - 1) dvd 2 ^ (65 - n) * sint v \<longleftrightarrow> 2 ^ (n - 1) dvd sint v"
    by simp
  also have "\<dots> \<longleftrightarrow> sint v = - (2 ^ (n - 1))"
  proof
    assume d: "2 ^ (n - 1) dvd sint v"
    have "sint v \<noteq> 0" using assms(4) by (simp add: sint_0_iff)
    then have "2 ^ (n - 1) \<le> \<bar>sint v\<bar>"
      using dvd_imp_le_int [OF _ d] by simp
    then show "sint v = - (2 ^ (n - 1))"
      using assms(3) by (auto simp: fits_def)
  qed simp
  finally show ?thesis .
qed

lemma fold_negate_int:
  assumes "code t = Halide_Int" "num_ety (ety t)" "wide (ety t) \<Longrightarrow> fits (bits t) (sint a)"
    and "fold_negate F t a = (v, t')" "\<not> special (lanes t')"
  shows "sint v = nrm (ety t) (- sint a) \<and> (wide (ety t) \<longrightarrow> fits (bits t) (sint v))"
proof -
  have b: "0 < bits t" "bits t \<le> 64" using assms(2) by (auto simp: num_ety_def ety_def)
  have v: "sint v = signed_take_bit (bits t - 1) (- sint a)"
    and no: "\<not> (bits t \<ge> 32 \<and> a \<noteq> 0 \<and> push_bit (65 - bits t) a = 0)"
    using assms(1,4,5) sign_bits_ring(4) [OF b, of a]
    by (auto simp: fold_negate_def simp del: One_nat_def split: if_splits)
  show ?thesis
  proof (cases "wide (ety t)")
    case True
    have "fits (bits t) (- sint a)"
      using no push_bit_min_iff [of "bits t" a] assms(3) True b
      by (cases "a = 0") (auto simp: wide_def ety_def fits_def)
    then show ?thesis
      using v True fits_signed_take_bit_id by simp
  next
    case False
    then have "nrm (ety t) = signed_take_bit (bits t - 1)"
      using assms(1) nrm_int [of "ety t"] by (auto simp: wide_def ety_def fun_eq_iff)
    then show ?thesis using v False by simp
  qed
qed

lemma fold_negate_uint:
  assumes "code t = Halide_UInt" "num_ety (ety t)" "fold_negate F t a = (v, t')"
  shows "uint v = nrm (ety t) (- uint a)"
proof -
  have b: "bits t \<le> 64" using assms(2) by (auto simp: num_ety_def ety_def)
  have "drop_bit (64 - bits t) (push_bit (64 - bits t) (- a)) = mask_bits t (- a)"
    using b by (intro bit_eqI) (auto simp: mask_bits_def bit_simps)
  then have "uint v = uint (mask_bits t (- a))"
    using assms(1,3) by (auto simp: fold_negate_def)
  also have "\<dots> = take_bit (bits t) (- uint a)"
    by (simp only: word_ring_u(4) uint_mask_bits [OF b])
  finally show ?thesis
    using assms(1) nrm_uint [of "ety t"] by (simp add: ety_def)
qed

lemma fold_negate_type: "fold_negate F t a = (v, t') \<Longrightarrow> ety t' = ety t \<and>
    (\<exists>k. lanes t' = lanes t OR k \<and> k \<in> {0, signed_integer_overflow_bit})"
  by (auto simp: fold_negate_def ety_def split: if_splits type_code.splits intro: exI [of _ 0])

lemma fold_bin_type:
  assumes "constant_fold_bin_op F op t a b = Some (v, t')"
  shows "ety t' = ety t \<and>
    (\<exists>k. lanes t' = lanes t OR k \<and> k \<in> {0, signed_integer_overflow_bit, indeterminate_expression_bit})"
  using assms
  by (cases op)
    (auto simp: fold_defs bind_eq_Some_conv split: type_code.splits if_splits
      intro: exI [of _ 0])

lemma small_fits: "- (2 ^ 30) < v \<Longrightarrow> v < 2 ^ 30 \<Longrightarrow> 32 \<le> n \<Longrightarrow> fits n v"
proof -
  assume v: "- (2 ^ 30) < v" "v < 2 ^ 30" and "32 \<le> n"
  then have "(2::int) ^ 30 \<le> 2 ^ (n - 1)" by (intro power_increasing) auto
  then show ?thesis using v unfolding fits_def by linarith
qed

lemma or_lanes_bounds:
  "0 < a \<Longrightarrow> a < 2 ^ 16 \<Longrightarrow> b < 2 ^ 16 \<Longrightarrow> 0 < (a OR b :: nat) \<and> a OR b < 2 ^ 16"
  using or_pos or_less_2p by blast

definition folds_to :: "ety \<Rightarrow> vctx \<Rightarrow> pat \<Rightarrow> scalar_value \<Rightarrow> halide_type \<Rightarrow> bool" where
  "folds_to h V p v ty \<longleftrightarrow> ety ty = h \<and> 0 < lanes ty \<and> lanes ty < 2 ^ 16 \<and>
     (\<not> special (lanes ty) \<longrightarrow> fdef V h p \<and> rd h v = fval V h p \<and> (wide h \<longrightarrow> fits (snd h) (rd h v)))"

text \<open>One arithmetic operator, its operands folded in either order.\<close>

lemma folds_to_bin:
  assumes "folds_to h V a va tya" "folds_to h V b vb tyb" "num_ety h" "op \<notin> {OpDiv, OpAnd, OpOr}"
    and "t = or_lanes (lanes tya) tyb \<or> t = or_lanes (lanes tyb) tya"
    and "constant_fold_bin_op F op t va vb = Some (v, ty)"
  shows "folds_to h V (BinOp op a b) v ty"
proof -
  have t: "ety t = h" "0 < lanes t \<and> lanes t < 2 ^ 16"
    using assms(1,2,5) or_lanes_bounds [of "lanes tyb" "lanes tya"] or_lanes_bounds [of "lanes tya" "lanes tyb"]
    unfolding folds_to_def by (metis or_lanes_sel(1,4))+
  have sp: "\<not> special (lanes t) \<Longrightarrow> \<not> special (lanes tya) \<and> \<not> special (lanes tyb)"
    using assms(5) by auto
  obtain k where k: "ety ty = h" "lanes ty = lanes t OR k"
    "k \<in> {0, signed_integer_overflow_bit, indeterminate_expression_bit}"
    using fold_bin_type [OF assms(6)] t by auto
  have l: "0 < lanes ty" "lanes ty < 2 ^ 16"
    using k(2,3) or_lanes_bounds [of "lanes t" k] t(2) by auto
  have op: "ring_op op \<or> op \<in> {OpMod, OpMin, OpMax}"
    using assms(4) by (cases op) (auto simp: ring_op_def)
  have "fdef V h (BinOp op a b) \<and> rd h v = fval V h (BinOp op a b) \<and> (wide h \<longrightarrow> fits (snd h) (rd h v))"
    if ns: "\<not> special (lanes ty)"
  proof -
    have ab: "fdef V h a" "rd h va = fval V h a" "wide h \<Longrightarrow> fits (snd h) (rd h va)"
      "fdef V h b" "rd h vb = fval V h b" "wide h \<Longrightarrow> fits (snd h) (rd h vb)"
      using assms(1,2) sp ns k(2) by (auto simp: folds_to_def)
    from assms(3) show ?thesis
    proof (cases rule: num_ety_cases)
      case 1
      then have c: "code t = Halide_Int" "bits t = snd h" "fold_bin_int op t va vb = Some (v, ty)"
        using t(1) assms(6) by (auto simp: ety_def constant_fold_int)
      have r: "rd h = sint" using 1 by (simp add: rd_def fun_eq_iff)
      show ?thesis
        using op
      proof
        assume "ring_op op"
        then show ?thesis
          using fold_ring_int [OF _ c(1) _ _ c(3) ns] ab assms(3) t(1) c(2)
          by (auto simp: r ring_op_def)
      next
        assume o: "op \<in> {OpMod, OpMin, OpMax}"
        show ?thesis
          using fold_select_int [OF o c(3) ns, of "nrm h"] ab c(2) by (auto simp: r)
      qed
    next
      case 2
      then have c: "code t = Halide_UInt" "bits t = snd h" "fold_bin_uint op t va vb = (v, ty)"
        using t(1) assms(6) by (auto simp: ety_def constant_fold_uint)
      have r: "rd h = uint" and w: "\<not> wide h" using 2 by (simp_all add: rd_def fun_eq_iff wide_def)
      show ?thesis
        using op
      proof
        assume "ring_op op"
        then show ?thesis
          using fold_ring_uint [OF _ c(1) _ c(3)] ab assms(3) t(1) w
          by (auto simp: r ring_op_def)
      next
        assume o: "op \<in> {OpMod, OpMin, OpMax}"
        show ?thesis
          using fold_select_uint [OF o c(3) ns, of "nrm h"] ab w by (auto simp: r)
      qed
    qed
  qed
  then show ?thesis using k(1) l unfolding folds_to_def by blast
qed

lemma folds_to_neg:
  assumes "folds_to h V a va t" "num_ety h" "fold_negate F t va = (v, ty)"
  shows "folds_to h V (NegateOp a) v ty"
proof -
  have t: "ety t = h" "0 < lanes t" "lanes t < 2 ^ 16" using assms(1) by (auto simp: folds_to_def)
  obtain k where k: "ety ty = h" "lanes ty = lanes t OR k" "k \<in> {0, signed_integer_overflow_bit}"
    using fold_negate_type [OF assms(3)] t by auto
  have l: "0 < lanes ty" "lanes ty < 2 ^ 16"
    using k(2,3) or_lanes_bounds [OF t(2,3), of k] by auto
  have "fdef V h (NegateOp a) \<and> rd h v = fval V h (NegateOp a) \<and> (wide h \<longrightarrow> fits (snd h) (rd h v))"
    if ns: "\<not> special (lanes ty)"
  proof -
    have a: "fdef V h a" "rd h va = fval V h a" "wide h \<Longrightarrow> fits (snd h) (rd h va)"
      using assms(1) ns k(2) by (auto simp: folds_to_def)
    from assms(2) show ?thesis
    proof (cases rule: num_ety_cases)
      case 1
      then have "code t = Halide_Int" "bits t = snd h" "rd h = sint"
        using t by (auto simp: ety_def rd_def)
      then show ?thesis
        using fold_negate_int [OF _ _ _ assms(3) ns] a assms(2) t(1) by auto
    next
      case 2
      then have "code t = Halide_UInt" "rd h = uint" "\<not> wide h"
        using t by (auto simp: ety_def rd_def wide_def)
      then show ?thesis
        using fold_negate_uint [OF _ _ assms(3)] a assms(2) t(1) by auto
    qed
  qed
  then show ?thesis using k(1) l unfolding folds_to_def by blast
qed

lemma fold_arith:
  assumes "arith p" "make_folded_const F p \<sigma> ty0 = Some (v, ty)" "fwt V h p" "num_ety h"
    and "good env (lane V) \<sigma>" "agrees env V \<sigma>"
    and "typed_leaf p \<or> (ety ty0 = h \<and> 0 < lanes ty0 \<and> lanes ty0 < 2 ^ 16)"
  shows "folds_to h V p v ty"
  using assms(1-3,7)
proof (induction p arbitrary: v ty ty0)
  case (WildConst i)
  then have b: "bound_const \<sigma> i = Some (v, ty)" by simp
  then have g: "legal_type ty" "in_ety (ety ty) (rd (ety ty) v)" "cty V i = ety ty" "cval V i = rd (ety ty) v"
    using assms(5,6) by (auto simp: good_def agrees_def)
  moreover have "0 < lanes ty" "lanes ty < 2 ^ 14"
    using legal_lanes [OF g(1)] by auto
  ultimately show ?case
    using WildConst.prems by (auto simp: folds_to_def in_ety_def wide_def)
next
  case (Const c)
  then have t: "ty = ty0" "ety ty0 = h" "0 < lanes ty" "lanes ty < 2 ^ 16" by auto
  have i: "int64 c" using Const.prems(1) by (auto simp: int64_def)
  from assms(4) show ?case
  proof (cases rule: num_ety_cases)
    case 1
    then show ?thesis
      using Const.prems t i small_fits [of c "snd h"]
      by (auto simp: folds_to_def ety_def rd_def wide_def sint_word_of_int)
  next
    case 2
    then show ?thesis
      using Const.prems t by (auto simp: folds_to_def ety_def rd_def wide_def uint_word_of_int)
  qed
next
  case (BinOp op a b)
  have op: "op \<notin> {OpDiv, OpAnd, OpOr}" using BinOp.prems(1) by simp
  show ?case
  proof (cases "is_literal_pat a")
    case True
    then obtain vb tyb va tya where
      f: "make_folded_const F b \<sigma> ty0 = Some (vb, tyb)" "make_folded_const F a \<sigma> tyb = Some (va, tya)"
      and c: "constant_fold_bin_op F op (or_lanes (lanes tyb) tya) va vb = Some (v, ty)"
      using BinOp.prems(2) op by (auto simp: bind_eq_Some_conv Let_def)
    have B: "folds_to h V b vb tyb"
      using BinOp.IH(2) [OF _ f(1)] BinOp.prems True by simp
    then have "ety tyb = h \<and> 0 < lanes tyb \<and> lanes tyb < 2 ^ 16"
      unfolding folds_to_def by blast
    then have A: "folds_to h V a va tya"
      using BinOp.IH(1) [OF _ f(2)] BinOp.prems by simp
    show ?thesis
      by (rule folds_to_bin [OF A B assms(4) op _ c]) simp
  next
    case False
    then obtain vb tyb va tya where
      f: "make_folded_const F a \<sigma> ty0 = Some (va, tya)" "make_folded_const F b \<sigma> tya = Some (vb, tyb)"
      and c: "constant_fold_bin_op F op (or_lanes (lanes tya) tyb) va vb = Some (v, ty)"
      using BinOp.prems(2) op by (auto simp: bind_eq_Some_conv Let_def)
    have A: "folds_to h V a va tya"
      using BinOp.IH(1) [OF _ f(1)] BinOp.prems False by simp
    then have "ety tya = h \<and> 0 < lanes tya \<and> lanes tya < 2 ^ 16"
      unfolding folds_to_def by blast
    then have B: "folds_to h V b vb tyb"
      using BinOp.IH(2) [OF _ f(2)] BinOp.prems by simp
    show ?thesis
      by (rule folds_to_bin [OF A B assms(4) op _ c]) simp
  qed
next
  case (NegateOp a)
  then obtain va t where f: "make_folded_const F a \<sigma> ty0 = Some (va, t)" "fold_negate F t va = (v, ty)"
    by (auto simp: bind_eq_Some_conv)
  have "folds_to h V a va t"
    using NegateOp.IH [OF _ f(1)] NegateOp.prems by simp
  then show ?case by (rule folds_to_neg [OF _ assms(4) f(2)])
next
  case (Fold a)
  then have "folds_to h V a v ty" by auto
  then show ?case unfolding folds_to_def fdef.simps fval.simps .
qed simp_all

section \<open>Divisions and comparisons\<close>

text \<open>The operands of comparisons in predicates, and folded replacements, may divide at the top.\<close>

fun arith_div :: "pat \<Rightarrow> bool" where
  "arith_div (BinOp OpDiv a b) \<longleftrightarrow> arith a \<and> arith b"
| "arith_div p = arith p"

text \<open>The exact value of such a pattern.\<close>

fun xval :: "vctx \<Rightarrow> ety \<Rightarrow> pat \<Rightarrow> int" where
  "xval V h (BinOp OpDiv a b) = ediv (fval V h a) (fval V h b)"
| "xval V h p = fval V h p"

lemma xval_nrm: "wide h \<Longrightarrow> xval V h p = fval V h p"
  by (cases "(V, h, p)" rule: xval.cases) auto

lemma xval_arith: "arith p \<Longrightarrow> xval V h p = fval V h p"
  by (cases "(V, h, p)" rule: xval.cases) auto

lemma uint_div_ediv: "b \<noteq> 0 \<Longrightarrow> uint (a div b :: scalar_value) = ediv (uint a) (uint b)"
  by (simp add: uint_div ediv_def)

lemma int64_div_imp:
  assumes "div_imp (sint (a :: scalar_value)) (sint (b :: scalar_value)) = Some q"
  shows "int64 q \<and> sint b \<noteq> 0 \<and> q = ediv (sint a) (sint b)"
proof -
  let ?a = "sint a" and ?b = "sint b"
  have q: "q = ediv ?a ?b" and nz: "?b \<noteq> 0"
    using div_imp_SomeD [OF assms int64_sint int64_sint] by simp_all
  have "int64 (?a sdiv ?b)"
    using assms by (auto simp: div_imp_def cdiv64_def bind_eq_Some_conv split: if_splits)
  then have trap: "\<not> (?a = int64_min \<and> ?b = - 1)"
    using int64_sdiv [OF int64_sint] by blast
  have "int64 (ediv ?a ?b)"
  proof (cases "\<bar>?b\<bar> = 1")
    case True
    then have "?b = 1 \<or> ?b = - 1" by auto
    then show ?thesis using trap int64_sint [of a] by (auto simp: int64_def)
  next
    case False
    have "\<bar>ediv ?a ?b\<bar> * 2 \<le> \<bar>ediv ?a ?b\<bar> * \<bar>?b\<bar>"
      using False nz by (intro mult_left_mono) auto
    also have "\<dots> = \<bar>?a - emod ?a ?b\<bar>"
      using ediv_emod [of ?a ?b] by (simp flip: abs_mult)
    also have "\<dots> < \<bar>?a\<bar> + \<bar>?b\<bar>"
      using emod_bounds [OF nz, of ?a] by linarith
    finally show ?thesis
      using int64_sint [of a] int64_sint [of b]
      by (auto simp: int64_def abs_if simp del: ediv_pos ediv_neg split: if_splits)
  qed
  then show ?thesis using q nz by simp
qed

definition exact_at :: "ety \<Rightarrow> vctx \<Rightarrow> pat \<Rightarrow> scalar_value \<Rightarrow> halide_type \<Rightarrow> bool" where
  "exact_at h V p v ty \<longleftrightarrow> ety ty = h \<and> 0 < lanes ty \<and> lanes ty < 2 ^ 16 \<and>
     (\<not> special (lanes ty) \<longrightarrow> fdef V h p \<and> rd h v = xval V h p)"

lemma folds_to_exact: "folds_to h V p v ty \<Longrightarrow> arith p \<Longrightarrow> exact_at h V p v ty"
  unfolding folds_to_def exact_at_def
  by (cases "(V, h, p)" rule: xval.cases) auto

lemma constant_fold_div:
  assumes "constant_fold_bin_op F OpDiv t va vb = Some (v, ty)" "num_ety (ety t)" "\<not> special (lanes ty)"
  shows "rd (ety t) v = ediv (rd (ety t) va) (rd (ety t) vb) \<and> rd (ety t) vb \<noteq> 0"
proof (cases "code t = Halide_Int")
  case True
  then obtain q where d: "div_imp (sint va) (sint vb) = Some q" and v: "v = word_of_int q"
    using assms(1,3) by (auto simp: fold_defs bind_eq_Some_conv split: if_splits)
  have q: "int64 q" "sint vb \<noteq> 0" "q = ediv (sint va) (sint vb)"
    using int64_div_imp [OF d] by auto
  have "sint v = q" unfolding v by (rule sint_word_of_int [OF q(1)])
  then show ?thesis using True q(2,3) by (simp add: rd_def ety_def)
next
  case False
  then have "code t = Halide_UInt" using assms(2) by (auto simp: num_ety_def ety_def)
  then have "vb \<noteq> 0 \<and> v = va div vb"
    using assms(1,3) by (auto simp: fold_defs split: if_splits)
  then show ?thesis
    using False uint_div_ediv by (simp add: rd_def ety_def uint_0_iff)
qed

text \<open>A binary pattern folds both operands, the literal one last, and keeps special bits.\<close>

lemma fold_operands:
  assumes "arith a" "arith b" "fwt V h a" "fwt V h b" "num_ety h" "good env (lane V) \<sigma>" "agrees env V \<sigma>"
    and "typed_leaf (if is_literal_pat a then b else a) \<or> (ety ty0 = h \<and> 0 < lanes ty0 \<and> lanes ty0 < 2 ^ 16)"
    and "if is_literal_pat a
         then make_folded_const F b \<sigma> ty0 = Some (vb, tyb) \<and> make_folded_const F a \<sigma> tyb = Some (va, tya) \<and>
              t = or_lanes (lanes tyb) tya
         else make_folded_const F a \<sigma> ty0 = Some (va, tya) \<and> make_folded_const F b \<sigma> tya = Some (vb, tyb) \<and>
              t = or_lanes (lanes tya) tyb"
  shows "ety t = h \<and> 0 < lanes t \<and> lanes t < 2 ^ 16 \<and> (\<not> special (lanes t) \<longrightarrow>
    fdef V h a \<and> rd h va = fval V h a \<and> fdef V h b \<and> rd h vb = fval V h b)"
proof -
  have "folds_to h V a va tya \<and> folds_to h V b vb tyb"
  proof (cases "is_literal_pat a")
    case True
    then have f: "make_folded_const F b \<sigma> ty0 = Some (vb, tyb)" "make_folded_const F a \<sigma> tyb = Some (va, tya)"
      using assms(9) by auto
    have B: "folds_to h V b vb tyb"
      using fold_arith [OF assms(2) f(1) assms(4-7)] assms(8) True by simp
    then show ?thesis
      using fold_arith [OF assms(1) f(2) assms(3) assms(5-7)] unfolding folds_to_def by blast
  next
    case False
    then have f: "make_folded_const F a \<sigma> ty0 = Some (va, tya)" "make_folded_const F b \<sigma> tya = Some (vb, tyb)"
      using assms(9) by auto
    have A: "folds_to h V a va tya"
      using fold_arith [OF assms(1) f(1) assms(3) assms(5-7)] assms(8) False by simp
    then show ?thesis
      using fold_arith [OF assms(2) f(2) assms(4-7)] unfolding folds_to_def by blast
  qed
  then show ?thesis
    using assms(9) or_lanes_bounds [of "lanes tya" "lanes tyb"] or_lanes_bounds [of "lanes tyb" "lanes tya"]
    unfolding folds_to_def by (auto split: if_splits)
qed

lemma fold_arith_div:
  assumes "arith_div p" "make_folded_const F p \<sigma> ty0 = Some (v, ty)" "fwt V h p" "num_ety h"
    and "good env (lane V) \<sigma>" "agrees env V \<sigma>"
    and "typed_leaf p \<or> (ety ty0 = h \<and> 0 < lanes ty0 \<and> lanes ty0 < 2 ^ 16)"
  shows "exact_at h V p v ty"
proof (cases "arith p")
  case True
  show ?thesis
    by (rule folds_to_exact [OF fold_arith [OF True assms(2-7)] True])
next
  case False
  then obtain a b where p: "p = BinOp OpDiv a b" "arith a" "arith b"
    using assms(1) by (cases p rule: arith_div.cases) auto
  obtain va tya vb tyb t where f:
    "if is_literal_pat a
     then make_folded_const F b \<sigma> ty0 = Some (vb, tyb) \<and> make_folded_const F a \<sigma> tyb = Some (va, tya) \<and>
          t = or_lanes (lanes tyb) tya
     else make_folded_const F a \<sigma> ty0 = Some (va, tya) \<and> make_folded_const F b \<sigma> tya = Some (vb, tyb) \<and>
          t = or_lanes (lanes tya) tyb"
    and c: "constant_fold_bin_op F OpDiv t va vb = Some (v, ty)"
    using assms(2) by (auto simp: p(1) bind_eq_Some_conv Let_def split: if_splits)
  have w: "fwt V h a" "fwt V h b" "typed_leaf (if is_literal_pat a then b else a) \<or>
      (ety ty0 = h \<and> 0 < lanes ty0 \<and> lanes ty0 < 2 ^ 16)"
    using assms(3,7) by (auto simp: p(1))
  have t: "ety t = h \<and> 0 < lanes t \<and> lanes t < 2 ^ 16 \<and> (\<not> special (lanes t) \<longrightarrow>
      fdef V h a \<and> rd h va = fval V h a \<and> fdef V h b \<and> rd h vb = fval V h b)"
    by (rule fold_operands [OF p(2,3) w(1,2) assms(4-6) w(3) f])
  obtain k where k: "ety ty = h" "lanes ty = lanes t OR k"
    "k \<in> {0, signed_integer_overflow_bit, indeterminate_expression_bit}"
    using fold_bin_type [OF c] t by auto
  have l: "0 < lanes ty" "lanes ty < 2 ^ 16"
    using k(2,3) or_lanes_bounds [of "lanes t" k] t by auto
  show ?thesis
    using constant_fold_div [OF c] t k l assms(4) unfolding exact_at_def p(1) by auto
qed

section \<open>Predicates\<close>

text \<open>
  What a predicate that holds says of the constants. Under a comparison that divides,
  it speaks of types without overflow only.
\<close>

fun pholds :: "vctx \<Rightarrow> pat \<Rightarrow> bool" where
  "pholds V (BinOp op a b) \<longleftrightarrow>
     (if op = OpAnd then pholds V a \<and> pholds V b
      else if op = OpOr then pholds V a \<or> pholds V b else True)"
| "pholds V (CmpOp op a b) \<longleftrightarrow>
     (let h = chint V a b in
      fwt V h a \<and> fwt V h b \<and> num_ety h \<and> (arith a \<and> arith b \<or> wide h) \<longrightarrow>
      fdef V h a \<and> fdef V h b \<and> cmp_holds op (fval V h a) (fval V h b))"
| "pholds V _ = True"

fun pshape :: "pat \<Rightarrow> bool" where
  "pshape (BinOp op a b) \<longleftrightarrow> (op = OpAnd \<or> op = OpOr) \<and> pshape a \<and> pshape b"
| "pshape (CmpOp op a b) \<longleftrightarrow> arith_div a \<and> arith_div b \<and> typed_leaf (if is_literal_pat a then b else a)"
| "pshape p = True"

lemma cmp_fold_value:
  assumes "pshape (CmpOp op a b)" "make_folded_const F (CmpOp op a b) \<sigma> ty0 = Some (v, ty)"
    and "good env (lane V) \<sigma>" "agrees env V \<sigma>"
    and "fwt V h a" "fwt V h b" "num_ety h" "arith a \<and> arith b \<or> wide h"
  shows "ety ty = bool_ety \<and> 0 < lanes ty \<and> lanes ty < 2 ^ 16 \<and> (\<not> special (lanes ty) \<longrightarrow>
    fdef V h a \<and> fdef V h b \<and> v = of_bool (cmp_holds op (fval V h a) (fval V h b)))"
proof -
  have sh: "arith_div a" "arith_div b" "typed_leaf (if is_literal_pat a then b else a)"
    using assms(1) by auto
  have x: "xval V h a = fval V h a" "xval V h b = fval V h b"
    using assms(8) xval_nrm xval_arith by metis+
  obtain va vb tya tyb t where f:
    "if is_literal_pat a
     then make_folded_const F b \<sigma> ty0 = Some (vb, tyb) \<and> make_folded_const F a \<sigma> tyb = Some (va, tya) \<and>
          t = or_lanes (lanes tyb) tya
     else make_folded_const F a \<sigma> ty0 = Some (va, tya) \<and> make_folded_const F b \<sigma> tya = Some (vb, tyb) \<and>
          t = or_lanes (lanes tya) tyb"
    and v: "constant_fold_cmp_op F op t va vb = Some v" "ty = t\<lparr>code := Halide_UInt, bits := 1\<rparr>"
    using assms(2) by (auto simp: bind_eq_Some_conv Let_def split: if_splits)
  have ab: "exact_at h V a va tya \<and> exact_at h V b vb tyb"
  proof (cases "is_literal_pat a")
    case True
    then have m: "make_folded_const F b \<sigma> ty0 = Some (vb, tyb)" "make_folded_const F a \<sigma> tyb = Some (va, tya)"
      using f by auto
    have B: "exact_at h V b vb tyb"
      using fold_arith_div [OF sh(2) m(1) assms(6,7,3,4)] sh(3) True by simp
    then show ?thesis
      using fold_arith_div [OF sh(1) m(2) assms(5,7,3,4)] unfolding exact_at_def by blast
  next
    case False
    then have m: "make_folded_const F a \<sigma> ty0 = Some (va, tya)" "make_folded_const F b \<sigma> tya = Some (vb, tyb)"
      using f by auto
    have A: "exact_at h V a va tya"
      using fold_arith_div [OF sh(1) m(1) assms(5,7,3,4)] sh(3) False by simp
    then show ?thesis
      using fold_arith_div [OF sh(2) m(2) assms(6,7,3,4)] unfolding exact_at_def by blast
  qed
  then have l: "0 < lanes t" "lanes t < 2 ^ 16" "code t = fst h"
    using f or_lanes_bounds [of "lanes tya" "lanes tyb"] or_lanes_bounds [of "lanes tyb" "lanes tya"]
    unfolding exact_at_def by (auto simp: ety_def split: if_splits)
  have "v = of_bool (cmp_holds op (rd h va) (rd h vb))"
    using assms(7) v(1) l(3) by (auto simp: constant_fold_cmp rd_def num_ety_def)
  moreover have "\<not> special (lanes ty) \<Longrightarrow> \<not> special (lanes tya) \<and> \<not> special (lanes tyb)"
    using f v(2) by (auto split: if_splits)
  ultimately show ?thesis
    using ab x l v(2) unfolding exact_at_def by (auto simp: ety_def)
qed

lemma cmp_fold_sound:
  assumes "pshape (CmpOp op a b)" "make_folded_const F (CmpOp op a b) \<sigma> ty0 = Some (v, ty)"
    and "v \<noteq> 0" "\<not> special (lanes ty)" "good env (lane V) \<sigma>" "agrees env V \<sigma>"
    and "fwt V h a" "fwt V h b" "num_ety h" "arith a \<and> arith b \<or> wide h"
  shows "fdef V h a \<and> fdef V h b \<and> cmp_holds op (fval V h a) (fval V h b)"
  using cmp_fold_value [OF assms(1,2,5-10)] assms(3,4) by (auto simp: of_bool_def split: if_splits)

lemma and_1_nz: "a AND b AND 1 \<noteq> (0::scalar_value) \<Longrightarrow> a \<noteq> 0 \<and> b \<noteq> 0"
  by auto

lemma or_1_nz: "(a OR b) AND 1 \<noteq> (0::scalar_value) \<Longrightarrow> a \<noteq> 0 \<or> b \<noteq> 0"
  by auto

lemma fold_logic:
  assumes "constant_fold_bin_op F op t va vb = Some (v, ty)" "op = OpAnd \<or> op = OpOr"
    and "v \<noteq> 0" "\<not> special (lanes ty)"
  shows "\<not> special (lanes t) \<and> (if op = OpAnd then va \<noteq> 0 \<and> vb \<noteq> 0 else va \<noteq> 0 \<or> vb \<noteq> 0)"
  using assms and_1_nz [of va vb] or_1_nz [of va vb]
  by (auto simp: fold_defs split: type_code.splits)

lemma predicate_sound:
  assumes "pshape p" "make_folded_const F p \<sigma> ty0 = Some (v, ty)" "v \<noteq> 0" "\<not> special (lanes ty)"
    and "good env (lane V) \<sigma>" "agrees env V \<sigma>"
  shows "pholds V p"
  using assms(1-4)
proof (induction p arbitrary: v ty ty0)
  case (BinOp op a b)
  have op: "op = OpAnd \<or> op = OpOr" and sh: "pshape a" "pshape b" using BinOp.prems(1) by auto
  consider (short) p' v' ty' ty0' where "op = OpOr" "p' \<in> {a, b}" "make_folded_const F p' \<sigma> ty0' = Some (v', ty')"
      "v' = v" "ty' = ty"
    | (both) va vb tya tyb ty0a ty0b t where "make_folded_const F a \<sigma> ty0a = Some (va, tya)"
      "make_folded_const F b \<sigma> ty0b = Some (vb, tyb)" "constant_fold_bin_op F op t va vb = Some (v, ty)"
      "\<not> special (lanes t) \<longrightarrow> \<not> special (lanes tya) \<and> \<not> special (lanes tyb)"
    using BinOp.prems(2,3) op
    by (auto simp: bind_eq_Some_conv Let_def split: if_splits)
  then show ?case
  proof cases
    case short
    have "pholds V p'"
      using short(2,3) BinOp.IH(1) [OF sh(1)] BinOp.IH(2) [OF sh(2)] BinOp.prems(3,4) short(4,5) by blast
    then show ?thesis using short(1,2) by auto
  next
    case both
    have l: "\<not> special (lanes t)" "if op = OpAnd then va \<noteq> 0 \<and> vb \<noteq> 0 else va \<noteq> 0 \<or> vb \<noteq> 0"
      using fold_logic [OF both(3) op BinOp.prems(3,4)] by auto
    then have "va \<noteq> 0 \<longrightarrow> pholds V a" "vb \<noteq> 0 \<longrightarrow> pholds V b"
      using both(4) BinOp.IH(1) [OF sh(1) both(1)] BinOp.IH(2) [OF sh(2) both(2)] by blast+
    then show ?thesis using l(2) op by (auto split: if_splits)
  qed
next
  case (CmpOp op a b)
  show ?case
    using cmp_fold_sound [OF CmpOp.prems assms(5,6), of "chint V a b"] by (auto simp: Let_def)
qed auto

end
