(* ===== verification/MatchSound.thy ===== *)
theory MatchSound
  imports FoldSound
begin

text \<open>
  Soundness of the matcher. A pattern denotes a value at an element type, under an
  assignment of values to its wildcards; an expression that matches a pattern has the
  value the pattern denotes under every assignment that agrees with the bindings.
\<close>

declare split_paired_All [simp del] split_paired_Ex [simp del]

section \<open>Values of patterns\<close>

definition conv :: "ety \<Rightarrow> ety \<Rightarrow> int \<Rightarrow> int" where
  "conv from to v = cast_val \<lparr>code = fst from, bits = snd from, lanes = 1\<rparr>
     \<lparr>code = fst to, bits = snd to, lanes = 1\<rparr> v"

fun pval :: "vctx \<Rightarrow> ety \<Rightarrow> pat \<Rightarrow> int" where
  "pval V h (SpecificExpr e) = sval V e"
| "pval V h (WildConst i) = cval V i"
| "pval V h (Wild i) = wval V i"
| "pval V h (Const v) = nrm h v"
| "pval V h (BinOp op a b) = bin_tot op (nrm h) (pval V h a) (pval V h b)"
| "pval V h (CmpOp op a b) = cmp_val op (pval V (chint V a b) a) (pval V (chint V a b) b)"
| "pval V h (Intrin n ps) = (case ps of [] \<Rightarrow> 0 | p # _ \<Rightarrow> pval V h p)"
| "pval V h (NotOp a) = (if pval V h a = 0 then 1 else 0)"
| "pval V h (SelectOp c t f) = (if pval V bool_ety c \<noteq> 0 then pval V h t else pval V h f)"
| "pval V h (BroadcastOp a l) = pval V h a"
| "pval V h (RampOp a b l) = nrm h (pval V h a + int (lane V) * pval V h b)"
| "pval V h (NegateOp a) = nrm h (- pval V h a)"
| "pval V h (CastOp t a) = conv (chint V a a) (ety t) (pval V (chint V a a) a)"
| "pval V h (Fold a) = nrm h (fval V h a)"
| "pval V h _ = 0"

fun pdef :: "vctx \<Rightarrow> ety \<Rightarrow> pat \<Rightarrow> bool" where
  "pdef V h (BinOp op a b) \<longleftrightarrow> pdef V h a \<and> pdef V h b \<and> (divides op \<longrightarrow> pval V h b \<noteq> 0)"
| "pdef V h (CmpOp op a b) \<longleftrightarrow> pdef V (chint V a b) a \<and> pdef V (chint V a b) b"
| "pdef V h (Intrin n ps) = (case ps of [] \<Rightarrow> True | p # _ \<Rightarrow> pdef V h p)"
| "pdef V h (NotOp a) = pdef V h a"
| "pdef V h (SelectOp c t f) \<longleftrightarrow> pdef V bool_ety c \<and> pdef V h t \<and> pdef V h f"
| "pdef V h (BroadcastOp a l) = pdef V h a"
| "pdef V h (RampOp a b l) \<longleftrightarrow> pdef V h a \<and> pdef V h b"
| "pdef V h (NegateOp a) = pdef V h a"
| "pdef V h (CastOp t a) = pdef V (chint V a a) a"
| "pdef V h Indeterminate = False"
| "pdef V h Overflow = False"
| "pdef V h _ = True"

text \<open>The left side is well typed at \<open>h\<close>: what matching a well-formed expression gives.\<close>

fun wtd :: "vctx \<Rightarrow> ety \<Rightarrow> pat \<Rightarrow> bool" where
  "wtd V h (SpecificExpr e) \<longleftrightarrow> ety (etype e) = h"
| "wtd V h (WildConst i) \<longleftrightarrow> cty V i = h"
| "wtd V h (Wild i) \<longleftrightarrow> wty V i = h"
| "wtd V h (Const v) = True"
| "wtd V h (BinOp op a b) \<longleftrightarrow> wtd V h a \<and> wtd V h b \<and> (op = OpAnd \<or> op = OpOr \<longrightarrow> h = bool_ety)"
| "wtd V h (CmpOp op a b) \<longleftrightarrow> h = bool_ety \<and> num_ety (chint V a b) \<and>
     wtd V (chint V a b) a \<and> wtd V (chint V a b) b"
| "wtd V h (Intrin n ps) = (case ps of [] \<Rightarrow> True | p # _ \<Rightarrow> wtd V h p)"
| "wtd V h (NotOp a) \<longleftrightarrow> h = bool_ety \<and> wtd V h a"
| "wtd V h (SelectOp c t f) \<longleftrightarrow> wtd V bool_ety c \<and> wtd V h t \<and> wtd V h f"
| "wtd V h (BroadcastOp a l) = wtd V h a"
| "wtd V h (RampOp a b l) \<longleftrightarrow> wtd V h a \<and> wtd V h b"
| "wtd V h (NegateOp a) = wtd V h a"
| "wtd V h (CastOp t a) \<longleftrightarrow> ety t = h \<and> num_ety (chint V a a) \<and> wtd V (chint V a a) a"
| "wtd V h Indeterminate = True"
| "wtd V h Overflow = True"
| "wtd V h _ = False"

text \<open>Does some leaf determine the type? (\<open>lty\<close> without an assignment.)\<close>

fun has_lty :: "pat \<Rightarrow> bool" where
  "has_lty (SpecificExpr e) = True"
| "has_lty (WildConst i) = True"
| "has_lty (Wild i) = True"
| "has_lty (BinOp op a b) \<longleftrightarrow> op = OpAnd \<or> op = OpOr \<or> has_lty a \<or> has_lty b"
| "has_lty (CmpOp op a b) = True"
| "has_lty (NotOp a) = True"
| "has_lty (Intrin n ps) = (case ps of [] \<Rightarrow> False | p # _ \<Rightarrow> has_lty p)"
| "has_lty (SelectOp c t f) \<longleftrightarrow> has_lty t \<or> has_lty f"
| "has_lty (BroadcastOp a l) = has_lty a"
| "has_lty (RampOp a b l) \<longleftrightarrow> has_lty a \<or> has_lty b"
| "has_lty (NegateOp a) = has_lty a"
| "has_lty (CastOp t a) = True"
| "has_lty (Fold a) = has_lty a"
| "has_lty _ = False"

text \<open>
  Every comparison and cast has an operand that determines its type, and the given
  expressions are literals.
\<close>

fun typed :: "pat \<Rightarrow> bool" where
  "typed (SpecificExpr e) \<longleftrightarrow> as_const_int e \<noteq> None \<or> as_const_uint e \<noteq> None"
| "typed (BinOp op a b) \<longleftrightarrow> typed a \<and> typed b"
| "typed (CmpOp op a b) \<longleftrightarrow> typed a \<and> typed b \<and> (has_lty a \<or> has_lty b)"
| "typed (Intrin n ps) \<longleftrightarrow> (n = ''likely'' \<or> n = ''likely_if_innermost'') \<and>
     (case ps of [p] \<Rightarrow> typed p | _ \<Rightarrow> False)"
| "typed (NotOp a) = typed a"
| "typed (SelectOp c t f) \<longleftrightarrow> typed c \<and> typed t \<and> typed f"
| "typed (BroadcastOp a l) = typed a"
| "typed (RampOp a b l) \<longleftrightarrow> typed a \<and> typed b"
| "typed (NegateOp a) = typed a"
| "typed (CastOp t a) \<longleftrightarrow> typed a \<and> has_lty a"
| "typed p = True"

lemma has_lty_iff: "has_lty p \<longleftrightarrow> (\<exists>t. lty V p = Some t)"
proof (induction p)
  case (BinOp op a b)
  then show ?case by (cases "lty V a") auto
next
  case (SelectOp c a b)
  then show ?case by (cases "lty V a") auto
next
  case (RampOp a b l)
  then show ?case by (cases "lty V a") auto
qed (auto split: list.splits)

lemma wtd_lty: "wtd V h p \<Longrightarrow> lty V p = Some t \<Longrightarrow> t = h"
proof (induction p arbitrary: h t)
  case (BinOp op a b)
  then show ?case by (cases "lty V a") (auto split: if_splits)
next
  case (SelectOp c a b)
  then show ?case by (cases "lty V a") auto
next
  case (RampOp a b l)
  then show ?case by (cases "lty V a") auto
next
  case (Intrin n ps)
  show ?case
  proof (cases ps)
    case Nil
    then show ?thesis using Intrin.prems by simp
  next
    case (Cons p k)
    show ?thesis by (rule Intrin.IH [of p h t]) (use Intrin.prems Cons in simp_all)
  qed
qed auto

lemma chint_wtd: "wtd V h a \<Longrightarrow> wtd V h b \<Longrightarrow> has_lty a \<or> has_lty b \<Longrightarrow> chint V a b = h"
  using wtd_lty [of V h a] wtd_lty [of V h b] has_lty_iff [of a V] has_lty_iff [of b V]
  by (cases "lty V a") (auto simp: chint_def)

section \<open>Matching\<close>

definition extends :: "matcher_state \<Rightarrow> matcher_state \<Rightarrow> bool" where
  "extends \<sigma> \<sigma>' \<longleftrightarrow> bindings \<sigma> \<subseteq>\<^sub>m bindings \<sigma>' \<and> bound_const \<sigma> \<subseteq>\<^sub>m bound_const \<sigma>'"

lemma extends_refl: "extends \<sigma> \<sigma>" and extends_trans: "extends \<sigma> \<sigma>' \<Longrightarrow> extends \<sigma>' \<sigma>'' \<Longrightarrow> extends \<sigma> \<sigma>''"
  by (auto simp: extends_def intro: map_le_trans)

lemma map_le_SomeD: "f \<subseteq>\<^sub>m g \<Longrightarrow> f x = Some y \<Longrightarrow> g x = Some y"
  by (auto simp: map_le_def dom_def)

lemma extendsD:
  assumes "extends \<sigma> \<sigma>'"
  shows "bindings \<sigma> i = Some e \<Longrightarrow> bindings \<sigma>' i = Some e"
    and "bound_const \<sigma> i = Some c \<Longrightarrow> bound_const \<sigma>' i = Some c"
proof -
  have m: "bindings \<sigma> \<subseteq>\<^sub>m bindings \<sigma>'" "bound_const \<sigma> \<subseteq>\<^sub>m bound_const \<sigma>'"
    using assms by (simp_all add: extends_def)
  show "bindings \<sigma> i = Some e \<Longrightarrow> bindings \<sigma>' i = Some e" by (rule map_le_SomeD [OF m(1)])
  show "bound_const \<sigma> i = Some c \<Longrightarrow> bound_const \<sigma>' i = Some c" by (rule map_le_SomeD [OF m(2)])
qed

lemma agrees_extends:
  assumes "agrees env V \<sigma>'" "extends \<sigma> \<sigma>'"
  shows "agrees env V \<sigma>"
  unfolding agrees_def
proof (intro conjI allI impI)
  fix i e assume "bindings \<sigma> i = Some e"
  then have "bindings \<sigma>' i = Some e" by (rule extendsD(1) [OF assms(2)])
  then show "wty V i = ety (etype e)" "eval env e (lane V) = Some (wval V i)"
    using assms(1) unfolding agrees_def by blast+
next
  fix i v t assume "bound_const \<sigma> i = Some (v, t)"
  then have "bound_const \<sigma>' i = Some (v, t)" by (rule extendsD(2) [OF assms(2)])
  then show "cty V i = ety t" "cval V i = rd (ety t) v"
    using assms(1) unfolding agrees_def by blast+
next
  fix e v assume "eval env e (lane V) = Some v"
  then show "sval V e = v" using assms(1) unfolding agrees_def by blast
qed

text \<open>What a match of \<open>p\<close> against \<open>e\<close> tells.\<close>

definition matches :: "eval_env \<Rightarrow> nat \<Rightarrow> pat \<Rightarrow> expr \<Rightarrow> int \<Rightarrow> matcher_state \<Rightarrow> matcher_state \<Rightarrow> bool" where
  "matches env l p e v \<sigma> \<sigma>' \<longleftrightarrow> extends \<sigma> \<sigma>' \<and> good env l \<sigma>' \<and>
     (\<forall>V. agrees env V \<sigma>' \<and> lane V = l \<longrightarrow>
        wtd V (ety (etype e)) p \<and> pdef V (ety (etype e)) p \<and> pval V (ety (etype e)) p = v)"

lemma eval_ety: "wf e \<Longrightarrow> eval env e l = Some v \<Longrightarrow> num_ety (ety (etype e)) \<and> nrm (ety (etype e)) v = v"
  using eval_range [of e env l v] wf_legal [of e] by (auto simp: ranged_def legal_num_ety norm_nrm)

lemma ety_with_lanes: "legal_type t \<Longrightarrow> ety (with_lanes n t) = ety t"
  by (simp add: ety_def with_lanes_sel)

lemma ety_BoolT [simp]: "ety (BoolT n) = bool_ety"
  by (simp add: ety_def BoolT_sel)

text \<open>The scalar constant under a possible broadcast.\<close>

lemma scalar_of_const:
  assumes "scalar_of e = c" "wf e" "eval env e l = Some v"
  shows "wf c \<and> eval env c l = Some v \<and> ety (etype c) = ety (etype e)"
  using assms by (cases e) (auto simp: scalar_of_def ety_with_lanes wf_legal)

lemma matches_two:
  assumes "matches env l a ea x \<sigma> \<sigma>1" "matches env l b eb y \<sigma>1 \<sigma>2"
  shows "extends \<sigma> \<sigma>2" "good env l \<sigma>2"
    and "agrees env V \<sigma>2 \<Longrightarrow> lane V = l \<Longrightarrow>
      wtd V (ety (etype ea)) a \<and> pdef V (ety (etype ea)) a \<and> pval V (ety (etype ea)) a = x \<and>
      wtd V (ety (etype eb)) b \<and> pdef V (ety (etype eb)) b \<and> pval V (ety (etype eb)) b = y"
  using assms agrees_extends [of env V \<sigma>2 \<sigma>1] extends_trans [of \<sigma> \<sigma>1 \<sigma>2] by (auto simp: matches_def)

lemmas WildConst_defs =
  WildConst_match_def WildConstInt_match_def WildConstUInt_match_def WildConstFloat_match_def

lemma WildConst_match_sound:
  assumes "WildConst_match F i e \<sigma> = Some \<sigma>'" "wf e" "eval env e l = Some v" "good env l \<sigma>"
  shows "matches env l (WildConst i) e v \<sigma> \<sigma>'"
proof -
  let ?c = "scalar_of e"
  have c: "wf ?c" "eval env ?c l = Some v" "ety (etype ?c) = ety (etype e)"
    using scalar_of_const [OF refl assms(2,3)] by auto
  have leg: "legal_type (etype e)" and num: "is_num (etype e)"
    using wf_legal [OF assms(2)] eval_range [OF assms(2,3)] by (auto simp: ranged_def)
  obtain w same where w: "rd (ety (etype e)) w = v" "\<forall>w'. same w' \<longrightarrow> rd (ety (etype e)) w' = v"
    and m: "(case bound_const \<sigma> i of None \<Rightarrow> Some (set_bound_const i w (etype e) \<sigma>)
      | Some (w', t) \<Rightarrow> if etype ?c = t \<and> same w' then Some \<sigma> else None) = Some \<sigma>'"
    and r: "in_ety (ety (etype e)) v"
  proof (cases ?c)
    case (IntImm t x)
    then have x: "x = v" "fits (bits t) x" "code t = Halide_Int" "ety (etype e) = ety t" "bits t \<le> 64"
      using c legal_bits by (auto simp: is_int_def)
    then have "int64 v" using fits_int64 by blast
    then have "int64 x" using x by simp
    have c': "?c = IntImm t v" using IntImm x(1) by simp
    show ?thesis
    proof (rule that [of "word_of_int v" "\<lambda>w'. v = sint w'"])
      show "(case bound_const \<sigma> i of None \<Rightarrow> Some (set_bound_const i (word_of_int v) (etype e) \<sigma>)
        | Some (w', t) \<Rightarrow> if etype ?c = t \<and> v = sint w' then Some \<sigma> else None) = Some \<sigma>'"
        using assms(1) by (simp add: WildConst_defs c' split: option.splits)
    qed (use x \<open>int64 x\<close> in \<open>simp_all add: rd_def ety_def in_ety_def sint_word_of_int uint_word_of_int\<close>)
  next
    case (UIntImm t x)
    then have x: "x = v" "0 \<le> x" "x < 2 ^ bits t" "code t = Halide_UInt" "ety (etype e) = ety t" "bits t \<le> 64"
      using c legal_bits by (auto simp: is_uint_def)
    have "(2::int) ^ bits t \<le> 2 ^ 64" using x(6) by (intro power_increasing) auto
    then have "take_bit 64 x = x" using x by (intro take_bit_int_eq_self) auto
    have c': "?c = UIntImm t v" using UIntImm x(1) by simp
    show ?thesis
    proof (rule that [of "word_of_int v" "\<lambda>w'. v = uint w'"])
      show "(case bound_const \<sigma> i of None \<Rightarrow> Some (set_bound_const i (word_of_int v) (etype e) \<sigma>)
        | Some (w', t) \<Rightarrow> if etype ?c = t \<and> v = uint w' then Some \<sigma> else None) = Some \<sigma>'"
        using assms(1) by (simp add: WildConst_defs c' split: option.splits)
    qed (use x \<open>take_bit 64 x = x\<close> in \<open>simp_all add: rd_def ety_def in_ety_def sint_word_of_int uint_word_of_int\<close>)
  qed (use assms(1) c(2) in \<open>auto simp: WildConst_defs\<close>)
  show ?thesis
  proof (cases "bound_const \<sigma> i")
    case None
    then have s: "\<sigma>' = set_bound_const i w (etype e) \<sigma>" using m by simp
    have "extends \<sigma> \<sigma>'"
      using None by (auto simp: s extends_def set_bound_const_def map_le_def dom_def)
    moreover have "good env l \<sigma>'"
      using assms(4) leg num r w(1) by (auto simp: s good_def set_bound_const_def)
    ultimately show ?thesis
      using w(1) by (auto simp: matches_def s agrees_def set_bound_const_def)
  next
    case (Some b)
    then obtain w' t where b: "bound_const \<sigma> i = Some (w', t)" by (cases b) auto
    then have s: "\<sigma>' = \<sigma>" "etype ?c = t" "same w'" using m by (auto split: if_splits)
    then show ?thesis
      using b w(2) c(3) assms(4) by (auto simp: matches_def extends_refl agrees_def)
  qed
qed

lemma match_const_sound:
  assumes "match_const F c e" "wf e" "eval env e l = Some v"
  shows "nrm (ety (etype e)) c = v"
proof -
  have s: "wf (scalar_of e)" "eval env (scalar_of e) l = Some v" "ety (etype (scalar_of e)) = ety (etype e)"
    using scalar_of_const [OF refl assms(2,3)] by auto
  have n: "nrm (ety (etype e)) v = v" using eval_ety [OF assms(2,3)] by simp
  show ?thesis
  proof (cases "scalar_of e")
    case (IntImm t x)
    then show ?thesis using s n assms(1) by (simp add: match_const_def)
  next
    case (UIntImm t x)
    then have t: "code t = Halide_UInt" "bits t \<le> 64" "ety (etype e) = ety t" "v = x"
      using s legal_bits by (auto simp: is_uint_def)
    have "x = take_bit 64 c" using UIntImm assms(1) by (simp add: match_const_def)
    then have "take_bit (bits t) x = take_bit (bits t) c" using t(2) by simp
    then show ?thesis using n t by (simp add: nrm_uint ety_def)
  qed (use assms(1) s(2) in \<open>auto simp: match_const_def\<close>)
qed

lemma matches_wild:
  assumes "pmatch F (Wild i) e \<sigma> = Some \<sigma>'" "wf e" "eval env e l = Some v" "good env l \<sigma>"
  shows "matches env l (Wild i) e v \<sigma> \<sigma>'"
proof (cases "bindings \<sigma> i")
  case None
  then have s: "\<sigma>' = set_binding i e \<sigma>" using assms(1) by simp
  have "extends \<sigma> \<sigma>'"
    using None by (auto simp: s extends_def set_binding_def map_le_def dom_def)
  moreover have "good env l \<sigma>'"
    using assms(2-4) by (auto simp: s good_def set_binding_def)
  ultimately show ?thesis
    using assms(3) by (auto simp: matches_def s agrees_def set_binding_def)
next
  case (Some e')
  then have s: "\<sigma>' = \<sigma>" "equal F e' e" using assms(1) by (auto split: if_splits)
  obtain w where w: "eval env e' l = Some w" using assms(4) Some unfolding good_def by blast
  have "w = v" "etype e' = etype e"
    using equal_value [OF s(2) w assms(3)] equal_etype [OF s(2)] by auto
  then show ?thesis
    using Some w assms(4) by (auto simp: matches_def s(1) extends_refl agrees_def)
qed

lemma bin_tot_defined: "bin_val op N x y = Some v \<Longrightarrow> bin_tot op N x y = v \<and> (divides op \<longrightarrow> y \<noteq> 0)"
  by (auto simp: bin_val_tot split: if_splits)

lemma eval_special: "is_special n ct \<Longrightarrow> eval env (Call t n as ct vi) l = None"
  by (auto simp: call_val_def split: option.splits)

lemma conv_cast: "ety t = h \<Longrightarrow> ety t' = h' \<Longrightarrow> cast_val t t' v = conv h h' v"
  by (auto simp: conv_def cast_val_def ety_def is_int_def is_uint_def)

theorem pmatch_sound:
  "pmatch F p e \<sigma> = Some \<sigma>' \<Longrightarrow> typed p \<Longrightarrow> wf e \<Longrightarrow> eval env e l = Some v \<Longrightarrow> good env l \<sigma> \<Longrightarrow>
   matches env l p e v \<sigma> \<sigma>'"
proof (induction p arbitrary: e v \<sigma> \<sigma>')
  case (SpecificExpr s)
  then have e: "equal F s e" "\<sigma>' = \<sigma>" by (auto split: if_splits)
  obtain w where w: "eval env s l = Some w"
    using SpecificExpr.prems(2) as_const_int_eval as_const_uint_eval by fastforce
  then show ?case
    using equal_value [OF e(1) w SpecificExpr.prems(4)] equal_etype [OF e(1)] SpecificExpr.prems(5) e(2)
    by (auto simp: matches_def extends_refl agrees_def)
next
  case (WildConst i)
  then show ?case using WildConst_match_sound by simp
next
  case (Wild i)
  then show ?case using matches_wild by blast
next
  case (Const c)
  then have "match_const F c e" "\<sigma>' = \<sigma>" by (auto split: if_splits)
  then show ?case
    using match_const_sound [of F c e env l v] Const.prems by (simp add: matches_def extends_refl)
next
  case (BinOp op a b)
  obtain ea eb \<sigma>1 where e: "e = Bin op ea eb" and m: "pmatch F a ea \<sigma> = Some \<sigma>1" "pmatch F b eb \<sigma>1 = Some \<sigma>'"
    using BinOp.prems(1) by (auto simp: bind_eq_Some_conv split: expr.splits if_splits)
  obtain x y where x: "eval env ea l = Some x" "eval env eb l = Some y"
    and v: "bin_val op (norm (etype ea)) x y = Some v"
    using BinOp.prems(4) by (auto simp: e bind_eq_Some_conv)
  have wt: "typed a" "typed b" "wf ea" "wf eb" "etype eb = etype ea"
    "op = OpAnd \<or> op = OpOr \<Longrightarrow> ety (etype ea) = bool_ety"
    using BinOp.prems(2,3) by (auto simp: e is_bool_ety)
  have A: "matches env l a ea x \<sigma> \<sigma>1" by (rule BinOp.IH(1) [OF m(1) wt(1,3) x(1) BinOp.prems(5)])
  have B: "matches env l b eb y \<sigma>1 \<sigma>'"
    by (rule BinOp.IH(2) [OF m(2) wt(2,4) x(2)]) (use A in \<open>simp add: matches_def\<close>)
  show ?case
    using matches_two [OF A B] wt(5,6) bin_tot_defined [OF v] unfolding matches_def e
    by (auto simp: norm_nrm)
next
  case (CmpOp op a b)
  obtain ea eb \<sigma>1 where e: "e = Cmp op ea eb" and m: "pmatch F a ea \<sigma> = Some \<sigma>1" "pmatch F b eb \<sigma>1 = Some \<sigma>'"
    using CmpOp.prems(1) by (auto simp: bind_eq_Some_conv split: expr.splits if_splits)
  obtain x y where x: "eval env ea l = Some x" "eval env eb l = Some y" and v: "v = cmp_val op x y"
    using CmpOp.prems(4) by (auto simp: e bind_eq_Some_conv)
  have wt: "typed a" "typed b" "wf ea" "wf eb" "etype eb = etype ea" "has_lty a \<or> has_lty b"
    using CmpOp.prems(2,3) by (auto simp: e)
  have A: "matches env l a ea x \<sigma> \<sigma>1" by (rule CmpOp.IH(1) [OF m(1) wt(1,3) x(1) CmpOp.prems(5)])
  have B: "matches env l b eb y \<sigma>1 \<sigma>'"
    by (rule CmpOp.IH(2) [OF m(2) wt(2,4) x(2)]) (use A in \<open>simp add: matches_def\<close>)
  show ?case
    using matches_two [OF A B] wt(5,6) eval_ety [OF wt(3) x(1)] chint_wtd [of _ "ety (etype ea)" a b]
    unfolding matches_def e by (auto simp: v)
next
  case (Intrin n ps)
  obtain p where ps: "ps = [p]" "typed p" and n: "n = ''likely'' \<or> n = ''likely_if_innermost''"
    using Intrin.prems(2) by (auto split: list.splits)
  obtain t as ct vi where e: "e = Call t n as ct vi" and i: "is_intrinsic n ct n"
    and m: "pmatch_args F [p] as \<sigma> = Some \<sigma>'"
    using Intrin.prems(1) by (auto simp: ps is_intrinsic_def split: expr.splits if_splits)
  have lik: "is_likely n ct" "\<not> is_special n ct"
    using n i by (auto simp: is_likely_def is_special_def is_intrinsic_def)
  then obtain a where a: "as = [a]" "etype a = t" "wf a"
    using Intrin.prems(3) by (auto simp: e)
  have ev: "eval env a l = Some v"
    using Intrin.prems(4) lik by (auto simp: e a call_val_def split: option.splits if_splits)
  have "matches env l p a v \<sigma> \<sigma>'"
    by (rule Intrin.IH [OF _ _ ps(2) a(3) ev Intrin.prems(5)]) (use m in \<open>auto simp: ps a bind_eq_Some_conv\<close>)
  then show ?case unfolding matches_def e by (simp add: ps a(2))
next
  case (NotOp a)
  obtain ea where e: "e = NotE ea" "pmatch F a ea \<sigma> = Some \<sigma>'"
    using NotOp.prems(1) by (auto split: expr.splits)
  obtain x where x: "eval env ea l = Some x" "v = (if x = 0 then 1 else 0)"
    using NotOp.prems(4) by (auto simp: e(1) bind_eq_Some_conv)
  have "matches env l a ea x \<sigma> \<sigma>'"
    by (rule NotOp.IH [OF e(2) _ _ x(1) NotOp.prems(5)]) (use NotOp.prems in \<open>auto simp: e(1)\<close>)
  then show ?case
    using NotOp.prems(3) unfolding matches_def e(1) by (auto simp: is_bool_ety x(2))
next
  case (SelectOp c a b)
  obtain ec ea eb \<sigma>1 \<sigma>2 where e: "e = Select ec ea eb" and m: "pmatch F c ec \<sigma> = Some \<sigma>1"
    "pmatch F a ea \<sigma>1 = Some \<sigma>2" "pmatch F b eb \<sigma>2 = Some \<sigma>'"
    using SelectOp.prems(1) by (auto simp: bind_eq_Some_conv split: expr.splits)
  obtain p x y where x: "eval env ec l = Some p" "eval env ea l = Some x" "eval env eb l = Some y"
    and v: "v = (if p \<noteq> 0 then x else y)"
    using SelectOp.prems(4) by (auto simp: e bind_eq_Some_conv)
  have wt: "typed c" "typed a" "typed b" "wf ec" "wf ea" "wf eb" "etype eb = etype ea" "ety (etype ec) = bool_ety"
    using SelectOp.prems(2,3) by (auto simp: e is_bool_ety)
  have C: "matches env l c ec p \<sigma> \<sigma>1" by (rule SelectOp.IH(1) [OF m(1) wt(1,4) x(1) SelectOp.prems(5)])
  have A: "matches env l a ea x \<sigma>1 \<sigma>2"
    by (rule SelectOp.IH(2) [OF m(2) wt(2,5) x(2)]) (use C in \<open>simp add: matches_def\<close>)
  have B: "matches env l b eb y \<sigma>2 \<sigma>'"
    by (rule SelectOp.IH(3) [OF m(3) wt(3,6) x(3)]) (use A in \<open>simp add: matches_def\<close>)
  have "extends \<sigma>1 \<sigma>'" using matches_two(1) [OF A B] .
  then show ?case
    using matches_two [OF A B] C wt(7,8) agrees_extends [of env _ \<sigma>' \<sigma>1] extends_trans [of \<sigma> \<sigma>1 \<sigma>']
    unfolding matches_def e by (auto simp: v)
next
  case (BroadcastOp a n)
  obtain ea m where e: "e = Broadcast ea m" "pmatch F a ea \<sigma> = Some \<sigma>'"
    using BroadcastOp.prems(1) by (auto split: expr.splits if_splits)
  have "matches env l a ea v \<sigma> \<sigma>'"
    by (rule BroadcastOp.IH [OF e(2) _ _ _ BroadcastOp.prems(5)]) (use BroadcastOp.prems in \<open>auto simp: e(1)\<close>)
  then show ?case
    using BroadcastOp.prems(3) unfolding matches_def e(1) by (auto simp: ety_with_lanes wf_legal)
next
  case (RampOp a b n)
  obtain ea eb m \<sigma>1 where e: "e = Ramp ea eb m" and m: "pmatch F a ea \<sigma> = Some \<sigma>1" "pmatch F b eb \<sigma>1 = Some \<sigma>'"
    using RampOp.prems(1) by (auto simp: bind_eq_Some_conv split: expr.splits if_splits)
  obtain x y where x: "eval env ea l = Some x" "eval env eb l = Some y"
    and v: "v = norm (etype ea) (x + int l * y)"
    using RampOp.prems(4) by (auto simp: e bind_eq_Some_conv)
  have wt: "typed a" "typed b" "wf ea" "wf eb" "etype eb = etype ea"
    using RampOp.prems(2,3) by (auto simp: e)
  have A: "matches env l a ea x \<sigma> \<sigma>1" by (rule RampOp.IH(1) [OF m(1) wt(1,3) x(1) RampOp.prems(5)])
  have B: "matches env l b eb y \<sigma>1 \<sigma>'"
    by (rule RampOp.IH(2) [OF m(2) wt(2,4) x(2)]) (use A in \<open>simp add: matches_def\<close>)
  show ?case
    using matches_two [OF A B] wt(3,5) unfolding matches_def e
    by (auto simp: v norm_nrm ety_with_lanes wf_legal)
next
  case (NegateOp a)
  obtain z ea where e: "e = Sub z ea" "pmatch F a ea \<sigma> = Some \<sigma>'" "is_zero F z"
    using NegateOp.prems(1) by (auto simp: bind_eq_Some_conv split: expr.splits if_splits)
  obtain k x where x: "eval env z l = Some k" "eval env ea l = Some x" "v = norm (etype z) (k - x)"
    using NegateOp.prems(4) by (auto simp: e(1) bind_eq_Some_conv)
  have wt: "typed a" "wf z" "wf ea" "etype z = etype ea" using NegateOp.prems(2,3) by (auto simp: e(1))
  have "k = 0" by (rule is_zero_eval [OF e(3) x(1) wt(2)])
  moreover have "matches env l a ea x \<sigma> \<sigma>'" by (rule NegateOp.IH [OF e(2) wt(1,3) x(2) NegateOp.prems(5)])
  ultimately show ?case using x(3) wt(4) unfolding matches_def e(1) by (auto simp: norm_nrm)
next
  case (CastOp t a)
  obtain t' ea where e: "e = Cast t' ea" "t' = t" "pmatch F a ea \<sigma> = Some \<sigma>'"
    using CastOp.prems(1) by (auto split: expr.splits if_splits)
  obtain x where x: "eval env ea l = Some x" "v = cast_val (etype ea) t x"
    using CastOp.prems(4) by (auto simp: e(1,2) split: if_splits)
  have wt: "typed a" "wf ea" "has_lty a" using CastOp.prems(2,3) by (auto simp: e(1,2))
  have "matches env l a ea x \<sigma> \<sigma>'" by (rule CastOp.IH [OF e(3) wt(1,2) x(1) CastOp.prems(5)])
  then show ?case
    using x(2) wt(3) chint_wtd [of _ "ety (etype ea)" a a] eval_ety [OF wt(2) x(1)]
    unfolding matches_def e(1,2) by (auto simp: conv_cast)
next
  case Indeterminate
  then show ?case using eval_special [of "''indeterminate_expression''"]
    by (auto simp: is_special_def is_intrinsic_def call_val_def split: expr.splits if_splits option.splits)
next
  case Overflow
  then show ?case
    by (auto simp: is_special_def is_intrinsic_def call_val_def split: expr.splits if_splits option.splits)
qed simp_all

end
