(* ===== verification/MakeSound.thy ===== *)
theory MakeSound
  imports MatchSound
begin

text \<open>
  Soundness of construction: the expression that the rewriter builds from a pattern,
  with constants folded, lanes matched and casts simplified, has the value that the
  pattern denotes.
\<close>

section \<open>Construction\<close>

text \<open>
  Static conditions on a replacement: folded patterns have the shape that folding
  handles, at one type; literals are small; broadcasts and ramps name their lanes.
\<close>

definition lanes_ok :: "nat option \<Rightarrow> bool" where
  "lanes_ok l \<longleftrightarrow> (case l of Some n \<Rightarrow> 0 < n \<and> n < 2 ^ 14 | None \<Rightarrow> False)"

definition is_WildConst :: "pat \<Rightarrow> bool" where
  "is_WildConst p = (case p of WildConst i \<Rightarrow> True | _ \<Rightarrow> False)"

lemma is_WildConst_simps [simp]:
  "is_WildConst (WildConst i)" "is_WildConst p \<Longrightarrow> \<exists>i. p = WildConst i"
  by (auto simp: is_WildConst_def split: pat.splits)

fun fold_shape :: "pat \<Rightarrow> bool" where
  "fold_shape (BinOp op a b) \<longleftrightarrow>
     (if op = OpAnd \<or> op = OpOr then is_WildConst a \<and> is_WildConst b
      else arith_div (BinOp op a b) \<and> typed_leaf (BinOp op a b))"
| "fold_shape (CmpOp op a b) \<longleftrightarrow> arith a \<and> arith b \<and> typed_leaf (if is_literal_pat a then b else a)"
| "fold_shape (NotOp a) \<longleftrightarrow> is_WildConst a"
| "fold_shape p \<longleftrightarrow> arith p \<and> typed_leaf p"

text \<open>The constants of a folded pattern have one type.\<close>

fun fold_wt :: "vctx \<Rightarrow> pat \<Rightarrow> bool" where
  "fold_wt V (BinOp op a b) \<longleftrightarrow>
     (if op = OpAnd \<or> op = OpOr then fwt V bool_ety a \<and> fwt V bool_ety b
      else num_ety (chint V a b) \<and> fwt V (chint V a b) a \<and> fwt V (chint V a b) b)"
| "fold_wt V (CmpOp op a b) \<longleftrightarrow> num_ety (chint V a b) \<and> fwt V (chint V a b) a \<and> fwt V (chint V a b) b"
| "fold_wt V (NotOp a) \<longleftrightarrow> fwt V bool_ety a"
| "fold_wt V p \<longleftrightarrow> num_ety (chint V p p) \<and> fwt V (chint V p p) p"

fun rstatic :: "vctx \<Rightarrow> pat \<Rightarrow> bool" where
  "rstatic V (SpecificExpr e) = True"
| "rstatic V (Wild i) = True"
| "rstatic V (WildConst i) = True"
| "rstatic V (Const v) \<longleftrightarrow> - (2 ^ 30) < v \<and> v < 2 ^ 30"
| "rstatic V (BinOp op a b) \<longleftrightarrow> rstatic V a \<and> rstatic V b"
| "rstatic V (CmpOp op a b) \<longleftrightarrow> rstatic V a \<and> rstatic V b \<and> (has_lty a \<or> has_lty b)"
| "rstatic V (Intrin n ps) \<longleftrightarrow> (case ps of [p] \<Rightarrow> rstatic V p | _ \<Rightarrow> False)"
| "rstatic V (NotOp a) = rstatic V a"
| "rstatic V (SelectOp c t f) \<longleftrightarrow> rstatic V c \<and> rstatic V t \<and> rstatic V f"
| "rstatic V (BroadcastOp a l) \<longleftrightarrow> rstatic V a \<and> lanes_ok l"
| "rstatic V (RampOp a b l) \<longleftrightarrow> rstatic V a \<and> rstatic V b \<and> lanes_ok l"
| "rstatic V (NegateOp a) = rstatic V a"
| "rstatic V (CastOp t a) \<longleftrightarrow> rstatic V a \<and> has_lty a \<and> legal_type t \<and> is_num t"
| "rstatic V (Fold a) \<longleftrightarrow> fold_shape a \<and> fold_wt V a"
| "rstatic V _ = False"

text \<open>Hints are legal types, or none, from which no constant can be made.\<close>

definition hint_ok :: "halide_type \<Rightarrow> bool" where
  "hint_ok t \<longleftrightarrow> (legal_type t \<and> is_num t) \<or> (code t = Halide_Int \<and> bits t = 0)"

lemma hint_ok_lanes: "hint_ok t \<Longrightarrow> hint_ok (t\<lparr>lanes := 1\<rparr>)"
  by (auto simp: hint_ok_def legal_type_def is_num_def is_int_def is_uint_def split: type_code.splits)

lemma hint_ok_no_type: "hint_ok no_type"
  by (simp add: hint_ok_def no_type_def)

lemma make_const_hint:
  assumes "make_const F t v = Some e" "hint_ok t"
  shows "legal_type t \<and> is_num t"
  using assms
  by (auto simp: hint_ok_def make_const_def Let_def bind_eq_Some_conv IntImm_make_def is_int_def
      element_of_def with_lanes_def mk_type_def split: if_splits)

text \<open>Building an expression never clears the history variable.\<close>

lemma make_const_expr_tainted: "make_const_expr F v t s = Some (e, s') \<Longrightarrow> tainted s \<Longrightarrow> tainted s'"
  by (auto simp: make_const_expr_def make_const_special_expr_def bind_eq_Some_conv Let_def
      split: if_splits prod.splits)

lemma make_tainted: "pat_make F p \<sigma> h s = Some (e, s') \<Longrightarrow> tainted s \<Longrightarrow> tainted s'"
proof (induction p arbitrary: h s e s')
  case (Intrin n ps)
  then obtain p k e1 where "ps = p # k" "pat_make F p \<sigma> h s = Some (e1, s')"
    by (cases ps) (auto simp: bind_eq_Some_conv split: if_splits)
  then show ?case using Intrin.IH Intrin.prems(2) by (metis list.set_intros(1))
qed (auto simp: bind_eq_Some_conv Let_def make_const_special_expr_def split: if_splits prod.splits
      dest: make_const_expr_tainted)

text \<open>A constant made from a folded value.\<close>

lemma make_const_expr_sound:
  assumes "make_const_expr F v ty s = Some (e, s')" "\<not> tainted s'" "num_ety (ety ty)"
    and "0 < lanes ty" "lanes ty < 2 ^ 16"
  shows "\<not> special (lanes ty) \<and> wf e \<and> ety (etype e) = ety ty \<and>
    eval env e l = Some (nrm (ety ty) (rd (ety ty) v))"
proof -
  have sp: "\<not> special (lanes ty)"
    using assms(1,2) by (auto simp: make_const_expr_def make_const_special_expr_def bind_eq_Some_conv Let_def
      split: if_splits prod.splits)
  then have n: "lanes ty < 2 ^ 14" using not_special_less assms(5) by blast
  let ?s = "ty\<lparr>lanes := 1\<rparr>"
  have leg: "legal_type ?s" "is_num ?s"
    using assms(3) by (auto simp: legal_type_def num_ety_def ety_def is_num_def is_int_def is_uint_def)
  obtain e1 where e1: "e1 = (if code ty = Halide_Int then IntImm ?s (const_val ?s (sint v))
      else UIntImm ?s (const_val ?s (uint v)))"
    and e: "if lanes ty > 1 then Broadcast_make e1 (lanes ty) = Some e else e = e1"
    and fit: "no_overflow_int ty \<longrightarrow> fits (bits ty) (sint v)"
    using assms(1-3) sp
    by (auto simp: make_const_expr_def bind_eq_Some_conv Let_def IntImm_make_Some UIntImm_make_Some
        num_ety_def ety_def split: if_splits)
  have cv: "const_val ?s (rd (ety ty) v) = nrm (ety ty) (rd (ety ty) v)"
  proof (cases "wide (ety ty)")
    case True
    then have "code ty = Halide_Int" "no_overflow_int ty" by (auto simp: wide_def ety_def no_overflow_int_def is_int_def)
    then show ?thesis
      using fit True const_val_fits [of ?s "sint v"] by (simp add: rd_def ety_def is_int_def)
  next
    case False
    then show ?thesis
      using const_val_norm [OF leg(2)] by (simp add: no_overflow_int_wide norm_nrm ety_def)
  qed
  have fc: "code ty = Halide_Int \<Longrightarrow> fits (bits ty) (const_val ?s k)" for k
    using fits_const_val [of ?s k] assms(3) by (auto simp: num_ety_def ety_def is_int_def)
  have uc: "code ty \<noteq> Halide_Int \<Longrightarrow> 0 \<le> const_val ?s k \<and> const_val ?s k < 2 ^ bits ty" for k
    by (simp add: const_val_def is_int_def)
  have w1: "wf e1 \<and> etype e1 = ?s \<and> eval env e1 l = Some (nrm (ety ty) (rd (ety ty) v))"
    using leg fc [of "sint v"] uc [of "uint v"] cv assms(3)
    by (auto simp: e1 rd_def ety_def is_int_def is_uint_def is_scalar_def num_ety_def)
  have "ety (with_lanes (lanes ty) ?s) = ety ty"
    using ety_with_lanes [OF leg(1)] by (simp add: ety_def)
  then show ?thesis
    using w1 e n sp assms(4) by (auto simp: Broadcast_make_def is_scalar_def ety_def split: if_splits)
qed

definition made :: "eval_env \<Rightarrow> vctx \<Rightarrow> pat \<Rightarrow> expr \<Rightarrow> bool" where
  "made env V p e \<longleftrightarrow> wf e \<and> is_num (etype e) \<and>
     (\<forall>t. lty V p = Some t \<longrightarrow> ety (etype e) = t) \<and>
     (pdef V (ety (etype e)) p \<longrightarrow> eval env e (lane V) = Some (pval V (ety (etype e)) p))"

lemma made_hint: "made env V p e \<Longrightarrow> hint_ok (etype e)"
  by (simp add: made_def hint_ok_def wf_legal)

lemma is_num_ety: "is_num t \<longleftrightarrow> fst (ety t) = Halide_Int \<or> fst (ety t) = Halide_UInt"
  by (auto simp: is_num_def is_int_def is_uint_def ety_def)

lemma num_ety_num: "num_ety (ety t) \<Longrightarrow> is_num t"
  by (auto simp: is_num_ety num_ety_def)

lemma made_broadcast:
  assumes "made env V p e" "Broadcast_make e n = Some e'" "0 < n" "n < 2 ^ 14"
  shows "made env V p e'"
proof -
  have e': "e' = Broadcast e n" "is_scalar (etype e)" "n \<noteq> 1"
    using assms(2) by (auto simp: Broadcast_make_def split: if_splits)
  moreover have "ety (with_lanes n (etype e)) = ety (etype e)"
    using assms(1) by (simp add: ety_with_lanes made_def wf_legal)
  ultimately show ?thesis
    using assms by (auto simp: made_def is_num_ety)
qed

lemma made_lanes:
  assumes "match_lanes ea eb = Some (ea', eb')" "made env V a ea" "made env V b eb"
  shows "made env V a ea' \<and> made env V b eb'"
proof -
  have "0 < lanes (etype ea) \<and> lanes (etype ea) < 2 ^ 14" "0 < lanes (etype eb) \<and> lanes (etype eb) < 2 ^ 14"
    using assms(2,3) legal_lanes wf_legal by (auto simp: made_def)
  then show ?thesis
    using assms(1) made_broadcast [OF assms(3)] made_broadcast [OF assms(2)] assms(2,3)
    by (auto simp: match_lanes_def bind_eq_Some_conv split: if_splits)
qed

text \<open>Two operands, the literal one last.\<close>

lemma made_two:
  assumes "\<And>h s e s'. pat_make F a \<sigma> h s = Some (e, s') \<Longrightarrow> \<not> tainted s' \<Longrightarrow> hint_ok h \<Longrightarrow> made env V a e"
    and "\<And>h s e s'. pat_make F b \<sigma> h s = Some (e, s') \<Longrightarrow> \<not> tainted s' \<Longrightarrow> hint_ok h \<Longrightarrow> made env V b e"
    and "(if is_literal_pat a then do {
            (eb, s) \<leftarrow> pat_make F b \<sigma> h s; (ea, s) \<leftarrow> pat_make F a \<sigma> (etype eb) s; Some (ea, eb, s) }
          else do {
            (ea, s) \<leftarrow> pat_make F a \<sigma> h s; (eb, s) \<leftarrow> pat_make F b \<sigma> (etype ea) s; Some (ea, eb, s) })
         = Some (ea, eb, s')"
    and "\<not> tainted s'" "hint_ok h"
  shows "made env V a ea \<and> made env V b eb"
proof (cases "is_literal_pat a")
  case True
  then obtain s1 where m: "pat_make F b \<sigma> h s = Some (eb, s1)" "pat_make F a \<sigma> (etype eb) s1 = Some (ea, s')"
    using assms(3) by (auto simp: bind_eq_Some_conv)
  have B: "made env V b eb"
    using assms(2) [OF m(1) _ assms(5)] make_tainted [OF m(2)] assms(4) by blast
  show ?thesis using assms(1) [OF m(2) assms(4) made_hint [OF B]] B by simp
next
  case False
  then obtain s1 where m: "pat_make F a \<sigma> h s = Some (ea, s1)" "pat_make F b \<sigma> (etype ea) s1 = Some (eb, s')"
    using assms(3) by (auto simp: bind_eq_Some_conv)
  have A: "made env V a ea"
    using assms(1) [OF m(1) _ assms(5)] make_tainted [OF m(2)] assms(4) by blast
  show ?thesis using assms(2) [OF m(2) assms(4) made_hint [OF A]] A by simp
qed

lemma made_chint: "made env V a ea \<Longrightarrow> made env V b eb \<Longrightarrow> etype ea = etype eb \<Longrightarrow>
    has_lty a \<or> has_lty b \<Longrightarrow> chint V a b = ety (etype ea)"
  using has_lty_iff [of a V] has_lty_iff [of b V]
  by (cases "lty V a") (auto simp: made_def chint_def)

lemma made_or_else: "made env V a ea \<Longrightarrow> made env V b eb \<Longrightarrow> etype ea = etype eb \<Longrightarrow>
    or_else (lty V a) (lty V b) = Some t \<Longrightarrow> ety (etype ea) = t"
  by (cases "lty V a") (auto simp: made_def)

lemma eval_bin: "eval env a l = Some x \<Longrightarrow> eval env b l = Some y \<Longrightarrow> (divides op \<longrightarrow> y \<noteq> 0) \<Longrightarrow>
    eval env (Bin op a b) l = Some (bin_tot op (norm (etype a)) x y)"
  by (auto simp: bin_val_tot)

lemma made_bin:
  assumes "made env V a ea" "made env V b eb" "Bin_make op ea eb = Some e"
  shows "made env V (BinOp op a b) e"
proof -
  have e: "e = Bin op ea eb" "etype ea = etype eb" "op = OpAnd \<or> op = OpOr \<longrightarrow> is_bool (etype ea)"
    using assms(3) by (auto simp: Bin_make_def split: if_splits)
  have "ety (etype ea) = t" if "lty V (BinOp op a b) = Some t" for t
    using that e(2,3) made_or_else [OF assms(1,2) e(2)] by (auto simp: is_bool_ety split: if_splits)
  moreover have "eval env e (lane V) = Some (pval V (ety (etype ea)) (BinOp op a b))"
    if d: "pdef V (ety (etype ea)) (BinOp op a b)"
    using d assms(1,2) e(1,2) eval_bin [of env ea "lane V" _ eb _ op] by (auto simp: made_def norm_nrm)
  ultimately show ?thesis
    using assms(1,2) e by (auto simp: made_def)
qed

lemma made_cmp:
  assumes "made env V a ea" "made env V b eb" "Cmp_make op ea eb = Some e" "has_lty a \<or> has_lty b"
  shows "made env V (CmpOp op a b) e"
proof -
  have e: "e = Cmp op ea eb" "etype ea = etype eb"
    using assms(3) by (auto simp: Cmp_make_def split: if_splits)
  then have "chint V a b = ety (etype ea)" using made_chint assms by blast
  then show ?thesis using assms(1,2) e by (auto simp: made_def)
qed

lemma made_ramp:
  assumes "made env V a ea" "made env V b eb" "Ramp_make ea eb n = Some e" "n < 2 ^ 14"
  shows "made env V (RampOp a b l) e"
proof -
  have e: "e = Ramp ea eb n" "is_scalar (etype ea)" "etype ea = etype eb" "n > 1"
    using assms(3) by (auto simp: Ramp_make_def split: if_splits)
  have t: "ety (with_lanes n (etype ea)) = ety (etype ea)"
    using assms(1) by (simp add: ety_with_lanes made_def wf_legal)
  have "ety (etype ea) = t" if "lty V (RampOp a b l) = Some t" for t
    using that made_or_else [OF assms(1,2) e(3)] by simp
  then show ?thesis
    using assms(1,2,4) e t by (auto simp: made_def norm_nrm is_num_ety)
qed

lemma made_select:
  assumes "made env V c ec" "made env V a ea" "made env V b eb" "Select_make ec ea eb = Some e"
  shows "made env V (SelectOp c a b) e"
proof -
  have e: "e = Select ec ea eb" "etype ea = etype eb" "is_bool (etype ec)"
    "is_scalar (etype ec) \<or> lanes (etype ec) = lanes (etype ea)"
    using assms(4) by (auto simp: Select_make_def split: if_splits)
  have "ety (etype ea) = t" if "lty V (SelectOp c a b) = Some t" for t
    using that made_or_else [OF assms(2,3) e(2)] by simp
  then show ?thesis
    using assms(1-3) e by (auto simp: made_def is_bool_ety)
qed

lemma made_negate:
  assumes "made env V a ea" "make_zero F (etype ea) = Some z" "Bin_make OpSub z ea = Some e"
  shows "made env V (NegateOp a) e"
proof -
  have a: "is_num (etype ea)" "legal_type (etype ea)" using assms(1) by (auto simp: made_def wf_legal)
  then have "\<not> is_handle (etype ea)" by (auto simp: is_num_def is_int_def is_uint_def is_handle_def)
  then have z: "make_const F (etype ea) 0 = Some z" using assms(2) by (simp add: make_zero_def)
  have "const_val (etype ea) 0 = 0" by (simp add: const_val_def)
  then have zv: "eval env z (lane V) = Some 0" "etype z = etype ea" "wf z"
    using make_const_eval [OF z a] by simp_all
  have "e = Sub z ea" using assms(3) by (auto simp: Bin_make_def split: if_splits)
  then show ?thesis
    using assms(1) zv by (auto simp: made_def norm_nrm)
qed

lemma made_not:
  assumes "made env V a ea" "Not_make ea = Some e"
  shows "made env V (NotOp a) e"
  using assms by (auto simp: made_def Not_make_def is_bool_ety split: if_splits)

lemma made_likely:
  assumes "made env V a ea" "likely_make n ea = Some e" "n = ''likely'' \<or> n = ''likely_if_innermost''"
  shows "made env V (Intrin n [a]) e"
proof -
  have e: "e = Call (etype ea) n [ea] PureIntrinsic 0"
    using assms(2,3) by (auto simp: likely_make_def Call_make_def)
  have l: "is_likely n PureIntrinsic" "\<not> is_special n PureIntrinsic"
    "\<not> is_intrinsic n PureIntrinsic ''bool_to_mask''" "\<not> is_intrinsic n PureIntrinsic ''cast_mask''"
    using assms(3) by (auto simp: is_likely_def is_special_def is_intrinsic_def)
  show ?thesis
    using assms(1) l unfolding e by (auto simp: made_def wf_legal call_val_def)
qed

text \<open>Casts, which convert constants at once.\<close>

definition casts_to :: "eval_env \<Rightarrow> nat \<Rightarrow> halide_type \<Rightarrow> expr \<Rightarrow> expr \<Rightarrow> bool" where
  "casts_to env l t a e \<longleftrightarrow> wf e \<and> ety (etype e) = ety t \<and>
     (\<forall>v. eval env a l = Some v \<longrightarrow> eval env e l = Some (conv (ety (etype a)) (ety t) v))"

lemma conv_same: "num_ety h \<Longrightarrow> nrm h v = v \<Longrightarrow> conv h h v = v"
  by (auto simp: conv_def cast_val_def num_ety_def nrm_def wrap_ty_def is_int_def is_uint_def)

lemma const_val_conv:
  assumes "is_num t" "legal_type t" "legal_type from" "is_int from \<longrightarrow> fits (bits from) v"
  shows "const_val t v = conv (ety from) (ety t) v"
proof (cases "is_int t \<and> is_int from \<and> bits from \<le> bits t")
  case True
  then have "fits (bits from) v" using assms(4) by simp
  moreover have "(2::int) ^ (bits from - 1) \<le> 2 ^ (bits t - 1)"
    using True by (intro power_increasing) auto
  ultimately have "fits (bits t) v" unfolding fits_def by linarith
  then show ?thesis
    using True const_val_fits by (simp add: conv_def cast_val_def is_int_def ety_def)
next
  case False
  then show ?thesis
    using assms(1) by (auto simp: conv_def ety_def const_val_def cast_val_def is_num_def is_int_def is_uint_def)
qed

lemma const_literal:
  assumes "wf a"
  shows "as_const_int a = Some v \<Longrightarrow> is_int (etype a) \<and> fits (bits (etype a)) v"
    and "as_const_uint a = Some v \<Longrightarrow> is_uint (etype a)"
    and "as_const_float a = Some f \<Longrightarrow> is_float (etype a)"
proof -
  have w: "is_int (with_lanes n t) = is_int t" "is_uint (with_lanes n t) = is_uint t"
    "is_float (with_lanes n t) = is_float t" for n t
    by (simp_all add: with_lanes_def mk_type_def is_int_def is_uint_def is_float_def)
  show "as_const_int a = Some v \<Longrightarrow> is_int (etype a) \<and> fits (bits (etype a)) v"
    using assms by (induction a) (auto simp: w wf_legal with_lanes_sel)
  show "as_const_uint a = Some v \<Longrightarrow> is_uint (etype a)"
    using assms by (induction a) (auto simp: w)
  show "as_const_float a = Some f \<Longrightarrow> is_float (etype a)"
    using assms by (induction a) (auto simp: w)
qed

lemma cast_const_sound:
  assumes "cast_const F t a = Some (Some e)" "is_num t" "legal_type t" "wf a" "is_num (etype a)"
  shows "casts_to env l t a e"
proof -
  have nf: "as_const_float a = None"
    using const_literal(3) [OF assms(4)] assms(5)
    by (cases "as_const_float a") (auto simp: is_num_def is_float_def is_int_def is_uint_def)
  obtain c where c: "as_const_int a = Some c \<or> as_const_uint a = Some c" "make_const F t c = Some e"
    using assms(1) nf by (auto simp: cast_const_def split: option.splits)
  have "is_int (etype a) \<longrightarrow> fits (bits (etype a)) c"
    using c(1) const_literal [OF assms(4)] by (auto simp: is_int_def is_uint_def)
  then have v: "const_val t c = conv (ety (etype a)) (ety t) c"
    using const_val_conv assms(2,3) wf_legal [OF assms(4)] by blast
  have "eval env a l = Some c"
    using c(1) as_const_int_eval as_const_uint_eval by blast
  then show ?thesis
    using make_const_eval(1) [OF c(2) assms(2,3), of env l] make_const_eval(2,3) [OF c(2) assms(2,3)] v
    by (simp add: casts_to_def)
qed

lemma cast_make_sound:
  assumes "Cast_make t a = Some e" "is_num t" "legal_type t" "wf a"
  shows "casts_to env l t a e"
proof -
  have "e = Cast t a" "lanes t = lanes (etype a)" using assms(1) by (auto simp: Cast_make_def split: if_splits)
  then show ?thesis
    using assms(2-4) conv_cast [of "etype a" "ety (etype a)" t "ety t"] by (simp add: casts_to_def)
qed

lemma cast_same_sound: "etype a = t \<Longrightarrow> wf a \<Longrightarrow> casts_to env l t a a"
  using eval_ety [of a env l] conv_same by (auto simp: casts_to_def)

lemma cast_scalar_sound:
  assumes "cast_scalar F t a = Some e" "is_num t" "legal_type t" "wf a" "is_num (etype a)"
  shows "casts_to env l t a e"
  using assms(1) cast_same_sound [OF _ assms(4)] cast_const_sound [OF _ assms(2-5)]
    cast_make_sound [OF _ assms(2-4)]
  by (auto simp: cast_scalar_def split: if_splits option.splits)

lemma casts_to_broadcast:
  assumes "casts_to env l (element_of t) a e" "Broadcast_make e (lanes t) = Some e'" "legal_type t"
  shows "casts_to env l t a e'"
proof -
  have t: "ety (element_of t) = ety t" "0 < lanes t" "lanes t < 2 ^ 14"
    using assms(3) legal_lanes by (auto simp: ety_def element_of_sel)
  have e': "e' = Broadcast e (lanes t)" "is_scalar (etype e)" "lanes t \<noteq> 1"
    using assms(2) by (auto simp: Broadcast_make_def split: if_splits)
  show ?thesis
    using assms(1) t unfolding e'(1) casts_to_def by (auto simp: e'(2,3) ety_with_lanes wf_legal)
      (use e'(3) in simp)
qed

lemma legal_element_of: "legal_type t \<Longrightarrow> legal_type (element_of t)"
  using legal_with_lanes [of t 1] by (simp add: element_of_def)

lemma is_num_element_of [simp]: "is_num (element_of t) = is_num t"
  by (simp add: is_num_def)

lemma cast_e_sound:
  assumes "cast_e F t a = Some e" "is_num t" "legal_type t" "wf a" "is_num (etype a)"
  shows "casts_to env l t a e"
proof -
  note el = legal_element_of [OF assms(3)]
  consider (same) "etype a = t" "e = a" | (const) "cast_const F t a = Some (Some e)"
    | (scalar) s where "cast_scalar F (element_of t) a = Some s" "Broadcast_make s (lanes t) = Some e"
    | (vector) v n s where "a = Broadcast v n" "cast_scalar F (element_of t) v = Some s"
        "Broadcast_make s (lanes t) = Some e"
    | (cast) "Cast_make t a = Some e"
  proof (cases "etype a = t")
    case True
    then have "a = e" using assms(1) unfolding cast_e_def by (simp only: if_True option.inject simp_thms)
    then show ?thesis using that(1) [OF True] by simp
  next
    case ne: False
    show ?thesis
    proof (cases "cast_const F t a")
      case (Some r)
      then have "r = Some e" using assms(1) ne by (simp add: cast_e_def split: if_splits)
      then show ?thesis using that(2) Some by simp
    next
      case None
      have rest: "(if is_vector t \<and> is_scalar (etype a) then do {
            e \<leftarrow> cast_scalar F (element_of t) a; Broadcast_make e (lanes t) }
          else if is_vector t then
            (case a of Broadcast v n \<Rightarrow>
               if n = lanes t then do {
                 e \<leftarrow> cast_scalar F (element_of t) v; Broadcast_make e (lanes t) } else None
             | _ \<Rightarrow> Cast_make t a)
          else Cast_make t a) = Some e"
        using assms(1) ne None by (simp add: cast_e_def split: if_split_asm)
      show ?thesis
      proof (cases "is_vector t \<and> is_scalar (etype a)")
        case True
        then obtain s where "cast_scalar F (element_of t) a = Some s" "Broadcast_make s (lanes t) = Some e"
          using rest by (auto simp: bind_eq_Some_conv)
        then show ?thesis by (rule that(3))
      next
        case nv: False
        show ?thesis
        proof (cases "is_vector t \<and> (\<exists>v n. a = Broadcast v n)")
          case True
          then obtain v n where a: "a = Broadcast v n" "is_vector t" by blast
          then obtain s where "cast_scalar F (element_of t) v = Some s" "Broadcast_make s (lanes t) = Some e"
            using rest nv by (auto simp: bind_eq_Some_conv split: if_split_asm)
          then show ?thesis by (rule that(4) [OF a(1)])
        next
          case False
          then have "Cast_make t a = Some e" using rest nv by (cases a) (simp_all split: if_split_asm)
          then show ?thesis by (rule that(5))
        qed
      qed
    qed
  qed
  then show ?thesis
  proof cases
    case same
    then show ?thesis using cast_same_sound assms(4) by simp
  next
    case const
    then show ?thesis using cast_const_sound assms(2-5) by blast
  next
    case scalar
    then show ?thesis
      using casts_to_broadcast [OF cast_scalar_sound [OF scalar(1) _ el assms(4,5)] scalar(2) assms(3)] assms(2)
      by simp
  next
    case vector
    have v: "wf v" "ety (etype a) = ety (etype v)" "is_num (etype v)"
      using assms(4,5) vector(1) by (auto simp: ety_with_lanes wf_legal is_num_ety)
    have "casts_to env l t v e"
      using casts_to_broadcast [OF cast_scalar_sound [OF vector(2) _ el v(1,3)] vector(3) assms(3)] assms(2)
      by simp
    then show ?thesis using v(2) by (simp add: casts_to_def vector(1))
  next
    case cast
    then show ?thesis using cast_make_sound assms(2-4) by blast
  qed
qed

lemma made_cast:
  assumes "made env V a ea" "cast_e F t ea = Some e" "is_num t" "legal_type t" "has_lty a"
  shows "made env V (CastOp t a) e"
proof -
  have a: "wf ea" "is_num (etype ea)" "chint V a a = ety (etype ea)"
    using assms(1,5) made_chint [OF assms(1,1)] by (auto simp: made_def)
  have "casts_to env (lane V) t ea e" by (rule cast_e_sound [OF assms(2-4) a(1,2)])
  then show ?thesis
    using assms(1,3) a(3) by (auto simp: made_def casts_to_def is_num_ety)
qed

end
