(* ===== verification/Lanes.thy ===== *)
theory Lanes
  imports MakeSound
begin

text \<open>
  Lanes: a scalar expression has the same value in every lane, and matching and
  construction keep to the lanes of the node they start from.
\<close>

definition lane_okt :: "nat \<Rightarrow> halide_type \<Rightarrow> bool" where
  "lane_okt l t \<longleftrightarrow> lanes t = 1 \<or> l < lanes t"

abbreviation lane_ok :: "nat \<Rightarrow> expr \<Rightarrow> bool" where
  "lane_ok l e \<equiv> lane_okt l (etype e)"

lemma lane_okt_scalar [simp]: "is_scalar t \<Longrightarrow> lane_okt l t" "lanes t = 1 \<Longrightarrow> lane_okt l t"
  by (simp_all add: lane_okt_def is_scalar_def)

lemma lane_okt_lanes: "lanes t = lanes t' \<Longrightarrow> lane_okt l t \<longleftrightarrow> lane_okt l t'"
  by (simp add: lane_okt_def)

lemma lane_ok_lane: "legal_type t \<Longrightarrow> lane_okt l t \<Longrightarrow> lane_in t l < lanes t"
  using legal_lanes [of t] by (auto simp: lane_okt_def lane_in_def)

section \<open>Scalars\<close>

lemma lanes_BoolT: "0 < l \<Longrightarrow> l < 2 ^ 14 \<Longrightarrow> lanes (BoolT l) = l"
  by (simp add: BoolT_sel take_bit_16_lanes)

lemma wf_lanes: "wf e \<Longrightarrow> 0 < lanes (etype e) \<and> lanes (etype e) < 2 ^ 14"
  using wf_legal legal_lanes by blast

lemma lanes_with: "n < 2 ^ 14 \<Longrightarrow> lanes (with_lanes n t) = n"
  by (simp add: with_lanes_def mk_type_def take_bit_16_lanes)

lemma eval_scalar: "wf e \<Longrightarrow> lanes (etype e) = 1 \<Longrightarrow> eval env e l = eval env e l'"
proof (induction e arbitrary: env)
  case (Broadcast e n)
  then show ?case using lanes_with [of n "etype e"] by simp
next
  case (Ramp a b n)
  then show ?case using lanes_with [of n "etype a"] by simp
next
  case (Cmp op a b)
  then have "lanes (etype a) = 1" using wf_lanes [of a] lanes_BoolT by simp
  then show ?case using Cmp.IH [of env] Cmp.prems by simp
next
  case (NotE a)
  then have "lanes (etype a) = 1" using wf_lanes [of a] lanes_BoolT by simp
  then show ?case using NotE.IH [of env] NotE.prems by simp
next
  case (Select c a b)
  then have "lanes (etype c) = 1" by (auto simp: is_scalar_def)
  then show ?case using Select.IH [of env] Select.prems by simp
next
  case (Call t n as ct vi)
  show ?case
  proof (cases "is_likely n ct")
    case True
    then obtain a where "as = [a]" "etype a = t" using Call.prems by auto
    then show ?thesis using Call True by simp
  next
    case False
    then show ?thesis using Call.prems(2) by (simp add: lane_in_def)
  qed
next
  case (LetE n v b)
  have "(\<lambda>l. eval env v l) = (\<lambda>l. eval env v l)" ..
  then show ?case using LetE by simp
next
  case (Shuffle vs "is")
  then have "length is = 1" using lanes_with [of "length is"] by (cases vs) simp_all
  then show ?case by (simp add: Let_def)
qed (auto simp: lane_in_def)

section \<open>Matching\<close>

definition lanes_bound :: "nat \<Rightarrow> matcher_state \<Rightarrow> bool" where
  "lanes_bound l \<sigma> \<longleftrightarrow>
     (\<forall>i e. bindings \<sigma> i = Some e \<longrightarrow> lane_ok l e \<and> lanes (etype e) < 2 ^ 14) \<and>
     (\<forall>i c t. bound_const \<sigma> i = Some (c, t) \<longrightarrow> lane_okt l t \<and> lanes t < 2 ^ 14)"

lemma lanes_bound_empty [simp]: "lanes_bound l empty_state"
  by (simp add: lanes_bound_def empty_state_def)

lemma lanes_bound_set:
  "lanes_bound l \<sigma> \<Longrightarrow> lane_ok l e \<Longrightarrow> lanes (etype e) < 2 ^ 14 \<Longrightarrow> lanes_bound l (set_binding i e \<sigma>)"
  "lanes_bound l \<sigma> \<Longrightarrow> lane_okt l t \<Longrightarrow> lanes t < 2 ^ 14 \<Longrightarrow> lanes_bound l (set_bound_const i c t \<sigma>)"
  by (auto simp: lanes_bound_def set_binding_def set_bound_const_def)

lemma WildConst_lanes:
  "WildConst_match F i e \<sigma> = Some \<sigma>' \<Longrightarrow> lane_ok l e \<Longrightarrow> lanes (etype e) < 2 ^ 14 \<Longrightarrow> lanes_bound l \<sigma> \<Longrightarrow>
    lanes_bound l \<sigma>'"
  by (auto simp: WildConst_match_def WildConstInt_match_def WildConstUInt_match_def WildConstFloat_match_def
      intro: lanes_bound_set split: expr.splits option.splits if_splits)

lemma pmatch_lanes:
  "pmatch F p e \<sigma> = Some \<sigma>' \<Longrightarrow> typed p \<Longrightarrow> wf e \<Longrightarrow> lane_ok l e \<Longrightarrow> lanes_bound l \<sigma> \<Longrightarrow> lanes_bound l \<sigma>'"
proof (induction p arbitrary: e \<sigma> \<sigma>')
  case (WildConst i)
  then show ?case using WildConst_lanes wf_lanes by simp
next
  case (Wild i)
  then show ?case using wf_lanes [of e] by (auto intro: lanes_bound_set split: option.splits if_splits)
next
  case (BinOp op a b)
  then show ?case by (fastforce simp: bind_eq_Some_conv split: expr.splits if_splits)
next
  case (CmpOp op a b)
  obtain ea eb \<sigma>1 where m: "e = Cmp op ea eb" "pmatch F a ea \<sigma> = Some \<sigma>1" "pmatch F b eb \<sigma>1 = Some \<sigma>'"
    using CmpOp.prems(1) by (auto simp: bind_eq_Some_conv split: expr.splits if_splits)
  have w: "wf ea" "wf eb" "etype ea = etype eb" using CmpOp.prems(3) m by simp_all
  then have "lane_ok l ea" "lane_ok l eb"
    using CmpOp.prems(4) m(1) lanes_BoolT wf_lanes [of ea] wf_lanes [of eb] by (simp_all add: lane_okt_def)
  then show ?case using CmpOp.IH(1) [OF m(2)] CmpOp.IH(2) [OF m(3)] CmpOp.prems w by simp
next
  case (NotOp a)
  obtain ea where m: "e = NotE ea" "pmatch F a ea \<sigma> = Some \<sigma>'"
    using NotOp.prems(1) by (auto split: expr.splits)
  then have "lane_ok l ea" "wf ea"
    using NotOp.prems(3,4) lanes_BoolT wf_lanes [of ea] by (simp_all add: lane_okt_def)
  then show ?case using NotOp.IH [OF m(2)] NotOp.prems by simp
next
  case (SelectOp c a b)
  obtain ec ea eb \<sigma>1 \<sigma>2 where m: "e = Select ec ea eb" "pmatch F c ec \<sigma> = Some \<sigma>1"
    "pmatch F a ea \<sigma>1 = Some \<sigma>2" "pmatch F b eb \<sigma>2 = Some \<sigma>'"
    using SelectOp.prems(1) by (auto simp: bind_eq_Some_conv split: expr.splits if_splits)
  have w: "wf ec" "wf ea" "wf eb" "etype eb = etype ea" "lane_ok l ea" "lane_ok l ec"
    using SelectOp.prems(3,4) m(1) by (auto simp: lane_okt_def is_scalar_def)
  then show ?case
    using SelectOp.IH(1) [OF m(2)] SelectOp.IH(2) [OF m(3)] SelectOp.IH(3) [OF m(4)] SelectOp.prems by simp
next
  case (BroadcastOp a n)
  then show ?case by (fastforce split: expr.splits if_splits)
next
  case (RampOp a b n)
  obtain ea eb k \<sigma>1 where m: "e = Ramp ea eb k" "pmatch F a ea \<sigma> = Some \<sigma>1" "pmatch F b eb \<sigma>1 = Some \<sigma>'"
    using RampOp.prems(1) by (auto simp: bind_eq_Some_conv split: expr.splits if_splits)
  then show ?case using RampOp.IH(1) [OF m(2)] RampOp.IH(2) [OF m(3)] RampOp.prems by simp
next
  case (NegateOp a)
  obtain ea eb where m: "e = Bin OpSub ea eb" "pmatch F a eb \<sigma> = Some \<sigma>'"
    using NegateOp.prems(1) by (auto simp: bind_eq_Some_conv split: expr.splits if_splits)
  then show ?case using NegateOp.IH [OF m(2)] NegateOp.prems by simp
next
  case (CastOp t a)
  obtain t' ea where m: "e = Cast t' ea" "pmatch F a ea \<sigma> = Some \<sigma>'"
    using CastOp.prems(1) by (auto split: expr.splits if_splits)
  then show ?case using CastOp.IH [OF m(2)] CastOp.prems by (simp add: lane_okt_def)
next
  case (Intrin n ps)
  obtain p where ps: "ps = [p]" "typed p" and n: "n = ''likely'' \<or> n = ''likely_if_innermost''"
    using Intrin.prems(2) by (auto split: list.splits)
  obtain t as ct vi where m: "e = Call t n as ct vi" "pmatch_args F ps as \<sigma> = Some \<sigma>'" "is_likely n ct"
    using Intrin.prems(1) n by (auto simp: is_likely_def is_intrinsic_def split: expr.splits if_splits)
  then obtain a where a: "as = [a]" "etype a = t" "wf a" using Intrin.prems(3) by auto
  have "pmatch F p a \<sigma> = Some \<sigma>'" using m(2) a(1) ps(1) by (auto simp: bind_eq_Some_conv)
  then show ?case using Intrin.IH [of p a \<sigma> \<sigma>'] ps a m(1) Intrin.prems(4,5) by simp
qed (auto split: if_splits expr.splits)

section \<open>Construction\<close>

text \<open>The conditions that rules ask to be proved: their lanes do not depend on the type hint.\<close>

fun lane_safe :: "pat \<Rightarrow> bool" where
  "lane_safe (WildConst i) = True"
| "lane_safe (Wild i) = True"
| "lane_safe (BinOp op a b) \<longleftrightarrow> lane_safe a \<and> (is_literal_pat b \<or> lane_safe b)"
| "lane_safe (CmpOp op a b) \<longleftrightarrow> lane_safe a \<and> (is_literal_pat b \<or> lane_safe b)"
| "lane_safe p = False"

definition lanes_made :: "nat \<Rightarrow> expr \<Rightarrow> bool" where
  "lanes_made l e \<longleftrightarrow> lane_ok l e \<and> lanes (etype e) < 2 ^ 14"

lemma Broadcast_lanes: "Broadcast_make e n = Some e' \<Longrightarrow> n < 2 ^ 14 \<Longrightarrow> lanes (etype e') = n"
  using lanes_with [of n "etype e"] by (auto simp: Broadcast_make_def split: if_splits)

lemma match_lanes_made:
  assumes "match_lanes ea eb = Some (ea', eb')" "lanes_made l ea" "lanes_made l eb"
  shows "lanes_made l ea'"
proof (cases "is_vector (etype eb) \<and> \<not> is_vector (etype ea)")
  case True
  then have "Broadcast_make ea (lanes (etype eb)) = Some ea'"
    using assms(1) by (auto simp: match_lanes_def bind_eq_Some_conv)
  then have "lanes (etype ea') = lanes (etype eb)" using Broadcast_lanes assms(3) by (simp add: lanes_made_def)
  then show ?thesis using assms(3) by (simp add: lanes_made_def lane_okt_def)
next
  case False
  then have "ea' = ea"
    using assms(1) by (auto simp: match_lanes_def bind_eq_Some_conv Broadcast_make_def split: if_splits)
  then show ?thesis using assms(2) by simp
qed

lemma make_const_lanes:
  assumes "make_const F t v = Some e" "lanes t < 2 ^ 14"
  shows "lanes (etype e) = lanes t"
proof (cases "is_vector t")
  case True
  then obtain e' where "Broadcast_make e' (lanes t) = Some e"
    using assms(1) by (auto simp: make_const_def Let_def bind_eq_Some_conv)
  then show ?thesis using Broadcast_lanes assms(2) by blast
next
  case False
  then show ?thesis
    using assms by (auto simp: make_const_def Let_def IntImm_make_def UIntImm_make_def FloatImm_make_def split: if_splits)
qed

lemma make_const_expr_lanes:
  assumes "make_const_expr F c t s = Some (e, s')" "lane_okt l t" "lanes t < 2 ^ 14"
  shows "lanes_made l e"
proof -
  have "\<not> special (lanes t)" by (rule less_not_special [OF assms(3)])
  then obtain e' where e': "(case code t of Halide_Int \<Rightarrow> IntImm_make (t\<lparr>lanes := 1\<rparr>) (sint c)
       | Halide_UInt \<Rightarrow> UIntImm_make (t\<lparr>lanes := 1\<rparr>) (uint c) | Halide_Handle \<Rightarrow> None
       | _ \<Rightarrow> FloatImm_make F (t\<lparr>lanes := 1\<rparr>) c) = Some e'"
    and e: "(if lanes t > 1 then Broadcast_make e' (lanes t) else Some e') = Some e"
    using assms(1) by (auto simp: make_const_expr_def bind_eq_Some_conv Let_def simp del: One_nat_def)
  have "lanes (etype e') = 1"
    using e' by (auto simp: IntImm_make_def UIntImm_make_def FloatImm_make_def split: type_code.splits if_splits)
  then show ?thesis
    using e Broadcast_lanes [of e' "lanes t" e] assms(2,3) by (auto simp: lanes_made_def lane_okt_def split: if_splits)
qed

lemma pat_make_lanes:
  "pat_make F p \<sigma> h s = Some (e, s') \<Longrightarrow> lane_safe p \<Longrightarrow> lanes_bound l \<sigma> \<Longrightarrow> lanes_made l e"
proof (induction p arbitrary: h s e s')
  case (WildConst i)
  then obtain c t where "bound_const \<sigma> i = Some (c, t)" "make_const_expr F c t s = Some (e, s')"
    by (auto simp: bind_eq_Some_conv)
  then show ?case using make_const_expr_lanes [of F c t s e s' l] WildConst.prems(3) unfolding lanes_bound_def by blast
next
  case (Wild i)
  then show ?case by (auto simp: bind_eq_Some_conv lanes_bound_def lanes_made_def)
next
  case (BinOp op a b)
  have na: "\<not> is_literal_pat a" using BinOp.prems(2) by (cases a) auto
  then obtain ea eb s1 s2 ea' eb' where m: "pat_make F a \<sigma> h s = Some (ea, s1)" "pat_make F b \<sigma> (etype ea) s1 = Some (eb, s2)"
    "match_lanes ea eb = Some (ea', eb')" "Bin_make op ea' eb' = Some e"
    using BinOp.prems(1) by (auto simp: bind_eq_Some_conv)
  have a: "lanes_made l ea" using BinOp.IH(1) [OF m(1)] BinOp.prems by simp
  have "lanes_made l eb"
  proof (cases "is_literal_pat b")
    case True
    then obtain v where "b = Const v" by (cases b) auto
    then show ?thesis
      using m(2) a make_const_lanes [of F "etype ea" v eb] by (auto simp: bind_eq_Some_conv lanes_made_def lane_okt_def)
  next
    case False
    then show ?thesis using BinOp.IH(2) [OF m(2)] BinOp.prems by simp
  qed
  then show ?case using match_lanes_made [OF m(3) a] m(4) by (auto simp: Bin_make_def lanes_made_def split: if_splits)
next
  case (CmpOp op a b)
  have na: "\<not> is_literal_pat a" using CmpOp.prems(2) by (cases a) auto
  then obtain ea eb s1 s2 ea' eb' where m: "pat_make F a \<sigma> no_type s = Some (ea, s1)" "pat_make F b \<sigma> (etype ea) s1 = Some (eb, s2)"
    "match_lanes ea eb = Some (ea', eb')" "Cmp_make op ea' eb' = Some e"
    using CmpOp.prems(1) by (auto simp: bind_eq_Some_conv)
  have a: "lanes_made l ea" using CmpOp.IH(1) [OF m(1)] CmpOp.prems by simp
  have "lanes_made l eb"
  proof (cases "is_literal_pat b")
    case True
    then obtain v where "b = Const v" by (cases b) auto
    then show ?thesis
      using m(2) a make_const_lanes [of F "etype ea" v eb] by (auto simp: bind_eq_Some_conv lanes_made_def lane_okt_def)
  next
    case False
    then show ?thesis using CmpOp.IH(2) [OF m(2)] CmpOp.prems by simp
  qed
  then show ?case
    using match_lanes_made [OF m(3) a] m(4) by (auto simp: Cmp_make_def lanes_made_def lane_okt_def BoolT_sel take_bit_16_lanes split: if_splits)
qed simp_all

end
