(* ===== verification/Rewriting.thy ===== *)
theory Rewriting
  imports Lanes
begin

text \<open>
  Soundness of folded replacements, of whole replacements and of rewriting with a list
  of valid rules.
\<close>

section \<open>Folded constants\<close>

lemma xval_fval: "arith_div p \<Longrightarrow> nrm h (xval V h p) = nrm h (fval V h p)"
  by (cases "(V, h, p)" rule: xval.cases) auto

text \<open>The value a fold gives, and its type.\<close>

definition fold_value :: "vctx \<Rightarrow> pat \<Rightarrow> scalar_value \<Rightarrow> halide_type \<Rightarrow> bool" where
  "fold_value V p v ty \<longleftrightarrow> num_ety (ety ty) \<and> 0 < lanes ty \<and> lanes ty < 2 ^ 16 \<and>
     (\<forall>t. lty V p = Some t \<longrightarrow> ety ty = t) \<and>
     (\<not> special (lanes ty) \<longrightarrow>
        nrm (ety ty) (rd (ety ty) v) = nrm (ety ty) (fval V (ety ty) p))"

lemma arith_lty: "arith p \<Longrightarrow> typed_leaf p \<Longrightarrow> fwt V h p \<Longrightarrow> lty V p = Some h"
proof (induction p)
  case (BinOp op a b)
  show ?case
  proof (cases "is_literal_pat a")
    case True
    then have "lty V a = None" by (cases a) auto
    then show ?thesis using BinOp True by auto
  next
    case False
    then show ?thesis using BinOp by auto
  qed
qed auto

lemma arith_div_lty:
  assumes "arith_div p" "typed_leaf p" "fwt V h p"
  shows "lty V p = Some h"
proof (cases "arith p")
  case True
  then show ?thesis using arith_lty assms by blast
next
  case False
  then obtain a b where p: "p = BinOp OpDiv a b" "arith a" "arith b"
    using assms(1) by (cases p rule: arith_div.cases) auto
  show ?thesis
  proof (cases "is_literal_pat a")
    case True
    then have "lty V a = None" by (cases a) auto
    then show ?thesis using True assms arith_lty [OF p(3), of V h] by (simp add: p(1))
  next
    case False
    then show ?thesis using assms arith_lty [OF p(2), of V h] by (simp add: p(1))
  qed
qed

lemma arith_fold_value:
  assumes "arith_div p" "typed_leaf p" "fwt V h p" "num_ety h"
    and "make_folded_const F p \<sigma> ty0 = Some (v, ty)" "good env (lane V) \<sigma>" "agrees env V \<sigma>"
  shows "fold_value V p v ty"
proof -
  have "exact_at h V p v ty"
    using fold_arith_div [OF assms(1,5,3,4,6,7)] assms(2) by blast
  then show ?thesis
    using arith_div_lty [OF assms(1-3)] xval_fval [OF assms(1), of h V] assms(4)
    by (auto simp: fold_value_def exact_at_def)
qed

lemma const_bool:
  assumes "bound_const \<sigma> i = Some (v, t)" "good env (lane V) \<sigma>" "agrees env V \<sigma>" "cty V i = bool_ety"
  shows "ety t = bool_ety \<and> 0 < lanes t \<and> lanes t < 2 ^ 16 \<and> uint v = cval V i \<and> (v = 0 \<or> v = 1)"
proof -
  have t: "legal_type t" "cty V i = ety t" "in_ety (ety t) (rd (ety t) v)" "cval V i = rd (ety t) v"
    using assms(1-3) unfolding good_def agrees_def by blast+
  moreover have e: "ety t = bool_ety" using t(2) assms(4) by simp
  ultimately have t: "legal_type t" "ety t = bool_ety" "in_ety bool_ety (uint v)" "uint v = cval V i"
    by (simp_all add: rd_def e)
  have "uint v = 0 \<or> uint v = 1"
  proof -
    have "0 \<le> uint v" "uint v < 2" using t(3) by (simp_all add: in_ety_def)
    then show ?thesis by arith
  qed
  then have "v = 0 \<or> v = 1" by (auto simp: uint_0_iff intro: word_uint_eqI)
  then show ?thesis using t legal_lanes [OF t(1)] by auto
qed

lemma logic_fold_value:
  assumes "op = OpAnd \<or> op = OpOr" "make_folded_const F (BinOp op (WildConst i) (WildConst j)) \<sigma> ty0 = Some (v, ty)"
    and "cty V i = bool_ety" "cty V j = bool_ety" "good env (lane V) \<sigma>" "agrees env V \<sigma>"
  shows "fold_value V (BinOp op (WildConst i) (WildConst j)) v ty"
proof -
  obtain va tya where a: "bound_const \<sigma> i = Some (va, tya)"
    using assms(2) by (auto simp: bind_eq_Some_conv)
  note A = const_bool [OF a assms(5,6,3)]
  show ?thesis
  proof (cases "(op = OpAnd \<and> va = 0) \<or> (op = OpOr \<and> va = 1)")
    case True
    then have "v = va" "ty = tya" using assms(2) a by auto
    then show ?thesis
      using A True by (auto simp: fold_value_def rd_def num_ety_def nrm_def wrap_ty_def)
  next
    case False
    then obtain vb tyb where b: "bound_const \<sigma> j = Some (vb, tyb)"
      and c: "constant_fold_bin_op F op (or_lanes (lanes tya) tyb) va vb = Some (v, ty)"
      using assms(2) a by (auto simp: bind_eq_Some_conv Let_def)
    note B = const_bool [OF b assms(5,6,4)]
    have "code tyb = Halide_UInt" using B by (simp add: ety_def)
    then have v: "v = (if op = OpAnd then va AND vb AND 1 else (va OR vb) AND 1)" "ty = or_lanes (lanes tya) tyb"
      using c assms(1) by (auto simp: fold_defs)
    then show ?thesis
      using A B False assms(1) or_lanes_bounds [of "lanes tyb" "lanes tya"]
      by (auto simp: fold_value_def rd_def num_ety_def nrm_def wrap_ty_def)
  qed
qed

lemma not_fold_value:
  assumes "make_folded_const F (NotOp (WildConst i)) \<sigma> ty0 = Some (v, ty)"
    and "cty V i = bool_ety" "good env (lane V) \<sigma>" "agrees env V \<sigma>"
  shows "fold_value V (NotOp (WildConst i)) v ty"
proof -
  obtain va tya where a: "bound_const \<sigma> i = Some (va, tya)" and v: "v = NOT va AND 1"
    and ty: "ty = flag_if (is_float tya) indeterminate_expression_bit tya"
    using assms(1) by (auto simp: bind_eq_Some_conv)
  note A = const_bool [OF a assms(3,4,2)]
  have "ty = tya" using A ty by (simp add: is_float_def ety_def flag_if_def)
  then show ?thesis
    using A v by (auto simp: fold_value_def rd_def num_ety_def nrm_def wrap_ty_def)
qed

lemma cmp_fold_replacement:
  assumes "arith a" "arith b" "typed_leaf (if is_literal_pat a then b else a)"
    and "make_folded_const F (CmpOp op a b) \<sigma> ty0 = Some (v, ty)"
    and "fwt V (chint V a b) a" "fwt V (chint V a b) b" "num_ety (chint V a b)"
    and "good env (lane V) \<sigma>" "agrees env V \<sigma>"
  shows "fold_value V (CmpOp op a b) v ty"
proof -
  have ad: "arith_div p" if "arith p" for p using that by (cases p rule: arith_div.cases) auto
  then have "pshape (CmpOp op a b)" using assms(1-3) by simp
  from cmp_fold_value [OF this assms(4,8,9,5-7)] show ?thesis
    using assms(1,2)
    by (auto simp: fold_value_def rd_def num_ety_def nrm_def wrap_ty_def cmp_val_def)
qed

lemma fold_sound:
  assumes "make_folded_const F p \<sigma> ty0 = Some (v, ty)" "fold_shape p" "fold_wt V p"
    and "good env (lane V) \<sigma>" "agrees env V \<sigma>"
  shows "fold_value V p v ty"
proof (cases "(V, p)" rule: fold_wt.cases)
  case (1 V' op a b)
  show ?thesis
  proof (cases "op = OpAnd \<or> op = OpOr")
    case True
    then obtain i j where ij: "a = WildConst i" "b = WildConst j"
      using assms(2) 1 by (auto simp: is_WildConst_def split: pat.splits)
    show ?thesis
      using logic_fold_value [OF True] assms 1 True by (auto simp: ij)
  next
    case False
    then show ?thesis
      using arith_fold_value [of p V "chint V a b"] assms 1 by auto
  qed
next
  case (2 V' op a b)
  then show ?thesis using cmp_fold_replacement assms by auto
next
  case (3 V' a)
  then obtain i where "a = WildConst i" using assms(2) by (auto simp: is_WildConst_def split: pat.splits)
  then show ?thesis using not_fold_value assms 3 by auto
qed (use arith_fold_value [of p V "chint V p p"] assms in \<open>auto split: if_splits\<close>)

section \<open>Replacements\<close>

fun specifics :: "pat \<Rightarrow> expr set" where
  "specifics (SpecificExpr e) = {e}"
| "specifics (BinOp op a b) = specifics a \<union> specifics b"
| "specifics (CmpOp op a b) = specifics a \<union> specifics b"
| "specifics (Intrin n ps) = (case ps of [p] \<Rightarrow> specifics p | _ \<Rightarrow> {})"
| "specifics (NotOp a) = specifics a"
| "specifics (SelectOp c t f) = specifics c \<union> specifics t \<union> specifics f"
| "specifics (BroadcastOp a l) = specifics a"
| "specifics (RampOp a b l) = specifics a \<union> specifics b"
| "specifics (NegateOp a) = specifics a"
| "specifics (CastOp t a) = specifics a"
| "specifics p = {}"

definition has_value :: "eval_env \<Rightarrow> vctx \<Rightarrow> expr \<Rightarrow> bool" where
  "has_value env V e \<longleftrightarrow> wf e \<and> (\<exists>v. eval env e (lane V) = Some v)"

lemma in_ety_nrm: "num_ety h \<Longrightarrow> in_ety h v \<Longrightarrow> nrm h v = v"
  using fits_signed_take_bit_id [of "snd h" v]
  by (auto simp: num_ety_def in_ety_def nrm_def wrap_ty_def take_bit_int_eq_self)

lemma made_valued:
  assumes "wf e" "eval env e (lane V) = Some v" "lty V p = Some (ety (etype e)) \<and> pval V (ety (etype e)) p = v"
  shows "made env V p e"
  using assms eval_ety [OF assms(1,2)] by (auto simp: made_def num_ety_num)

lemma made_const:
  assumes "make_const F h v = Some e" "hint_ok h" "- (2 ^ 30) < v" "v < 2 ^ 30"
  shows "made env V (Const v) e"
proof -
  have t: "legal_type h" "is_num h" using make_const_hint [OF assms(1,2)] by auto
  have "const_val h v = nrm (ety h) v"
  proof (cases "no_overflow_int h")
    case True
    then have "fits (bits h) v" using assms(3,4) by (intro small_fits) (auto simp: no_overflow_int_def)
    then show ?thesis
      using True const_val_fits [of h v] by (simp add: no_overflow_int_wide) (simp add: wide_def ety_def is_int_def)
  next
    case False
    then show ?thesis using t const_val_norm [of h v] by (simp add: norm_nrm)
  qed
  then show ?thesis
    using make_const_eval [OF assms(1) t(2,1)] t(2) by (simp add: made_def)
qed

lemma make_sound:
  assumes "\<forall>x \<in> specifics p. has_value env V x" "good env (lane V) \<sigma>" "agrees env V \<sigma>"
  shows "pat_make F p \<sigma> h s = Some (e, s') \<Longrightarrow> \<not> tainted s' \<Longrightarrow> rstatic V p \<Longrightarrow> hint_ok h \<Longrightarrow> made env V p e"
  using assms(1)
proof (induction p arbitrary: h s e s')
  case (SpecificExpr x)
  then have "e = x" "wf x" "\<exists>v. eval env x (lane V) = Some v" by (auto simp: has_value_def)
  then show ?case
    using made_valued [of x env V _ "SpecificExpr x"] assms(3) by (auto simp: agrees_def)
next
  case (Wild i)
  then have b: "bindings \<sigma> i = Some e" by (auto simp: bind_eq_Some_conv)
  then have "wf e" "wty V i = ety (etype e)" "eval env e (lane V) = Some (wval V i)"
    using assms(2,3) unfolding good_def agrees_def by blast+
  then show ?case using made_valued by simp
next
  case (WildConst i)
  then obtain c t where b: "bound_const \<sigma> i = Some (c, t)" and m: "make_const_expr F c t s = Some (e, s')"
    by (auto simp: bind_eq_Some_conv)
  have g: "legal_type t" "is_num t" "in_ety (ety t) (rd (ety t) c)" "cty V i = ety t" "cval V i = rd (ety t) c"
    using b assms(2,3) unfolding good_def agrees_def by blast+
  have l: "num_ety (ety t)" "0 < lanes t" "lanes t < 2 ^ 16"
    using g(1,2) legal_num_ety legal_lanes [of t] by auto
  have "wf e \<and> ety (etype e) = ety t \<and> eval env e (lane V) = Some (rd (ety t) c)"
    using make_const_expr_sound [OF m WildConst.prems(2) l] in_ety_nrm [OF l(1) g(3)] by simp
  then show ?case using made_valued [of e env V _ "WildConst i"] g(4,5) by simp
next
  case (Const v)
  then show ?case using made_const by (auto simp: bind_eq_Some_conv)
next
  case (Fold a)
  then obtain c t where f: "make_folded_const F a \<sigma> h = Some (c, t)" and m: "make_const_expr F c t s = Some (e, s')"
    by (auto simp: bind_eq_Some_conv)
  have fv: "fold_value V a c t"
    using fold_sound [OF f _ _ assms(2,3)] Fold.prems(3) by simp
  then have "wf e \<and> ety (etype e) = ety t \<and> eval env e (lane V) = Some (nrm (ety t) (fval V (ety t) a))"
    using make_const_expr_sound [OF m Fold.prems(2)] by (auto simp: fold_value_def)
  then show ?case using fv by (auto simp: made_def fold_value_def num_ety_num)
next
  case (BinOp op a b)
  obtain ea eb s1 ea' eb' where m:
    "(if is_literal_pat a then do {
          (eb, s) \<leftarrow> pat_make F b \<sigma> h s; (ea, s) \<leftarrow> pat_make F a \<sigma> (etype eb) s; Some (ea, eb, s) }
        else do {
          (ea, s) \<leftarrow> pat_make F a \<sigma> h s; (eb, s) \<leftarrow> pat_make F b \<sigma> (etype ea) s; Some (ea, eb, s) })
      = Some (ea, eb, s')"
    "match_lanes ea eb = Some (ea', eb')" "Bin_make op ea' eb' = Some e"
    using BinOp.prems(1) by (auto simp: bind_eq_Some_conv)
  have "made env V a ea \<and> made env V b eb"
    by (rule made_two [OF _ _ m(1) BinOp.prems(2,4)])
      (use BinOp.IH BinOp.prems(3,5) in simp_all)
  then show ?case using made_lanes [OF m(2)] made_bin [OF _ _ m(3)] by blast
next
  case (CmpOp op a b)
  obtain ea eb s1 ea' eb' where m:
    "(if is_literal_pat a then do {
          (eb, s) \<leftarrow> pat_make F b \<sigma> no_type s; (ea, s) \<leftarrow> pat_make F a \<sigma> (etype eb) s; Some (ea, eb, s) }
        else do {
          (ea, s) \<leftarrow> pat_make F a \<sigma> no_type s; (eb, s) \<leftarrow> pat_make F b \<sigma> (etype ea) s; Some (ea, eb, s) })
      = Some (ea, eb, s')"
    "match_lanes ea eb = Some (ea', eb')" "Cmp_make op ea' eb' = Some e"
    using CmpOp.prems(1) by (auto simp: bind_eq_Some_conv)
  have "made env V a ea \<and> made env V b eb"
    by (rule made_two [OF _ _ m(1) CmpOp.prems(2) hint_ok_no_type])
      (use CmpOp.IH CmpOp.prems(3,5) in simp_all)
  then show ?case
    using made_lanes [OF m(2), of env V a b] made_cmp [OF _ _ m(3), of env V a b] CmpOp.prems(3) by simp
next
  case (RampOp a b l)
  obtain n where n: "l = Some n" "n < 2 ^ 14" using RampOp.prems(3) by (auto simp: lanes_ok_def split: option.splits)
  obtain ea eb where m:
    "(if is_literal_pat a then do {
          (eb, s) \<leftarrow> pat_make F b \<sigma> (h\<lparr>lanes := 1\<rparr>) s; (ea, s) \<leftarrow> pat_make F a \<sigma> (etype eb) s; Some (ea, eb, s) }
        else do {
          (ea, s) \<leftarrow> pat_make F a \<sigma> (h\<lparr>lanes := 1\<rparr>) s; (eb, s) \<leftarrow> pat_make F b \<sigma> (etype ea) s; Some (ea, eb, s) })
      = Some (ea, eb, s')"
    "Ramp_make ea eb n = Some e"
    using RampOp.prems(1) n(1) by (auto simp: bind_eq_Some_conv Let_def simp del: One_nat_def)
  have "made env V a ea \<and> made env V b eb"
    by (rule made_two [OF _ _ m(1) RampOp.prems(2) hint_ok_lanes [OF RampOp.prems(4)]])
      (use RampOp.IH RampOp.prems(3,5) in simp_all)
  then show ?case using made_ramp [OF _ _ m(2) n(2)] by simp
next
  case (BroadcastOp a l)
  obtain n where n: "l = Some n" "0 < n" "n < 2 ^ 14"
    using BroadcastOp.prems(3) by (auto simp: lanes_ok_def split: option.splits)
  obtain ea where m: "pat_make F a \<sigma> (h\<lparr>lanes := 1\<rparr>) s = Some (ea, s')" "Broadcast_make ea n = Some e"
    using BroadcastOp.prems(1) n(1) by (auto simp: bind_eq_Some_conv Let_def)
  have "made env V a ea"
    using BroadcastOp.IH [OF m(1) BroadcastOp.prems(2) _ hint_ok_lanes] BroadcastOp.prems by simp
  then have "made env V a e" using made_broadcast [OF _ m(2)] n by simp
  then show ?case by (simp add: made_def)
next
  case (SelectOp c a b)
  obtain ec ea eb s1 s2 where m: "pat_make F c \<sigma> no_type s = Some (ec, s1)" "pat_make F a \<sigma> h s1 = Some (ea, s2)"
    "pat_make F b \<sigma> h s2 = Some (eb, s')" "Select_make ec ea eb = Some e"
    using SelectOp.prems(1) by (auto simp: bind_eq_Some_conv)
  have t: "\<not> tainted s2" "\<not> tainted s1"
    using make_tainted [OF m(3)] make_tainted [OF m(2)] SelectOp.prems(2) by auto
  have "made env V c ec" using SelectOp.IH(1) [OF m(1) t(2) _ hint_ok_no_type] SelectOp.prems by simp
  moreover have "made env V a ea" using SelectOp.IH(2) [OF m(2) t(1)] SelectOp.prems by simp
  moreover have "made env V b eb" using SelectOp.IH(3) [OF m(3)] SelectOp.prems by simp
  ultimately show ?case using made_select m(4) by blast
next
  case (NegateOp a)
  then obtain ea z where m: "pat_make F a \<sigma> h s = Some (ea, s')" "make_zero F (etype ea) = Some z"
    "Bin_make OpSub z ea = Some e" by (auto simp: bind_eq_Some_conv)
  show ?case using made_negate [OF NegateOp.IH [OF m(1)] m(2,3)] NegateOp.prems by simp
next
  case (NotOp a)
  then obtain ea where m: "pat_make F a \<sigma> h s = Some (ea, s')" "Not_make ea = Some e"
    by (auto simp: bind_eq_Some_conv)
  show ?case using made_not [OF NotOp.IH [OF m(1)] m(2)] NotOp.prems by simp
next
  case (CastOp t a)
  then obtain ea where m: "pat_make F a \<sigma> no_type s = Some (ea, s')" "cast_e F t ea = Some e"
    by (auto simp: bind_eq_Some_conv)
  have "made env V a ea" using CastOp.IH [OF m(1) CastOp.prems(2) _ hint_ok_no_type] CastOp.prems by simp
  then show ?case using made_cast [OF _ m(2)] CastOp.prems(3) by simp
next
  case (Intrin n ps)
  obtain p where ps: "ps = [p]" using Intrin.prems(3) by (auto split: list.splits)
  then obtain ea where m: "pat_make F p \<sigma> h s = Some (ea, s')" "likely_make n ea = Some e"
    "n = ''likely'' \<or> n = ''likely_if_innermost''"
    using Intrin.prems(1) by (auto simp: bind_eq_Some_conv split: if_splits)
  have "made env V p ea" using Intrin.IH [of p] m(1) Intrin.prems ps by simp
  then show ?case using made_likely [OF _ m(2,3)] ps by simp
qed simp_all

section \<open>Valid rules\<close>

text \<open>
  Values in the ranges that evaluation gives, and literals that mean themselves. The
  parameter \<open>P\<close> of what follows is a further restriction of the assignments.
\<close>

definition ctx_ok :: "vctx \<Rightarrow> bool" where
  "ctx_ok V \<longleftrightarrow>
     (\<forall>i. num_ety (wty V i) \<and> nrm (wty V i) (wval V i) = wval V i) \<and>
     (\<forall>i. num_ety (cty V i) \<and> in_ety (cty V i) (cval V i)) \<and>
     (\<forall>e v. as_const_int e = Some v \<or> as_const_uint e = Some v \<longrightarrow> sval V e = v)"

text \<open>The operands of the matched node have the values of the operands of the pattern.\<close>

fun operands :: "expr \<Rightarrow> expr list" where
  "operands (Bin op a b) = [a, b]"
| "operands (Cmp op a b) = [a, b]"
| "operands (Select c a b) = [c, a, b]"
| "operands _ = []"

fun operand_pats :: "vctx \<Rightarrow> ety \<Rightarrow> pat \<Rightarrow> (ety \<times> pat) list" where
  "operand_pats V h (BinOp op a b) = [(h, a), (h, b)]"
| "operand_pats V h (CmpOp op a b) = [(chint V a b, a), (chint V a b, b)]"
| "operand_pats V h (SelectOp c a b) = [(bool_ety, c), (h, a), (h, b)]"
| "operand_pats V h (NotOp a) = []"
| "operand_pats V h _ = []"

definition knows :: "vctx \<Rightarrow> ety \<Rightarrow> expr list \<Rightarrow> pat \<Rightarrow> bool" where
  "knows V h args lhs \<longleftrightarrow>
     list_all2 (\<lambda>e (t, p). ety (etype e) = t \<and> sval V e = pval V t p) args (operand_pats V h lhs)"

fun node_pat :: "pat \<Rightarrow> bool" where
  "node_pat (BinOp op a b) = True"
| "node_pat (CmpOp op a b) = True"
| "node_pat (SelectOp c a b) = True"
| "node_pat (NotOp a) = True"
| "node_pat _ = False"

definition pred_ready :: "vctx \<Rightarrow> pat option \<Rightarrow> bool" where
  "pred_ready V p \<longleftrightarrow>
     (case p of
        None \<Rightarrow> True
      | Some (CanProve a) \<Rightarrow> rstatic V a \<and> specifics a = {} \<and> lty V a = Some bool_ety \<and> lane_safe a
      | Some q \<Rightarrow> pshape q)"

definition pred_true :: "vctx \<Rightarrow> pat option \<Rightarrow> bool" where
  "pred_true V p \<longleftrightarrow>
     (case p of
        None \<Rightarrow> True
      | Some (CanProve a) \<Rightarrow> pdef V bool_ety a \<longrightarrow> pval V bool_ety a \<noteq> 0
      | Some q \<Rightarrow> pholds V q)"

definition after_ok :: "vctx \<Rightarrow> ety \<Rightarrow> expr list \<Rightarrow> pat \<Rightarrow> after \<Rightarrow> bool" where
  "after_ok V h args lhs aft \<longleftrightarrow>
     (case aft of
        After q \<Rightarrow> rstatic V q \<and> specifics q \<subseteq> set args \<and> lty V q = Some h \<and> pdef V h q \<and>
                   pval V h q = pval V h lhs
      | AfterExpr e \<Rightarrow> e \<in> set args \<and> ety (etype e) = h \<and> sval V e = pval V h lhs
      | AfterInt v \<Rightarrow> - (2 ^ 30) < v \<and> v < 2 ^ 30 \<and> nrm h v = pval V h lhs)"

definition valid_rule :: "(vctx \<Rightarrow> bool) \<Rightarrow> expr list \<Rightarrow> rule \<Rightarrow> bool" where
  "valid_rule P args r \<longleftrightarrow>
     (case r of Rewrite lhs aft p \<Rightarrow>
        typed lhs \<and> node_pat lhs \<and>
        (\<forall>V h. P V \<and> ctx_ok V \<and> num_ety h \<and> wtd V h lhs \<and> pdef V h lhs \<and> knows V h args lhs \<longrightarrow>
           pred_ready V p \<and> (pred_true V p \<longrightarrow> after_ok V h args lhs aft)))"

text \<open>The assignment that a match determines.\<close>

definition vctx_of :: "eval_env \<Rightarrow> nat \<Rightarrow> matcher_state \<Rightarrow> vctx" where
  "vctx_of env l \<sigma> =
     \<lparr>wty = (\<lambda>i. case bindings \<sigma> i of Some e \<Rightarrow> ety (etype e) | None \<Rightarrow> bool_ety),
      wval = (\<lambda>i. case bindings \<sigma> i of Some e \<Rightarrow> the (eval env e l) | None \<Rightarrow> 0),
      cty = (\<lambda>i. case bound_const \<sigma> i of Some (v, t) \<Rightarrow> ety t | None \<Rightarrow> bool_ety),
      cval = (\<lambda>i. case bound_const \<sigma> i of Some (v, t) \<Rightarrow> rd (ety t) v | None \<Rightarrow> 0),
      sval = (\<lambda>e. case eval env e l of Some v \<Rightarrow> v | None \<Rightarrow> 0), lane = l\<rparr>"

lemma vctx_of_agrees: "good env l \<sigma> \<Longrightarrow> agrees env (vctx_of env l \<sigma>) \<sigma>"
  by (fastforce simp: good_def agrees_def vctx_of_def)

lemma num_ety_bool: "num_ety bool_ety" "num_ety (Halide_UInt, Suc 0)"
  by (simp_all add: num_ety_def)

lemma vctx_of_ok:
  assumes "good env l \<sigma>"
  shows "ctx_ok (vctx_of env l \<sigma>)"
  unfolding ctx_ok_def
proof (intro conjI allI impI)
  fix i
  have w: "num_ety (ety (etype e)) \<and> nrm (ety (etype e)) (the (eval env e l)) = the (eval env e l)"
    if "bindings \<sigma> i = Some e" for e
  proof -
    have "wf e" "eval env e l \<noteq> None" using assms that unfolding good_def by blast+
    then show ?thesis using eval_ety by force
  qed
  show "num_ety (wty (vctx_of env l \<sigma>) i)"
    "nrm (wty (vctx_of env l \<sigma>) i) (wval (vctx_of env l \<sigma>) i) = wval (vctx_of env l \<sigma>) i"
    using w by (auto simp: vctx_of_def num_ety_bool split: option.splits)
  have c: "num_ety (ety t) \<and> in_ety (ety t) (rd (ety t) v)" if "bound_const \<sigma> i = Some (v, t)" for v t
    using assms that legal_num_ety unfolding good_def by blast
  show "num_ety (cty (vctx_of env l \<sigma>) i)" "in_ety (cty (vctx_of env l \<sigma>) i) (cval (vctx_of env l \<sigma>) i)"
    using c by (auto simp: vctx_of_def num_ety_bool in_ety_def split: option.splits)
next
  fix e v assume "as_const_int e = Some v \<or> as_const_uint e = Some v"
  then show "sval (vctx_of env l \<sigma>) e = v"
    using as_const_int_eval as_const_uint_eval by (auto simp: vctx_of_def)
qed

lemma good_empty [simp]: "good env l empty_state"
  by (simp add: good_def empty_state_def)

text \<open>A match of the node determines the values of its operands.\<close>

lemma match_two:
  assumes "pmatch F a ea \<sigma>0 = Some \<sigma>1" "pmatch F b eb \<sigma>1 = Some \<sigma>2" "typed a" "typed b" "wf ea" "wf eb"
    and "eval env ea l = Some x" "eval env eb l = Some y" "good env l \<sigma>0" "agrees env V \<sigma>2" "lane V = l"
  shows "wtd V (ety (etype ea)) a \<and> sval V ea = pval V (ety (etype ea)) a \<and>
    wtd V (ety (etype eb)) b \<and> sval V eb = pval V (ety (etype eb)) b \<and> good env l \<sigma>1 \<and> agrees env V \<sigma>1"
proof -
  have A: "matches env l a ea x \<sigma>0 \<sigma>1" by (rule pmatch_sound [OF assms(1,3,5,7,9)])
  then have g: "good env l \<sigma>1" by (simp add: matches_def)
  have B: "matches env l b eb y \<sigma>1 \<sigma>2" by (rule pmatch_sound [OF assms(2,4,6,8) g])
  then have a1: "agrees env V \<sigma>1" using agrees_extends [OF assms(10)] by (simp add: matches_def)
  have "sval V ea = x" "sval V eb = y" using assms(7,8,10,11) unfolding agrees_def by blast+
  then show ?thesis using A B a1 g assms(10,11) unfolding matches_def by metis
qed

lemma match_knows:
  assumes "pmatch F p e empty_state = Some \<sigma>" "typed p" "wf e" "eval env e l = Some v"
    and "agrees env V \<sigma>" "lane V = l" "node_pat p"
  shows "knows V (ety (etype e)) (operands e) p \<and> (\<forall>x \<in> set (operands e). has_value env V x)"
  using assms(7)
proof (cases "(V, ety (etype e), p)" rule: operand_pats.cases)
  case (1 V' h op a b)
  then obtain ea eb \<sigma>1 where e: "e = Bin op ea eb" and m: "pmatch F a ea empty_state = Some \<sigma>1" "pmatch F b eb \<sigma>1 = Some \<sigma>"
    using assms(1) by (auto simp: bind_eq_Some_conv split: expr.splits if_splits)
  obtain x y where ev: "eval env ea l = Some x" "eval env eb l = Some y"
    using assms(4) e by (auto simp: bind_eq_Some_conv)
  show ?thesis
    using match_two [OF m _ _ _ _ ev good_empty assms(5,6)] assms(2,3,6) 1 e ev
    by (simp add: knows_def has_value_def)
next
  case (2 V' h op a b)
  then obtain ea eb \<sigma>1 where e: "e = Cmp op ea eb" and m: "pmatch F a ea empty_state = Some \<sigma>1" "pmatch F b eb \<sigma>1 = Some \<sigma>"
    using assms(1) by (auto simp: bind_eq_Some_conv split: expr.splits if_splits)
  obtain x y where ev: "eval env ea l = Some x" "eval env eb l = Some y"
    using assms(4) e by (auto simp: bind_eq_Some_conv)
  have t: "typed a" "typed b" "has_lty a \<or> has_lty b" "wf ea" "wf eb" "etype ea = etype eb"
    using assms(2,3) 2 e by auto
  note M = match_two [OF m t(1,2,4,5) ev good_empty assms(5,6)]
  have "chint V a b = ety (etype ea)"
    by (rule chint_wtd) (use M t in auto)
  then show ?thesis
    using M t 2 e ev assms(6) by (simp add: knows_def has_value_def)
next
  case (3 V' h c a b)
  then obtain ec ea eb \<sigma>1 \<sigma>2 where e: "e = Select ec ea eb" and m: "pmatch F c ec empty_state = Some \<sigma>1"
    "pmatch F a ea \<sigma>1 = Some \<sigma>2" "pmatch F b eb \<sigma>2 = Some \<sigma>"
    using assms(1) by (auto simp: bind_eq_Some_conv split: expr.splits if_splits)
  obtain q x y where ev: "eval env ec l = Some q" "eval env ea l = Some x" "eval env eb l = Some y"
    using assms(4) e by (auto simp: bind_eq_Some_conv)
  have t: "typed c" "typed a" "typed b" "wf ec" "wf ea" "wf eb" "etype ea = etype eb" "ety (etype ec) = bool_ety"
    using assms(2,3) 3 e is_bool_ety by auto
  have C: "matches env l c ec q empty_state \<sigma>1" by (rule pmatch_sound [OF m(1) t(1,4) ev(1) good_empty])
  then have g: "good env l \<sigma>1" by (simp add: matches_def)
  note M = match_two [OF m(2,3) t(2,3,5,6) ev(2,3) g assms(5,6)]
  note M' = match_two [OF m(1,2) t(1,2,4,5) ev(1,2) good_empty _ assms(6)]
  have "matches env l b eb y \<sigma>2 \<sigma>"
    by (rule pmatch_sound [OF m(3) t(3,6) ev(3)]) (use M in blast)
  then have "agrees env V \<sigma>2" using agrees_extends [OF assms(5)] by (simp add: matches_def)
  then show ?thesis
    using M M' t 3 e ev assms(6) by (simp add: knows_def has_value_def)
next
  case (4 V' h a)
  then obtain ea where "e = NotE ea" using assms(1) by (auto split: expr.splits)
  then show ?thesis using 4 by (simp add: knows_def)
qed simp_all

section \<open>Rewriting\<close>

text \<open>
  What is asked of the simplifier when it is called back to prove a condition: it keeps
  the invariant \<open>I\<close> of its state and the value of the condition.
\<close>

definition keeping_prover :: "('a mach_scheme \<Rightarrow> bool) \<Rightarrow> 'a mach_scheme prover \<Rightarrow> bool" where
  "keeping_prover I prover \<longleftrightarrow>
     (\<forall>m s. I s \<longrightarrow> I (set_mach m s)) \<and>
     (\<forall>e s e' s'. prover e s = Some (e', s') \<and> I s \<longrightarrow> I s' \<and> (tainted s \<longrightarrow> tainted s'))"

definition sound_prover ::
  "('a mach_scheme \<Rightarrow> bool) \<Rightarrow> eval_env \<Rightarrow> nat \<Rightarrow> 'a mach_scheme prover \<Rightarrow> bool" where
  "sound_prover I env l prover \<longleftrightarrow> keeping_prover I prover \<and>
     (\<forall>e s e' s' v. prover e s = Some (e', s') \<and> I s \<and> wf e \<and> lane_ok l e \<and> \<not> tainted s' \<and>
        eval env e l = Some v \<longrightarrow>
        wf e' \<and> ety (etype e') = ety (etype e) \<and> eval env e' l = Some v)"

lemma sound_keeping: "sound_prover I env l prover \<Longrightarrow> keeping_prover I prover"
  by (simp add: sound_prover_def)

lemma evaluate_predicate_keeps:
  assumes "evaluate_predicate F prover p \<sigma> s = Some (b, s')" "keeping_prover I prover" "I s"
  shows "I s' \<and> (tainted s \<longrightarrow> tainted s')"
proof (cases "\<exists>a. p = Some (CanProve a)")
  case True
  then obtain a c m c' where m: "pat_make F a \<sigma> no_type (get_mach s) = Some (c, m)"
    "prover c (set_mach m s) = Some (c', s')"
    using assms(1) by (fastforce simp: evaluate_predicate_def bind_eq_Some_conv)
  have i: "I (set_mach m s)" using assms(2,3) by (simp add: keeping_prover_def)
  have "tainted s \<longrightarrow> tainted (set_mach m s)"
    using make_tainted [OF m(1)] by (simp add: get_mach_def set_mach_def)
  then show ?thesis using m(2) i assms(2) unfolding keeping_prover_def by blast
next
  case False
  then have "s' = s" using assms(1) by (auto simp: evaluate_predicate_def bind_eq_Some_conv split: option.splits pat.splits)
  then show ?thesis using assms(3) by simp
qed

lemma evaluate_predicate_sound:
  assumes "evaluate_predicate F prover p \<sigma> s = Some (True, s')" "sound_prover I env (lane V) prover" "I s"
    and "good env (lane V) \<sigma>" "agrees env V \<sigma>" "pred_ready V p" "\<not> tainted s'" "lanes_bound (lane V) \<sigma>"
  shows "pred_true V p"
proof (cases p)
  case None
  then show ?thesis by (simp add: pred_true_def)
next
  case (Some q)
  show ?thesis
  proof (cases "\<exists>a. q = CanProve a")
    case True
    then obtain a where q: "q = CanProve a" by blast
    then obtain c m c' where m: "pat_make F a \<sigma> no_type (get_mach s) = Some (c, m)"
      "prover c (set_mach m s) = Some (c', s')" "is_one F c'"
      using assms(1) Some by (auto simp: evaluate_predicate_def bind_eq_Some_conv)
    have r: "rstatic V a" "specifics a = {}" "lty V a = Some bool_ety" "lane_safe a"
      using assms(6) Some q by (auto simp: pred_ready_def)
    have im: "I (set_mach m s)" using assms(2,3) by (simp add: sound_prover_def keeping_prover_def)
    have nt: "\<not> tainted m"
      using m(2) im assms(2,7) unfolding sound_prover_def keeping_prover_def set_mach_def by fastforce
    have "made env V a c"
      by (rule make_sound [OF _ assms(4,5) m(1) nt r(1) hint_ok_no_type]) (simp add: r(2))
    then have c: "wf c" "ety (etype c) = bool_ety"
      "pdef V bool_ety a \<longrightarrow> eval env c (lane V) = Some (pval V bool_ety a)"
      using r(3) by (auto simp: made_def)
    have lc: "lane_ok (lane V) c" using pat_make_lanes [OF m(1) r(4) assms(8)] by (simp add: lanes_made_def)
    have "pval V bool_ety a \<noteq> 0" if "pdef V bool_ety a"
    proof -
      have "wf c' \<and> ety (etype c') = bool_ety \<and> eval env c' (lane V) = Some (pval V bool_ety a)"
        using m(2) im assms(2,7) c(1,2) lc mp [OF c(3) that] unfolding sound_prover_def by metis
      then show ?thesis using is_one_true [OF m(3)] is_bool_ety by force
    qed
    then show ?thesis by (simp add: pred_true_def Some q)
  next
    case False
    then obtain v ty where v: "make_folded_const F q \<sigma> bool_type = Some (v, ty)" "v \<noteq> 0" "\<not> special (lanes ty)"
      using assms(1) Some by (auto simp: evaluate_predicate_def bind_eq_Some_conv split: pat.splits)
    have "pshape q" using assms(6) Some False by (auto simp: pred_ready_def split: pat.splits)
    then have "pholds V q" using predicate_sound v assms(4,5) by blast
    then show ?thesis using Some False by (auto simp: pred_true_def split: pat.splits)
  qed
qed

text \<open>What a rewrite is asked to keep: well-formedness, the element type and the value.\<close>

definition preserved :: "eval_env \<Rightarrow> nat \<Rightarrow> expr \<Rightarrow> expr \<Rightarrow> bool" where
  "preserved env l e e' \<longleftrightarrow> wf e' \<and> ety (etype e') = ety (etype e) \<and>
     (\<forall>v. eval env e l = Some v \<longrightarrow> eval env e' l = Some v)"

text \<open>The assignment of a match satisfies the restriction \<open>P\<close>.\<close>

definition restricted :: "(vctx \<Rightarrow> bool) \<Rightarrow> float_ops \<Rightarrow> eval_env \<Rightarrow> nat \<Rightarrow> rule \<Rightarrow> expr \<Rightarrow> bool" where
  "restricted P F env l r e \<longleftrightarrow>
     (case r of Rewrite lhs aft p \<Rightarrow>
        \<forall>\<sigma>. pmatch F lhs e empty_state = Some \<sigma> \<longrightarrow> P (vctx_of env l \<sigma>))"

lemma build_replacement_keeps:
  assumes "build_replacement F aft \<sigma> ot s = Some (e, s')" "keeping_prover I prover" "I s"
  shows "I s' \<and> (tainted s \<longrightarrow> tainted s')"
  using assms make_tainted
  by (auto simp: build_replacement_def bind_eq_Some_conv keeping_prover_def get_mach_def set_mach_def
      split: after.splits)

lemma apply_rule_keeps:
  assumes "apply_rule F prover r e ot s = Some (res, s')" "keeping_prover I prover" "I s"
  shows "I s' \<and> (tainted s \<longrightarrow> tainted s')"
proof -
  obtain lhs aft p where r: "r = Rewrite lhs aft p" by (cases r)
  show ?thesis
  proof (cases "pmatch F lhs e empty_state")
    case None
    then show ?thesis using assms(1,3) r by (simp add: apply_rule_def)
  next
    case (Some \<sigma>)
    then obtain b s1 where p: "evaluate_predicate F prover p \<sigma> s = Some (b, s1)"
      and q: "(if b then do { (e, s) \<leftarrow> build_replacement F aft \<sigma> ot s1; Some (Some e, s) }
               else Some (None, s1)) = Some (res, s')"
      using assms(1) r by (auto simp: apply_rule_def bind_eq_Some_conv)
    note k = evaluate_predicate_keeps [OF p assms(2,3)]
    show ?thesis
    proof (cases b)
      case True
      then obtain e' where "build_replacement F aft \<sigma> ot s1 = Some (e', s')"
        using q by (auto simp: bind_eq_Some_conv)
      then show ?thesis using build_replacement_keeps [OF _ assms(2)] k by blast
    qed (use q k in simp)
  qed
qed

lemma apply_rules_keeps:
  assumes "apply_rules F prover rs e ot s = Some (res, s')" "keeping_prover I prover" "I s"
  shows "I s' \<and> (tainted s \<longrightarrow> tainted s')"
  using assms(1,3)
proof (induction rs arbitrary: s)
  case (Cons r rs)
  obtain res1 s1 where r: "apply_rule F prover r e ot s = Some (res1, s1)"
    using Cons.prems(1) by (auto simp: bind_eq_Some_conv)
  note k = apply_rule_keeps [OF r assms(2) Cons.prems(2)]
  show ?case
  proof (cases res1)
    case None
    then show ?thesis using Cons.IH [of s1] Cons.prems(1) r k by auto
  next
    case (Some x)
    then show ?thesis using Cons.prems(1) r k by simp
  qed
qed simp

theorem apply_rule_sound:
  assumes "apply_rule F prover r e ot s = Some (Some e', s')" "valid_rule P (operands e) r"
    and "restricted P F env l r e" "wf e" "eval env e l = Some v" "\<not> tainted s'"
    and "hint_ok ot" "ety ot = ety (etype e)" "sound_prover I env l prover" "I s" "lane_ok l e"
  shows "wf e' \<and> ety (etype e') = ety (etype e) \<and> eval env e' l = Some v"
proof -
  obtain lhs aft p where r: "r = Rewrite lhs aft p" by (cases r)
  obtain \<sigma> s1 where m: "pmatch F lhs e empty_state = Some \<sigma>" "evaluate_predicate F prover p \<sigma> s = Some (True, s1)"
    "build_replacement F aft \<sigma> ot s1 = Some (e', s')"
    using assms(1) by (auto simp: r apply_rule_def bind_eq_Some_conv split: option.splits if_splits)
  let ?V = "vctx_of env l \<sigma>" and ?h = "ety (etype e)"
  have ty: "typed lhs" using assms(2) by (simp add: r valid_rule_def)
  have M: "matches env l lhs e v empty_state \<sigma>"
    by (rule pmatch_sound [OF m(1) ty assms(4,5) good_empty])
  then have g: "good env l \<sigma>" by (simp add: matches_def)
  have ag: "agrees env ?V \<sigma>" by (rule vctx_of_agrees [OF g])
  have l: "lane ?V = l" by (simp add: vctx_of_def)
  have lhs: "wtd ?V ?h lhs" "pdef ?V ?h lhs" "pval ?V ?h lhs = v"
    using M ag l unfolding matches_def by blast+
  have op: "node_pat lhs" using assms(2) by (simp add: r valid_rule_def)
  have k: "knows ?V ?h (operands e) lhs" "\<forall>x \<in> set (operands e). has_value env ?V x"
    using match_knows [OF m(1) ty assms(4,5) ag l op] by auto
  have num: "num_ety ?h" using eval_ety assms(4,5) by blast
  have vr: "pred_ready ?V p" "pred_true ?V p \<Longrightarrow> after_ok ?V ?h (operands e) lhs aft"
    using assms(2,3) vctx_of_ok [OF g] num lhs(1,2) k(1) m(1)
    by (auto simp: r valid_rule_def restricted_def)
  have lb: "lanes_bound l \<sigma>" by (rule pmatch_lanes [OF m(1) ty assms(4,11)]) simp
  have nt: "\<not> tainted s1"
    using m(3) make_tainted assms(6)
    by (auto simp: build_replacement_def bind_eq_Some_conv get_mach_def set_mach_def split: after.splits)
  have A: "after_ok ?V ?h (operands e) lhs aft"
    using vr evaluate_predicate_sound [where I = I, OF m(2) _ _ _ ag] assms(9,10) g nt lb by (simp add: l)
  show ?thesis
  proof (cases aft)
    case (After q)
    then obtain m' where q: "pat_make F q \<sigma> ot (get_mach s1) = Some (e', m')" "s' = set_mach m' s1"
      using m(3) by (auto simp: build_replacement_def bind_eq_Some_conv)
    have nt': "\<not> tainted m'" using q(2) assms(6) by (simp add: set_mach_def)
    have r': "rstatic ?V q" "specifics q \<subseteq> set (operands e)" "lty ?V q = Some ?h" "pdef ?V ?h q" "pval ?V ?h q = v"
      using A After lhs(3) by (simp_all add: after_ok_def)
    have "made env ?V q e'"
      by (rule make_sound [OF _ _ ag q(1) nt' r'(1) assms(7)]) (use k(2) r'(2) g l in auto)
    then show ?thesis using r'(3-5) l by (auto simp: made_def)
  next
    case (AfterExpr x)
    then have "e' = x" "x \<in> set (operands e)" "ety (etype x) = ?h" "sval ?V x = v"
      using m(3) A lhs(3) by (auto simp: build_replacement_def after_ok_def)
    then show ?thesis using k(2) ag l unfolding has_value_def agrees_def by metis
  next
    case (AfterInt c)
    then have q: "make_const F ot c = Some e'" using m(3) by (auto simp: build_replacement_def bind_eq_Some_conv)
    have c: "- (2 ^ 30) < c" "c < 2 ^ 30" "nrm ?h c = v" using A AfterInt lhs(3) by (simp_all add: after_ok_def)
    have "made env ?V (Const c) e'" by (rule made_const [OF q assms(7) c(1,2)])
    moreover have "etype e' = ot" using make_const_eval(2) [OF q] make_const_hint [OF q assms(7)] by simp
    ultimately show ?thesis using c(3) assms(8) l by (simp add: made_def)
  qed
qed

theorem apply_rules_sound:
  assumes "list_all (valid_rule P (operands e)) rs" "\<And>r. r \<in> set rs \<Longrightarrow> restricted P F env l r e"
    and "wf e" "eval env e l = Some v" "hint_ok ot" "ety ot = ety (etype e)" "sound_prover I env l prover"
    and "lane_ok l e"
  shows "apply_rules F prover rs e ot s = Some (Some e', s') \<Longrightarrow> I s \<Longrightarrow> \<not> tainted s' \<Longrightarrow>
    wf e' \<and> ety (etype e') = ety (etype e) \<and> eval env e' l = Some v"
  using assms(1,2)
proof (induction rs arbitrary: s)
  case (Cons r rs)
  obtain res s1 where r: "apply_rule F prover r e ot s = Some (res, s1)"
    using Cons.prems(1) by (auto simp: bind_eq_Some_conv)
  show ?case
  proof (cases res)
    case None
    then show ?thesis using Cons r apply_rule_keeps [OF r sound_keeping [OF assms(7)] Cons.prems(2)] by simp
  next
    case (Some e'')
    then have a: "apply_rule F prover r e ot s = Some (Some e', s')" using Cons.prems(1) r by simp
    have v: "valid_rule P (operands e) r" "restricted P F env l r e" using Cons.prems(4,5) by simp_all
    show ?thesis by (rule apply_rule_sound [OF a v assms(3,4) Cons.prems(3) assms(5-7) Cons.prems(2) assms(8)])
  qed
qed simp

end
