(* ===== verification/Rules.thy ===== *)
theory Rules
  imports Rewriting
begin

text \<open>
  The wildcards of the rule tables (Simplify_Internal.h) and the facts that the proofs
  of the tables share: a rule is unfolded to an equation between the values of its two
  sides, over machine integers or, where the type has no overflow, over the integers.
\<close>

section \<open>Wildcards\<close>

abbreviation "X \<equiv> Wild 0"
abbreviation "Y \<equiv> Wild 1"
abbreviation "Z \<equiv> Wild 2"
abbreviation "W \<equiv> Wild 3"
abbreviation "U \<equiv> Wild 4"
abbreviation "V \<equiv> Wild 5"
abbreviation "C0 \<equiv> WildConst 0"
abbreviation "C1 \<equiv> WildConst 1"
abbreviation "C2 \<equiv> WildConst 2"
abbreviation "C3 \<equiv> WildConst 3"

section \<open>Proving rules\<close>

text \<open>The lane is one of the lanes of the type.\<close>

definition in_lanes :: "halide_type \<Rightarrow> vctx \<Rightarrow> bool" where
  "in_lanes t M \<longleftrightarrow> lane M < lanes t"

lemmas rule_simps =
  in_lanes_def pat_ops chint_def pred_ready_def pred_true_def after_ok_def lanes_ok_def

lemma ctx_okD:
  assumes "ctx_ok M"
  shows "wty M i = h \<Longrightarrow> nrm h (wval M i) = wval M i" "cty M i = h \<Longrightarrow> nrm h (cval M i) = cval M i"
    "num_ety (wty M i)" "num_ety (cty M i)"
  using assms in_ety_nrm [of "cty M i" "cval M i"] by (auto simp: ctx_ok_def)

text \<open>Equations between types are oriented, so that rewriting with them ends.\<close>

lemma wty_order:
  "wty M 0 = wty M (Suc 0) \<longleftrightarrow> wty M (Suc 0) = wty M 0" "wty M 0 = wty M 2 \<longleftrightarrow> wty M 2 = wty M 0"
  "wty M 0 = wty M 3 \<longleftrightarrow> wty M 3 = wty M 0" "wty M 0 = wty M 4 \<longleftrightarrow> wty M 4 = wty M 0"
  "wty M 0 = wty M 5 \<longleftrightarrow> wty M 5 = wty M 0" "wty M (Suc 0) = wty M 2 \<longleftrightarrow> wty M 2 = wty M (Suc 0)"
  "wty M (Suc 0) = wty M 3 \<longleftrightarrow> wty M 3 = wty M (Suc 0)" "wty M (Suc 0) = wty M 4 \<longleftrightarrow> wty M 4 = wty M (Suc 0)"
  "wty M (Suc 0) = wty M 5 \<longleftrightarrow> wty M 5 = wty M (Suc 0)" "wty M 2 = wty M 3 \<longleftrightarrow> wty M 3 = wty M 2"
  "wty M 2 = wty M 4 \<longleftrightarrow> wty M 4 = wty M 2" "wty M 2 = wty M 5 \<longleftrightarrow> wty M 5 = wty M 2"
  "wty M 3 = wty M 4 \<longleftrightarrow> wty M 4 = wty M 3" "wty M 3 = wty M 5 \<longleftrightarrow> wty M 5 = wty M 3"
  "wty M 4 = wty M 5 \<longleftrightarrow> wty M 5 = wty M 4"
  "wty M i = cty M j \<longleftrightarrow> cty M j = wty M i"
  "cty M 0 = cty M (Suc 0) \<longleftrightarrow> cty M (Suc 0) = cty M 0" "cty M 0 = cty M 2 \<longleftrightarrow> cty M 2 = cty M 0"
  "cty M (Suc 0) = cty M 2 \<longleftrightarrow> cty M 2 = cty M (Suc 0)"
  by auto

text \<open>A rule on machine integers of any type.\<close>

lemma valid_ruleI:
  assumes "typed lhs" "node_pat lhs"
    and "\<And>M h. P M \<Longrightarrow> ctx_ok M \<Longrightarrow> num_ety h \<Longrightarrow> wtd M h lhs \<Longrightarrow> pdef M h lhs \<Longrightarrow> knows M h args lhs \<Longrightarrow>
      pred_ready M p \<and> (pred_true M p \<longrightarrow> after_ok M h args lhs aft)"
  shows "valid_rule P args (Rewrite lhs aft p)"
  using assms unfolding valid_rule_def by simp blast

text \<open>A rule on a type without overflow, whose operands have that type.\<close>

lemma no_overflow_wide: "no_overflow t \<Longrightarrow> num_ety (ety t) \<Longrightarrow> wide (ety t)"
  by (auto simp: no_overflow_def num_ety_def no_overflow_int_wide ety_def is_float_def)

lemma valid_wideI:
  assumes "no_overflow (etype a)" "typed (BinOp op p q)"
    and "\<And>M h. P M \<Longrightarrow> ctx_ok M \<Longrightarrow> wide h \<Longrightarrow> fst h = Halide_Int \<Longrightarrow> wtd M h (BinOp op p q) \<Longrightarrow> pdef M h (BinOp op p q) \<Longrightarrow>
      num_ety h \<Longrightarrow> sval M a = pval M h p \<Longrightarrow> sval M b = pval M h q \<Longrightarrow> ety (etype a) = h \<Longrightarrow> ety (etype b) = h \<Longrightarrow>
      pred_ready M c \<and> (pred_true M c \<longrightarrow> after_ok M h [a, b] (BinOp op p q) aft)"
  shows "valid_rule P [a, b] (Rewrite (BinOp op p q) aft c)"
proof (rule valid_ruleI [OF assms(2)])
  fix M h
  assume P: "P M" and h: "ctx_ok M" "num_ety h" "wtd M h (BinOp op p q)" "pdef M h (BinOp op p q)" "knows M h [a, b] (BinOp op p q)"
  then have k: "ety (etype a) = h" "ety (etype b) = h" "sval M a = pval M h p" "sval M b = pval M h q"
    by (simp_all add: knows_def)
  then have w: "wide h" using no_overflow_wide [OF assms(1)] h(2) by simp
  then have "fst h = Halide_Int" by (simp add: wide_def)
  then show "pred_ready M c \<and> (pred_true M c \<longrightarrow> after_ok M h [a, b] (BinOp op p q) aft)"
    using assms(3) P w h k by blast
qed simp

text \<open>The same for a comparison, whose operands have a type without overflow.\<close>

lemma valid_cmp_wideI:
  assumes "no_overflow (etype a)" "typed (CmpOp op p q)"
    and "\<And>M h k. P M \<Longrightarrow> ctx_ok M \<Longrightarrow> wide k \<Longrightarrow> fst k = Halide_Int \<Longrightarrow> chint M p q = k \<Longrightarrow> h = bool_ety \<Longrightarrow>
      wtd M k p \<Longrightarrow> wtd M k q \<Longrightarrow> pdef M k p \<Longrightarrow> pdef M k q \<Longrightarrow> num_ety k \<Longrightarrow>
      pred_ready M c \<and> (pred_true M c \<longrightarrow> after_ok M h [a, b] (CmpOp op p q) aft)"
  shows "valid_rule P [a, b] (Rewrite (CmpOp op p q) aft c)"
proof (rule valid_ruleI [OF assms(2)])
  fix M h
  assume P: "P M" and h: "ctx_ok M" "num_ety h" "wtd M h (CmpOp op p q)" "pdef M h (CmpOp op p q)"
    "knows M h [a, b] (CmpOp op p q)"
  then have k: "ety (etype a) = chint M p q" "num_ety (chint M p q)" by (simp_all add: knows_def)
  then have w: "wide (chint M p q)" using no_overflow_wide [OF assms(1)] by simp
  then have "fst (chint M p q) = Halide_Int" by (simp add: wide_def)
  then show "pred_ready M c \<and> (pred_true M c \<longrightarrow> after_ok M h [a, b] (CmpOp op p q) aft)"
    using assms(3) [of M "chint M p q" h] P w h k by simp
qed simp

lemma valid_sel_wideI:
  assumes "no_overflow (etype a)" "typed (SelectOp d p q)"
    and "\<And>M h. P M \<Longrightarrow> ctx_ok M \<Longrightarrow> wide h \<Longrightarrow> fst h = Halide_Int \<Longrightarrow> wtd M h (SelectOp d p q) \<Longrightarrow>
      pdef M h (SelectOp d p q) \<Longrightarrow> num_ety h \<Longrightarrow>
      pred_ready M c \<and> (pred_true M c \<longrightarrow> after_ok M h [e, a, b] (SelectOp d p q) aft)"
  shows "valid_rule P [e, a, b] (Rewrite (SelectOp d p q) aft c)"
proof (rule valid_ruleI [OF assms(2)])
  fix M h
  assume P: "P M" and h: "ctx_ok M" "num_ety h" "wtd M h (SelectOp d p q)" "pdef M h (SelectOp d p q)"
    "knows M h [e, a, b] (SelectOp d p q)"
  then have k: "ety (etype a) = h" by (simp add: knows_def)
  then have w: "wide h" using no_overflow_wide [OF assms(1)] h(2) by simp
  then have "fst h = Halide_Int" by (simp add: wide_def)
  then show "pred_ready M c \<and> (pred_true M c \<longrightarrow> after_ok M h [e, a, b] (SelectOp d p q) aft)"
    using assms(3) P w h k by simp
qed simp

text \<open>Sums and products of machine integers, and exact quotients.\<close>

lemma nrm_mid [simp]:
  "nrm h (a + nrm h b - c) = nrm h (a + b - c)"
  "nrm h (a - nrm h b - c) = nrm h (a - b - c)"
  "nrm h (nrm h a + b - c) = nrm h (a + b - c)"
  "nrm h (a + b * nrm h c) = nrm h (a + b * c)"
  "nrm h (a + nrm h c * b) = nrm h (a + c * b)"
  "nrm h (b * nrm h c + a) = nrm h (b * c + a)"
  "nrm h (a - b * nrm h c) = nrm h (a - b * c)"
  "nrm h (b * nrm h c - a) = nrm h (b * c - a)"
  "nrm h (a * (b * nrm h c)) = nrm h (a * (b * c))"
  by (metis nrm.add_right nrm.add_left nrm.sub_left nrm.sub_right nrm.mult_right nrm.mult_left add.commute
      diff_add_eq diff_diff_eq mult.commute mult.assoc)+

lemma nrm_deep [simp]:
  "nrm h (a + (b + nrm h c)) = nrm h (a + (b + c))"
  "nrm h (a + (nrm h b + c)) = nrm h (a + (b + c))"
  "nrm h (a + (b + nrm h c) - d) = nrm h (a + (b + c) - d)"
  "nrm h (a + (nrm h b + c) - d) = nrm h (a + (b + c) - d)"
  "nrm h (a - (nrm h b + c)) = nrm h (a - (b + c))"
  "nrm h (a - (b + nrm h c)) = nrm h (a - (b + c))"
  by (metis nrm.add_right nrm.add_left nrm.sub_right add.assoc add.commute diff_diff_eq diff_add_eq)+

lemma emod_0_mult:
  assumes "emod a b = 0"
  shows "b * ediv a b = a" "ediv a b * b = a" "b * (c * ediv a b) = a * c" "c * (b * ediv a b) = a * c"
  using ediv_emod [of a b] assms by (simp_all add: mult.commute mult.left_commute)

lemma cmp_val_iff [simp]: "cmp_val op a b = 0 \<longleftrightarrow> \<not> cmp_holds op a b" "cmp_val op a b = 1 \<longleftrightarrow> cmp_holds op a b"
  by (simp_all add: cmp_val_def)

text \<open>Truth values.\<close>

lemma bool_wild:
  assumes "ctx_ok M"
  shows "wty M i = (Halide_UInt, Suc 0) \<Longrightarrow> wval M i = 0 \<or> wval M i = 1"
    and "cty M i = (Halide_UInt, Suc 0) \<Longrightarrow> cval M i = 0 \<or> cval M i = 1"
proof -
  have "x = 0 \<or> x = 1" if "nrm (Halide_UInt, Suc 0) x = x" for x
  proof -
    have "x mod 2 = x" using that by (simp add: nrm_def wrap_ty_def take_bit_eq_mod)
    then show ?thesis by presburger
  qed
  then show "wty M i = (Halide_UInt, Suc 0) \<Longrightarrow> wval M i = 0 \<or> wval M i = 1"
    and "cty M i = (Halide_UInt, Suc 0) \<Longrightarrow> cval M i = 0 \<or> cval M i = 1"
    using ctx_okD(1,2) [OF assms, of i "(Halide_UInt, Suc 0)"] by blast+
qed

lemma bool_wild_iff:
  assumes "ctx_ok M"
  shows "wty M i = (Halide_UInt, Suc 0) \<Longrightarrow> wval M i = (if Q then 1 else 0) \<longleftrightarrow> (wval M i \<noteq> 0) = Q"
    and "cty M i = (Halide_UInt, Suc 0) \<Longrightarrow> cval M i = (if Q then 1 else 0) \<longleftrightarrow> (cval M i \<noteq> 0) = Q"
    and "wty M i = (Halide_UInt, Suc 0) \<Longrightarrow> (if Q then 1 else 0) = wval M i \<longleftrightarrow> Q = (wval M i \<noteq> 0)"
    and "cty M i = (Halide_UInt, Suc 0) \<Longrightarrow> (if Q then 1 else 0) = cval M i \<longleftrightarrow> Q = (cval M i \<noteq> 0)"
  using bool_wild [OF assms, of i] by auto

lemma truth_iff:
  "(if P then 1 else (0::int)) = 0 \<longleftrightarrow> \<not> P" "(if P then 1 else (0::int)) = 1 \<longleftrightarrow> P"
  "(0::int) = (if P then 1 else 0) \<longleftrightarrow> \<not> P" "(1::int) = (if P then 1 else 0) \<longleftrightarrow> P"
  "(if P then 1 else (0::int)) = (if Q then 1 else 0) \<longleftrightarrow> P = Q"
  by auto

lemma nrm_truth: "nrm (Halide_UInt, Suc 0) (if P then 1 else 0) = (if P then 1 else 0)"
  by (simp add: nrm_def wrap_ty_def)

lemma small_literal:
  "(if P then take_bit 64 1 else (1::int)) = 1" "(if P then take_bit 64 0 else (0::int)) = 0"
  by simp_all

lemmas bool_simps = small_literal bool_wild_iff truth_iff nrm_truth wty_order Let_def

lemma nrm_1 [simp]: "num_ety h \<Longrightarrow> nrm h 1 = 1" "nrm (Halide_UInt, Suc 0) 1 = 1"
  by (auto simp: num_ety_def nrm_def wrap_ty_def)

lemma nrm_minmax:
  "nrm h a = a \<Longrightarrow> nrm h b = b \<Longrightarrow> nrm h (min a b) = min a b"
  "nrm h a = a \<Longrightarrow> nrm h b = b \<Longrightarrow> nrm h (max a b) = max a b"
  by (auto simp: min_def max_def)

text \<open>Euclidean quotients: shifts by multiples, exact division, monotony.\<close>

declare ediv_pos [simp del] ediv_neg [simp del] emod_pos [simp del] emod_neg [simp del]

lemma ediv_shift_eq: "c \<noteq> 0 \<Longrightarrow> a = b + c * k \<Longrightarrow> ediv a c = k + ediv b c"
  using ediv_unique(1) [of a "k + ediv b c" c "emod b c"] ediv_emod [of b c] emod_bounds [of c b]
  by (simp add: algebra_simps)

lemma emod_shift_eq: "a = b + c * k \<Longrightarrow> emod a c = emod b c"
  by (cases "c = 0") (use ediv_emod [of a c] ediv_emod [of b c] ediv_shift_eq [of c a b k]
      in \<open>simp_all add: algebra_simps\<close>)

lemma ediv_shifts:
  "c \<noteq> 0 \<Longrightarrow> a = b + c * k \<Longrightarrow> ediv a c = k + ediv b c"
  "c \<noteq> 0 \<Longrightarrow> a = b + c * k \<Longrightarrow> ediv a c = ediv b c + k"
  "c \<noteq> 0 \<Longrightarrow> a = b + c * k \<Longrightarrow> k + ediv b c = ediv a c"
  "c \<noteq> 0 \<Longrightarrow> a = b + c * k \<Longrightarrow> ediv b c + k = ediv a c"
  using ediv_shift_eq by (simp_all add: add.commute)

lemma emod_shifts:
  "a = b + c * k \<Longrightarrow> emod a c = emod b c"
  "a = b + c * k \<Longrightarrow> emod b c = emod a c"
  using emod_shift_eq by simp_all

lemma ediv_exact:
  "c \<noteq> 0 \<Longrightarrow> a = c * k \<Longrightarrow> ediv a c = k" "c \<noteq> 0 \<Longrightarrow> a = c * k \<Longrightarrow> k = ediv a c"
  using ediv_shift_eq [of c a 0 k] by simp_all

lemma emod_diff: "emod a b = a - b * ediv a b"
  using ediv_emod [of a b] by (simp add: algebra_simps)

lemma ediv_bounds:
  assumes "0 < c"
  shows "c * ediv a c \<le> a" "a < c * ediv a c + c"
  using ediv_emod [of a c] emod_bounds [of c a] assms by (simp_all add: algebra_simps)

lemma ediv_mono_shift:
  assumes "0 < c" "a + c * k \<le> b"
  shows "ediv a c + k \<le> ediv b c"
proof (rule ccontr)
  assume "\<not> ediv a c + k \<le> ediv b c"
  then have "ediv b c + 1 \<le> ediv a c + k" by simp
  then have "c * (ediv b c + 1) \<le> c * (ediv a c + k)" using assms(1) by (intro mult_left_mono) auto
  then show False
    using ediv_bounds [OF assms(1), of a] ediv_bounds [OF assms(1), of b] assms(2)
    by (simp add: algebra_simps)
qed

lemma ediv_less:
  assumes "0 < c"
  shows "b \<le> a \<Longrightarrow> ediv a c < ediv b c \<longleftrightarrow> False"
    and "a + c \<le> b \<Longrightarrow> ediv a c < ediv b c \<longleftrightarrow> True"
    and "b + c * k \<le> a \<Longrightarrow> ediv a c < k + ediv b c \<longleftrightarrow> False"
    and "a + c \<le> b + c * k \<Longrightarrow> ediv a c < k + ediv b c \<longleftrightarrow> True"
  using ediv_mono_shift [OF assms, of b 0 a] ediv_mono_shift [OF assms, of a 1 b]
    ediv_mono_shift [OF assms, of b k a] ediv_mono_shift [OF assms, of a "1 - k" b]
  by (auto simp: algebra_simps)

lemma emod_emod_add [simp]: "emod (x + emod a c) c = emod (x + a) c" "emod (emod a c + x) c = emod (a + x) c"
  by (rule emod_shift_eq [of _ _ _ "- ediv a c"]; simp add: emod_diff algebra_simps)+

text \<open>Rounding up: the quotients of two numbers that add up to one less than a multiple.\<close>

lemma ediv_ceil:
  assumes "0 < c" "a + b = c * k + c - 1"
  shows "ediv a c + ediv b c = k"
proof -
  have "ediv b c = k - ediv a c"
    by (rule ediv_unique(1) [of _ _ _ "c - 1 - emod a c"])
      (use assms emod_bounds [of c a] ediv_emod [of a c] in \<open>simp_all add: algebra_simps\<close>)
  then show ?thesis by simp
qed

lemma ediv_sums:
  assumes "0 < c"
  shows "b = t - c * ediv a c \<Longrightarrow> ediv a c + ediv b c = ediv t c"
    and "c - 1 - b = a - c * ediv t c \<Longrightarrow> ediv a c + ediv b c = ediv t c"
  using ediv_shift_eq [of c b t "- ediv a c"] ediv_ceil [of c b "a - c * ediv t c" 0]
    ediv_shift_eq [of c "a - c * ediv t c" a "- ediv t c"] assms
  by (simp_all add: algebra_simps)

lemma round_up:
  assumes "0 < c" "1 + d = c"
  shows "x + emod (- x) c = c * ediv (d + x) c"
proof -
  have "ediv (d + x) c = - ediv (- x) c"
    using ediv_ceil [of c "- x" "d + x" 0] assms by simp
  then show ?thesis by (simp add: emod_diff)
qed

lemma nrm_sub_mult: "nrm h (a * b) = c \<Longrightarrow> nrm h (z + (w + a * (x * b)) - x * c) = nrm h (z + w)"
  using nrm_mid(7) [of h "z + (w + a * (x * b))" x "a * b"] by (simp add: algebra_simps)

lemma ediv_self [simp]: "c \<noteq> 0 \<Longrightarrow> ediv c c = 1"
  by (rule ediv_exact(1)) simp_all

lemma ediv_minus_1 [simp]: "ediv a (- 1) = - a"
  by (rule ediv_exact(1)) simp_all

lemma ediv_of_minus_1: "c < 0 \<Longrightarrow> ediv (- 1) c = 1" "0 < c \<Longrightarrow> ediv (- 1) c = - 1"
  using ediv_unique(1) [of "- 1" 1 c "- 1 - c"] ediv_unique(1) [of "- 1" "- 1" c "c - 1"] by simp_all

lemma ediv_ediv: "0 < c \<Longrightarrow> 0 < d \<Longrightarrow> ediv (ediv a c) d = ediv a (c * d)"
  by (simp add: ediv_pos zdiv_zmult2_eq)

lemma ediv_cancel:
  assumes "0 < c" "emod d c = 0" "d \<noteq> 0"
  shows "ediv x (ediv d c) = ediv (c * x) d" "ediv d c \<noteq> 0" "c * emod x (ediv d c) = emod (c * x) d"
proof -
  have d: "d = c * ediv d c" using emod_0_mult(1) [OF assms(2)] by simp
  then show nz: "ediv d c \<noteq> 0" using assms(3) by auto
  have r: "0 \<le> emod x (ediv d c)" "emod x (ediv d c) < \<bar>ediv d c\<bar>"
    using emod_bounds [OF nz, of x] by auto
  then have b: "0 \<le> c * emod x (ediv d c)" "c * emod x (ediv d c) < \<bar>d\<bar>"
    using assms(1) by (simp, subst (2) d) (simp add: abs_mult)
  have "c * x = ediv x (ediv d c) * d + c * emod x (ediv d c)"
    using ediv_emod [of x "ediv d c"] d by (metis distrib_left mult.commute mult.left_commute)
  from ediv_unique [OF this b] show "ediv x (ediv d c) = ediv (c * x) d" "c * emod x (ediv d c) = emod (c * x) d"
    by simp_all
qed

lemma ediv_cancel_add:
  assumes "0 < c" "0 < d" "emod d c = 0"
  shows "ediv (x + ediv b c) (ediv d c) = ediv (b + c * x) d"
proof -
  have d: "d = c * ediv d c" using emod_0_mult(1) [OF assms(3)] by simp
  then have p: "0 < ediv d c" using assms(1,2) zero_less_mult_pos by metis
  have "x + ediv b c = ediv (b + c * x) c"
    by (rule ediv_shifts(3)) (use assms(1) in simp_all)
  then show ?thesis using ediv_ediv [OF assms(1) p, of "b + c * x"] d by simp
qed

lemma ediv_1 [simp]: "ediv a 1 = a" and emod_1 [simp]: "emod a 1 = 0"
  by (simp_all add: ediv_pos emod_pos)

lemma ediv_ediv_add:
  assumes "0 < c" "0 < d"
  shows "ediv (b + ediv a c) d = ediv (a + c * b) (c * d)"
proof -
  have "b + ediv a c = ediv (a + c * b) c"
    by (rule ediv_shifts(3)) (use assms(1) in simp_all)
  then show ?thesis using ediv_ediv [OF assms] by simp
qed

text \<open>Euclidean remainders: congruence.\<close>

lemma emod_0_dvd: "emod a c = 0 \<longleftrightarrow> c dvd a"
  by (cases "c = 0") (auto simp: emod_def dvd_eq_mod_eq_0 [of "\<bar>c\<bar>", symmetric])

lemma emod_dvd: "c dvd a - b \<Longrightarrow> emod a c = emod b c"
  using emod_shift_eq [of a b c] by (auto simp: dvd_def algebra_simps)

lemma emod_cong [simp]:
  "emod (a * emod b c) c = emod (a * b) c"
  "emod (x + a * emod b c) c = emod (x + a * b) c"
  "emod (a * emod b c + x) c = emod (a * b + x) c"
  "emod (x + (emod b c + y)) c = emod (x + (b + y)) c"
  "emod (x + (y + a * emod b c)) c = emod (x + (y + a * b)) c"
  by (rule emod_dvd; simp add: emod_diff algebra_simps)+

lemma nrm_range:
  "Suc n < 32 \<Longrightarrow> nrm (Halide_Int, Suc n) v = v \<longleftrightarrow> - (2 ^ n) \<le> v \<and> v < 2 ^ n"
  "nrm (Halide_UInt, n) v = v \<longleftrightarrow> 0 \<le> v \<and> v < 2 ^ n"
proof -
  have "signed_take_bit n v = v \<longleftrightarrow> - (2 ^ n) \<le> v \<and> v < 2 ^ n"
    using signed_take_bit_int_greater_eq_minus_exp [of n v] signed_take_bit_int_less_exp [of n v]
      signed_take_bit_int_eq_self [of n v] by metis
  moreover have "take_bit n v = v \<longleftrightarrow> 0 \<le> v \<and> v < 2 ^ n"
    using take_bit_int_less_exp [of n v] take_bit_nonnegative [of n v] take_bit_int_eq_self [of v n] by metis
  ultimately show "Suc n < 32 \<Longrightarrow> nrm (Halide_Int, Suc n) v = v \<longleftrightarrow> - (2 ^ n) \<le> v \<and> v < 2 ^ n"
    "nrm (Halide_UInt, n) v = v \<longleftrightarrow> 0 \<le> v \<and> v < 2 ^ n"
    by (simp_all add: nrm_def wrap_ty_def)
qed

lemma narrow_cases:
  assumes "num_ety h"
  obtains "wide h" | n where "h = (Halide_Int, Suc n)" "Suc n < 32" | n where "h = (Halide_UInt, n)"
  using assms unfolding num_ety_def wide_def by fastforce

lemma in_range_between:
  assumes "num_ety h" "nrm h a = a" "nrm h b = b" "a \<le> v" "v \<le> b"
  shows "nrm h v = v"
  using assms(1) by (cases rule: narrow_cases) (use assms(2-) in \<open>auto simp: nrm_range\<close>)

lemma nrm_emod:
  assumes "num_ety h" "nrm h a = a" "nrm h b = b" "b \<noteq> 0"
  shows "nrm h (emod a b) = emod a b"
  using assms(1) by (cases rule: narrow_cases)
    (use assms(2-) emod_bounds [OF assms(4), of a] in \<open>auto simp: nrm_range\<close>)

text \<open>A ramp whose first and last lanes have the same quotient has it in every lane.\<close>

lemma ramp_between:
  assumes "l < n"
  shows "min r (r + k * (int n - 1)) \<le> r + k * int l" "r + k * int l \<le> max r (r + k * (int n - 1))"
proof -
  have l: "0 \<le> int l" "int l \<le> int n - 1" using assms by auto
  show "min r (r + k * (int n - 1)) \<le> r + k * int l"
    using l by (cases "0 \<le> k") (auto simp: min_le_iff_disj mult_left_mono_neg intro: mult_nonneg_nonneg)
  show "r + k * int l \<le> max r (r + k * (int n - 1))"
    using l by (cases "0 \<le> k") (auto simp: le_max_iff_disj mult_left_mono mult_nonpos_nonneg)
qed

lemma ramp_euclid:
  assumes "l < n" "c \<noteq> 0" "ediv (k * int n + emod x c - k) c = 0"
  shows "ediv (x + k * int l) c = ediv x c" "emod (x + k * int l) c = k * int l + emod x c"
proof -
  let ?e = "k * int n + emod x c - k"
  have "?e = emod ?e c" using ediv_emod [of ?e c] assms(3) by simp
  then have "0 \<le> ?e" "?e < \<bar>c\<bar>" using emod_bounds [OF assms(2), of ?e] by auto
  then have r: "0 \<le> emod x c + k * int l" "emod x c + k * int l < \<bar>c\<bar>"
    using ramp_between [OF assms(1), of "emod x c" k] emod_bounds [OF assms(2), of x]
    by (auto simp: algebra_simps min_def max_def split: if_splits)
  have "x + k * int l = ediv x c * c + (emod x c + k * int l)"
    using ediv_emod [of x c] by simp
  from ediv_unique [OF this r]
  show "ediv (x + k * int l) c = ediv x c" "emod (x + k * int l) c = k * int l + emod x c" by simp_all
qed

lemma ramp_bounds:
  assumes "l < n"
  shows "x + int n * k \<le> k + z \<Longrightarrow> x \<le> z \<Longrightarrow> x + int l * k \<le> z"
    and "k + z \<le> x + int n * k \<Longrightarrow> z \<le> x \<Longrightarrow> z \<le> x + int l * k"
  using ramp_between [OF assms, of x k] by (auto simp: algebra_simps min_def max_def split: if_splits)

text \<open>Stair-step functions, quotients of extrema, products of extrema.\<close>

lemma stair:
  assumes "0 < c"
  shows "c \<le> 1 + (d + e) \<Longrightarrow> x \<le> e + c * ediv (d + x) c" "d + e \<le> 0 \<Longrightarrow> e + c * ediv (d + x) c \<le> x"
    "c \<le> 1 + e \<Longrightarrow> x \<le> e + c * ediv x c" "e \<le> 0 \<Longrightarrow> e + c * ediv x c \<le> x"
    "c \<le> 1 + d \<Longrightarrow> x \<le> c * ediv (d + x) c" "d \<le> 0 \<Longrightarrow> c * ediv (d + x) c \<le> x"
    "c * ediv x c \<le> x"
  using ediv_bounds [OF assms, of "d + x"] ediv_bounds [OF assms, of x] by linarith+

lemma ediv_add_mult:
  "c \<noteq> 0 \<Longrightarrow> ediv (a + c * k) c = k + ediv a c"
  by (rule ediv_shifts(1)) simp_all

lemma ediv_mono: "0 < c \<Longrightarrow> a \<le> b \<Longrightarrow> ediv a c \<le> ediv b c" "c < 0 \<Longrightarrow> a \<le> b \<Longrightarrow> ediv b c \<le> ediv a c"
  by (simp_all add: ediv_pos ediv_neg zdiv_mono1)

lemma ediv_extremum:
  "0 < c \<Longrightarrow> ediv (min a b) c = min (ediv a c) (ediv b c)" "c < 0 \<Longrightarrow> ediv (min a b) c = max (ediv a c) (ediv b c)"
  "0 < c \<Longrightarrow> ediv (max a b) c = max (ediv a c) (ediv b c)" "c < 0 \<Longrightarrow> ediv (max a b) c = min (ediv a c) (ediv b c)"
  using ediv_mono [of c a b] ediv_mono [of c b a] by (auto simp: min_def max_def)

lemmas extremum_mult = min_mult_distrib_left max_mult_distrib_left

lemma product_eq: "a * b = c \<Longrightarrow> c = a * (b::int)"
  by simp

text \<open>Equations between machine integers.\<close>

lemma nrm_zero_iff: "nrm h a = a \<Longrightarrow> nrm h b = b \<Longrightarrow> nrm h (a - b) = 0 \<longleftrightarrow> a = b"
  using nrm.eq_iff [of h "a - b" 0] nrm.eq_iff [of h a b] by simp

lemma nrm_solve: "nrm h x = x \<Longrightarrow> x = nrm h e \<longleftrightarrow> nrm h (x - e) = 0"
  using nrm.eq_iff [of h "x - e" 0] nrm.eq_iff [of h x e] by simp

lemma nrm_zero_shift:
  assumes "nrm h (c + d) = 0"
  shows "\<forall>m. nrm h (d + m) = 0 \<longleftrightarrow> nrm h (m - c) = 0"
proof
  fix m
  have "nrm h (d + m) = nrm h (m - c)"
    using assms nrm.eq_iff [of h "c + d" 0] nrm.eq_iff [of h "d + m" "m - c"] by (simp add: algebra_simps)
  then show "nrm h (d + m) = 0 \<longleftrightarrow> nrm h (m - c) = 0" by simp
qed

lemma nrm_succ_leD:
  assumes "d \<le> nrm h (1 + c)" "num_ety h" "nrm h c = c"
  shows "d \<le> 1 + c"
proof -
  have a: "d \<le> nrm h (c + 1)" using assms(1) by (simp add: add.commute)
  have "d \<le> c + 1"
  proof (cases "nrm h (c + 1) = c + 1")
  case False
  have "nrm h (c + 1) \<le> c + 1"
    using assms(2)
  proof (cases rule: narrow_cases)
    case (2 n)
    then have "2 ^ n \<le> c + 1" using assms(3) False by (auto simp: nrm_range)
    moreover have "nrm h (c + 1) < 2 ^ n"
      using 2 signed_take_bit_int_less_exp [of n "c + 1"] by (simp add: nrm_def wrap_ty_def)
    ultimately show ?thesis by simp
  next
    case (3 n)
    then have "2 ^ n \<le> c + 1" using assms(3) False by (auto simp: nrm_range)
    moreover have "nrm h (c + 1) < 2 ^ n"
      using 3 take_bit_int_less_exp [of n "c + 1"] by (simp add: nrm_def wrap_ty_def)
    ultimately show ?thesis by simp
  qed simp
  then show ?thesis using a by simp
  qed (use a in simp)
  then show ?thesis by simp
qed

text \<open>Comparisons with quotients.\<close>

lemma less_ediv_iff:
  assumes "0 < c"
  shows "x < ediv a c \<longleftrightarrow> c * x + c \<le> a" "ediv a c < x \<longleftrightarrow> a < c * x"
proof -
  show 1: "ediv a c < x \<longleftrightarrow> a < c * x" for x
  proof
    assume "ediv a c < x"
    then have "c * (ediv a c + 1) \<le> c * x" using assms by (intro mult_left_mono) auto
    then show "a < c * x" using ediv_bounds(2) [OF assms, of a] by (simp add: distrib_left)
  next
    assume "a < c * x"
    then have "c * ediv a c < c * x" using ediv_bounds(1) [OF assms, of a] by simp
    then show "ediv a c < x" using assms by simp
  qed
  show "x < ediv a c \<longleftrightarrow> c * x + c \<le> a"
    using 1 [of "x + 1"] by (auto simp: distrib_left)
qed

lemma less_ediv_shift:
  assumes "0 < c"
  shows "x < y + ediv a c \<longleftrightarrow> c * x + c \<le> c * y + a" "x + ediv a c < y \<longleftrightarrow> c * x + a < c * y"
  using less_ediv_iff(1) [OF assms, of "x - y" a] less_ediv_iff(2) [OF assms, of a "y - x"]
  by (auto simp: algebra_simps)

lemma less_scaled: "0 < c \<Longrightarrow> a = c * x \<Longrightarrow> b = c * y \<Longrightarrow> x < y \<longleftrightarrow> a < (b::int)"
  by simp

lemma emod_nonzero: "0 < c \<Longrightarrow> emod x c \<noteq> 0 \<longleftrightarrow> c * ediv x c < x"
  using emod_bounds [of c x] by (auto simp: emod_diff)

text \<open>A ramp that starts at an aligned value and ends before the next one.\<close>

lemma aligned_ramp:
  assumes "0 < c" "l < n" "emod d c = 0"
  shows "int n * k + emod e c < c + k \<Longrightarrow> k \<le> int n * k + emod e c \<Longrightarrow>
      ediv e c + x * ediv d c < z \<longleftrightarrow> e + (int l * k + x * d) < c * z"
    and "int n * k < c + k \<Longrightarrow> k \<le> int n * k \<Longrightarrow> x * ediv d c < z \<longleftrightarrow> int l * k + x * d < c * z"
proof -
  have between: "0 \<le> r + k * int l \<and> r + k * int l < c" if "0 \<le> r" "r < c" "int n * k + r < c + k" "k \<le> int n * k + r" for r
    using ramp_between [OF assms(2), of r k] that by (auto simp: algebra_simps min_def max_def split: if_splits)
  have key: "q < z \<longleftrightarrow> c * q + s < c * z" if "0 \<le> s" "s < c" for q s
    using less_ediv_iff(2) [OF assms(1), of "c * q + s" z] ediv_unique(1) [of "c * q + s" q c s] that assms(1)
    by (simp add: mult.commute)
  have d: "c * (x * ediv d c) = x * d" using emod_0_mult(3) [OF assms(3)] by (simp add: mult.commute)
  have r: "0 \<le> emod e c" "emod e c < c" "e = c * ediv e c + emod e c"
    using emod_bounds [of c e] assms(1) by (auto simp: emod_diff)
  show "ediv e c + x * ediv d c < z \<longleftrightarrow> e + (int l * k + x * d) < c * z"
    if "int n * k + emod e c < c + k" "k \<le> int n * k + emod e c"
  proof -
    have e: "e + (int l * k + x * d) = c * (ediv e c + x * ediv d c) + (emod e c + k * int l)"
      using r(3) by (simp only: distrib_left d) (simp add: mult.commute)
    show ?thesis
      unfolding e using key [of "emod e c + k * int l" "ediv e c + x * ediv d c"] between [OF r(1,2) that] by blast
  qed
  show "x * ediv d c < z \<longleftrightarrow> int l * k + x * d < c * z" if "int n * k < c + k" "k \<le> int n * k"
  proof -
    have e: "int l * k + x * d = c * (x * ediv d c) + (0 + k * int l)"
      by (simp only: d) (simp add: mult.commute)
    show ?thesis
      unfolding e using key [of "0 + k * int l" "x * ediv d c"] between [of 0] assms(1) that by simp
  qed
qed

lemmas extremum_less =
  min_add_distrib_left min_add_distrib_right max_add_distrib_left max_add_distrib_right
  min_less_iff_disj less_max_iff_disj

text \<open>A sum that vanishes, a clamp that vanishes.\<close>

lemma clamp_zero:
  assumes "nrm h (c + d) = 0" "nrm h c = c" "nrm h x = x"
  shows "nrm h (d + max x c) = 0 \<longleftrightarrow> x \<le> c" "nrm h (d + min x c) = 0 \<longleftrightarrow> c \<le> x"
proof -
  have "nrm h (d + y) = 0 \<longleftrightarrow> y = c" if "nrm h y = y" for y
    using nrm_zero_shift [OF assms(1), rule_format, of y] nrm_zero_iff [OF that assms(2)] by simp
  then show "nrm h (d + max x c) = 0 \<longleftrightarrow> x \<le> c" "nrm h (d + min x c) = 0 \<longleftrightarrow> c \<le> x"
    using assms(2,3) by (auto simp: max_def min_def)
qed

lemma max_is_0: "max x 0 = 0 \<longleftrightarrow> x \<le> (0::int)" and min_is_0: "min x 0 = 0 \<longleftrightarrow> 0 \<le> (x::int)"
  by auto

lemma bool_cast:
  "ety ty = (Halide_UInt, Suc 0) \<Longrightarrow> is_num ty"
  "conv (Halide_UInt, Suc 0) (Halide_UInt, Suc 0) v = nrm (Halide_UInt, Suc 0) v"
  by (auto simp: is_num_ety conv_def nrm_def wrap_ty_def cast_val_def is_int_def is_uint_def)

lemmas rule_arith = rule_simps ctx_okD knows_def algebra_simps emod_0_mult nrm_minmax ediv_ediv nrm_emod

text \<open>Lists of rules.\<close>

lemma valid_rule_mono: "valid_rule P args r \<Longrightarrow> (\<And>M. Q M \<Longrightarrow> P M) \<Longrightarrow> valid_rule Q args r"
  unfolding valid_rule_def by (cases r) fastforce

lemma valid_rules_mono:
  "list_all (valid_rule P args) rs \<Longrightarrow> (\<And>M. Q M \<Longrightarrow> P M) \<Longrightarrow> list_all (valid_rule Q args) rs"
  by (erule list.pred_mono_strong) (rule valid_rule_mono)

lemma no_overflow_cong: "ety t = ety t' \<Longrightarrow> no_overflow t \<longleftrightarrow> no_overflow t'"
  by (simp add: ety_def no_overflow_def no_overflow_int_def is_float_def is_int_def)

lemma no_overflow_intD: "no_overflow_int t \<Longrightarrow> no_overflow t"
  by (simp add: no_overflow_def)

lemma eval_num: "wf e \<Longrightarrow> eval env e l = Some v \<Longrightarrow> is_num (etype e)"
  using eval_ety [of e env l v] num_ety_num wf_legal by blast

lemma compared_num: "wf (Cmp op a b) \<Longrightarrow> eval env (Cmp op a b) l = Some v \<Longrightarrow> is_num (etype a)"
  using eval_num [of a env l] by (auto simp: bind_eq_Some_conv)

text \<open>
  A table of valid rules, tried on a node of its type: what the visitors rely on.
\<close>

lemma table_sound:
  assumes "list_all (valid_rule (in_lanes ty) (operands e)) rs"
    and "apply_rules F prover rs e ty s = Some (Some e', s')" "\<not> tainted s'"
    and "wf e" "etype e = ty" "legal_type ty" "l < lanes ty" "eval env e l = Some v"
    and "sound_prover I env l prover" "I s"
  shows "wf e' \<and> ety (etype e') = ety (etype e) \<and> eval env e' l = Some v"
proof (rule apply_rules_sound [OF assms(1) _ assms(4,8) _ _ assms(9) _ assms(2,10,3)])
  show "restricted (in_lanes ty) F env l r e" for r
    using assms(7) by (auto simp: restricted_def in_lanes_def vctx_of_def split: rule.splits)
  have "num_ety (ety (etype e))" using eval_ety [OF assms(4,8)] by simp
  then show "hint_ok ty" using assms(5,6) num_ety_num [of ty] by (simp add: hint_ok_def)
  show "ety ty = ety (etype e)" "lane_ok l e" using assms(5,7) by (simp_all add: lane_okt_def)
qed

end
