(* ===== verification/Examples.thy ===== *)
theory Examples
  imports Rules
begin

text \<open>
  Concrete inputs: a machine without floating-point numbers, 32-bit expressions over a
  few variables, an environment that gives the variables values, and the facts by which
  rewriting evaluates on them. The prover \<open>ask\<close> returns its condition unsimplified.
\<close>

definition no_floats :: float_ops where
  "no_floats = \<lparr>fl_of_int = (\<lambda>v. 0), fl_to_int = (\<lambda>v. 0), fl_round = (\<lambda>c b v. v),
     fl_add = (\<lambda>x y. 0), fl_sub = (\<lambda>x y. 0), fl_mul = (\<lambda>x y. 0), fl_div = (\<lambda>x y. 0),
     fl_floor = (\<lambda>x. x), fl_neg = (\<lambda>x. x), fl_eq = (\<lambda>x y. x = y), fl_lt = (\<lambda>x y. False),
     fl_le = (\<lambda>x y. x = y)\<rparr>"

abbreviation i32 :: halide_type where "i32 \<equiv> \<lparr>code = Halide_Int, bits = 32, lanes = 1\<rparr>"
abbreviation u1 :: halide_type where "u1 \<equiv> \<lparr>code = Halide_UInt, bits = 1, lanes = 1\<rparr>"
abbreviation var_x :: expr where "var_x \<equiv> Variable i32 ''x''"
abbreviation var_y :: expr where "var_y \<equiv> Variable i32 ''y''"
abbreviation var_b :: expr where "var_b \<equiv> Variable u1 ''b''"
abbreviation num :: "int \<Rightarrow> expr" where "num v \<equiv> IntImm i32 v"

definition ask :: "expr \<Rightarrow> mach \<Rightarrow> (expr \<times> mach) option" where
  "ask e s = Some (e, s)"

definition idle :: mach where
  "idle = \<lparr>indeterminates = 0, overflows = 0, tainted = False\<rparr>"

definition sample :: eval_env where
  "sample = \<lparr>
     vars = (\<lambda>n l. if n = ''x'' then Some 5 else if n = ''y'' then Some 9
               else if n = ''b'' then Some 1 else None),
     mem = (\<lambda>n i. None), fns = (\<lambda>n ct vi xs. None)\<rparr>"

lemma ask_sound: "sound_prover (\<lambda>s. True) env l ask"
  by (simp add: sound_prover_def keeping_prover_def ask_def set_mach_def get_mach_def)

lemmas samples = no_floats_def idle_def sample_def ask_def

text \<open>Rewriting on a concrete node, by evaluation.\<close>

lemmas run_rules =
  pat_ops equal_def same_head_def or_lanes_def
  add_would_overflow_def sub_would_overflow_def mul_would_overflow_def max_val_def min_val_def
  sext_def zext_def wrap64_def no_overflow_int_def no_overflow_def fits_def mod_imp_def div_imp_def
  int64_def cdiv64_def crem64_def chk64_def sdiv_int_unfold smod_int_unfold halide_defs

lemmas run_eval = legal_type_def norm_def wrap_ty_def is_num_def type_defs fits_def ediv_def emod_def

end
