(* ===== verification/Limits.thy ===== *)
theory Limits
  imports Examples
begin

text \<open>
  The bounds of a type, which some rules of \<open>Simplify_Min.cpp\<close>, \<open>Simplify_Max.cpp\<close> and
  \<open>Simplify_LT.cpp\<close> mention, and the restrictions under which the rules on them and on
  rounding down to a multiple hold.
\<close>

definition ety_max :: "ety \<Rightarrow> int" where
  "ety_max h = (if fst h = Halide_Int then 2 ^ (snd h - 1) - 1 else 2 ^ snd h - 1)"

definition ety_min :: "ety \<Rightarrow> int" where
  "ety_min h = (if fst h = Halide_Int then - (2 ^ (snd h - 1)) else 0)"

text \<open>Literals that denote the bounds of their type.\<close>

definition is_limit :: "halide_type \<Rightarrow> int \<Rightarrow> expr \<Rightarrow> bool" where
  "is_limit t v e \<longleftrightarrow> etype e = t \<and> (as_const_int e = Some v \<or> as_const_uint e = Some v)"

lemma make_const_limit:
  assumes "make_const F t v = Some e" "is_num t" "legal_type t" "const_val t v = v"
  shows "is_limit t v e"
proof -
  have "const_val (element_of t) v = v"
    using const_val_cong [of "element_of t" t] assms(3,4) by (simp add: element_of_sel)
  then have "as_const_int e = Some v \<or> as_const_uint e = Some v"
    using assms(1,2,4)
    by (auto simp: make_const_def Let_def bind_eq_Some_conv IntImm_make_Some UIntImm_make_Some
        Broadcast_make_def is_num_def split: if_splits)
  then show ?thesis
    using make_const_eval(2) [OF assms(1-3)] by (simp add: is_limit_def)
qed

lemma const_val_limits:
  assumes "legal_type t" "is_num t"
  shows "const_val t (ety_max (ety t)) = ety_max (ety t)" "const_val t (ety_min (ety t)) = ety_min (ety t)"
proof -
  have "const_val t v = v" if "in_ety (ety t) v" for v
    using that const_val_fits [of t v] assms(2)
    by (auto simp: in_ety_def ety_def const_val_def is_num_def is_int_def is_uint_def take_bit_int_eq_self
        split: if_splits)
  then show "const_val t (ety_max (ety t)) = ety_max (ety t)" "const_val t (ety_min (ety t)) = ety_min (ety t)"
    by (simp_all add: in_ety_def ety_max_def ety_min_def fits_def)
qed

lemma type_limits:
  assumes "legal_type t" "is_num t"
  shows "type_max F t = make_const F t (ety_max (ety t))" "type_min F t = make_const F t (ety_min (ety t))"
  using assms legal_bits [OF assms(1)]
  by (auto simp: type_max_def type_min_def make_const_def ety_max_def ety_min_def ety_def Let_def is_num_def
      max_int_eq min_int_eq max_uint_eq element_of_sel is_int_def is_uint_def)

lemma type_limit_is_limit:
  assumes "legal_type t" "is_num t"
  shows "type_max F t = Some e \<Longrightarrow> is_limit t (ety_max (ety t)) e"
    and "type_min F t = Some e \<Longrightarrow> is_limit t (ety_min (ety t)) e"
  using make_const_limit [OF _ assms(2,1)] const_val_limits [OF assms] type_limits [OF assms] by simp_all

lemma make_const_defined:
  assumes "legal_type t" "is_num t"
  shows "\<exists>e. make_const F t v = Some e"
proof -
  define scalar where "scalar = (\<lambda>t. if is_int t then IntImm_make t v else if is_uint t then UIntImm_make t v
    else if is_float t then FloatImm_make F t (fl_of_int F v) else None)"
  have s: "\<exists>e. scalar u = Some e \<and> etype e = u" if "legal_type u" "is_num u" "is_scalar u" for u
    using that by (auto simp: scalar_def legal_type_def is_num_def IntImm_make_def UIntImm_make_def is_int_def is_uint_def)
  show ?thesis
  proof (cases "is_vector t")
    case True
    have "is_scalar (element_of t)" by (simp add: is_scalar_def element_of_sel)
    then obtain e where "scalar (element_of t) = Some e" "etype e = element_of t"
      using s [OF legal_element_of [OF assms(1)]] assms(2) by auto
    then have "make_const F t v = Broadcast_make e (lanes t)" using True by (simp add: make_const_def scalar_def)
    then show ?thesis
      using True \<open>etype e = element_of t\<close> \<open>is_scalar (element_of t)\<close> by (simp add: Broadcast_make_def is_vector_def)
  next
    case False
    have "is_scalar t" using False legal_lanes [OF assms(1)] by (auto simp: is_vector_def is_scalar_def)
    have "make_const F t v = scalar t" using False by (simp add: make_const_def scalar_def)
    then show ?thesis using s [OF assms] \<open>is_scalar t\<close> by auto
  qed
qed

lemma lanes_element_of: "legal_type t \<Longrightarrow> with_lanes (lanes t) (element_of t) = t"
  using legal_lanes [of t] legal_element_of [of t] by (simp add: with_lanes_eq [of "element_of t"]) (simp add: element_of_def with_lanes_eq)

lemma cast_e_type:
  assumes "cast_e F t a = Some e" "is_num t" "legal_type t"
  shows "etype e = t"
proof -
  have b: "etype s = t" if "Broadcast_make v (lanes t) = Some s" "etype v = element_of t" for v s
    using that lanes_element_of [OF assms(3)] by (auto simp: Broadcast_make_def split: if_splits)
  have c: "etype s = u" if "cast_const F u x = Some (Some s)" "is_num u" "legal_type u" for s u x
    using that make_const_eval(2) [OF _ that(2,3)]
    by (auto simp: cast_const_def split: option.splits)
      (auto simp: make_const_float_def Let_def IntImm_make_def UIntImm_make_def is_num_def is_vector_def Broadcast_make_def
        lanes_element_of bind_eq_Some_conv split: if_splits)
  have s: "etype s = element_of t" if "cast_scalar F (element_of t) x = Some s" for x s
    using that c [of "element_of t" x s] legal_element_of [OF assms(3)] assms(2)
    by (auto simp: cast_scalar_def Cast_make_def split: if_splits option.splits)
  show ?thesis
    using assms(1) c [of t a e] assms(2,3) b s
    by (auto simp: cast_e_def Cast_make_def bind_eq_Some_conv split: if_splits option.splits expr.splits)
qed

lemma in_ety_limits: "num_ety h \<Longrightarrow> in_ety h v \<longleftrightarrow> ety_min h \<le> v \<and> v \<le> ety_max h"
  by (auto simp: in_ety_def ety_min_def ety_max_def fits_def num_ety_def)

lemma limit_value: "is_limit t v e \<Longrightarrow> ctx_ok M \<Longrightarrow> sval M e = v" "is_limit t v e \<Longrightarrow> etype e = t"
  unfolding is_limit_def ctx_ok_def by blast+

lemma limit_typed: "is_limit t v e \<Longrightarrow> typed (SpecificExpr e)"
  by (auto simp: is_limit_def)

definition in_bounds :: "vctx \<Rightarrow> bool" where
  "in_bounds M \<longleftrightarrow> in_ety (wty M 0) (wval M 0)"

text \<open>Rounding down to a multiple wraps only in a narrow signed type.\<close>

definition no_narrow_int :: "vctx \<Rightarrow> bool" where
  "no_narrow_int M \<longleftrightarrow> wide (wty M 0) \<or> fst (wty M 0) = Halide_UInt"

lemma nrm_nonneg: "fst h = Halide_UInt \<Longrightarrow> 0 \<le> nrm h v"
  by (simp add: nrm_def wrap_ty_def)

lemma nrm_stair:
  assumes "0 < c" "nrm h x = x" "wide h \<or> fst h = Halide_UInt" "num_ety h"
  shows "nrm h (c * ediv x c) = c * ediv x c"
proof (cases "wide h")
  case False
  then have u: "fst h = Halide_UInt" using assms(3) by simp
  have x: "0 \<le> x" using nrm_nonneg [OF u, of x] assms(2) by simp
  have e: "0 \<le> ediv x c" using x assms(1) by (simp add: ediv_def pos_imp_zdiv_nonneg_iff)
  show ?thesis
  proof (rule in_range_between [OF assms(4) nrm_0 assms(2)])
    show "0 \<le> c * ediv x c" using e assms(1) by (simp only: zero_le_mult_iff) simp
    show "c * ediv x c \<le> x" by (rule stair(7) [OF assms(1)])
  qed
qed simp

end
