(* ===== verification/RulesLinear.thy ===== *)
theory RulesLinear
  imports Limits
begin

text \<open>
  The rewrite rules of sums, differences and products, in the order of the code, split
  where a guard on the type starts or ends. A table that the visitor returns from is
  called \<open>direct\<close>, one whose result is simplified again \<open>chain\<close>. Every rule is valid: on
  all integer types, or on the types without overflow that its guard admits.
\<close>

section \<open>Sums (Simplify_Add.cpp)\<close>

definition add_direct :: "expr \<Rightarrow> expr \<Rightarrow> rule list" where
  "add_direct a b = [
    rewrite (C0 + C1) (Fold (C0 + C1)),
    rewrite_expr (Indeterminate + X) a,
    rewrite_expr (X + Indeterminate) b,
    rewrite_expr (Overflow + X) a,
    rewrite_expr (X + Overflow) b,
    rewrite (X + Const 0) X,
    rewrite (Const 0 + X) X]"

definition add_chain_any :: "halide_type \<Rightarrow> rule list" where
  "add_chain_any ty = [
    rewrite (X + X) (X * Const 2),
    rewrite (ramp X Y + ramp Z W) (ramp_n (X + Z) (Y + W) (lanes ty)),
    rewrite (ramp X Y + broadcast Z) (ramp_n (X + Z) Y (lanes ty)),
    rewrite (broadcast X + broadcast Y) (broadcast_n (X + Y) (lanes ty)),
    rewrite (select X Y Z + select X W U) (select X (Y + W) (Z + U)),
    rewrite (select X C0 C1 + C2) (select X (Fold (C0 + C2)) (Fold (C1 + C2))),
    rewrite (select X Y C1 + C2) (select X (Y + C2) (Fold (C1 + C2))),
    rewrite (select X C0 Y + C2) (select X (Fold (C0 + C2)) (Y + C2)),
    rewrite (select X Y Z + W + select X U V) (select X (Y + U) (Z + V) + W),
    rewrite (W + select X Y Z + select X U V) (select X (Y + U) (Z + V) + W),
    rewrite (select X Y Z + (select X U V + W)) (select X (Y + U) (Z + V) + W),
    rewrite (select X Y Z + (W + select X U V)) (select X (Y + U) (Z + V) + W),
    rewrite (select X Y Z - W + select X U V) (select X (Y + U) (Z + V) - W),
    rewrite (select X Y Z + (select X U V - W)) (select X (Y + U) (Z + V) - W),
    rewrite (W - select X Y Z + select X U V) (select X (U - Y) (V - Z) + W),
    rewrite (select X Y Z + (W - select X U V)) (select X (Y - U) (Z - V) + W),
    rewrite (X + C0 + C1) (X + Fold (C0 + C1)),
    rewrite (X + C0 + Y) (X + Y + C0),
    rewrite (X + (Y + C0)) (X + Y + C0),
    rewrite (C0 - X + C1) (Fold (C0 + C1) - X),
    rewrite (C0 - X + Y) (Y - X + C0),
    rewrite (X - Y + Y) X,
    rewrite (X + (Y - X)) Y,
    rewrite (X + (C0 - Y)) (X - Y + C0),
    rewrite (X - Y + (Y - Z)) (X - Z),
    rewrite (X - Y + (Z - X)) (Z - Y),
    rewrite_if (X + Y * C0) (X - Y * - C0) (and_op (lt C0 (Const 0)) (gt (- C0) (Const 0))),
    rewrite_if (X * C0 + Y) (Y - X * - C0) (and_op (and_op (lt C0 (Const 0)) (gt (- C0) (Const 0))) (not_op (IsConst Y))),
    rewrite (X * Y + Z * Y) ((X + Z) * Y),
    rewrite (X * Y + Y * Z) ((X + Z) * Y),
    rewrite (Y * X + Z * Y) (Y * (X + Z)),
    rewrite (Y * X + Y * Z) (Y * (X + Z)),
    rewrite_if (X * C0 + Y * C1) ((X + Y * Fold (C1 div C0)) * C0) (eq (C1 mod C0) (Const 0)),
    rewrite_if (X * C0 + Y * C1) ((X * Fold (C0 div C1) + Y) * C1) (eq (C0 mod C1) (Const 0))]"

definition add_chain_wide :: "rule list" where
  "add_chain_wide = [
    rewrite (X + X * Y) (X * (Y + Const 1)),
    rewrite (X + Y * X) ((Y + Const 1) * X),
    rewrite (X * Y + X) (X * (Y + Const 1)),
    rewrite_if (Y * X + X) ((Y + Const 1) * X) (not_op (IsConst X)),
    rewrite ((X + C0) div C1 + C2) ((X + Fold (C0 + C1 * C2)) div C1),
    rewrite (X + (Y + C0) div C1 + C2) (X + (Y + Fold (C0 + C1 * C2)) div C1),
    rewrite ((Y + C0) div C1 + X + C2) (X + (Y + Fold (C0 + C1 * C2)) div C1),
    rewrite_if ((C0 - X) div C1 + C2) ((Fold (C0 + C1 * C2) - X) div C1) (and_op (ne C0 (Const 0)) (ne C1 (Const 0))),
    rewrite (X + (X + Y) div C0) ((Fold (C0 + Const 1) * X + Y) div C0),
    rewrite (X + (Y + X) div C0) ((Fold (C0 + Const 1) * X + Y) div C0),
    rewrite (X + (Y - X) div C0) ((Fold (C0 - Const 1) * X + Y) div C0),
    rewrite (X + (X - Y) div C0) ((Fold (C0 + Const 1) * X - Y) div C0),
    rewrite ((X - Y) div C0 + X) ((Fold (C0 + Const 1) * X - Y) div C0),
    rewrite ((Y - X) div C0 + X) ((Y + Fold (C0 - Const 1) * X) div C0),
    rewrite ((X + Y) div C0 + X) ((Fold (C0 + Const 1) * X + Y) div C0),
    rewrite ((Y + X) div C0 + X) ((Y + Fold (C0 + Const 1) * X) div C0),
    rewrite (pmin X (Y - Z) + Z) (pmin (X + Z) Y),
    rewrite (pmin (Y - Z) X + Z) (pmin Y (X + Z)),
    rewrite_if (pmin X (Y + C0) + C1) (pmin (X + C1) Y) (eq (C0 + C1) (Const 0)),
    rewrite_if (pmin (Y + C0) X + C1) (pmin Y (X + C1)) (eq (C0 + C1) (Const 0)),
    rewrite (Z + pmin X (Y - Z)) (pmin (Z + X) Y),
    rewrite (Z + pmin (Y - Z) X) (pmin Y (Z + X)),
    rewrite (Z + pmax X (Y - Z)) (pmax (Z + X) Y),
    rewrite (Z + pmax (Y - Z) X) (pmax Y (Z + X)),
    rewrite (pmax X (Y - Z) + Z) (pmax (X + Z) Y),
    rewrite (pmax (Y - Z) X + Z) (pmax Y (X + Z)),
    rewrite_if (pmax X (Y + C0) + C1) (pmax (X + C1) Y) (eq (C0 + C1) (Const 0)),
    rewrite_if (pmax (Y + C0) X + C1) (pmax Y (X + C1)) (eq (C0 + C1) (Const 0)),
    rewrite (pmax X Y + pmin X Y) (X + Y),
    rewrite (pmax X Y + pmin Y X) (X + Y)]"

definition add_chain_int :: "rule list" where
  "add_chain_int = [
    rewrite (X div Y * Y + X mod Y) X,
    rewrite ((Z + X div Y) * Y + X mod Y) (Z * Y + X),
    rewrite ((X div Y + Z) * Y + X mod Y) (X + Z * Y),
    rewrite (X mod Y + (X div Y * Y + Z)) (X + Z),
    rewrite (X mod Y + (X div Y * Y - Z)) (X - Z),
    rewrite (X mod Y + (Z + X div Y * Y)) (X + Z),
    rewrite (X div Y * Y + (X mod Y + Z)) (X + Z),
    rewrite (X div Y * Y + (X mod Y - Z)) (X - Z),
    rewrite (X div Y * Y + (Z + X mod Y)) (X + Z),
    rewrite (X div Const 2 + X mod Const 2) ((X + Const 1) div Const 2),
    rewrite_if (X + (C0 - X) div C1 * C1) (C0 - (C0 - X) mod C1) (gt C1 (Const 0)),
    rewrite_if (X + ((C0 - X) div C1 + Y) * C1) (Y * C1 - (C0 - X) mod C1 + C0) (gt C1 (Const 0)),
    rewrite_if (X + (Y + (C0 - X) div C1) * C1) (Y * C1 - (C0 - X) mod C1 + C0) (gt C1 (Const 0))]"

definition add_chain :: "halide_type \<Rightarrow> rule list" where
  "add_chain ty =
     add_chain_any ty @ (if no_overflow ty then add_chain_wide else []) @
     (if no_overflow_int ty then add_chain_int else [])"

lemma add_base_valid:
  "list_all (valid_rule P [a, b]) (add_direct a b)"
  "0 < lanes ty \<Longrightarrow> lanes ty < 2 ^ 14 \<Longrightarrow> list_all (valid_rule (in_lanes ty) [a, b]) (add_chain_any ty)"
  by ((unfold add_direct_def add_chain_any_def
        list.pred_inject(2) pat_ops,
      intro conjI list.pred_inject(1); rule valid_ruleI;
      simp add: rule_arith; (intro impI)?; (elim conjE)?;
      (linarith))+)

lemma add_wide_valid:
  "no_overflow (etype a) \<Longrightarrow> list_all (valid_rule P [a, b]) add_chain_wide"
  by ((unfold add_chain_wide_def
        list.pred_inject(2) pat_ops,
      intro conjI list.pred_inject(1); ((rule valid_wideI, assumption) | rule valid_ruleI);
      simp add: rule_arith; (intro impI)?; (elim conjE)?;
      ((rule ediv_shifts; simp add: algebra_simps emod_0_mult; fail)
      | (simp add: emod_diff algebra_simps emod_0_mult; fail)))+)

lemma add_int_valid:
  "no_overflow (etype a) \<Longrightarrow> list_all (valid_rule P [a, b]) add_chain_int"
  by ((unfold add_chain_int_def
        list.pred_inject(2) pat_ops,
      intro conjI list.pred_inject(1); ((rule valid_wideI, assumption) | rule valid_ruleI);
      simp add: rule_arith; (intro impI)?; (elim conjE)?;
      ((simp add: emod_diff algebra_simps emod_0_mult; fail)
      | (simp add: ediv_pos emod_pos; presburger)))+)

lemmas add_rules_valid =
  add_base_valid add_wide_valid add_int_valid

section \<open>Differences (Simplify_Sub.cpp)\<close>

definition sub_direct :: "expr \<Rightarrow> expr \<Rightarrow> rule list" where
  "sub_direct a b = [
    rewrite (C0 - C1) (Fold (C0 - C1)),
    rewrite_expr (Indeterminate - X) a,
    rewrite_expr (X - Indeterminate) b,
    rewrite_expr (Overflow - X) a,
    rewrite_expr (X - Overflow) b,
    rewrite (X - Const 0) X]"

definition sub_chain_signed :: "rule list" where
  "sub_chain_signed = [
    rewrite_if (X - C0) (X + Fold (- C0)) (not_op (Overflows (- C0)))]"

definition sub_chain_any :: "halide_type \<Rightarrow> rule list" where
  "sub_chain_any ty = [
    rewrite_int (X - X) 0,
    rewrite (ramp X Y - ramp Z W) (ramp_n (X - Z) (Y - W) (lanes ty)),
    rewrite (ramp X Y - broadcast Z) (ramp_n (X - Z) Y (lanes ty)),
    rewrite (broadcast X - ramp Z W) (ramp_n (X - Z) (- W) (lanes ty)),
    rewrite (broadcast X - broadcast Y) (broadcast_n (X - Y) (lanes ty)),
    rewrite (select X Y Z - select X W U) (select X (Y - W) (Z - U)),
    rewrite (select X Y Z - Y) (select X (Const 0) (Z - Y)),
    rewrite (select X Y Z - Z) (select X (Y - Z) (Const 0)),
    rewrite (Y - select X Y Z) (select X (Const 0) (Y - Z)),
    rewrite (Z - select X Y Z) (select X (Z - Y) (Const 0)),
    rewrite (X + Y - X) Y,
    rewrite (X + Y - Y) X,
    rewrite (X - (X + Y)) (- Y),
    rewrite (Y - (X + Y)) (- X),
    rewrite (X - Y - X) (- Y),
    rewrite (select X Y Z + W - select X U V) (select X (Y - U) (Z - V) + W),
    rewrite (W + select X Y Z - select X U V) (select X (Y - U) (Z - V) + W),
    rewrite (select X Y Z - (select X U V + W)) (select X (Y - U) (Z - V) - W),
    rewrite (select X Y Z - (W + select X U V)) (select X (Y - U) (Z - V) - W),
    rewrite (select X Y Z - W - select X U V) (select X (Y - U) (Z - V) - W),
    rewrite (C0 - select X C1 C2) (select X (Fold (C0 - C1)) (Fold (C0 - C2))),
    rewrite (X + C0 - C1) (X + Fold (C0 - C1)),
    rewrite (X + C0 - (C1 - Y)) (X + Y + Fold (C0 - C1)),
    rewrite (X + C0 - (Y + C1)) (X - Y + Fold (C0 - C1)),
    rewrite (X + C0 - Y) (X - Y + C0),
    rewrite (C0 - X - (C1 - Y)) (Y - X + Fold (C0 - C1)),
    rewrite (C0 - X - (Y + C1)) (Fold (C0 - C1) - (X + Y)),
    rewrite (X - (Y - Z)) (X + (Z - Y)),
    rewrite_if (X - Y * C0) (X + Y * Fold (- C0)) (and_op (lt C0 (Const 0)) (gt (- C0) (Const 0))),
    rewrite (X - (Y + C0)) (X - Y - C0),
    rewrite (C0 - X - C1) (Fold (C0 - C1) - X),
    rewrite (X * Y - Z * Y) ((X - Z) * Y),
    rewrite (X * Y - Y * Z) ((X - Z) * Y),
    rewrite (Y * X - Z * Y) (Y * (X - Z)),
    rewrite (Y * X - Y * Z) (Y * (X - Z)),
    rewrite (X + Y - (X + Z)) (Y - Z),
    rewrite (X + Y - (Z + X)) (Y - Z),
    rewrite (Y + X - (X + Z)) (Y - Z),
    rewrite (Y + X - (Z + X)) (Y - Z),
    rewrite (X + Y + Z - X) (Y + Z),
    rewrite (Y + X + Z - X) (Y + Z),
    rewrite (Z + (X + Y) - X) (Z + Y),
    rewrite (Z + (Y + X) - X) (Z + Y),
    rewrite_if ((X * C1 + Y) * C0 + Z - X * C2) (Y * C0 + Z) (CanProve (eq (C1 * C0) C2))]"

definition sub_chain_wide_1 :: "halide_type \<Rightarrow> rule list" where
  "sub_chain_wide_1 ty = [
    rewrite (pmax X Y - X) (pmax (Const 0) (Y - X)),
    rewrite (pmin X Y - X) (pmin (Const 0) (Y - X)),
    rewrite (pmax X Y - Y) (pmax (X - Y) (Const 0)),
    rewrite (pmin X Y - Y) (pmin (X - Y) (Const 0)),
    rewrite_if (X - pmax X Y) (pmin (Const 0) (X - Y)) (not_op (IsConst X)),
    rewrite_if (X - pmin X Y) (pmax (Const 0) (X - Y)) (not_op (IsConst X)),
    rewrite_if (Y - pmax X Y) (pmin (Y - X) (Const 0)) (not_op (IsConst Y)),
    rewrite_if (Y - pmin X Y) (pmax (Y - X) (Const 0)) (not_op (IsConst Y)),
    rewrite (X * Y - X) (X * (Y - Const 1)),
    rewrite (X * Y - Y) ((X - Const 1) * Y),
    rewrite (X - X * Y) (X * (Const 1 - Y)),
    rewrite (X - Y * X) ((Const 1 - Y) * X),
    rewrite (X - pmin (X + Y) Z) (pmax (- Y) (X - Z)),
    rewrite (X - pmin (Y + X) Z) (pmax (- Y) (X - Z)),
    rewrite (X - pmin Z (X + Y)) (pmax (X - Z) (- Y)),
    rewrite (X - pmin Z (Y + X)) (pmax (X - Z) (- Y)),
    rewrite (pmin (X + Y) Z - X) (pmin Y (Z - X)),
    rewrite (pmin (Y + X) Z - X) (pmin Y (Z - X)),
    rewrite (pmin Z (X + Y) - X) (pmin (Z - X) Y),
    rewrite (pmin Z (Y + X) - X) (pmin (Z - X) Y),
    rewrite_int (pmin X Y - pmin Y X) 0,
    rewrite_if (pmin X Y - pmin Z W) (Y - W) (CanProve (eq (X - Y) (Z - W))),
    rewrite_if (pmin X Y - pmin W Z) (Y - W) (CanProve (eq (X - Y) (Z - W))),
    rewrite (X - pmax (X + Y) Z) (pmin (- Y) (X - Z)),
    rewrite (X - pmax (Y + X) Z) (pmin (- Y) (X - Z)),
    rewrite (X - pmax Z (X + Y)) (pmin (X - Z) (- Y)),
    rewrite (X - pmax Z (Y + X)) (pmin (X - Z) (- Y)),
    rewrite (pmax (X + Y) Z - X) (pmax Y (Z - X)),
    rewrite (pmax (Y + X) Z - X) (pmax Y (Z - X)),
    rewrite (pmax Z (X + Y) - X) (pmax (Z - X) Y),
    rewrite (pmax Z (Y + X) - X) (pmax (Z - X) Y),
    rewrite_int (pmax X Y - pmax Y X) 0,
    rewrite_if (pmax X Y - pmax Z W) (Y - W) (CanProve (eq (X - Y) (Z - W))),
    rewrite_if (pmax X Y - pmax W Z) (Y - W) (CanProve (eq (X - Y) (Z - W))),
    rewrite_if (pmin X Y - pmin X W) (pmin (Const 0) (Y - pmin X W)) (CanProve (le Y W)),
    rewrite_if (pmin X Y - pmin X W) (pmax (Const 0) (pmin X Y - W)) (CanProve (ge Y W)),
    rewrite_if (pmin (X + C0) Y - pmin X W) (pmin C0 (Y - pmin X W)) (CanProve (le Y (W + C0))),
    rewrite_if (pmin (X + C0) Y - pmin X W) (pmax C0 (pmin (X + C0) Y - W)) (CanProve (ge Y (W + C0)))]"

definition sub_chain_wide_2 :: "halide_type \<Rightarrow> rule list" where
  "sub_chain_wide_2 ty = [
    rewrite_if (pmin X Y - pmin (X + C1) W) (pmin (Fold (- C1)) (Y - pmin (X + C1) W)) (CanProve (le (Y + C1) W)),
    rewrite_if (pmin X Y - pmin (X + C1) W) (pmax (Fold (- C1)) (pmin X Y - W)) (CanProve (ge (Y + C1) W)),
    rewrite_if (pmin (X + C0) Y - pmin (X + C1) W) (pmin (Fold (C0 - C1)) (Y - pmin (X + C1) W)) (CanProve (le (Y + C1) (W + C0))),
    rewrite_if (pmin (X + C0) Y - pmin (X + C1) W) (pmax (Fold (C0 - C1)) (pmin (X + C0) Y - W)) (CanProve (ge (Y + C1) (W + C0))),
    rewrite_if (pmin Y X - pmin W X) (pmin (Const 0) (Y - pmin X W)) (CanProve (le Y W)),
    rewrite_if (pmin Y X - pmin W X) (pmax (Const 0) (pmin X Y - W)) (CanProve (ge Y W)),
    rewrite_if (pmin Y (X + C0) - pmin W X) (pmin C0 (Y - pmin X W)) (CanProve (le Y (W + C0))),
    rewrite_if (pmin Y (X + C0) - pmin W X) (pmax C0 (pmin (X + C0) Y - W)) (CanProve (ge Y (W + C0))),
    rewrite_if (pmin Y X - pmin W (X + C1)) (pmin (Fold (- C1)) (Y - pmin (X + C1) W)) (CanProve (le (Y + C1) W)),
    rewrite_if (pmin Y X - pmin W (X + C1)) (pmax (Fold (- C1)) (pmin X Y - W)) (CanProve (ge (Y + C1) W)),
    rewrite_if (pmin Y (X + C0) - pmin W (X + C1)) (pmin (Fold (C0 - C1)) (Y - pmin (X + C1) W)) (CanProve (le (Y + C1) (W + C0))),
    rewrite_if (pmin Y (X + C0) - pmin W (X + C1)) (pmax (Fold (C0 - C1)) (pmin (X + C0) Y - W)) (CanProve (ge (Y + C1) (W + C0))),
    rewrite_if (pmin X Y - pmin W X) (pmin (Const 0) (Y - pmin X W)) (CanProve (le Y W)),
    rewrite_if (pmin X Y - pmin W X) (pmax (Const 0) (pmin X Y - W)) (CanProve (ge Y W)),
    rewrite_if (pmin (X + C0) Y - pmin W X) (pmin C0 (Y - pmin X W)) (CanProve (le Y (W + C0))),
    rewrite_if (pmin (X + C0) Y - pmin W X) (pmax C0 (pmin (X + C0) Y - W)) (CanProve (ge Y (W + C0))),
    rewrite_if (pmin X Y - pmin W (X + C1)) (pmin (Fold (- C1)) (Y - pmin (X + C1) W)) (CanProve (le (Y + C1) W)),
    rewrite_if (pmin X Y - pmin W (X + C1)) (pmax (Fold (- C1)) (pmin X Y - W)) (CanProve (ge (Y + C1) W)),
    rewrite_if (pmin (X + C0) Y - pmin W (X + C1)) (pmin (Fold (C0 - C1)) (Y - pmin (X + C1) W)) (CanProve (le (Y + C1) (W + C0))),
    rewrite_if (pmin (X + C0) Y - pmin W (X + C1)) (pmax (Fold (C0 - C1)) (pmin (X + C0) Y - W)) (CanProve (ge (Y + C1) (W + C0))),
    rewrite_if (pmin Y X - pmin X W) (pmin (Const 0) (Y - pmin X W)) (CanProve (le Y W)),
    rewrite_if (pmin Y X - pmin X W) (pmax (Const 0) (pmin X Y - W)) (CanProve (ge Y W)),
    rewrite_if (pmin Y (X + C0) - pmin X W) (pmin C0 (Y - pmin X W)) (CanProve (le Y (W + C0))),
    rewrite_if (pmin Y (X + C0) - pmin X W) (pmax C0 (pmin (X + C0) Y - W)) (CanProve (ge Y (W + C0))),
    rewrite_if (pmin Y X - pmin (X + C1) W) (pmin (Fold (- C1)) (Y - pmin (X + C1) W)) (CanProve (le (Y + C1) W)),
    rewrite_if (pmin Y X - pmin (X + C1) W) (pmax (Fold (- C1)) (pmin X Y - W)) (CanProve (ge (Y + C1) W)),
    rewrite_if (pmin Y (X + C0) - pmin (X + C1) W) (pmin (Fold (C0 - C1)) (Y - pmin (X + C1) W)) (CanProve (le (Y + C1) (W + C0))),
    rewrite_if (pmin Y (X + C0) - pmin (X + C1) W) (pmax (Fold (C0 - C1)) (pmin (X + C0) Y - W)) (CanProve (ge (Y + C1) (W + C0))),
    rewrite_if (pmax X Y - pmax X W) (pmax (Const 0) (Y - pmax X W)) (CanProve (ge Y W)),
    rewrite_if (pmax X Y - pmax X W) (pmin (Const 0) (pmax X Y - W)) (CanProve (le Y W)),
    rewrite_if (pmax (X + C0) Y - pmax X W) (pmax C0 (Y - pmax X W)) (CanProve (ge Y (W + C0))),
    rewrite_if (pmax (X + C0) Y - pmax X W) (pmin C0 (pmax (X + C0) Y - W)) (CanProve (le Y (W + C0))),
    rewrite_if (pmax X Y - pmax (X + C1) W) (pmax (Fold (- C1)) (Y - pmax (X + C1) W)) (CanProve (ge (Y + C1) W)),
    rewrite_if (pmax X Y - pmax (X + C1) W) (pmin (Fold (- C1)) (pmax X Y - W)) (CanProve (le (Y + C1) W)),
    rewrite_if (pmax (X + C0) Y - pmax (X + C1) W) (pmax (Fold (C0 - C1)) (Y - pmax (X + C1) W)) (CanProve (ge (Y + C1) (W + C0))),
    rewrite_if (pmax (X + C0) Y - pmax (X + C1) W) (pmin (Fold (C0 - C1)) (pmax (X + C0) Y - W)) (CanProve (le (Y + C1) (W + C0))),
    rewrite_if (pmax Y X - pmax W X) (pmax (Const 0) (Y - pmax X W)) (CanProve (ge Y W)),
    rewrite_if (pmax Y X - pmax W X) (pmin (Const 0) (pmax X Y - W)) (CanProve (le Y W)),
    rewrite_if (pmax Y (X + C0) - pmax W X) (pmax C0 (Y - pmax X W)) (CanProve (ge Y (W + C0))),
    rewrite_if (pmax Y (X + C0) - pmax W X) (pmin C0 (pmax (X + C0) Y - W)) (CanProve (le Y (W + C0))),
    rewrite_if (pmax Y X - pmax W (X + C1)) (pmax (Fold (- C1)) (Y - pmax (X + C1) W)) (CanProve (ge (Y + C1) W)),
    rewrite_if (pmax Y X - pmax W (X + C1)) (pmin (Fold (- C1)) (pmax X Y - W)) (CanProve (le (Y + C1) W)),
    rewrite_if (pmax Y (X + C0) - pmax W (X + C1)) (pmax (Fold (C0 - C1)) (Y - pmax (X + C1) W)) (CanProve (ge (Y + C1) (W + C0))),
    rewrite_if (pmax Y (X + C0) - pmax W (X + C1)) (pmin (Fold (C0 - C1)) (pmax (X + C0) Y - W)) (CanProve (le (Y + C1) (W + C0))),
    rewrite_if (pmax X Y - pmax W X) (pmax (Const 0) (Y - pmax X W)) (CanProve (ge Y W)),
    rewrite_if (pmax X Y - pmax W X) (pmin (Const 0) (pmax X Y - W)) (CanProve (le Y W)),
    rewrite_if (pmax (X + C0) Y - pmax W X) (pmax C0 (Y - pmax X W)) (CanProve (ge Y (W + C0))),
    rewrite_if (pmax (X + C0) Y - pmax W X) (pmin C0 (pmax (X + C0) Y - W)) (CanProve (le Y (W + C0))),
    rewrite_if (pmax X Y - pmax W (X + C1)) (pmax (Fold (- C1)) (Y - pmax (X + C1) W)) (CanProve (ge (Y + C1) W)),
    rewrite_if (pmax X Y - pmax W (X + C1)) (pmin (Fold (- C1)) (pmax X Y - W)) (CanProve (le (Y + C1) W)),
    rewrite_if (pmax (X + C0) Y - pmax W (X + C1)) (pmax (Fold (C0 - C1)) (Y - pmax (X + C1) W)) (CanProve (ge (Y + C1) (W + C0))),
    rewrite_if (pmax (X + C0) Y - pmax W (X + C1)) (pmin (Fold (C0 - C1)) (pmax (X + C0) Y - W)) (CanProve (le (Y + C1) (W + C0))),
    rewrite_if (pmax Y X - pmax X W) (pmax (Const 0) (Y - pmax X W)) (CanProve (ge Y W)),
    rewrite_if (pmax Y X - pmax X W) (pmin (Const 0) (pmax X Y - W)) (CanProve (le Y W)),
    rewrite_if (pmax Y (X + C0) - pmax X W) (pmax C0 (Y - pmax X W)) (CanProve (ge Y (W + C0))),
    rewrite_if (pmax Y (X + C0) - pmax X W) (pmin C0 (pmax (X + C0) Y - W)) (CanProve (le Y (W + C0))),
    rewrite_if (pmax Y X - pmax (X + C1) W) (pmax (Fold (- C1)) (Y - pmax (X + C1) W)) (CanProve (ge (Y + C1) W)),
    rewrite_if (pmax Y X - pmax (X + C1) W) (pmin (Fold (- C1)) (pmax X Y - W)) (CanProve (le (Y + C1) W)),
    rewrite_if (pmax Y (X + C0) - pmax (X + C1) W) (pmax (Fold (C0 - C1)) (Y - pmax (X + C1) W)) (CanProve (ge (Y + C1) (W + C0))),
    rewrite_if (pmax Y (X + C0) - pmax (X + C1) W) (pmin (Fold (C0 - C1)) (pmax (X + C0) Y - W)) (CanProve (le (Y + C1) (W + C0)))]"

definition sub_chain_int :: "rule list" where
  "sub_chain_int = [
    rewrite_if (C0 - (C1 - X) div C2) ((Fold (C0 * C2 - C1 + C2 - Const 1) + X) div C2) (gt C2 (Const 0)),
    rewrite_if (C0 - (X + C1) div C2) ((Fold (C0 * C2 - C1 + C2 - Const 1) - X) div C2) (gt C2 (Const 0)),
    rewrite_if (X - (X + Y) div C0) ((X * Fold (C0 - Const 1) - Y + Fold (C0 - Const 1)) div C0) (gt C0 (Const 0)),
    rewrite_if (X - (X - Y) div C0) ((X * Fold (C0 - Const 1) + Y + Fold (C0 - Const 1)) div C0) (gt C0 (Const 0)),
    rewrite_if (X - (Y + X) div C0) ((X * Fold (C0 - Const 1) - Y + Fold (C0 - Const 1)) div C0) (gt C0 (Const 0)),
    rewrite_if (X - (Y - X) div C0) ((X * Fold (C0 + Const 1) - Y + Fold (C0 - Const 1)) div C0) (gt C0 (Const 0)),
    rewrite ((X + Y) div C0 - X) ((X * Fold (Const 1 - C0) + Y) div C0),
    rewrite ((Y + X) div C0 - X) ((Y + X * Fold (Const 1 - C0)) div C0),
    rewrite ((X - Y) div C0 - X) ((X * Fold (Const 1 - C0) - Y) div C0),
    rewrite ((Y - X) div C0 - X) ((Y - X * Fold (Const 1 + C0)) div C0),
    rewrite_if (X div C0 * C0 - X) (- (X mod C0)) (gt C0 (Const 0)),
    rewrite_if (X - X div C0 * C0) (X mod C0) (gt C0 (Const 0)),
    rewrite_if ((X + C0) div C1 * C1 - X) (- X mod C1) (and_op (gt C1 (Const 0)) (eq (C0 + Const 1) C1)),
    rewrite_if (X - (X + C0) div C1 * C1) ((X + C0) mod C1 + Fold (- C0)) (and_op (gt C1 (Const 0)) (eq (C0 + Const 1) C1)),
    rewrite_if (X * C0 - Y * C1) ((X * Fold (C0 div C1) - Y) * C1) (eq (C0 mod C1) (Const 0)),
    rewrite_if (X * C0 - Y * C1) ((X - Y * Fold (C1 div C0)) * C0) (eq (C1 mod C0) (Const 0)),
    rewrite_if ((X + Y + Z) div C0 - (Y + X + W) div C0) ((X + Y + Z) div C0 - (X + Y + W) div C0) (gt C0 (Const 0)),
    rewrite_int_if ((X + Y) div C0 - (Y + X) div C0) 0 (ne C0 (Const 0)),
    rewrite_if ((X + Y) div C0 - (X + C1) div C0) (((X + Fold (C1 mod C0)) mod C0 + (Y - C1)) div C0) (gt C0 (Const 0)),
    rewrite_if ((X + C1) div C0 - (X + Y) div C0) ((Fold (C0 + C1 - Const 1) - Y - (X + Fold (C1 mod C0)) mod C0) div C0) (gt C0 (Const 0)),
    rewrite_if ((X - Y) div C0 - (X + C1) div C0) (((X + Fold (C1 mod C0)) mod C0 - Y - C1) div C0) (gt C0 (Const 0)),
    rewrite_if ((X + C1) div C0 - (X - Y) div C0) ((Y + Fold (C0 + C1 - Const 1) - (X + Fold (C1 mod C0)) mod C0) div C0) (gt C0 (Const 0)),
    rewrite_if (X div C0 - (X + Y) div C0) ((Fold (C0 - Const 1) - Y - X mod C0) div C0) (gt C0 (Const 0)),
    rewrite_if ((X + Y) div C0 - X div C0) ((X mod C0 + Y) div C0) (gt C0 (Const 0)),
    rewrite_if (X div C0 - (X - Y) div C0) ((Y + Fold (C0 - Const 1) - X mod C0) div C0) (gt C0 (Const 0)),
    rewrite_if ((X - Y) div C0 - X div C0) ((X mod C0 - Y) div C0) (gt C0 (Const 0))]"

definition sub_chain :: "halide_type \<Rightarrow> rule list" where
  "sub_chain ty =
     (if \<not> is_uint ty then sub_chain_signed else []) @ sub_chain_any ty @
     (if no_overflow ty then sub_chain_wide_1 ty @ sub_chain_wide_2 ty else []) @
     (if no_overflow_int ty then sub_chain_int else [])"

lemma sub_base_valid:
  "list_all (valid_rule P [a, b]) (sub_direct a b)"
  "list_all (valid_rule P [a, b]) sub_chain_signed"
  "0 < lanes ty \<Longrightarrow> lanes ty < 2 ^ 14 \<Longrightarrow> list_all (valid_rule (in_lanes ty) [a, b]) (sub_chain_any ty)"
  by ((unfold sub_direct_def sub_chain_signed_def sub_chain_any_def
        list.pred_inject(2) pat_ops,
      intro conjI list.pred_inject(1); rule valid_ruleI;
      simp add: rule_arith; (intro impI)?; (elim conjE)?;
      ((simp add: ediv_cancel ediv_ediv_add ediv_of_minus_1 ramp_euclid round_up nrm_sub_mult; fail)))+)

lemma sub_wide_valid:
  "0 < lanes ty \<Longrightarrow> lanes ty < 2 ^ 14 \<Longrightarrow> no_overflow (etype a) \<Longrightarrow> list_all (valid_rule (in_lanes ty) [a, b]) (sub_chain_wide_1 ty)"
  "0 < lanes ty \<Longrightarrow> lanes ty < 2 ^ 14 \<Longrightarrow> no_overflow (etype a) \<Longrightarrow> list_all (valid_rule (in_lanes ty) [a, b]) (sub_chain_wide_2 ty)"
  by ((unfold sub_chain_wide_1_def sub_chain_wide_2_def
        list.pred_inject(2) pat_ops,
      intro conjI list.pred_inject(1); ((rule valid_wideI, assumption) | rule valid_ruleI);
      simp add: rule_arith; (intro impI)?; (elim conjE)?;
      (linarith))+)

lemma sub_int_valid:
  "no_overflow (etype a) \<Longrightarrow> list_all (valid_rule P [a, b]) sub_chain_int"
  by ((unfold sub_chain_int_def
        list.pred_inject(2) pat_ops,
      intro conjI list.pred_inject(1); ((rule valid_wideI, assumption) | rule valid_ruleI);
      simp add: rule_arith; (intro impI)?; (elim conjE)?;
      ((rule ediv_shifts; simp add: algebra_simps emod_0_mult; fail)
      | (simp add: emod_diff algebra_simps emod_0_mult; fail)
      | (simp add: ediv_cancel ediv_ediv_add ediv_of_minus_1 ramp_euclid round_up nrm_sub_mult; fail)
      | ((rule ediv_ceil ediv_sums), assumption, simp add: emod_diff algebra_simps; fail)))+)

lemmas sub_rules_valid =
  sub_base_valid sub_wide_valid sub_int_valid

section \<open>Products (Simplify_Mul.cpp)\<close>

definition mul_direct :: "expr \<Rightarrow> expr \<Rightarrow> rule list" where
  "mul_direct a b = [
    rewrite (C0 * C1) (Fold (C0 * C1)),
    rewrite_expr (Indeterminate * X) a,
    rewrite_expr (X * Indeterminate) b,
    rewrite_expr (Overflow * X) a,
    rewrite_expr (X * Overflow) b,
    rewrite_int (Const 0 * X) 0,
    rewrite (Const 1 * X) X,
    rewrite_int (X * Const 0) 0,
    rewrite (X * Const 1) X]"

definition mul_chain :: "halide_type \<Rightarrow> rule list" where
  "mul_chain ty = [
    rewrite_if ((X + C0) * C1) (X * C1 + Fold (C0 * C1)) (not_op (Overflows (C0 * C1))),
    rewrite_if ((X - Y) * C0) ((Y - X) * Fold (- C0)) (and_op (lt C0 (Const 0)) (gt (- C0) (Const 0))),
    rewrite_if (X * C0 * C1) (X * Fold (C0 * C1)) (not_op (Overflows (C0 * C1))),
    rewrite_if (X * C0 * Y) (X * Y * C0) (not_op (IsConst Y)),
    rewrite (X * (Y * C0)) (X * Y * C0),
    rewrite (pmax X Y * pmin X Y) (X * Y),
    rewrite (pmax X Y * pmin Y X) (Y * X),
    rewrite (broadcast X * broadcast Y) (broadcast_n (X * Y) (lanes ty)),
    rewrite (ramp X Y * broadcast Z) (ramp_n (X * Z) (Y * Z) (lanes ty))]"

lemma mul_rules_valid:
  "list_all (valid_rule P [a, b]) (mul_direct a b)"
  "0 < lanes ty \<Longrightarrow> lanes ty < 2 ^ 14 \<Longrightarrow> list_all (valid_rule (in_lanes ty) [a, b]) (mul_chain ty)"
  by ((unfold mul_direct_def mul_chain_def
        list.pred_inject(2) pat_ops,
      intro conjI list.pred_inject(1); rule valid_ruleI;
      simp add: rule_arith; (intro impI)?; (elim conjE)?;
      ((auto simp: min_def max_def mult.commute ediv_of_minus_1; fail)))+)

section \<open>The tables\<close>

lemma add_table_valid:
  assumes "legal_type ty" "ety (etype a) = ety ty"
  shows "list_all (valid_rule (in_lanes ty) [a, b]) (add_direct a b @ add_chain ty)"
  using legal_lanes [of ty] assms no_overflow_cong [of "etype a" ty]
  by (auto simp: add_rules_valid add_chain_def list_all_append no_overflow_intD)

lemma sub_table_valid:
  assumes "legal_type ty" "ety (etype a) = ety ty"
  shows "list_all (valid_rule (in_lanes ty) [a, b]) (sub_direct a b @ sub_chain ty)"
  using legal_lanes [of ty] assms no_overflow_cong [of "etype a" ty]
  by (auto simp: sub_rules_valid sub_chain_def list_all_append no_overflow_intD)

lemma mul_table_valid:
  assumes "legal_type ty" "ety (etype a) = ety ty"
  shows "list_all (valid_rule (in_lanes ty) [a, b]) (mul_direct a b @ mul_chain ty)"
  using legal_lanes [of ty] assms no_overflow_cong [of "etype a" ty]
  by (auto simp: mul_rules_valid list_all_append no_overflow_intD)

text \<open>C4: A table rewrite of a sum keeps well-formedness, the element type and the value, in every
  lane in which the node has one, whatever the types of the operands, if the prover asked for
  side conditions is sound and no folded constant overflowed.\<close>

theorem add_rewrites_sound:
  assumes "apply_rules F prover (add_direct a b @ add_chain (etype a)) (Add a b) (etype a) s = Some (Some e, s')"
    and "\<not> tainted s'" "wf (Add a b)" "l < lanes (etype a)" "eval env (Add a b) l = Some v"
    and "sound_prover I env l prover" "I s"
  shows "wf e \<and> ety (etype e) = ety (etype a) \<and> eval env e l = Some v"
  using table_sound [OF _ assms(1-3) _ _ assms(4-7)] add_table_valid [of "etype a" a b] wf_legal [of a] assms(3)
  by simp

theorem add_rewrites_sound_witness:
  "apply_rules no_floats ask (add_direct (Add var_x (num 3)) (num 4) @ add_chain i32) (Add (Add var_x (num 3)) (num 4)) i32 idle = Some (Some (Add var_x (num 7)), idle) \<and>
   eval sample (Add var_x (num 7)) 0 = Some 12"
proof (rule conjI)
  show r: "apply_rules no_floats ask (add_direct (Add var_x (num 3)) (num 4) @ add_chain i32) (Add (Add var_x (num 3)) (num 4)) i32 idle = Some (Some (Add var_x (num 7)), idle)"
    by (simp add: add_direct_def add_chain_def add_chain_any_def samples run_rules)
  show "eval sample (Add var_x (num 7)) 0 = Some 12"
    using add_rewrites_sound [of no_floats ask "Add var_x (num 3)" "num 4" idle "(Add var_x (num 7))" idle 0 sample 12 "\<lambda>s. True"] r ask_sound
    by (simp add: samples run_eval)
qed

text \<open>C8: A table rewrite of a difference keeps well-formedness, the element type and the value, in
  every lane in which the node has one, whatever the types of the operands, if the prover
  asked for side conditions is sound and no folded constant overflowed.\<close>

theorem sub_rewrites_sound:
  assumes "apply_rules F prover (sub_direct a b @ sub_chain (etype a)) (Sub a b) (etype a) s = Some (Some e, s')"
    and "\<not> tainted s'" "wf (Sub a b)" "l < lanes (etype a)" "eval env (Sub a b) l = Some v"
    and "sound_prover I env l prover" "I s"
  shows "wf e \<and> ety (etype e) = ety (etype a) \<and> eval env e l = Some v"
  using table_sound [OF _ assms(1-3) _ _ assms(4-7)] sub_table_valid [of "etype a" a b] wf_legal [of a] assms(3)
  by simp

theorem sub_rewrites_sound_witness:
  "apply_rules no_floats ask (sub_direct (Add var_x (num 3)) (var_x) @ sub_chain i32) (Sub (Add var_x (num 3)) (var_x)) i32 idle = Some (Some (num 3), idle) \<and>
   eval sample (num 3) 0 = Some 3"
proof (rule conjI)
  show r: "apply_rules no_floats ask (sub_direct (Add var_x (num 3)) (var_x) @ sub_chain i32) (Sub (Add var_x (num 3)) (var_x)) i32 idle = Some (Some (num 3), idle)"
    by (simp add: sub_direct_def sub_chain_def sub_chain_signed_def sub_chain_any_def samples run_rules)
  show "eval sample (num 3) 0 = Some 3"
    using sub_rewrites_sound [of no_floats ask "Add var_x (num 3)" "var_x" idle "(num 3)" idle 0 sample 3 "\<lambda>s. True"] r ask_sound
    by (simp add: samples run_eval)
qed

text \<open>C9: A table rewrite of a product keeps well-formedness, the element type and the value, in every
  lane in which the node has one, whatever the types of the operands, if the prover asked for
  side conditions is sound and no folded constant overflowed.\<close>

theorem mul_rewrites_sound:
  assumes "apply_rules F prover (mul_direct a b @ mul_chain (etype a)) (Mul a b) (etype a) s = Some (Some e, s')"
    and "\<not> tainted s'" "wf (Mul a b)" "l < lanes (etype a)" "eval env (Mul a b) l = Some v"
    and "sound_prover I env l prover" "I s"
  shows "wf e \<and> ety (etype e) = ety (etype a) \<and> eval env e l = Some v"
  using table_sound [OF _ assms(1-3) _ _ assms(4-7)] mul_table_valid [of "etype a" a b] wf_legal [of a] assms(3)
  by simp

theorem mul_rewrites_sound_witness:
  "apply_rules no_floats ask (mul_direct (Mul var_x (num 2)) (num 3) @ mul_chain i32) (Mul (Mul var_x (num 2)) (num 3)) i32 idle = Some (Some (Mul var_x (num 6)), idle) \<and>
   eval sample (Mul var_x (num 6)) 0 = Some 30"
proof (rule conjI)
  show r: "apply_rules no_floats ask (mul_direct (Mul var_x (num 2)) (num 3) @ mul_chain i32) (Mul (Mul var_x (num 2)) (num 3)) i32 idle = Some (Some (Mul var_x (num 6)), idle)"
    by (simp add: mul_direct_def mul_chain_def samples run_rules)
  show "eval sample (Mul var_x (num 6)) 0 = Some 30"
    using mul_rewrites_sound [of no_floats ask "Mul var_x (num 2)" "num 3" idle "(Mul var_x (num 6))" idle 0 sample 30 "\<lambda>s. True"] r ask_sound
    by (simp add: samples run_eval)
qed

end
