(* ===== verification/RulesDivMod.thy ===== *)
theory RulesDivMod
  imports Limits
begin

text \<open>
  The rewrite rules of quotients and remainders, and their validity for the Euclidean
  division of the language. The one rule on floats is outside the semantics.
\<close>

section \<open>Quotients (Simplify_Div.cpp)\<close>

definition div_direct_1 :: "expr \<Rightarrow> expr \<Rightarrow> rule list" where
  "div_direct_1 a b = [
    rewrite_expr (Indeterminate div X) a,
    rewrite_expr (X div Indeterminate) b,
    rewrite_expr (Overflow div X) a,
    rewrite_expr (X div Overflow) b,
    rewrite (X div Const 1) X]"

definition div_by_zero :: "rule list" where
  "div_by_zero = [
    rewrite (X div Const 0) Indeterminate]"

definition div_direct_2 :: "rule list" where
  "div_direct_2 = [
    rewrite_int (Const 0 div X) 0,
    rewrite_int (X div X) 1,
    rewrite (C0 div C1) (Fold (C0 div C1))]"

definition div_chain_any :: "halide_type \<Rightarrow> rule list" where
  "div_chain_any ty = [
    rewrite (broadcast X div broadcast Y) (broadcast_n (X div Y) (lanes ty)),
    rewrite (select X C0 C1 div C2) (select X (Fold (C0 div C2)) (Fold (C1 div C2)))]"

definition div_chain_wide_1 :: "rule list" where
  "div_chain_wide_1 = [
    rewrite_if (X div C0 div C2) (X div Fold (C0 * C2)) (and_op (and_op (gt C0 (Const 0)) (gt C2 (Const 0))) (not_op (Overflows (C0 * C2)))),
    rewrite_if ((X div C0 + C1) div C2) ((X + Fold (C1 * C0)) div Fold (C0 * C2)) (and_op (and_op (and_op (gt C0 (Const 0)) (gt C2 (Const 0))) (not_op (Overflows (C0 * C2)))) (not_op (Overflows (C0 * C1)))),
    rewrite_if (X * C0 div C1) (X div Fold (C1 div C0)) (and_op (and_op (eq (C1 mod C0) (Const 0)) (gt C0 (Const 0))) (ne (C1 div C0) (Const 0))),
    rewrite_if (X * C0 div C1) (X * Fold (C0 div C1)) (and_op (eq (C0 mod C1) (Const 0)) (gt C1 (Const 0))),
    rewrite_if ((X * C0 + Y) div C1) (Y div C1 + X * Fold (C0 div C1)) (and_op (eq (C0 mod C1) (Const 0)) (gt C1 (Const 0))),
    rewrite_if ((X * C0 - Y) div C1) (- Y div C1 + X * Fold (C0 div C1)) (and_op (eq (C0 mod C1) (Const 0)) (gt C1 (Const 0))),
    rewrite_if ((Y + X * C0) div C1) (Y div C1 + X * Fold (C0 div C1)) (and_op (eq (C0 mod C1) (Const 0)) (gt C1 (Const 0))),
    rewrite_if ((Y - X * C0) div C1) (Y div C1 - X * Fold (C0 div C1)) (and_op (eq (C0 mod C1) (Const 0)) (gt C1 (Const 0))),
    rewrite_if ((X * C0 + Y + Z) div C1) ((Y + Z) div C1 + X * Fold (C0 div C1)) (and_op (eq (C0 mod C1) (Const 0)) (gt C1 (Const 0))),
    rewrite_if ((X * C0 - Y + Z) div C1) ((Z - Y) div C1 + X * Fold (C0 div C1)) (and_op (eq (C0 mod C1) (Const 0)) (gt C1 (Const 0))),
    rewrite_if ((X * C0 + Y - Z) div C1) ((Y - Z) div C1 + X * Fold (C0 div C1)) (and_op (eq (C0 mod C1) (Const 0)) (gt C1 (Const 0))),
    rewrite_if ((X * C0 - Y - Z) div C1) ((- Y - Z) div C1 + X * Fold (C0 div C1)) (and_op (eq (C0 mod C1) (Const 0)) (gt C1 (Const 0))),
    rewrite_if ((Y + X * C0 + Z) div C1) ((Y + Z) div C1 + X * Fold (C0 div C1)) (and_op (eq (C0 mod C1) (Const 0)) (gt C1 (Const 0))),
    rewrite_if ((Y + X * C0 - Z) div C1) ((Y - Z) div C1 + X * Fold (C0 div C1)) (and_op (eq (C0 mod C1) (Const 0)) (gt C1 (Const 0))),
    rewrite_if ((Y - X * C0 - Z) div C1) ((Y - Z) div C1 - X * Fold (C0 div C1)) (and_op (eq (C0 mod C1) (Const 0)) (gt C1 (Const 0))),
    rewrite_if ((Y - X * C0 + Z) div C1) ((Y + Z) div C1 - X * Fold (C0 div C1)) (and_op (eq (C0 mod C1) (Const 0)) (gt C1 (Const 0))),
    rewrite_if ((Z + (X * C0 + Y)) div C1) ((Z + Y) div C1 + X * Fold (C0 div C1)) (and_op (eq (C0 mod C1) (Const 0)) (gt C1 (Const 0))),
    rewrite_if ((Z + (X * C0 - Y)) div C1) ((Z - Y) div C1 + X * Fold (C0 div C1)) (and_op (eq (C0 mod C1) (Const 0)) (gt C1 (Const 0))),
    rewrite_if ((Z - (X * C0 - Y)) div C1) ((Z + Y) div C1 - X * Fold (C0 div C1)) (and_op (eq (C0 mod C1) (Const 0)) (gt C1 (Const 0))),
    rewrite_if ((Z - (X * C0 + Y)) div C1) ((Z - Y) div C1 - X * Fold (C0 div C1)) (and_op (eq (C0 mod C1) (Const 0)) (gt C1 (Const 0))),
    rewrite_if ((Z + (Y + X * C0)) div C1) ((Z + Y) div C1 + X * Fold (C0 div C1)) (and_op (eq (C0 mod C1) (Const 0)) (gt C1 (Const 0))),
    rewrite_if ((Z - (Y + X * C0)) div C1) ((Z - Y) div C1 - X * Fold (C0 div C1)) (and_op (eq (C0 mod C1) (Const 0)) (gt C1 (Const 0))),
    rewrite_if ((Z + (Y - X * C0)) div C1) ((Z + Y) div C1 - X * Fold (C0 div C1)) (and_op (eq (C0 mod C1) (Const 0)) (gt C1 (Const 0))),
    rewrite_if ((Z - (Y - X * C0)) div C1) ((Z - Y) div C1 + X * Fold (C0 div C1)) (and_op (eq (C0 mod C1) (Const 0)) (gt C1 (Const 0))),
    rewrite_if ((X * C0 + Y + Z + W) div C1) ((Y + Z + W) div C1 + X * Fold (C0 div C1)) (and_op (eq (C0 mod C1) (Const 0)) (gt C1 (Const 0))),
    rewrite_if ((Y + X * C0 + Z + W) div C1) ((Y + Z + W) div C1 + X * Fold (C0 div C1)) (and_op (eq (C0 mod C1) (Const 0)) (gt C1 (Const 0))),
    rewrite_if ((Z + (X * C0 + Y) + W) div C1) ((Y + Z + W) div C1 + X * Fold (C0 div C1)) (and_op (eq (C0 mod C1) (Const 0)) (gt C1 (Const 0))),
    rewrite_if ((Z + (Y + X * C0) + W) div C1) ((Y + Z + W) div C1 + X * Fold (C0 div C1)) (and_op (eq (C0 mod C1) (Const 0)) (gt C1 (Const 0))),
    rewrite_if ((W + (X * C0 + Y + Z)) div C1) ((Y + Z + W) div C1 + X * Fold (C0 div C1)) (and_op (eq (C0 mod C1) (Const 0)) (gt C1 (Const 0))),
    rewrite_if ((W + (Y + X * C0 + Z)) div C1) ((Y + Z + W) div C1 + X * Fold (C0 div C1)) (and_op (eq (C0 mod C1) (Const 0)) (gt C1 (Const 0))),
    rewrite_if ((W + (Z + (X * C0 + Y))) div C1) ((Y + Z + W) div C1 + X * Fold (C0 div C1)) (and_op (eq (C0 mod C1) (Const 0)) (gt C1 (Const 0)))]"

definition div_chain_wide_2 :: "rule list" where
  "div_chain_wide_2 = [
    rewrite_if ((W + (Z + (Y + X * C0))) div C1) ((Y + Z + W) div C1 + X * Fold (C0 div C1)) (and_op (eq (C0 mod C1) (Const 0)) (gt C1 (Const 0))),
    rewrite_if ((X + C0) div C1) (X div C1 + Fold (C0 div C1)) (eq (C0 mod C1) (Const 0)),
    rewrite ((X + Y) div X) (Y div X + Const 1),
    rewrite ((Y + X) div X) (Y div X + Const 1),
    rewrite ((X - Y) div X) (- Y div X + Const 1),
    rewrite ((Y - X) div X) (Y div X - Const 1),
    rewrite ((X + Y + Z) div X) ((Y + Z) div X + Const 1),
    rewrite ((Y + X + Z) div X) ((Y + Z) div X + Const 1),
    rewrite ((Z + (X + Y)) div X) ((Z + Y) div X + Const 1),
    rewrite ((Z + (Y + X)) div X) ((Z + Y) div X + Const 1),
    rewrite (X * Y div X) Y,
    rewrite (Y * X div X) Y,
    rewrite ((X * Y + Z) div X) (Y + Z div X),
    rewrite ((Y * X + Z) div X) (Y + Z div X),
    rewrite ((Z + X * Y) div X) (Z div X + Y),
    rewrite ((Z + Y * X) div X) (Z div X + Y),
    rewrite ((X * Y - Z) div X) (Y + - Z div X),
    rewrite ((Y * X - Z) div X) (Y + - Z div X),
    rewrite ((Z - X * Y) div X) (Z div X - Y),
    rewrite ((Z - Y * X) div X) (Z div X - Y)]"

definition div_chain_float :: "rule list" where
  "div_chain_float = [
    rewrite (X div C0) (X * Fold (Const 1 div C0))]"

definition div_chain_int :: "halide_type \<Rightarrow> rule list" where
  "div_chain_int ty = [
    rewrite_if (ramp X C0 div broadcast C1) (ramp_n (X div C1) (Fold (C0 div C1)) (lanes ty)) (eq (C0 mod C1) (Const 0)),
    rewrite_if (ramp X C0 div broadcast C1) (broadcast_n (X div C1) (lanes ty)) (CanProve (eq ((X mod C1 + C0 * Const (int (lanes ty) - 1)) div C1) (Const 0)))]"

definition div_chain_scalar_int :: "rule list" where
  "div_chain_scalar_int = [
    rewrite (X div Const (- 1)) (- X),
    rewrite_if (C0 div Y) (select (lt Y (Const 0)) (Fold (- C0)) C0) (eq C0 (Const (- 1))),
    rewrite_if ((X * C0 + C1) div C2) ((X + Fold (C1 div C0)) div Fold (C2 div C0)) (and_op (and_op (gt C2 (Const 0)) (gt C0 (Const 0))) (eq (C2 mod C0) (Const 0))),
    rewrite_if ((X * C0 + C1) div C2) (X * Fold (C0 div C2) + Fold (C1 div C2)) (and_op (gt C2 (Const 0)) (eq (C0 mod C2) (Const 0))),
    rewrite_if ((X mod Const 2 + C0) div Const 2) (X mod Const 2 + Fold (C0 div Const 2)) (eq (C0 mod Const 2) (Const 1))]"

definition div_direct :: "halide_type \<Rightarrow> expr \<Rightarrow> expr \<Rightarrow> rule list" where
  "div_direct ty a b =
     div_direct_1 a b @ (if \<not> is_float ty then div_by_zero else []) @ div_direct_2"

definition div_chain :: "halide_type \<Rightarrow> rule list" where
  "div_chain ty =
     div_chain_any ty @
     (if no_overflow ty then
        div_chain_wide_1 @ div_chain_wide_2 @ (if is_float ty then div_chain_float else [])
      else []) @
     (if no_overflow_int ty then div_chain_int ty else []) @
     (if no_overflow_scalar_int ty then div_chain_scalar_int else [])"

lemma div_base_valid:
  "list_all (valid_rule P [a, b]) (div_direct_1 a b)"
  "list_all (valid_rule P [a, b]) div_by_zero"
  "list_all (valid_rule P [a, b]) div_direct_2"
  "0 < lanes ty \<Longrightarrow> lanes ty < 2 ^ 14 \<Longrightarrow> list_all (valid_rule (in_lanes ty) [a, b]) (div_chain_any ty)"
  by ((unfold div_direct_1_def div_by_zero_def div_direct_2_def div_chain_any_def
        list.pred_inject(2) pat_ops,
      intro conjI list.pred_inject(1); rule valid_ruleI;
      simp add: rule_arith; (intro impI)?; (elim conjE)?;
      (linarith))+)

lemma div_wide_valid:
  "no_overflow (etype a) \<Longrightarrow> list_all (valid_rule P [a, b]) div_chain_wide_1"
  "no_overflow (etype a) \<Longrightarrow> list_all (valid_rule P [a, b]) div_chain_wide_2"
  by ((unfold div_chain_wide_1_def div_chain_wide_2_def
        list.pred_inject(2) pat_ops,
      intro conjI list.pred_inject(1); ((rule valid_wideI, assumption) | rule valid_ruleI);
      simp add: rule_arith; (intro impI)?; (elim conjE)?;
      ((rule ediv_shifts; simp add: algebra_simps emod_0_mult; fail)
      | (simp add: ediv_cancel ediv_ediv_add ediv_of_minus_1 ramp_euclid round_up nrm_sub_mult; fail)
      | (rule ediv_exact; simp add: mult.commute mult.left_commute emod_0_mult; fail)))+)

lemma div_int_valid:
  "0 < lanes ty \<Longrightarrow> lanes ty < 2 ^ 14 \<Longrightarrow> no_overflow (etype a) \<Longrightarrow> list_all (valid_rule (in_lanes ty) [a, b]) (div_chain_int ty)"
  "no_overflow (etype a) \<Longrightarrow> list_all (valid_rule P [a, b]) div_chain_scalar_int"
  by ((unfold div_chain_int_def div_chain_scalar_int_def
        list.pred_inject(2) pat_ops,
      intro conjI list.pred_inject(1); ((rule valid_wideI, assumption) | rule valid_ruleI);
      simp add: rule_arith; (intro impI)?; (elim conjE)?;
      ((rule ediv_shifts; simp add: algebra_simps emod_0_mult; fail)
      | (simp add: ediv_cancel(2) ediv_cancel_add; fail)
      | (simp add: ediv_cancel ediv_ediv_add ediv_of_minus_1 ramp_euclid round_up nrm_sub_mult; fail)
      | (simp add: ediv_pos emod_pos; presburger)))+)

lemmas div_rules_valid =
  div_base_valid div_wide_valid div_int_valid

section \<open>Remainders (Simplify_Mod.cpp)\<close>

definition mod_direct_any :: "expr \<Rightarrow> expr \<Rightarrow> rule list" where
  "mod_direct_any a b = [
    rewrite (C0 mod C1) (Fold (C0 mod C1)),
    rewrite_expr (Indeterminate mod X) a,
    rewrite_expr (X mod Indeterminate) b,
    rewrite_expr (Overflow mod X) a,
    rewrite_expr (X mod Overflow) b,
    rewrite_int (Const 0 mod X) 0]"

definition mod_direct_int :: "rule list" where
  "mod_direct_int = [
    rewrite (X mod Const 0) Indeterminate,
    rewrite_int (X mod Const 1) 0]"

definition mod_chain_any :: "halide_type \<Rightarrow> rule list" where
  "mod_chain_any ty = [
    rewrite (broadcast X mod broadcast Y) (broadcast_n (X mod Y) (lanes ty))]"

definition mod_chain_int :: "halide_type \<Rightarrow> rule list" where
  "mod_chain_int ty = [
    rewrite_if (X * C0 mod C1) (X * Fold (C0 mod C1) mod C1) (and_op (gt C1 (Const 0)) (or_op (ge C0 C1) (lt C0 (Const 0)))),
    rewrite_if ((X + C0) mod C1) ((X + Fold (C0 mod C1)) mod C1) (and_op (gt C1 (Const 0)) (or_op (ge C0 C1) (lt C0 (Const 0)))),
    rewrite_if (X * C0 mod C1) (X mod Fold (C1 div C0) * C0) (and_op (gt C0 (Const 0)) (eq (C1 mod C0) (Const 0))),
    rewrite_if ((X * C0 + Y) mod C1) (Y mod C1) (eq (C0 mod C1) (Const 0)),
    rewrite_if ((Y + X * C0) mod C1) (Y mod C1) (eq (C0 mod C1) (Const 0)),
    rewrite_if ((X * C0 - Y) mod C1) (- Y mod C1) (eq (C0 mod C1) (Const 0)),
    rewrite_if ((Y - X * C0) mod C1) (Y mod C1) (eq (C0 mod C1) (Const 0)),
    rewrite ((X - Y) mod Const 2) ((X + Y) mod Const 2),
    rewrite_if (ramp X C0 mod broadcast C1) (broadcast_n X (lanes ty) mod C1) (eq (C0 mod C1) (Const 0)),
    rewrite_if (ramp X C0 mod broadcast C1) (ramp_n (X mod C1) C0 (lanes ty)) (CanProve (eq ((X mod C1 + C0 * Const (int (lanes ty) - 1)) div C1) (Const 0))),
    rewrite_if (ramp (X * C0) C2 mod broadcast C1) (ramp_n (X * Fold (C0 mod C1)) (Fold (C2 mod C1)) (lanes ty) mod C1) (and_op (gt C1 (Const 0)) (or_op (ge C0 C1) (lt C0 (Const 0)))),
    rewrite_if (ramp (X + C0) C2 mod broadcast C1) (ramp_n (X + Fold (C0 mod C1)) (Fold (C2 mod C1)) (lanes ty) mod C1) (and_op (gt C1 (Const 0)) (or_op (ge C0 C1) (lt C0 (Const 0)))),
    rewrite_if (ramp (X * C0 + Y) C2 mod broadcast C1) (ramp_n Y (Fold (C2 mod C1)) (lanes ty) mod C1) (eq (C0 mod C1) (Const 0)),
    rewrite_if (ramp (Y + X * C0) C2 mod broadcast C1) (ramp_n Y (Fold (C2 mod C1)) (lanes ty) mod C1) (eq (C0 mod C1) (Const 0))]"

definition mod_direct :: "halide_type \<Rightarrow> expr \<Rightarrow> expr \<Rightarrow> rule list" where
  "mod_direct ty a b =
     mod_direct_any a b @ (if \<not> is_float ty then mod_direct_int else [])"

definition mod_chain :: "halide_type \<Rightarrow> rule list" where
  "mod_chain ty =
     mod_chain_any ty @ (if no_overflow_int ty then mod_chain_int ty else [])"

lemma mod_rules_valid:
  "list_all (valid_rule P [a, b]) (mod_direct_any a b)"
  "list_all (valid_rule P [a, b]) mod_direct_int"
  "0 < lanes ty \<Longrightarrow> lanes ty < 2 ^ 14 \<Longrightarrow> list_all (valid_rule (in_lanes ty) [a, b]) (mod_chain_any ty)"
  "0 < lanes ty \<Longrightarrow> lanes ty < 2 ^ 14 \<Longrightarrow> no_overflow (etype a) \<Longrightarrow> list_all (valid_rule (in_lanes ty) [a, b]) (mod_chain_int ty)"
  by ((unfold mod_direct_any_def mod_direct_int_def mod_chain_any_def mod_chain_int_def
        list.pred_inject(2) pat_ops,
      intro conjI list.pred_inject(1); ((rule valid_wideI, assumption) | rule valid_ruleI);
      simp add: rule_arith; (intro impI)?; (elim conjE)?;
      ((simp add: ediv_cancel ediv_ediv_add ediv_of_minus_1 ramp_euclid round_up nrm_sub_mult; fail)
      | ((rule ediv_ceil ediv_sums), assumption, simp add: emod_diff algebra_simps; fail)
      | (rule emod_dvd; auto simp: emod_0_dvd; fail)))+)

section \<open>The tables\<close>

lemma div_table_valid:
  assumes "legal_type ty" "ety (etype a) = ety ty" "is_num ty"
  shows "list_all (valid_rule (in_lanes ty) [a, b]) (div_direct ty a b @ div_chain ty)"
  using legal_lanes [of ty] assms no_overflow_cong [of "etype a" ty]
  by (auto simp: div_rules_valid div_direct_def div_chain_def no_overflow_scalar_int_def list_all_append no_overflow_intD is_num_def is_float_def is_int_def is_uint_def)

lemma mod_table_valid:
  assumes "legal_type ty" "ety (etype a) = ety ty"
  shows "list_all (valid_rule (in_lanes ty) [a, b]) (mod_direct ty a b @ mod_chain ty)"
  using legal_lanes [of ty] assms no_overflow_cong [of "etype a" ty]
  by (auto simp: mod_rules_valid mod_direct_def mod_chain_def list_all_append no_overflow_intD)

text \<open>C5: A table rewrite of a quotient keeps well-formedness, the element type and the value, in
  every lane in which the node has one, whatever the types of the operands, if the prover
  asked for side conditions is sound and no folded constant overflowed.\<close>

theorem div_rewrites_sound:
  assumes "apply_rules F prover (div_direct (etype a) a b @ div_chain (etype a)) (Div a b) (etype a) s = Some (Some e, s')"
    and "\<not> tainted s'" "wf (Div a b)" "l < lanes (etype a)" "eval env (Div a b) l = Some v"
    and "sound_prover I env l prover" "I s"
  shows "wf e \<and> ety (etype e) = ety (etype a) \<and> eval env e l = Some v"
  using table_sound [OF _ assms(1-3) _ _ assms(4-7)] div_table_valid [of "etype a" a b] wf_legal [of a] eval_num [OF assms(3,5)] assms(3)
  by simp

theorem div_rewrites_sound_witness:
  "apply_rules no_floats ask (div_direct i32 (Mul var_x (num 6)) (num 3) @ div_chain i32) (Div (Mul var_x (num 6)) (num 3)) i32 idle = Some (Some (Mul var_x (num 2)), idle) \<and>
   eval sample (Mul var_x (num 2)) 0 = Some 10"
proof (rule conjI)
  show r: "apply_rules no_floats ask (div_direct i32 (Mul var_x (num 6)) (num 3) @ div_chain i32) (Div (Mul var_x (num 6)) (num 3)) i32 idle = Some (Some (Mul var_x (num 2)), idle)"
    by (simp add: div_direct_def div_direct_1_def div_by_zero_def div_direct_2_def div_chain_def div_chain_any_def div_chain_wide_1_def samples run_rules)
  show "eval sample (Mul var_x (num 2)) 0 = Some 10"
    using div_rewrites_sound [of no_floats ask "Mul var_x (num 6)" "num 3" idle "(Mul var_x (num 2))" idle 0 sample 10 "\<lambda>s. True"] r ask_sound
    by (simp add: samples run_eval)
qed

text \<open>C10: A table rewrite of a remainder keeps well-formedness, the element type and the value, in
  every lane in which the node has one, whatever the types of the operands, if the prover
  asked for side conditions is sound and no folded constant overflowed.\<close>

theorem mod_rewrites_sound:
  assumes "apply_rules F prover (mod_direct (etype a) a b @ mod_chain (etype a)) (Mod a b) (etype a) s = Some (Some e, s')"
    and "\<not> tainted s'" "wf (Mod a b)" "l < lanes (etype a)" "eval env (Mod a b) l = Some v"
    and "sound_prover I env l prover" "I s"
  shows "wf e \<and> ety (etype e) = ety (etype a) \<and> eval env e l = Some v"
  using table_sound [OF _ assms(1-3) _ _ assms(4-7)] mod_table_valid [of "etype a" a b] wf_legal [of a] assms(3)
  by simp

theorem mod_rewrites_sound_witness:
  "apply_rules no_floats ask (mod_direct i32 (Add var_x (num 4)) (num 2) @ mod_chain i32) (Mod (Add var_x (num 4)) (num 2)) i32 idle = Some (Some (Mod (Add var_x (num 0)) (num 2)), idle) \<and>
   eval sample (Mod (Add var_x (num 0)) (num 2)) 0 = Some 1"
proof (rule conjI)
  show r: "apply_rules no_floats ask (mod_direct i32 (Add var_x (num 4)) (num 2) @ mod_chain i32) (Mod (Add var_x (num 4)) (num 2)) i32 idle = Some (Some (Mod (Add var_x (num 0)) (num 2)), idle)"
    by (simp add: mod_direct_def mod_direct_any_def mod_direct_int_def mod_chain_def mod_chain_any_def mod_chain_int_def samples run_rules)
  show "eval sample (Mod (Add var_x (num 0)) (num 2)) 0 = Some 1"
    using mod_rewrites_sound [of no_floats ask "Add var_x (num 4)" "num 2" idle "(Mod (Add var_x (num 0)) (num 2))" idle 0 sample 1 "\<lambda>s. True"] r ask_sound
    by (simp add: samples run_eval)
qed

end
