(* ===== verification/RulesMinMax.thy ===== *)
theory RulesMinMax
  imports Limits
begin

text \<open>
  The rewrite rules of minima and maxima. Two groups have restrictions of their own:
  the rules on the bounds of the type hold for a value within them, and those on
  rounding down to a multiple (\<open>stair\<close>) hold except in a narrow signed type.
\<close>

section \<open>Minima (Simplify_Min.cpp)\<close>

definition min_direct_1 :: "expr \<Rightarrow> expr \<Rightarrow> rule list" where
  "min_direct_1 a b = [
    rewrite (pmin X X) X,
    rewrite (pmin C0 C1) (Fold (pmin C0 C1)),
    rewrite_expr (pmin Indeterminate X) a,
    rewrite_expr (pmin X Indeterminate) b,
    rewrite_expr (pmin Overflow X) a,
    rewrite_expr (pmin X Overflow) b]"

definition min_direct_limits :: "expr \<Rightarrow> expr \<Rightarrow> expr \<Rightarrow> expr \<Rightarrow> rule list" where
  "min_direct_limits tmin tmax a b = [
    rewrite_expr (pmin X (SpecificExpr tmin)) b,
    rewrite (pmin X (SpecificExpr tmax)) X]"

definition min_direct_stair :: "expr \<Rightarrow> expr \<Rightarrow> rule list" where
  "min_direct_stair a b = [
    rewrite_expr_if (pmin (X div C0 * C0) X) a (gt C0 (Const 0)),
    rewrite_expr_if (pmin X (X div C0 * C0)) b (gt C0 (Const 0))]"

definition min_direct_2 :: "expr \<Rightarrow> expr \<Rightarrow> rule list" where
  "min_direct_2 a b = [
    rewrite_expr (pmin (pmin X Y) X) a,
    rewrite_expr (pmin (pmin X Y) Y) a,
    rewrite_expr (pmin (pmin (pmin X Y) Z) X) a,
    rewrite_expr (pmin (pmin (pmin X Y) Z) Y) a,
    rewrite_expr (pmin (pmin (pmin (pmin X Y) Z) W) X) a,
    rewrite_expr (pmin (pmin (pmin (pmin X Y) Z) W) Y) a,
    rewrite_expr (pmin (pmin (pmin (pmin (pmin X Y) Z) W) U) X) a,
    rewrite_expr (pmin (pmin (pmin (pmin (pmin X Y) Z) W) U) Y) a,
    rewrite_expr (pmin X (pmax X Y)) a,
    rewrite_expr (pmin X (pmax Y X)) a,
    rewrite_expr (pmin (pmax X Y) (pmin X Y)) b,
    rewrite_expr (pmin (pmax X Y) (pmin Y X)) b,
    rewrite_expr (pmin (pmax X Y) X) b,
    rewrite_expr (pmin (pmax Y X) X) b,
    rewrite_expr_if (pmin (pmax X C0) C1) b (le C1 C0),
    rewrite_expr (pmin (Intrin ''likely'' [X]) X) a,
    rewrite_expr (pmin X (Intrin ''likely'' [X])) b,
    rewrite_expr (pmin (Intrin ''likely_if_innermost'' [X]) X) a,
    rewrite_expr (pmin X (Intrin ''likely_if_innermost'' [X])) b]"

definition min_direct_wide :: "halide_type \<Rightarrow> expr \<Rightarrow> expr \<Rightarrow> rule list" where
  "min_direct_wide ty a b = [
    rewrite_expr_if (pmin (ramp X Y) (broadcast Z)) a (CanProve (and_op (le (X + Y * Const (int (lanes ty) - 1)) Z) (le X Z))),
    rewrite_expr_if (pmin (ramp X Y) (broadcast Z)) b (CanProve (and_op (ge (X + Y * Const (int (lanes ty) - 1)) Z) (ge X Z))),
    rewrite_expr_if (pmin ((X + C0) div C1 * C1 + C2) X) b (and_op (gt C1 (Const 0)) (ge (C0 + C2) (C1 - Const 1))),
    rewrite_expr_if (pmin X ((X + C0) div C1 * C1 + C2)) a (and_op (gt C1 (Const 0)) (ge (C0 + C2) (C1 - Const 1))),
    rewrite_expr_if (pmin ((X + C0) div C1 * C1 + C2) X) a (and_op (gt C1 (Const 0)) (le (C0 + C2) (Const 0))),
    rewrite_expr_if (pmin X ((X + C0) div C1 * C1 + C2)) b (and_op (gt C1 (Const 0)) (le (C0 + C2) (Const 0))),
    rewrite_expr_if (pmin (X div C1 * C1 + C2) X) b (and_op (gt C1 (Const 0)) (ge C2 (C1 - Const 1))),
    rewrite_expr_if (pmin X (X div C1 * C1 + C2)) a (and_op (gt C1 (Const 0)) (ge C2 (C1 - Const 1))),
    rewrite_expr_if (pmin ((X + C0) div C1 * C1) X) b (and_op (gt C1 (Const 0)) (ge C0 (C1 - Const 1))),
    rewrite_expr_if (pmin X ((X + C0) div C1 * C1)) a (and_op (gt C1 (Const 0)) (ge C0 (C1 - Const 1))),
    rewrite_expr_if (pmin (X div C1 * C1 + C2) X) a (and_op (gt C1 (Const 0)) (le C2 (Const 0))),
    rewrite_expr_if (pmin X (X div C1 * C1 + C2)) b (and_op (gt C1 (Const 0)) (le C2 (Const 0))),
    rewrite_expr_if (pmin ((X + C0) div C1 * C1) X) a (and_op (gt C1 (Const 0)) (le C0 (Const 0))),
    rewrite_expr_if (pmin X ((X + C0) div C1 * C1)) b (and_op (gt C1 (Const 0)) (le C0 (Const 0)))]"

definition min_chain_any :: "halide_type \<Rightarrow> expr \<Rightarrow> expr \<Rightarrow> rule list" where
  "min_chain_any ty a b = [
    rewrite (pmin (pmin X C0) C1) (pmin X (Fold (pmin C0 C1))),
    rewrite (pmin (pmin X C0) Y) (pmin (pmin X Y) C0),
    rewrite (pmin (pmin X Y) (pmin X Z)) (pmin (pmin Y Z) X),
    rewrite (pmin (pmin Y X) (pmin X Z)) (pmin (pmin Y Z) X),
    rewrite (pmin (pmin X Y) (pmin Z X)) (pmin (pmin Y Z) X),
    rewrite (pmin (pmin Y X) (pmin Z X)) (pmin (pmin Y Z) X),
    rewrite (pmin (pmin X Y) (pmin Z W)) (pmin (pmin (pmin X Y) Z) W),
    rewrite (pmin (broadcast X) (broadcast Y)) (broadcast_n (pmin X Y) (lanes ty)),
    rewrite (pmin (broadcast X) (ramp Y Z)) (pmin (SpecificExpr b) (SpecificExpr a)),
    rewrite (pmin (pmin X (broadcast Y)) (broadcast Z)) (pmin X (broadcast_n (pmin Y Z) (lanes ty))),
    rewrite (pmin (pmax X Y) (pmax X Z)) (pmax X (pmin Y Z)),
    rewrite (pmin (pmax X Y) (pmax Z X)) (pmax X (pmin Y Z)),
    rewrite (pmin (pmax Y X) (pmax X Z)) (pmax (pmin Y Z) X),
    rewrite (pmin (pmax Y X) (pmax Z X)) (pmax (pmin Y Z) X),
    rewrite (pmin (pmax (pmin X Y) Z) Y) (pmin (pmax X Z) Y),
    rewrite (pmin (pmax (pmin Y X) Z) Y) (pmin Y (pmax X Z)),
    rewrite (pmin (pmin X C0) C1) (pmin X (Fold (pmin C0 C1))),
    rewrite_if (pmin (pmax X C0) C1) (pmax (pmin X C1) C0) (le C0 C1)]"

definition min_chain_wide :: "rule list" where
  "min_chain_wide = [
    rewrite (pmin (X + C0) C1) (pmin X (Fold (C1 - C0)) + C0),
    rewrite_if (pmin (X + C0) (Y + C1)) (pmin X (Y + Fold (C1 - C0)) + C0) (gt C1 C0),
    rewrite_if (pmin (X + C0) (Y + C1)) (pmin (X + Fold (C0 - C1)) Y + C1) (gt C0 C1),
    rewrite (pmin (X + Y) (X + Z)) (X + pmin Y Z),
    rewrite (pmin (X + Y) (Z + X)) (X + pmin Y Z),
    rewrite (pmin (Y + X) (X + Z)) (pmin Y Z + X),
    rewrite (pmin (Y + X) (Z + X)) (pmin Y Z + X),
    rewrite (pmin X (X + Z)) (X + pmin Z (Const 0)),
    rewrite (pmin X (Z + X)) (X + pmin Z (Const 0)),
    rewrite (pmin (Y + X) X) (pmin Y (Const 0) + X),
    rewrite (pmin (X + Y) X) (X + pmin Y (Const 0)),
    rewrite_if (pmin ((X * C0 + Y) * C1) (X * C2 + Z)) (pmin (Y * C1) Z + X * C2) (eq (C0 * C1) C2),
    rewrite_if (pmin ((Y + X * C0) * C1) (X * C2 + Z)) (pmin (Y * C1) Z + X * C2) (eq (C0 * C1) C2),
    rewrite_if (pmin ((X * C0 + Y) * C1) (Z + X * C2)) (pmin (Y * C1) Z + X * C2) (eq (C0 * C1) C2),
    rewrite_if (pmin ((Y + X * C0) * C1) (Z + X * C2)) (pmin (Y * C1) Z + X * C2) (eq (C0 * C1) C2),
    rewrite (pmin (pmin (X + Y) Z) (X + W)) (pmin (X + pmin Y W) Z),
    rewrite (pmin (pmin Z (X + Y)) (X + W)) (pmin (X + pmin Y W) Z),
    rewrite (pmin (pmin (X + Y) Z) (W + X)) (pmin (X + pmin Y W) Z),
    rewrite (pmin (pmin Z (X + Y)) (W + X)) (pmin (X + pmin Y W) Z),
    rewrite (pmin (pmin (Y + X) Z) (X + W)) (pmin (pmin Y W + X) Z),
    rewrite (pmin (pmin Z (Y + X)) (X + W)) (pmin (pmin Y W + X) Z),
    rewrite (pmin (pmin (Y + X) Z) (W + X)) (pmin (pmin Y W + X) Z),
    rewrite (pmin (pmin Z (Y + X)) (W + X)) (pmin (pmin Y W + X) Z),
    rewrite (pmin (X + W + Y) (X + Z)) (X + pmin (W + Y) Z),
    rewrite (pmin (W + X + Y) (X + Z)) (pmin (W + Y) Z + X),
    rewrite (pmin (X + W + Y) (Z + X)) (X + pmin (W + Y) Z),
    rewrite (pmin (W + X + Y) (Z + X)) (pmin (W + Y) Z + X),
    rewrite (pmin (X + W + Y) X) (X + pmin (W + Y) (Const 0)),
    rewrite (pmin (W + X + Y) X) (X + pmin (W + Y) (Const 0)),
    rewrite (pmin (X + Y) (W + X + Z)) (X + pmin (W + Z) Y),
    rewrite (pmin (X + Y) (X + W + Z)) (X + pmin (W + Z) Y),
    rewrite (pmin (Y + X) (W + X + Z)) (pmin (W + Z) Y + X),
    rewrite (pmin (Y + X) (X + W + Z)) (pmin (W + Z) Y + X),
    rewrite (pmin X (W + X + Z)) (X + pmin (W + Z) (Const 0)),
    rewrite (pmin X (X + W + Z)) (X + pmin (W + Z) (Const 0)),
    rewrite (pmin (Y - X) (Z - X)) (pmin Y Z - X),
    rewrite (pmin (X - Y) (X - Z)) (X - pmax Y Z),
    rewrite (pmin X (X - Y)) (X - pmax (Const 0) Y),
    rewrite (pmin (X - Y) X) (X - pmax (Const 0) Y),
    rewrite (pmin X (X - Y + Z)) (X + pmin (Const 0) (Z - Y)),
    rewrite (pmin X (Z + (X - Y))) (X + pmin (Const 0) (Z - Y)),
    rewrite (pmin X (X - Y - Z)) (X - pmax (Const 0) (Y + Z)),
    rewrite (pmin (X - Y + Z) X) (pmin (Const 0) (Z - Y) + X),
    rewrite (pmin (Z + (X - Y)) X) (pmin (Const 0) (Z - Y) + X),
    rewrite (pmin (X - Y - Z) X) (X - pmax (Const 0) (Y + Z)),
    rewrite_if (pmin (X * C0) C1) (pmin X (Fold (C1 div C0)) * C0) (and_op (gt C0 (Const 0)) (eq (C1 mod C0) (Const 0))),
    rewrite_if (pmin (X * C0) C1) (pmax X (Fold (C1 div C0)) * C0) (and_op (lt C0 (Const 0)) (eq (C1 mod C0) (Const 0))),
    rewrite_if (pmin (X * C0) (Y * C1)) (pmin X (Y * Fold (C1 div C0)) * C0) (and_op (gt C0 (Const 0)) (eq (C1 mod C0) (Const 0))),
    rewrite_if (pmin (X * C0) (Y * C1)) (pmax X (Y * Fold (C1 div C0)) * C0) (and_op (lt C0 (Const 0)) (eq (C1 mod C0) (Const 0))),
    rewrite_if (pmin (X * C0) (Y * C1)) (pmin (X * Fold (C0 div C1)) Y * C1) (and_op (gt C1 (Const 0)) (eq (C0 mod C1) (Const 0))),
    rewrite_if (pmin (X * C0) (Y * C1)) (pmax (X * Fold (C0 div C1)) Y * C1) (and_op (lt C1 (Const 0)) (eq (C0 mod C1) (Const 0))),
    rewrite_if (pmin (X * C0) (Y * C0 + C1)) (pmin X (Y + Fold (C1 div C0)) * C0) (and_op (gt C0 (Const 0)) (eq (C1 mod C0) (Const 0))),
    rewrite_if (pmin (X * C0) (Y * C0 + C1)) (pmax X (Y + Fold (C1 div C0)) * C0) (and_op (lt C0 (Const 0)) (eq (C1 mod C0) (Const 0))),
    rewrite_if (pmin (X div C0) (Y div C0)) (pmin X Y div C0) (gt C0 (Const 0)),
    rewrite_if (pmin (X div C0) (Y div C0)) (pmax X Y div C0) (lt C0 (Const 0)),
    rewrite_if (pmin (X div C0) (Y div C0 + C1)) (pmin X (Y + Fold (C1 * C0)) div C0) (and_op (gt C0 (Const 0)) (not_op (Overflows (C1 * C0)))),
    rewrite_if (pmin (X div C0) (Y div C0 + C1)) (pmax X (Y + Fold (C1 * C0)) div C0) (and_op (lt C0 (Const 0)) (not_op (Overflows (C1 * C0)))),
    rewrite (pmin (select X Y Z) (select X W U)) (select X (pmin Y W) (pmin Z U)),
    rewrite (pmin (C0 - X) C1) (C0 - pmax X (Fold (C0 - C1)))]"

definition min_direct_rest :: "halide_type \<Rightarrow> expr \<Rightarrow> expr \<Rightarrow> rule list" where
  "min_direct_rest ty a b =
     min_direct_2 a b @ (if no_overflow ty then min_direct_wide ty a b else [])"

definition min_chain :: "halide_type \<Rightarrow> expr \<Rightarrow> expr \<Rightarrow> rule list" where
  "min_chain ty a b =
     min_chain_any ty a b @ (if no_overflow ty then min_chain_wide else [])"

lemma min_base_valid:
  "list_all (valid_rule P [a, b]) (min_direct_1 a b)"
  "list_all (valid_rule P [a, b]) (min_direct_2 a b)"
  "0 < lanes ty \<Longrightarrow> lanes ty < 2 ^ 14 \<Longrightarrow> list_all (valid_rule (in_lanes ty) [a, b]) (min_chain_any ty a b)"
  by ((unfold min_direct_1_def min_direct_2_def min_chain_any_def
        list.pred_inject(2) pat_ops,
      intro conjI list.pred_inject(1); rule valid_ruleI;
      simp add: rule_arith; (intro impI)?; (elim conjE)?;
      (linarith))+)

lemma min_stairs_valid:
  "0 < lanes ty \<Longrightarrow> lanes ty < 2 ^ 14 \<Longrightarrow> no_overflow (etype a) \<Longrightarrow> list_all (valid_rule (in_lanes ty) [a, b]) (min_direct_wide ty a b)"
  by ((unfold min_direct_wide_def
        list.pred_inject(2) pat_ops,
      intro conjI list.pred_inject(1); ((rule valid_wideI, assumption) | rule valid_ruleI);
      simp add: rule_arith; (intro impI)?; (elim conjE)?;
      ((simp add: stair min_absorb1 min_absorb2 max_absorb1 max_absorb2 ramp_bounds; fail)))+)

lemma min_wide_valid:
  "no_overflow (etype a) \<Longrightarrow> list_all (valid_rule P [a, b]) min_chain_wide"
  by ((unfold min_chain_wide_def
        list.pred_inject(2) pat_ops,
      intro conjI list.pred_inject(1); ((rule valid_wideI, assumption) | rule valid_ruleI);
      simp add: rule_arith; (intro impI)?; (elim conjE)?;
      ((simp add: ediv_extremum extremum_mult ediv_add_mult distrib_left emod_0_mult; fail)
      | (drule product_eq, simp add: algebra_simps; linarith)))+)

lemmas min_rules_valid =
  min_base_valid min_stairs_valid min_wide_valid

section \<open>Maxima (Simplify_Max.cpp)\<close>

definition max_direct_1 :: "expr \<Rightarrow> expr \<Rightarrow> rule list" where
  "max_direct_1 a b = [
    rewrite (pmax X X) X,
    rewrite (pmax C0 C1) (Fold (pmax C0 C1)),
    rewrite_expr (pmax Indeterminate X) a,
    rewrite_expr (pmax X Indeterminate) b,
    rewrite_expr (pmax Overflow X) a,
    rewrite_expr (pmax X Overflow) b]"

definition max_direct_limits :: "expr \<Rightarrow> expr \<Rightarrow> expr \<Rightarrow> expr \<Rightarrow> rule list" where
  "max_direct_limits tmin tmax a b = [
    rewrite_expr (pmax X (SpecificExpr tmax)) b,
    rewrite (pmax X (SpecificExpr tmin)) X]"

definition max_direct_stair :: "expr \<Rightarrow> expr \<Rightarrow> rule list" where
  "max_direct_stair a b = [
    rewrite_expr_if (pmax (X div C0 * C0) X) b (gt C0 (Const 0)),
    rewrite_expr_if (pmax X (X div C0 * C0)) a (gt C0 (Const 0))]"

definition max_direct_2 :: "expr \<Rightarrow> expr \<Rightarrow> rule list" where
  "max_direct_2 a b = [
    rewrite_expr (pmax (pmax X Y) X) a,
    rewrite_expr (pmax (pmax X Y) Y) a,
    rewrite_expr (pmax (pmax (pmax X Y) Z) X) a,
    rewrite_expr (pmax (pmax (pmax X Y) Z) Y) a,
    rewrite_expr (pmax (pmax (pmax (pmax X Y) Z) W) X) a,
    rewrite_expr (pmax (pmax (pmax (pmax X Y) Z) W) Y) a,
    rewrite_expr (pmax (pmax (pmax (pmax (pmax X Y) Z) W) U) X) a,
    rewrite_expr (pmax (pmax (pmax (pmax (pmax X Y) Z) W) U) Y) a,
    rewrite_expr (pmax X (pmin X Y)) a,
    rewrite_expr (pmax X (pmin Y X)) a,
    rewrite_expr (pmax (pmax X Y) (pmin X Y)) a,
    rewrite_expr (pmax (pmax X Y) (pmin Y X)) a,
    rewrite_expr (pmax (pmin X Y) X) b,
    rewrite_expr (pmax (pmin Y X) X) b,
    rewrite_expr_if (pmax (pmin X C0) C1) b (ge C1 C0),
    rewrite_expr (pmax (Intrin ''likely'' [X]) X) a,
    rewrite_expr (pmax X (Intrin ''likely'' [X])) b,
    rewrite_expr (pmax (Intrin ''likely_if_innermost'' [X]) X) a,
    rewrite_expr (pmax X (Intrin ''likely_if_innermost'' [X])) b]"

definition max_direct_wide :: "halide_type \<Rightarrow> expr \<Rightarrow> expr \<Rightarrow> rule list" where
  "max_direct_wide ty a b = [
    rewrite_expr_if (pmax (ramp X Y) (broadcast Z)) a (CanProve (and_op (ge (X + Y * Const (int (lanes ty) - 1)) Z) (ge X Z))),
    rewrite_expr_if (pmax (ramp X Y) (broadcast Z)) b (CanProve (and_op (le (X + Y * Const (int (lanes ty) - 1)) Z) (le X Z))),
    rewrite_expr_if (pmax ((X + C0) div C1 * C1 + C2) X) a (and_op (gt C1 (Const 0)) (ge (C0 + C2) (C1 - Const 1))),
    rewrite_expr_if (pmax X ((X + C0) div C1 * C1 + C2)) b (and_op (gt C1 (Const 0)) (ge (C0 + C2) (C1 - Const 1))),
    rewrite_expr_if (pmax ((X + C0) div C1 * C1 + C2) X) b (and_op (gt C1 (Const 0)) (le (C0 + C2) (Const 0))),
    rewrite_expr_if (pmax X ((X + C0) div C1 * C1 + C2)) a (and_op (gt C1 (Const 0)) (le (C0 + C2) (Const 0))),
    rewrite_expr_if (pmax (X div C1 * C1 + C2) X) a (and_op (gt C1 (Const 0)) (ge C2 (C1 - Const 1))),
    rewrite_expr_if (pmax X (X div C1 * C1 + C2)) b (and_op (gt C1 (Const 0)) (ge C2 (C1 - Const 1))),
    rewrite_expr_if (pmax ((X + C0) div C1 * C1) X) a (and_op (gt C1 (Const 0)) (ge C0 (C1 - Const 1))),
    rewrite_expr_if (pmax X ((X + C0) div C1 * C1)) b (and_op (gt C1 (Const 0)) (ge C0 (C1 - Const 1))),
    rewrite_expr_if (pmax (X div C1 * C1 + C2) X) b (and_op (gt C1 (Const 0)) (le C2 (Const 0))),
    rewrite_expr_if (pmax X (X div C1 * C1 + C2)) a (and_op (gt C1 (Const 0)) (le C2 (Const 0))),
    rewrite_expr_if (pmax ((X + C0) div C1 * C1) X) b (and_op (gt C1 (Const 0)) (le C0 (Const 0))),
    rewrite_expr_if (pmax X ((X + C0) div C1 * C1)) a (and_op (gt C1 (Const 0)) (le C0 (Const 0)))]"

definition max_chain_any :: "halide_type \<Rightarrow> expr \<Rightarrow> expr \<Rightarrow> rule list" where
  "max_chain_any ty a b = [
    rewrite (pmax (pmax X C0) C1) (pmax X (Fold (pmax C0 C1))),
    rewrite (pmax (pmax X C0) Y) (pmax (pmax X Y) C0),
    rewrite (pmax (pmax X Y) (pmax X Z)) (pmax (pmax Y Z) X),
    rewrite (pmax (pmax Y X) (pmax X Z)) (pmax (pmax Y Z) X),
    rewrite (pmax (pmax X Y) (pmax Z X)) (pmax (pmax Y Z) X),
    rewrite (pmax (pmax Y X) (pmax Z X)) (pmax (pmax Y Z) X),
    rewrite (pmax (pmax X Y) (pmax Z W)) (pmax (pmax (pmax X Y) Z) W),
    rewrite (pmax (broadcast X) (broadcast Y)) (broadcast_n (pmax X Y) (lanes ty)),
    rewrite (pmax (broadcast X) (ramp Y Z)) (pmax (SpecificExpr b) (SpecificExpr a)),
    rewrite (pmax (pmax X (broadcast Y)) (broadcast Z)) (pmax X (broadcast_n (pmax Y Z) (lanes ty))),
    rewrite (pmax (pmin X Y) (pmin X Z)) (pmin X (pmax Y Z)),
    rewrite (pmax (pmin X Y) (pmin Z X)) (pmin X (pmax Y Z)),
    rewrite (pmax (pmin Y X) (pmin X Z)) (pmin (pmax Y Z) X),
    rewrite (pmax (pmin Y X) (pmin Z X)) (pmin (pmax Y Z) X),
    rewrite (pmax (pmin (pmax X Y) Z) Y) (pmax (pmin X Z) Y),
    rewrite (pmax (pmin (pmax Y X) Z) Y) (pmax Y (pmin X Z)),
    rewrite (pmax (pmax X C0) C1) (pmax X (Fold (pmax C0 C1)))]"

definition max_chain_wide :: "rule list" where
  "max_chain_wide = [
    rewrite (pmax (X + C0) C1) (pmax X (Fold (C1 - C0)) + C0),
    rewrite_if (pmax (X + C0) (Y + C1)) (pmax X (Y + Fold (C1 - C0)) + C0) (gt C1 C0),
    rewrite_if (pmax (X + C0) (Y + C1)) (pmax (X + Fold (C0 - C1)) Y + C1) (gt C0 C1),
    rewrite (pmax (X + Y) (X + Z)) (X + pmax Y Z),
    rewrite (pmax (X + Y) (Z + X)) (X + pmax Y Z),
    rewrite (pmax (Y + X) (X + Z)) (pmax Y Z + X),
    rewrite (pmax (Y + X) (Z + X)) (pmax Y Z + X),
    rewrite (pmax X (X + Z)) (X + pmax Z (Const 0)),
    rewrite (pmax X (Z + X)) (X + pmax Z (Const 0)),
    rewrite (pmax (Y + X) X) (pmax Y (Const 0) + X),
    rewrite (pmax (X + Y) X) (X + pmax Y (Const 0)),
    rewrite_if (pmax ((X * C0 + Y) * C1) (X * C2 + Z)) (pmax (Y * C1) Z + X * C2) (eq (C0 * C1) C2),
    rewrite_if (pmax ((Y + X * C0) * C1) (X * C2 + Z)) (pmax (Y * C1) Z + X * C2) (eq (C0 * C1) C2),
    rewrite_if (pmax ((X * C0 + Y) * C1) (Z + X * C2)) (pmax (Y * C1) Z + X * C2) (eq (C0 * C1) C2),
    rewrite_if (pmax ((Y + X * C0) * C1) (Z + X * C2)) (pmax (Y * C1) Z + X * C2) (eq (C0 * C1) C2),
    rewrite (pmax (pmax (X + Y) Z) (X + W)) (pmax (X + pmax Y W) Z),
    rewrite (pmax (pmax Z (X + Y)) (X + W)) (pmax (X + pmax Y W) Z),
    rewrite (pmax (pmax (X + Y) Z) (W + X)) (pmax (X + pmax Y W) Z),
    rewrite (pmax (pmax Z (X + Y)) (W + X)) (pmax (X + pmax Y W) Z),
    rewrite (pmax (pmax (Y + X) Z) (X + W)) (pmax (pmax Y W + X) Z),
    rewrite (pmax (pmax Z (Y + X)) (X + W)) (pmax (pmax Y W + X) Z),
    rewrite (pmax (pmax (Y + X) Z) (W + X)) (pmax (pmax Y W + X) Z),
    rewrite (pmax (pmax Z (Y + X)) (W + X)) (pmax (pmax Y W + X) Z),
    rewrite (pmax (X + W + Y) (X + Z)) (X + pmax (W + Y) Z),
    rewrite (pmax (W + X + Y) (X + Z)) (pmax (W + Y) Z + X),
    rewrite (pmax (X + W + Y) (Z + X)) (X + pmax (W + Y) Z),
    rewrite (pmax (W + X + Y) (Z + X)) (pmax (W + Y) Z + X),
    rewrite (pmax (X + W + Y) X) (X + pmax (W + Y) (Const 0)),
    rewrite (pmax (W + X + Y) X) (X + pmax (W + Y) (Const 0)),
    rewrite (pmax (X + Y) (W + X + Z)) (X + pmax (W + Z) Y),
    rewrite (pmax (X + Y) (X + W + Z)) (X + pmax (W + Z) Y),
    rewrite (pmax (Y + X) (W + X + Z)) (pmax (W + Z) Y + X),
    rewrite (pmax (Y + X) (X + W + Z)) (pmax (W + Z) Y + X),
    rewrite (pmax X (W + X + Z)) (X + pmax (W + Z) (Const 0)),
    rewrite (pmax X (X + W + Z)) (X + pmax (W + Z) (Const 0)),
    rewrite (pmax (Y - X) (Z - X)) (pmax Y Z - X),
    rewrite (pmax (X - Y) (X - Z)) (X - pmin Y Z),
    rewrite (pmax X (X - Y)) (X - pmin (Const 0) Y),
    rewrite (pmax (X - Y) X) (X - pmin (Const 0) Y),
    rewrite (pmax X (X - Y + Z)) (X + pmax (Const 0) (Z - Y)),
    rewrite (pmax X (Z + (X - Y))) (X + pmax (Const 0) (Z - Y)),
    rewrite (pmax X (X - Y - Z)) (X - pmin (Const 0) (Y + Z)),
    rewrite (pmax (X - Y + Z) X) (pmax (Const 0) (Z - Y) + X),
    rewrite (pmax (Z + (X - Y)) X) (pmax (Const 0) (Z - Y) + X),
    rewrite (pmax (X - Y - Z) X) (X - pmin (Const 0) (Y + Z)),
    rewrite_if (pmax (X * C0) C1) (pmax X (Fold (C1 div C0)) * C0) (and_op (gt C0 (Const 0)) (eq (C1 mod C0) (Const 0))),
    rewrite_if (pmax (X * C0) C1) (pmin X (Fold (C1 div C0)) * C0) (and_op (lt C0 (Const 0)) (eq (C1 mod C0) (Const 0))),
    rewrite_if (pmax (X * C0) (Y * C1)) (pmax X (Y * Fold (C1 div C0)) * C0) (and_op (gt C0 (Const 0)) (eq (C1 mod C0) (Const 0))),
    rewrite_if (pmax (X * C0) (Y * C1)) (pmin X (Y * Fold (C1 div C0)) * C0) (and_op (lt C0 (Const 0)) (eq (C1 mod C0) (Const 0))),
    rewrite_if (pmax (X * C0) (Y * C1)) (pmax (X * Fold (C0 div C1)) Y * C1) (and_op (gt C1 (Const 0)) (eq (C0 mod C1) (Const 0))),
    rewrite_if (pmax (X * C0) (Y * C1)) (pmin (X * Fold (C0 div C1)) Y * C1) (and_op (lt C1 (Const 0)) (eq (C0 mod C1) (Const 0))),
    rewrite_if (pmax (X * C0) (Y * C0 + C1)) (pmax X (Y + Fold (C1 div C0)) * C0) (and_op (gt C0 (Const 0)) (eq (C1 mod C0) (Const 0))),
    rewrite_if (pmax (X * C0) (Y * C0 + C1)) (pmin X (Y + Fold (C1 div C0)) * C0) (and_op (lt C0 (Const 0)) (eq (C1 mod C0) (Const 0))),
    rewrite_if (pmax (X div C0) (Y div C0)) (pmax X Y div C0) (gt C0 (Const 0)),
    rewrite_if (pmax (X div C0) (Y div C0)) (pmin X Y div C0) (lt C0 (Const 0)),
    rewrite_if (pmax (X div C0) (Y div C0 + C1)) (pmax X (Y + Fold (C1 * C0)) div C0) (and_op (gt C0 (Const 0)) (not_op (Overflows (C1 * C0)))),
    rewrite_if (pmax (X div C0) (Y div C0 + C1)) (pmin X (Y + Fold (C1 * C0)) div C0) (and_op (lt C0 (Const 0)) (not_op (Overflows (C1 * C0)))),
    rewrite (pmax (select X Y Z) (select X W U)) (select X (pmax Y W) (pmax Z U)),
    rewrite (pmax (C0 - X) C1) (C0 - pmin X (Fold (C0 - C1)))]"

definition max_direct_rest :: "halide_type \<Rightarrow> expr \<Rightarrow> expr \<Rightarrow> rule list" where
  "max_direct_rest ty a b =
     max_direct_2 a b @ (if no_overflow ty then max_direct_wide ty a b else [])"

definition max_chain :: "halide_type \<Rightarrow> expr \<Rightarrow> expr \<Rightarrow> rule list" where
  "max_chain ty a b =
     max_chain_any ty a b @ (if no_overflow ty then max_chain_wide else [])"

lemma max_base_valid:
  "list_all (valid_rule P [a, b]) (max_direct_1 a b)"
  "list_all (valid_rule P [a, b]) (max_direct_2 a b)"
  "0 < lanes ty \<Longrightarrow> lanes ty < 2 ^ 14 \<Longrightarrow> list_all (valid_rule (in_lanes ty) [a, b]) (max_chain_any ty a b)"
  by ((unfold max_direct_1_def max_direct_2_def max_chain_any_def
        list.pred_inject(2) pat_ops,
      intro conjI list.pred_inject(1); rule valid_ruleI;
      simp add: rule_arith; (intro impI)?; (elim conjE)?;
      (linarith))+)

lemma max_stairs_valid:
  "0 < lanes ty \<Longrightarrow> lanes ty < 2 ^ 14 \<Longrightarrow> no_overflow (etype a) \<Longrightarrow> list_all (valid_rule (in_lanes ty) [a, b]) (max_direct_wide ty a b)"
  by ((unfold max_direct_wide_def
        list.pred_inject(2) pat_ops,
      intro conjI list.pred_inject(1); ((rule valid_wideI, assumption) | rule valid_ruleI);
      simp add: rule_arith; (intro impI)?; (elim conjE)?;
      ((simp add: stair min_absorb1 min_absorb2 max_absorb1 max_absorb2 ramp_bounds; fail)))+)

lemma max_wide_valid:
  "no_overflow (etype a) \<Longrightarrow> list_all (valid_rule P [a, b]) max_chain_wide"
  by ((unfold max_chain_wide_def
        list.pred_inject(2) pat_ops,
      intro conjI list.pred_inject(1); ((rule valid_wideI, assumption) | rule valid_ruleI);
      simp add: rule_arith; (intro impI)?; (elim conjE)?;
      ((simp add: ediv_extremum extremum_mult ediv_add_mult distrib_left emod_0_mult; fail)
      | (drule product_eq, simp add: algebra_simps; linarith)))+)

lemmas max_rules_valid =
  max_base_valid max_stairs_valid max_wide_valid

section \<open>The tables\<close>

lemma min_table_valid:
  assumes "legal_type ty" "ety (etype a) = ety ty"
  shows "list_all (valid_rule (in_lanes ty) [a, b]) (min_direct_1 a b @ min_direct_rest ty a b @ min_chain ty a b)"
  using legal_lanes [of ty] assms no_overflow_cong [of "etype a" ty]
  by (auto simp: min_rules_valid min_direct_rest_def min_chain_def list_all_append no_overflow_intD)

lemma max_table_valid:
  assumes "legal_type ty" "ety (etype a) = ety ty"
  shows "list_all (valid_rule (in_lanes ty) [a, b]) (max_direct_1 a b @ max_direct_rest ty a b @ max_chain ty a b)"
  using legal_lanes [of ty] assms no_overflow_cong [of "etype a" ty]
  by (auto simp: max_rules_valid max_direct_rest_def max_chain_def list_all_append no_overflow_intD)

lemma limit_rules_valid:
  assumes "is_limit ty (ety_min (ety ty)) tmin" "is_limit ty (ety_max (ety ty)) tmax"
  shows "list_all (valid_rule in_bounds [a, b]) (min_direct_limits tmin tmax a b)"
    "list_all (valid_rule in_bounds [a, b]) (max_direct_limits tmin tmax a b)"
  unfolding min_direct_limits_def max_direct_limits_def list.pred_inject(2) pat_ops
  by (intro conjI list.pred_inject(1) valid_ruleI;
      use limit_typed [OF assms(1)] limit_typed [OF assms(2)] in
        \<open>auto simp: rule_simps knows_def in_bounds_def in_ety_limits limit_value [OF assms(1)]
           limit_value [OF assms(2)] min_def max_def\<close>)+

lemma stair_rules_valid:
  "list_all (valid_rule no_narrow_int [a, b]) (min_direct_stair a b)"
  "list_all (valid_rule no_narrow_int [a, b]) (max_direct_stair a b)"
  by ((unfold min_direct_stair_def max_direct_stair_def list.pred_inject(2) pat_ops,
      intro conjI list.pred_inject(1); rule valid_ruleI;
      simp add: rule_simps knows_def ctx_okD no_narrow_int_def wty_order mult.commute;
      (intro impI)?; (elim conjE)?;
      simp add: nrm_stair ctx_okD stair min_absorb1 min_absorb2 max_absorb1 max_absorb2)+)

end
