(* ===== verification/RulesCompare.thy ===== *)
theory RulesCompare
  imports Limits
begin

text \<open>
  The rewrite rules of comparisons: \<open>ty\<close> is the type of the comparison (a vector of
  truth values), \<open>t\<close> that of its operands. The rules that move a constant out of a clamp
  (\<open>eq_chain_clamp\<close>) are valid where overflow is undefined.
\<close>

section \<open>Equality (Simplify_EQ.cpp)\<close>

definition eq_bool_one :: "rule list" where
  "eq_bool_one = [
    rewrite (eq X (Const 1)) X]"

definition eq_bool_zero :: "rule list" where
  "eq_bool_zero = [
    rewrite (eq X (Const 0)) (not_op X)]"

definition eq_chain_broadcast :: "halide_type \<Rightarrow> rule list" where
  "eq_chain_broadcast ty = [
    rewrite (eq (broadcast X) (Const 0)) (broadcast_n (eq X (Const 0)) (lanes ty))]"

definition eq_chain_wide :: "rule list" where
  "eq_chain_wide = [
    rewrite (eq (X * Y) (Const 0)) (or_op (eq X (Const 0)) (eq Y (Const 0)))]"

definition eq_chain_any :: "rule list" where
  "eq_chain_any = [
    rewrite (eq (select X (Const 0) Y) (Const 0)) (or_op X (eq Y (Const 0))),
    rewrite_if (eq (select X C0 Y) (Const 0)) (and_op (not_op X) (eq Y (Const 0))) (ne C0 (Const 0)),
    rewrite (eq (select X Y (Const 0)) (Const 0)) (or_op (not_op X) (eq Y (Const 0))),
    rewrite_if (eq (select X Y C0) (Const 0)) (and_op X (eq Y (Const 0))) (ne C0 (Const 0)),
    rewrite (eq (pmax X Y - Y) (Const 0)) (le X Y),
    rewrite (eq (pmin X Y - Y) (Const 0)) (le Y X),
    rewrite (eq (pmax Y X - Y) (Const 0)) (le X Y),
    rewrite (eq (pmin Y X - Y) (Const 0)) (le Y X),
    rewrite (eq (Y - pmax X Y) (Const 0)) (le X Y),
    rewrite (eq (Y - pmin X Y) (Const 0)) (le Y X),
    rewrite (eq (Y - pmax Y X) (Const 0)) (le X Y),
    rewrite (eq (Y - pmin Y X) (Const 0)) (le Y X)]"

definition eq_chain_clamp :: "rule list" where
  "eq_chain_clamp = [
    rewrite_if (eq (pmax X C0 + C1) (Const 0)) (eq X (Fold (- C1))) (lt (C0 + C1) (Const 0)),
    rewrite_if (eq (pmin X C0 + C1) (Const 0)) (eq X (Fold (- C1))) (gt (C0 + C1) (Const 0))]"

definition eq_chain_bound :: "rule list" where
  "eq_chain_bound = [
    rewrite_if (eq (pmax X C0 + C1) (Const 0)) (le X C0) (eq (C0 + C1) (Const 0)),
    rewrite_if (eq (pmin X C0 + C1) (Const 0)) (le C0 X) (eq (C0 + C1) (Const 0)),
    rewrite (eq (pmax X (Const 0)) (Const 0)) (le X (Const 0)),
    rewrite (eq (pmin X (Const 0)) (Const 0)) (le (Const 0) X)]"

definition eq_direct :: "rule list" where
  "eq_direct = [
    rewrite (eq C0 (Const 0)) (Fold (eq C0 (Const 0))),
    rewrite (eq (X - Y + C0) (Const 0)) (eq X (Y + Fold (- C0))),
    rewrite (eq (X + C0) (Const 0)) (eq X (Fold (- C0))),
    rewrite (eq (C0 - X) (Const 0)) (eq X C0)]"

definition eq_chain :: "halide_type \<Rightarrow> halide_type \<Rightarrow> rule list" where
  "eq_chain ty t =
     eq_chain_broadcast ty @ (if no_overflow t then eq_chain_wide else []) @ eq_chain_any"

lemma eq_rules_valid:
  "ety (etype a) = bool_ety \<Longrightarrow> list_all (valid_rule P [a, b]) eq_bool_one"
  "ety (etype a) = bool_ety \<Longrightarrow> list_all (valid_rule P [a, b]) eq_bool_zero"
  "0 < lanes ty \<Longrightarrow> lanes ty < 2 ^ 14 \<Longrightarrow> list_all (valid_rule (in_lanes ty) [a, b]) (eq_chain_broadcast ty)"
  "no_overflow (etype a) \<Longrightarrow> list_all (valid_rule P [a, b]) eq_chain_wide"
  "list_all (valid_rule P [a, b]) eq_chain_any"
  "no_overflow (etype a) \<Longrightarrow> list_all (valid_rule P [a, b]) eq_chain_clamp"
  "list_all (valid_rule P [a, b]) eq_chain_bound"
  "list_all (valid_rule P [a, b]) eq_direct"
  by ((unfold eq_bool_one_def eq_bool_zero_def eq_chain_broadcast_def eq_chain_wide_def eq_chain_any_def eq_chain_clamp_def eq_chain_bound_def eq_direct_def
        list.pred_inject(2) pat_ops,
      intro conjI list.pred_inject(1); ((rule valid_cmp_wideI, assumption) | rule valid_ruleI);
      simp add: rule_arith bool_simps cmp_val_def nrm_solve nrm_zero_iff; (intro impI conjI)?; (elim conjE)?;
      (linarith
      | (simp add: ctx_okD clamp_zero max_is_0 min_is_0; fail)
      | (metis bool_wild(1))))+)

section \<open>Less-than (Simplify_LT.cpp)\<close>

definition lt_direct_1 :: "rule list" where
  "lt_direct_1 = [
    rewrite (lt C0 C1) (Fold (lt C0 C1)),
    rewrite_int (lt X X) 0]"

definition lt_direct_limits :: "expr \<Rightarrow> expr \<Rightarrow> rule list" where
  "lt_direct_limits tmin tmax = [
    rewrite_int (lt X (SpecificExpr tmin)) 0,
    rewrite_int (lt (SpecificExpr tmax) X) 0]"

definition lt_direct_2 :: "rule list" where
  "lt_direct_2 = [
    rewrite_int (lt (pmax X Y) X) 0,
    rewrite_int (lt (pmax Y X) X) 0,
    rewrite_int (lt X (pmin X Y)) 0,
    rewrite_int (lt X (pmin Y X)) 0]"

definition lt_direct_ramp :: "halide_type \<Rightarrow> rule list" where
  "lt_direct_ramp ty = [
    rewrite_int_if (lt (ramp X C1) (broadcast Z)) 1 (CanProve (lt (X + Fold (pmax (Const 0) (C1 * Const (int (lanes ty) - 1)))) Z)),
    rewrite_int_if (lt (ramp X C1) (broadcast Z)) 0 (CanProve (ge (X + Fold (pmin (Const 0) (C1 * Const (int (lanes ty) - 1)))) Z)),
    rewrite_int_if (lt (broadcast Z) (ramp X C1)) 1 (CanProve (lt Z (X + Fold (pmin (Const 0) (C1 * Const (int (lanes ty) - 1)))))),
    rewrite_int_if (lt (broadcast Z) (ramp X C1)) 0 (CanProve (ge Z (X + Fold (pmax (Const 0) (C1 * Const (int (lanes ty) - 1))))))]"

definition lt_chain_broadcast :: "halide_type \<Rightarrow> rule list" where
  "lt_chain_broadcast ty = [
    rewrite (lt (broadcast X) (broadcast Y)) (broadcast_n (lt X Y) (lanes ty))]"

definition lt_chain_wide_1 :: "halide_type \<Rightarrow> rule list" where
  "lt_chain_wide_1 ty = [
    rewrite (lt (ramp X Y) (ramp Z Y)) (broadcast_n (lt X Z) (lanes ty)),
    rewrite (lt (X + C0) Y) (lt X (Y + Fold (- C0))),
    rewrite (lt C0 (X + C1)) (lt (Fold (C0 - C1)) X),
    rewrite (lt (X - Y) Z) (lt X (Z + Y)),
    rewrite (lt Z (X - Y)) (lt (Z + Y) X),
    rewrite (lt (X - Y + Z) W) (lt (X + Z) (Y + W)),
    rewrite (lt (Z + (X - Y)) W) (lt (X + Z) (Y + W)),
    rewrite (lt W (X - Y + Z)) (lt (W + Y) (X + Z)),
    rewrite (lt W (Z + (X - Y))) (lt (W + Y) (X + Z)),
    rewrite (lt (X - Y + Z + U) W) (lt (X + Z + U) (W + Y)),
    rewrite (lt (Z + (X - Y) + U) W) (lt (X + Z + U) (W + Y)),
    rewrite (lt (U + (X - Y + Z)) W) (lt (X + Z + U) (W + Y)),
    rewrite (lt (U + (Z + (X - Y))) W) (lt (X + Z + U) (W + Y)),
    rewrite (lt W (X - Y + Z + U)) (lt (W + Y) (X + Z + U)),
    rewrite (lt W (Z + (X - Y) + U)) (lt (W + Y) (X + Z + U)),
    rewrite (lt W (U + (X - Y + Z))) (lt (W + Y) (X + Z + U)),
    rewrite (lt W (U + (Z + (X - Y)))) (lt (W + Y) (X + Z + U)),
    rewrite (lt X (X + Y)) (lt (Const 0) Y),
    rewrite (lt (X + Y) X) (lt Y (Const 0)),
    rewrite (lt (X + Y) (X + Z)) (lt Y Z),
    rewrite (lt (X + Y) (Z + X)) (lt Y Z),
    rewrite (lt (Y + X) (X + Z)) (lt Y Z),
    rewrite (lt (Y + X) (Z + X)) (lt Y Z),
    rewrite (lt (X + Y + W) (X + Z)) (lt (Y + W) Z),
    rewrite (lt (Y + X + W) (X + Z)) (lt (Y + W) Z),
    rewrite (lt (W + (X + Y)) (X + Z)) (lt (Y + W) Z),
    rewrite (lt (W + (Y + X)) (X + Z)) (lt (Y + W) Z),
    rewrite (lt (X + Y + W) (Z + X)) (lt (Y + W) Z),
    rewrite (lt (Y + X + W) (Z + X)) (lt (Y + W) Z),
    rewrite (lt (W + (X + Y)) (Z + X)) (lt (Y + W) Z),
    rewrite (lt (W + (Y + X)) (Z + X)) (lt (Y + W) Z),
    rewrite (lt (X + Z) (X + Y + W)) (lt Z (Y + W)),
    rewrite (lt (X + Z) (Y + X + W)) (lt Z (Y + W)),
    rewrite (lt (X + Z) (W + (X + Y))) (lt Z (Y + W)),
    rewrite (lt (X + Z) (W + (Y + X))) (lt Z (Y + W)),
    rewrite (lt (Z + X) (X + Y + W)) (lt Z (Y + W)),
    rewrite (lt (Z + X) (Y + X + W)) (lt Z (Y + W)),
    rewrite (lt (Z + X) (W + (X + Y))) (lt Z (Y + W)),
    rewrite (lt (Z + X) (W + (Y + X))) (lt Z (Y + W)),
    rewrite (lt (X + Y + W) (X + Z + U)) (lt (Y + W) (Z + U)),
    rewrite (lt (Y + X + W) (X + Z + U)) (lt (Y + W) (Z + U)),
    rewrite (lt (X + Y + W) (Z + X + U)) (lt (Y + W) (Z + U)),
    rewrite (lt (Y + X + W) (Z + X + U)) (lt (Y + W) (Z + U)),
    rewrite (lt (W + (X + Y)) (X + Z + U)) (lt (Y + W) (Z + U)),
    rewrite (lt (W + (Y + X)) (X + Z + U)) (lt (Y + W) (Z + U)),
    rewrite (lt (W + (X + Y)) (Z + X + U)) (lt (Y + W) (Z + U)),
    rewrite (lt (W + (Y + X)) (Z + X + U)) (lt (Y + W) (Z + U)),
    rewrite (lt (X + Y + W) (U + (X + Z))) (lt (Y + W) (Z + U)),
    rewrite (lt (Y + X + W) (U + (X + Z))) (lt (Y + W) (Z + U)),
    rewrite (lt (X + Y + W) (U + (Z + X))) (lt (Y + W) (Z + U)),
    rewrite (lt (Y + X + W) (U + (Z + X))) (lt (Y + W) (Z + U)),
    rewrite (lt (W + (X + Y)) (U + (X + Z))) (lt (Y + W) (Z + U)),
    rewrite (lt (W + (Y + X)) (U + (X + Z))) (lt (Y + W) (Z + U)),
    rewrite (lt (W + (X + Y)) (U + (Z + X))) (lt (Y + W) (Z + U)),
    rewrite (lt (W + (Y + X)) (U + (Z + X))) (lt (Y + W) (Z + U)),
    rewrite_if (lt (X * C0) (Y * C0)) (lt X Y) (gt C0 (Const 0)),
    rewrite_if (lt (X * C0) (Y * C0)) (lt Y X) (lt C0 (Const 0))]"

definition lt_chain_int_product :: "rule list" where
  "lt_chain_int_product = [
    rewrite_if (lt (X * C0) C1) (lt X (Fold ((C1 + C0 - Const 1) div C0))) (gt C0 (Const 0))]"

definition lt_chain_float_product :: "rule list" where
  "lt_chain_float_product = [
    rewrite_if (lt (X * C0) C1) (lt X (Fold (C1 div C0))) (gt C0 (Const 0))]"

definition lt_chain_wide_2 :: "rule list" where
  "lt_chain_wide_2 = [
    rewrite_if (lt C1 (X * C0)) (lt (Fold (C1 div C0)) X) (gt C0 (Const 0)),
    rewrite_if (lt (X div C0) C1) (lt X (C1 * C0)) (gt C0 (Const 0))]"

definition lt_chain_int_quotient :: "rule list" where
  "lt_chain_int_quotient = [
    rewrite_if (lt C0 (X div C1)) (lt (Fold ((C0 + Const 1) * C1 - Const 1)) X) (gt C1 (Const 0))]"

definition lt_chain_float_quotient :: "rule list" where
  "lt_chain_float_quotient = [
    rewrite_if (lt C0 (X div C1)) (lt (Fold (C0 * C1)) X) (gt C1 (Const 0))]"

definition lt_chain_wide_3 :: "halide_type \<Rightarrow> rule list" where
  "lt_chain_wide_3 ty = [
    rewrite (lt (pmin (X + C0) Y) (X + C1)) (or_op (Fold (lt C0 C1)) (lt Y (X + C1))),
    rewrite (lt (pmin Y (X + C0)) (X + C1)) (or_op (Fold (lt C0 C1)) (lt Y (X + C1))),
    rewrite (lt (pmax (X + C0) Y) (X + C1)) (and_op (Fold (lt C0 C1)) (lt Y (X + C1))),
    rewrite (lt (pmax Y (X + C0)) (X + C1)) (and_op (Fold (lt C0 C1)) (lt Y (X + C1))),
    rewrite (lt X (pmin (X + C0) Y + C1)) (and_op (Fold (lt (Const 0) (C0 + C1))) (lt X (Y + C1))),
    rewrite (lt X (pmin Y (X + C0) + C1)) (and_op (Fold (lt (Const 0) (C0 + C1))) (lt X (Y + C1))),
    rewrite (lt X (pmax (X + C0) Y + C1)) (or_op (Fold (lt (Const 0) (C0 + C1))) (lt X (Y + C1))),
    rewrite (lt X (pmax Y (X + C0) + C1)) (or_op (Fold (lt (Const 0) (C0 + C1))) (lt X (Y + C1))),
    rewrite (lt (pmin X Y) (X + C1)) (or_op (Fold (lt (Const 0) C1)) (lt Y (X + C1))),
    rewrite (lt (pmin Y X) (X + C1)) (or_op (Fold (lt (Const 0) C1)) (lt Y (X + C1))),
    rewrite (lt (pmax X Y) (X + C1)) (and_op (Fold (lt (Const 0) C1)) (lt Y (X + C1))),
    rewrite (lt (pmax Y X) (X + C1)) (and_op (Fold (lt (Const 0) C1)) (lt Y (X + C1))),
    rewrite (lt X (pmin X Y + C1)) (and_op (Fold (lt (Const 0) C1)) (lt X (Y + C1))),
    rewrite (lt X (pmin Y X + C1)) (and_op (Fold (lt (Const 0) C1)) (lt X (Y + C1))),
    rewrite (lt X (pmax X Y + C1)) (or_op (Fold (lt (Const 0) C1)) (lt X (Y + C1))),
    rewrite (lt X (pmax Y X + C1)) (or_op (Fold (lt (Const 0) C1)) (lt X (Y + C1))),
    rewrite (lt (pmin (X + C0) Y) X) (or_op (Fold (lt C0 (Const 0))) (lt Y X)),
    rewrite (lt (pmin Y (X + C0)) X) (or_op (Fold (lt C0 (Const 0))) (lt Y X)),
    rewrite (lt (pmax (X + C0) Y) X) (and_op (Fold (lt C0 (Const 0))) (lt Y X)),
    rewrite (lt (pmax Y (X + C0)) X) (and_op (Fold (lt C0 (Const 0))) (lt Y X)),
    rewrite (lt X (pmin (X + C0) Y)) (and_op (Fold (lt (Const 0) C0)) (lt X Y)),
    rewrite (lt X (pmin Y (X + C0))) (and_op (Fold (lt (Const 0) C0)) (lt X Y)),
    rewrite (lt X (pmax (X + C0) Y)) (or_op (Fold (lt (Const 0) C0)) (lt X Y)),
    rewrite (lt X (pmax Y (X + C0))) (or_op (Fold (lt (Const 0) C0)) (lt X Y)),
    rewrite (lt (pmin X Y) X) (lt Y X),
    rewrite (lt (pmin Y X) X) (lt Y X),
    rewrite (lt X (pmax X Y)) (lt X Y),
    rewrite (lt X (pmax Y X)) (lt X Y),
    rewrite (lt (pmin Y C0) C1) (or_op (Fold (lt C0 C1)) (lt Y C1)),
    rewrite (lt (pmax Y C0) C1) (and_op (Fold (lt C0 C1)) (lt Y C1)),
    rewrite (lt C1 (pmin Y C0)) (and_op (Fold (lt C1 C0)) (lt C1 Y)),
    rewrite (lt C1 (pmax Y C0)) (or_op (Fold (lt C1 C0)) (lt C1 Y)),
    rewrite_if (lt X (select Y (X + C0) Z)) (and_op (not_op Y) (lt X Z)) (le C0 (Const 0)),
    rewrite_if (lt X (select Y (X + C0) Z)) (or_op Y (lt X Z)) (gt C0 (Const 0)),
    rewrite_if (lt X (select Y Z (X + C0))) (and_op Y (lt X Z)) (le C0 (Const 0)),
    rewrite_if (lt X (select Y Z (X + C0))) (or_op (not_op Y) (lt X Z)) (gt C0 (Const 0)),
    rewrite_if (lt X (select Y (X + C0) Z + C1)) (and_op (not_op Y) (lt X (Z + C1))) (le (C0 + C1) (Const 0)),
    rewrite_if (lt X (select Y (X + C0) Z + C1)) (or_op Y (lt X (Z + C1))) (gt (C0 + C1) (Const 0)),
    rewrite_if (lt X (select Y Z (X + C0) + C1)) (and_op Y (lt X (Z + C1))) (le (C0 + C1) (Const 0)),
    rewrite_if (lt X (select Y Z (X + C0) + C1)) (or_op (not_op Y) (lt X (Z + C1))) (gt (C0 + C1) (Const 0)),
    rewrite_if (lt (select Y (X + C0) Z) X) (and_op (not_op Y) (lt Z X)) (ge C0 (Const 0)),
    rewrite_if (lt (select Y (X + C0) Z) X) (or_op Y (lt Z X)) (lt C0 (Const 0)),
    rewrite_if (lt (select Y Z (X + C0)) X) (and_op Y (lt Z X)) (ge C0 (Const 0)),
    rewrite_if (lt (select Y Z (X + C0)) X) (or_op (not_op Y) (lt Z X)) (lt C0 (Const 0)),
    rewrite_if (lt (select Y (X + C0) Z) (X + C1)) (and_op (not_op Y) (lt Z (X + C1))) (ge C0 C1),
    rewrite_if (lt (select Y (X + C0) Z) (X + C1)) (or_op Y (lt Z (X + C1))) (lt C0 C1),
    rewrite_if (lt (select Y Z (X + C0)) (X + C1)) (and_op Y (lt Z (X + C1))) (ge C0 C1),
    rewrite_if (lt (select Y Z (X + C0)) (X + C1)) (or_op (not_op Y) (lt Z (X + C1))) (lt C0 C1),
    rewrite (lt (ramp X Y) (ramp Z W)) (lt (ramp_n (X - Z) (Y - W) (lanes ty)) (Const 0))]"

definition lt_chain_int_1 :: "rule list" where
  "lt_chain_int_1 = [
    rewrite_if (lt (X * C0) (Y * C1)) (lt X (Y * Fold (C1 div C0))) (and_op (eq (C1 mod C0) (Const 0)) (gt C0 (Const 0))),
    rewrite_if (lt (X * C0) (Y * C1)) (lt (X * Fold (C0 div C1)) Y) (and_op (eq (C0 mod C1) (Const 0)) (gt C1 (Const 0))),
    rewrite_if (lt (X * C0) (Y * C0 + C1)) (lt X (Y + Fold ((C1 + C0 - Const 1) div C0))) (gt C0 (Const 0)),
    rewrite_if (lt (X * C0 + C1) (Y * C0)) (lt (X + Fold (C1 div C0)) Y) (gt C0 (Const 0)),
    rewrite_if (lt ((X + C0) div C1 * C1 + W) (X + Z)) (lt (W + C0) ((X + C0) mod C1 + Z)) (gt C1 (Const 0)),
    rewrite_if (lt (W + (X + C0) div C1 * C1) (X + Z)) (lt (W + C0) ((X + C0) mod C1 + Z)) (gt C1 (Const 0)),
    rewrite_if (lt ((X + C0) div C1 * C1 + W) (Z + X)) (lt (W + C0) ((X + C0) mod C1 + Z)) (gt C1 (Const 0)),
    rewrite_if (lt (W + (X + C0) div C1 * C1) (Z + X)) (lt (W + C0) ((X + C0) mod C1 + Z)) (gt C1 (Const 0)),
    rewrite_if (lt (X + Z) ((X + C0) div C1 * C1 + W)) (lt ((X + C0) mod C1 + Z) (W + C0)) (gt C1 (Const 0)),
    rewrite_if (lt (X + Z) (W + (X + C0) div C1 * C1)) (lt ((X + C0) mod C1 + Z) (W + C0)) (gt C1 (Const 0)),
    rewrite_if (lt (Z + X) ((X + C0) div C1 * C1 + W)) (lt ((X + C0) mod C1 + Z) (W + C0)) (gt C1 (Const 0)),
    rewrite_if (lt (Z + X) (W + (X + C0) div C1 * C1)) (lt ((X + C0) mod C1 + Z) (W + C0)) (gt C1 (Const 0)),
    rewrite_if (lt ((X + C0) div C1 * C1) (X + Z)) (lt C0 ((X + C0) mod C1 + Z)) (gt C1 (Const 0)),
    rewrite_if (lt ((X + C0) div C1 * C1) (Z + X)) (lt C0 ((X + C0) mod C1 + Z)) (gt C1 (Const 0)),
    rewrite_if (lt (X + Z) ((X + C0) div C1 * C1)) (lt ((X + C0) mod C1 + Z) C0) (gt C1 (Const 0)),
    rewrite_if (lt (Z + X) ((X + C0) div C1 * C1)) (lt ((X + C0) mod C1 + Z) C0) (gt C1 (Const 0)),
    rewrite_if (lt ((X + C0) div C1 * C1 + W) X) (lt (W + C0) ((X + C0) mod C1)) (gt C1 (Const 0)),
    rewrite_if (lt (W + (X + C0) div C1 * C1) X) (lt (W + C0) ((X + C0) mod C1)) (gt C1 (Const 0)),
    rewrite_if (lt X ((X + C0) div C1 * C1 + W)) (lt ((X + C0) mod C1) (W + C0)) (gt C1 (Const 0)),
    rewrite_if (lt X (W + (X + C0) div C1 * C1)) (lt ((X + C0) mod C1) (W + C0)) (gt C1 (Const 0)),
    rewrite_if (lt (X div C1 * C1 + W) (X + Z)) (lt W (X mod C1 + Z)) (gt C1 (Const 0)),
    rewrite_if (lt (W + X div C1 * C1) (X + Z)) (lt W (X mod C1 + Z)) (gt C1 (Const 0)),
    rewrite_if (lt (X div C1 * C1 + W) (Z + X)) (lt W (X mod C1 + Z)) (gt C1 (Const 0)),
    rewrite_if (lt (W + X div C1 * C1) (Z + X)) (lt W (X mod C1 + Z)) (gt C1 (Const 0)),
    rewrite_if (lt (X + Z) (X div C1 * C1 + W)) (lt (X mod C1 + Z) W) (gt C1 (Const 0)),
    rewrite_if (lt (X + Z) (W + X div C1 * C1)) (lt (X mod C1 + Z) W) (gt C1 (Const 0)),
    rewrite_if (lt (Z + X) (X div C1 * C1 + W)) (lt (X mod C1 + Z) W) (gt C1 (Const 0)),
    rewrite_if (lt (Z + X) (W + X div C1 * C1)) (lt (X mod C1 + Z) W) (gt C1 (Const 0)),
    rewrite_if (lt ((X + C0) div C1 * C1) X) (lt C0 ((X + C0) mod C1)) (gt C1 (Const 0)),
    rewrite_if (lt X ((X + C0) div C1 * C1)) (lt ((X + C0) mod C1) C0) (gt C1 (Const 0)),
    rewrite_if (lt (X div C1 * C1) (X + Z)) (lt (Const 0) (X mod C1 + Z)) (gt C1 (Const 0)),
    rewrite_if (lt (X div C1 * C1) (Z + X)) (lt (Const 0) (X mod C1 + Z)) (gt C1 (Const 0)),
    rewrite_if (lt (X + Z) (X div C1 * C1)) (lt (X mod C1 + Z) (Const 0)) (gt C1 (Const 0)),
    rewrite_if (lt (Z + X) (X div C1 * C1)) (lt (X mod C1 + Z) (Const 0)) (gt C1 (Const 0)),
    rewrite_if (lt (X div C1 * C1 + W) X) (lt W (X mod C1)) (gt C1 (Const 0)),
    rewrite_if (lt (W + X div C1 * C1) X) (lt W (X mod C1)) (gt C1 (Const 0)),
    rewrite_if (lt X (X div C1 * C1 + W)) (lt (X mod C1) W) (gt C1 (Const 0)),
    rewrite_if (lt X (W + X div C1 * C1)) (lt (X mod C1) W) (gt C1 (Const 0))]"

definition lt_chain_int_2 :: "halide_type \<Rightarrow> rule list" where
  "lt_chain_int_2 ty = [
    rewrite_if (lt (X div C1 * C1) X) (ne (X mod C1) (Const 0)) (gt C1 (Const 0)),
    rewrite_int_if (lt X (X div C1 * C1)) 0 (gt C1 (Const 0)),
    rewrite_int_if (lt ((X + C1) div C0) ((X + C2) div C0)) 0 (and_op (gt C0 (Const 0)) (ge C1 C2)),
    rewrite_int_if (lt ((X + C1) div C0) ((X + C2) div C0)) 1 (and_op (gt C0 (Const 0)) (le C1 (C2 - C0))),
    rewrite_int_if (lt (X div C0) ((X + C2) div C0)) 0 (and_op (gt C0 (Const 0)) (ge (Const 0) C2)),
    rewrite_int_if (lt (X div C0) ((X + C2) div C0)) 1 (and_op (gt C0 (Const 0)) (le (Const 0) (C2 - C0))),
    rewrite_int_if (lt ((X + C1) div C0) (X div C0)) 0 (and_op (gt C0 (Const 0)) (ge C1 (Const 0))),
    rewrite_int_if (lt ((X + C1) div C0) (X div C0)) 1 (and_op (gt C0 (Const 0)) (le C1 (Const 0 - C0))),
    rewrite_int_if (lt ((X + C1) div C0) (X div C0 + C2)) 0 (and_op (gt C0 (Const 0)) (ge C1 (C2 * C0))),
    rewrite_int_if (lt ((X + C1) div C0) (X div C0 + C2)) 1 (and_op (gt C0 (Const 0)) (le C1 (C2 * C0 - C0))),
    rewrite_int_if (lt ((X + C1) div C0) (pmin (X div C0) Y + C2)) 0 (and_op (gt C0 (Const 0)) (ge C1 (C2 * C0))),
    rewrite_int_if (lt ((X + C1) div C0) (pmax (X div C0) Y + C2)) 1 (and_op (gt C0 (Const 0)) (le C1 (C2 * C0 - C0))),
    rewrite_int_if (lt ((X + C1) div C0) (pmin ((X + C2) div C0) Y)) 0 (and_op (gt C0 (Const 0)) (ge C1 C2)),
    rewrite_int_if (lt ((X + C1) div C0) (pmax ((X + C2) div C0) Y)) 1 (and_op (gt C0 (Const 0)) (le C1 (C2 - C0))),
    rewrite_int_if (lt ((X + C1) div C0) (pmin (X div C0) Y)) 0 (and_op (gt C0 (Const 0)) (ge C1 (Const 0))),
    rewrite_int_if (lt ((X + C1) div C0) (pmax (X div C0) Y)) 1 (and_op (gt C0 (Const 0)) (le C1 (Const 0 - C0))),
    rewrite_int_if (lt ((X + C1) div C0) (pmin Y (X div C0) + C2)) 0 (and_op (gt C0 (Const 0)) (ge C1 (C2 * C0))),
    rewrite_int_if (lt ((X + C1) div C0) (pmax Y (X div C0) + C2)) 1 (and_op (gt C0 (Const 0)) (le C1 (C2 * C0 - C0))),
    rewrite_int_if (lt ((X + C1) div C0) (pmin Y ((X + C2) div C0))) 0 (and_op (gt C0 (Const 0)) (ge C1 C2)),
    rewrite_int_if (lt ((X + C1) div C0) (pmax Y ((X + C2) div C0))) 1 (and_op (gt C0 (Const 0)) (le C1 (C2 - C0))),
    rewrite_int_if (lt ((X + C1) div C0) (pmin Y (X div C0))) 0 (and_op (gt C0 (Const 0)) (ge C1 (Const 0))),
    rewrite_int_if (lt ((X + C1) div C0) (pmax Y (X div C0))) 1 (and_op (gt C0 (Const 0)) (le C1 (Const 0 - C0))),
    rewrite_int_if (lt (pmax ((X + C2) div C0) Y) ((X + C1) div C0)) 0 (and_op (gt C0 (Const 0)) (ge C2 C1)),
    rewrite_int_if (lt (pmin ((X + C2) div C0) Y) ((X + C1) div C0)) 1 (and_op (gt C0 (Const 0)) (le C2 (C1 - C0))),
    rewrite_int_if (lt (pmax (X div C0) Y) ((X + C1) div C0)) 0 (and_op (gt C0 (Const 0)) (ge (Const 0) C1)),
    rewrite_int_if (lt (pmin (X div C0) Y) ((X + C1) div C0)) 1 (and_op (gt C0 (Const 0)) (le (Const 0) (C1 - C0))),
    rewrite_int_if (lt (pmax Y ((X + C2) div C0)) ((X + C1) div C0)) 0 (and_op (gt C0 (Const 0)) (ge C2 C1)),
    rewrite_int_if (lt (pmin Y ((X + C2) div C0)) ((X + C1) div C0)) 1 (and_op (gt C0 (Const 0)) (le C2 (C1 - C0))),
    rewrite_int_if (lt (pmax Y (X div C0)) ((X + C1) div C0)) 0 (and_op (gt C0 (Const 0)) (ge (Const 0) C1)),
    rewrite_int_if (lt (pmin Y (X div C0)) ((X + C1) div C0)) 1 (and_op (gt C0 (Const 0)) (le (Const 0) (C1 - C0))),
    rewrite_int_if (lt (pmax ((X + C2) div C0) Y) (X div C0 + C1)) 0 (and_op (gt C0 (Const 0)) (ge C2 (C1 * C0))),
    rewrite_int_if (lt (pmin ((X + C2) div C0) Y) (X div C0 + C1)) 1 (and_op (gt C0 (Const 0)) (le C2 (C1 * C0 - C0))),
    rewrite_int_if (lt (pmax Y ((X + C2) div C0)) (X div C0 + C1)) 0 (and_op (gt C0 (Const 0)) (ge C2 (C1 * C0))),
    rewrite_int_if (lt (pmin Y ((X + C2) div C0)) (X div C0 + C1)) 1 (and_op (gt C0 (Const 0)) (le C2 (C1 * C0 - C0))),
    rewrite_int_if (lt (X div C0) (pmin ((X + C2) div C0) Y)) 0 (and_op (gt C0 (Const 0)) (lt C2 (Const 0))),
    rewrite_int_if (lt (X div C0) (pmax ((X + C2) div C0) Y)) 1 (and_op (gt C0 (Const 0)) (le C0 C2)),
    rewrite_int_if (lt (X div C0) (pmin Y ((X + C2) div C0))) 0 (and_op (gt C0 (Const 0)) (lt C2 (Const 0))),
    rewrite_int_if (lt (X div C0) (pmax Y ((X + C2) div C0))) 1 (and_op (gt C0 (Const 0)) (le C0 C2)),
    rewrite_int_if (lt (pmax ((X + C2) div C0) Y) (X div C0)) 0 (and_op (gt C0 (Const 0)) (ge C2 (Const 0))),
    rewrite_int_if (lt (pmin ((X + C2) div C0) Y) (X div C0)) 1 (and_op (gt C0 (Const 0)) (le (C2 + C0) (Const 0))),
    rewrite_int_if (lt (pmax Y ((X + C2) div C0)) (X div C0)) 0 (and_op (gt C0 (Const 0)) (ge C2 (Const 0))),
    rewrite_int_if (lt (pmin Y ((X + C2) div C0)) (X div C0)) 1 (and_op (gt C0 (Const 0)) (le (C2 + C0) (Const 0))),
    rewrite_if (lt (ramp (X * C3 + C2) C1) (broadcast (Z * C0))) (broadcast_n (lt (X * Fold (C3 div C0) + Fold (C2 div C0)) Z) (lanes ty)) (and_op (and_op (and_op (gt C0 (Const 0)) (eq (C3 mod C0) (Const 0))) (lt (C2 mod C0 + C1 * Const (int (lanes ty) - 1)) C0)) (ge (C2 mod C0 + C1 * Const (int (lanes ty) - 1)) (Const 0))),
    rewrite_if (lt (ramp (X * C3) C1) (broadcast (Z * C0))) (broadcast_n (lt (X * Fold (C3 div C0)) Z) (lanes ty)) (and_op (and_op (and_op (gt C0 (Const 0)) (eq (C3 mod C0) (Const 0))) (lt (C1 * Const (int (lanes ty) - 1)) C0)) (ge (C1 * Const (int (lanes ty) - 1)) (Const 0)))]"

definition lt_direct_rest :: "halide_type \<Rightarrow> rule list" where
  "lt_direct_rest ty =
     lt_direct_2 @ (if no_overflow ty then lt_direct_ramp ty else [])"

definition lt_chain :: "halide_type \<Rightarrow> halide_type \<Rightarrow> rule list" where
  "lt_chain ty t =
     lt_chain_broadcast ty @
     (if no_overflow t then
        lt_chain_wide_1 ty @
        (if is_int t then lt_chain_int_product else []) @
        (if is_float t then lt_chain_float_product else []) @
        lt_chain_wide_2 @
        (if is_int t then lt_chain_int_quotient else []) @
        (if is_float t then lt_chain_float_quotient else []) @
        lt_chain_wide_3 ty
      else []) @
     (if no_overflow_int t then lt_chain_int_1 @ lt_chain_int_2 ty else [])"

lemma lt_base_valid:
  "list_all (valid_rule P [a, b]) lt_direct_1"
  "list_all (valid_rule P [a, b]) lt_direct_2"
  "0 < lanes ty \<Longrightarrow> lanes ty < 2 ^ 14 \<Longrightarrow> list_all (valid_rule (in_lanes ty) [a, b]) (lt_chain_broadcast ty)"
  by ((unfold lt_direct_1_def lt_direct_2_def lt_chain_broadcast_def
        list.pred_inject(2) pat_ops,
      intro conjI list.pred_inject(1); rule valid_ruleI;
      simp add: rule_arith bool_simps cmp_val_def of_bool_def split del: if_split; (intro impI conjI)?; (elim conjE)?;
      (linarith))+)

lemma lt_wide_valid:
  "0 < lanes ty \<Longrightarrow> lanes ty < 2 ^ 14 \<Longrightarrow> no_overflow (etype a) \<Longrightarrow> list_all (valid_rule (in_lanes ty) [a, b]) (lt_chain_wide_1 ty)"
  "no_overflow (etype a) \<Longrightarrow> list_all (valid_rule P [a, b]) lt_chain_wide_2"
  "0 < lanes ty \<Longrightarrow> lanes ty < 2 ^ 14 \<Longrightarrow> no_overflow (etype a) \<Longrightarrow> list_all (valid_rule (in_lanes ty) [a, b]) (lt_chain_wide_3 ty)"
  by ((unfold lt_chain_wide_1_def lt_chain_wide_2_def lt_chain_wide_3_def
        list.pred_inject(2) pat_ops,
      intro conjI list.pred_inject(1); ((rule valid_cmp_wideI, assumption) | rule valid_ruleI);
      simp add: rule_arith bool_simps cmp_val_def of_bool_def split del: if_split; (intro impI conjI)?; (elim conjE)?;
      (linarith
      | (simp add: less_ediv_iff less_ediv_shift aligned_ramp algebra_simps; fail)))+)

lemma lt_int_valid:
  "no_overflow (etype a) \<Longrightarrow> list_all (valid_rule P [a, b]) lt_chain_int_product"
  "no_overflow (etype a) \<Longrightarrow> list_all (valid_rule P [a, b]) lt_chain_int_quotient"
  "no_overflow (etype a) \<Longrightarrow> list_all (valid_rule P [a, b]) lt_chain_int_1"
  by ((unfold lt_chain_int_product_def lt_chain_int_quotient_def lt_chain_int_1_def
        list.pred_inject(2) pat_ops,
      intro conjI list.pred_inject(1); ((rule valid_cmp_wideI, assumption) | rule valid_ruleI);
      simp add: rule_arith bool_simps cmp_val_def of_bool_def split del: if_split; (intro impI conjI)?; (elim conjE)?;
      ((simp add: emod_diff algebra_simps; fail)
      | (rule less_scaled, assumption; simp add: algebra_simps emod_0_mult; fail)
      | (simp add: less_ediv_iff less_ediv_shift mult.commute; linarith)))+)

lemma lt_quotients_valid:
  "0 < lanes ty \<Longrightarrow> lanes ty < 2 ^ 14 \<Longrightarrow> no_overflow (etype a) \<Longrightarrow> list_all (valid_rule (in_lanes ty) [a, b]) (lt_chain_int_2 ty)"
  by ((unfold lt_chain_int_2_def
        list.pred_inject(2) pat_ops,
      intro conjI list.pred_inject(1); ((rule valid_cmp_wideI, assumption) | rule valid_ruleI);
      simp add: rule_arith bool_simps cmp_val_def of_bool_def split del: if_split; (intro impI conjI)?; (elim conjE)?;
      ((simp add: ediv_less emod_nonzero stair not_less extremum_less; fail)
      | (simp add: less_ediv_iff less_ediv_shift aligned_ramp algebra_simps; fail)))+)

lemmas lt_rules_valid =
  lt_base_valid lt_wide_valid lt_int_valid lt_quotients_valid

lemma lt_limit_rules_valid:
  assumes "is_limit ty (ety_min (ety ty)) tmin" "is_limit ty (ety_max (ety ty)) tmax"
  shows "list_all (valid_rule in_bounds [a, b]) (lt_direct_limits tmin tmax)"
  unfolding lt_direct_limits_def list.pred_inject(2) pat_ops
  by (intro conjI list.pred_inject(1) valid_ruleI;
      use limit_typed [OF assms(1)] limit_typed [OF assms(2)] in
        \<open>auto simp: rule_simps knows_def in_bounds_def in_ety_limits limit_value [OF assms(1)]
           limit_value [OF assms(2)] cmp_val_def\<close>)

section \<open>The tables\<close>

lemma eq_table_valid:
  assumes "legal_type ty" "ety (etype a) = ety t"
  shows "list_all (valid_rule (in_lanes ty) [a, b]) (eq_chain ty t @ eq_chain_bound @ eq_direct)"
  using legal_lanes [of ty] assms no_overflow_cong [of "etype a" t]
  by (auto simp: eq_rules_valid eq_chain_def list_all_append)

text \<open>A comparison has a type of truth values, which is not one without overflow.\<close>

lemma lt_direct_rest_bool: "is_bool ty \<Longrightarrow> lt_direct_rest ty = lt_direct_2"
  by (simp add: lt_direct_rest_def no_overflow_def no_overflow_int_def is_float_def is_int_def is_bool_def)

lemma lt_table_valid:
  assumes "legal_type ty" "is_bool ty" "ety (etype a) = ety t" "is_num t"
  shows "list_all (valid_rule (in_lanes ty) [a, b]) (lt_direct_1 @ lt_direct_rest ty @ lt_chain ty t)"
  using legal_lanes [of ty] assms no_overflow_cong [of "etype a" t]
  by (auto simp: lt_rules_valid lt_direct_rest_bool lt_chain_def list_all_append no_overflow_intD is_num_def
      is_float_def is_int_def is_uint_def)

end
