(* ===== verification/RulesBool.thy ===== *)
theory RulesBool
  imports Limits
begin

text \<open>
  The rewrite rules of the logical operators and of selection. \<open>ty\<close> is the type of the
  node; conditions and logical operands are truth values.
\<close>

section \<open>Conjunction (Simplify_And.cpp)\<close>

definition and_direct :: "expr \<Rightarrow> expr \<Rightarrow> rule list" where
  "and_direct a b = [
    rewrite_expr (and_op X (Const 1)) a,
    rewrite_expr (and_op X (Const 0)) b,
    rewrite_expr (and_op X X) a,
    rewrite_expr (and_op (and_op X Y) X) a,
    rewrite_expr (and_op X (and_op X Y)) b,
    rewrite_expr (and_op (and_op X Y) Y) a,
    rewrite_expr (and_op Y (and_op X Y)) b,
    rewrite_expr (and_op (and_op (and_op X Y) Z) X) a,
    rewrite_expr (and_op X (and_op (and_op X Y) Z)) b,
    rewrite_expr (and_op (and_op Z (and_op X Y)) X) a,
    rewrite_expr (and_op X (and_op Z (and_op X Y))) b,
    rewrite_expr (and_op (and_op (and_op X Y) Z) Y) a,
    rewrite_expr (and_op Y (and_op (and_op X Y) Z)) b,
    rewrite_expr (and_op (and_op Z (and_op X Y)) Y) a,
    rewrite_expr (and_op Y (and_op Z (and_op X Y))) b,
    rewrite_expr (and_op (or_op X Y) X) b,
    rewrite_expr (and_op X (or_op X Y)) a,
    rewrite_expr (and_op (or_op X Y) Y) b,
    rewrite_expr (and_op Y (or_op X Y)) a,
    rewrite_int (and_op (ne X Y) (eq X Y)) 0,
    rewrite_int (and_op (ne X Y) (eq Y X)) 0,
    rewrite_int (and_op (and_op Z (ne X Y)) (eq X Y)) 0,
    rewrite_int (and_op (and_op Z (ne X Y)) (eq Y X)) 0,
    rewrite_int (and_op (and_op (ne X Y) Z) (eq X Y)) 0,
    rewrite_int (and_op (and_op (ne X Y) Z) (eq Y X)) 0,
    rewrite_int (and_op (and_op Z (eq X Y)) (ne X Y)) 0,
    rewrite_int (and_op (and_op Z (eq X Y)) (ne Y X)) 0,
    rewrite_int (and_op (and_op (eq X Y) Z) (ne X Y)) 0,
    rewrite_int (and_op (and_op (eq X Y) Z) (ne Y X)) 0,
    rewrite_int (and_op X (not_op X)) 0,
    rewrite_int (and_op (not_op X) X) 0,
    rewrite_int (and_op (le Y X) (lt X Y)) 0,
    rewrite_expr_if (and_op (ne X C0) (eq X C1)) b (ne C0 C1),
    rewrite_int_if (and_op (lt C0 X) (lt X C1)) 0 (and_op (not_op (IsFloat X)) (le C1 (C0 + Const 1))),
    rewrite_int_if (and_op (lt X C1) (lt C0 X)) 0 (and_op (not_op (IsFloat X)) (le C1 (C0 + Const 1))),
    rewrite_int_if (and_op (le X C1) (lt C0 X)) 0 (le C1 C0),
    rewrite_int_if (and_op (le C0 X) (lt X C1)) 0 (le C1 C0),
    rewrite_int_if (and_op (le C0 X) (le X C1)) 0 (lt C1 C0),
    rewrite_int_if (and_op (le X C1) (le C0 X)) 0 (lt C1 C0),
    rewrite (and_op (lt C0 X) (lt C1 X)) (lt (Fold (pmax C0 C1)) X),
    rewrite (and_op (le C0 X) (le C1 X)) (le (Fold (pmax C0 C1)) X),
    rewrite (and_op (lt X C0) (lt X C1)) (lt X (Fold (pmin C0 C1))),
    rewrite (and_op (le X C0) (le X C1)) (le X (Fold (pmin C0 C1)))]"

definition and_chain :: "halide_type \<Rightarrow> rule list" where
  "and_chain ty = [
    rewrite (and_op (broadcast X) (broadcast Y)) (broadcast_n (and_op X Y) (lanes ty)),
    rewrite (and_op (or_op X (and_op Y Z)) Y) (and_op (or_op X Z) Y),
    rewrite (and_op (or_op X (and_op Z Y)) Y) (and_op (or_op X Z) Y),
    rewrite (and_op Y (or_op X (and_op Y Z))) (and_op Y (or_op X Z)),
    rewrite (and_op Y (or_op X (and_op Z Y))) (and_op Y (or_op X Z)),
    rewrite (and_op (or_op (and_op Y Z) X) Y) (and_op (or_op Z X) Y),
    rewrite (and_op (or_op (and_op Z Y) X) Y) (and_op (or_op Z X) Y),
    rewrite (and_op Y (or_op (and_op Y Z) X)) (and_op Y (or_op Z X)),
    rewrite (and_op Y (or_op (and_op Z Y) X)) (and_op Y (or_op Z X)),
    rewrite (and_op (and_op X (or_op Y Z)) Y) (and_op X Y),
    rewrite (and_op (and_op X (or_op Z Y)) Y) (and_op X Y),
    rewrite (and_op Y (and_op X (or_op Y Z))) (and_op Y X),
    rewrite (and_op Y (and_op X (or_op Z Y))) (and_op Y X),
    rewrite (and_op (and_op (or_op Y Z) X) Y) (and_op X Y),
    rewrite (and_op (and_op (or_op Z Y) X) Y) (and_op X Y),
    rewrite (and_op Y (and_op (or_op Y Z) X)) (and_op Y X),
    rewrite (and_op Y (and_op (or_op Z Y) X)) (and_op Y X),
    rewrite (and_op (or_op X Y) (or_op X Z)) (or_op X (and_op Y Z)),
    rewrite (and_op (or_op X Y) (or_op Z X)) (or_op X (and_op Y Z)),
    rewrite (and_op (or_op Y X) (or_op X Z)) (or_op X (and_op Y Z)),
    rewrite (and_op (or_op Y X) (or_op Z X)) (or_op X (and_op Y Z))]"

lemma and_rules_valid:
  "list_all (valid_rule P [a, b]) (and_direct a b)"
  "0 < lanes ty \<Longrightarrow> lanes ty < 2 ^ 14 \<Longrightarrow> list_all (valid_rule (in_lanes ty) [a, b]) (and_chain ty)"
  by ((unfold and_direct_def and_chain_def
        list.pred_inject(2) pat_ops,
      intro conjI list.pred_inject(1); rule valid_ruleI;
      simp add: rule_arith bool_simps cmp_val_def of_bool_def split del: if_split; (intro impI)?; (elim conjE)?;
      (linarith
      | (drule nrm_succ_leD; auto simp: ctx_okD; fail)))+)

section \<open>Disjunction (Simplify_Or.cpp)\<close>

definition or_direct :: "expr \<Rightarrow> expr \<Rightarrow> rule list" where
  "or_direct a b = [
    rewrite_expr (or_op X (Const 1)) b,
    rewrite_expr (or_op X (Const 0)) a,
    rewrite_expr (or_op X X) a,
    rewrite_expr (or_op (or_op X Y) X) a,
    rewrite_expr (or_op X (or_op X Y)) b,
    rewrite_expr (or_op (or_op X Y) Y) a,
    rewrite_expr (or_op Y (or_op X Y)) b,
    rewrite_expr (or_op (or_op (or_op X Y) Z) X) a,
    rewrite_expr (or_op X (or_op (or_op X Y) Z)) b,
    rewrite_expr (or_op (or_op Z (or_op X Y)) X) a,
    rewrite_expr (or_op X (or_op Z (or_op X Y))) b,
    rewrite_expr (or_op (or_op (or_op X Y) Z) Y) a,
    rewrite_expr (or_op Y (or_op (or_op X Y) Z)) b,
    rewrite_expr (or_op (or_op Z (or_op X Y)) Y) a,
    rewrite_expr (or_op Y (or_op Z (or_op X Y))) b,
    rewrite_expr (or_op (and_op X Y) X) b,
    rewrite_expr (or_op X (and_op X Y)) a,
    rewrite_expr (or_op (and_op X Y) Y) b,
    rewrite_expr (or_op Y (and_op X Y)) a,
    rewrite_expr (or_op (or_op (or_op X Y) Z) X) a,
    rewrite_expr (or_op X (or_op (or_op X Y) Z)) b,
    rewrite_expr (or_op (or_op Z (or_op X Y)) X) a,
    rewrite_expr (or_op X (or_op Z (or_op X Y))) b,
    rewrite_expr (or_op (or_op (or_op X Y) Z) Y) a,
    rewrite_expr (or_op Y (or_op (or_op X Y) Z)) b,
    rewrite_expr (or_op (or_op Z (or_op X Y)) Y) a,
    rewrite_expr (or_op Y (or_op Z (or_op X Y))) b,
    rewrite_int (or_op (ne X Y) (eq X Y)) 1,
    rewrite_int (or_op (ne X Y) (eq Y X)) 1,
    rewrite_int (or_op (or_op Z (ne X Y)) (eq X Y)) 1,
    rewrite_int (or_op (or_op Z (ne X Y)) (eq Y X)) 1,
    rewrite_int (or_op (or_op (ne X Y) Z) (eq X Y)) 1,
    rewrite_int (or_op (or_op (ne X Y) Z) (eq Y X)) 1,
    rewrite_int (or_op (or_op Z (eq X Y)) (ne X Y)) 1,
    rewrite_int (or_op (or_op Z (eq X Y)) (ne Y X)) 1,
    rewrite_int (or_op (or_op (eq X Y) Z) (ne X Y)) 1,
    rewrite_int (or_op (or_op (eq X Y) Z) (ne Y X)) 1,
    rewrite_int (or_op X (not_op X)) 1,
    rewrite_int (or_op (not_op X) X) 1,
    rewrite_int (or_op (le Y X) (lt X Y)) 1,
    rewrite_expr_if (or_op (ne X C0) (eq X C1)) a (ne C0 C1),
    rewrite_int_if (or_op (le X C0) (le C1 X)) 1 (and_op (not_op (IsFloat X)) (le C1 (C0 + Const 1))),
    rewrite_int_if (or_op (le C1 X) (le X C0)) 1 (and_op (not_op (IsFloat X)) (le C1 (C0 + Const 1))),
    rewrite_int_if (or_op (le X C0) (lt C1 X)) 1 (le C1 C0),
    rewrite_int_if (or_op (le C1 X) (lt X C0)) 1 (le C1 C0),
    rewrite_int_if (or_op (lt X C0) (lt C1 X)) 1 (lt C1 C0),
    rewrite_int_if (or_op (lt C1 X) (lt X C0)) 1 (lt C1 C0),
    rewrite (or_op (lt C0 X) (lt C1 X)) (lt (Fold (pmin C0 C1)) X),
    rewrite (or_op (le C0 X) (le C1 X)) (le (Fold (pmin C0 C1)) X),
    rewrite (or_op (lt X C0) (lt X C1)) (lt X (Fold (pmax C0 C1))),
    rewrite (or_op (le X C0) (le X C1)) (le X (Fold (pmax C0 C1)))]"

definition or_chain :: "halide_type \<Rightarrow> rule list" where
  "or_chain ty = [
    rewrite (or_op (broadcast X) (broadcast Y)) (broadcast_n (or_op X Y) (lanes ty)),
    rewrite (or_op (and_op X (or_op Y Z)) Y) (or_op (and_op X Z) Y),
    rewrite (or_op (and_op X (or_op Z Y)) Y) (or_op (and_op X Z) Y),
    rewrite (or_op Y (and_op X (or_op Y Z))) (or_op Y (and_op X Z)),
    rewrite (or_op Y (and_op X (or_op Z Y))) (or_op Y (and_op X Z)),
    rewrite (or_op (and_op (or_op Y Z) X) Y) (or_op (and_op Z X) Y),
    rewrite (or_op (and_op (or_op Z Y) X) Y) (or_op (and_op Z X) Y),
    rewrite (or_op Y (and_op (or_op Y Z) X)) (or_op Y (and_op Z X)),
    rewrite (or_op Y (and_op (or_op Z Y) X)) (or_op Y (and_op Z X)),
    rewrite (or_op (or_op X (and_op Y Z)) Y) (or_op X Y),
    rewrite (or_op (or_op X (and_op Z Y)) Y) (or_op X Y),
    rewrite (or_op Y (or_op X (and_op Y Z))) (or_op Y X),
    rewrite (or_op Y (or_op X (and_op Z Y))) (or_op Y X),
    rewrite (or_op (or_op (and_op Y Z) X) Y) (or_op X Y),
    rewrite (or_op (or_op (and_op Z Y) X) Y) (or_op X Y),
    rewrite (or_op Y (or_op (and_op Y Z) X)) (or_op Y X),
    rewrite (or_op Y (or_op (and_op Z Y) X)) (or_op Y X),
    rewrite (or_op (and_op X Y) (and_op X Z)) (and_op X (or_op Y Z)),
    rewrite (or_op (and_op X Y) (and_op Z X)) (and_op X (or_op Y Z)),
    rewrite (or_op (and_op Y X) (and_op X Z)) (and_op X (or_op Y Z)),
    rewrite (or_op (and_op Y X) (and_op Z X)) (and_op X (or_op Y Z))]"

lemma or_rules_valid:
  "list_all (valid_rule P [a, b]) (or_direct a b)"
  "0 < lanes ty \<Longrightarrow> lanes ty < 2 ^ 14 \<Longrightarrow> list_all (valid_rule (in_lanes ty) [a, b]) (or_chain ty)"
  by ((unfold or_direct_def or_chain_def
        list.pred_inject(2) pat_ops,
      intro conjI list.pred_inject(1); rule valid_ruleI;
      simp add: rule_arith bool_simps cmp_val_def of_bool_def split del: if_split; (intro impI)?; (elim conjE)?;
      (linarith
      | (drule nrm_succ_leD; auto simp: ctx_okD; fail)))+)

section \<open>Negation (Simplify_Not.cpp)\<close>

definition not_direct :: "rule list" where
  "not_direct = [
    rewrite (not_op C0) (Fold (not_op C0)),
    rewrite (not_op (lt X Y)) (le Y X),
    rewrite (not_op (le X Y)) (lt Y X),
    rewrite (not_op (gt X Y)) (ge Y X),
    rewrite (not_op (ge X Y)) (gt Y X),
    rewrite (not_op (eq X Y)) (ne X Y),
    rewrite (not_op (ne X Y)) (eq X Y),
    rewrite (not_op (not_op X)) X]"

definition not_chain :: "halide_type \<Rightarrow> rule list" where
  "not_chain ty = [
    rewrite (not_op (broadcast X)) (broadcast_n (not_op X) (lanes ty)),
    rewrite (not_op (Intrin ''likely'' [X])) (Intrin ''likely'' [not_op X]),
    rewrite (not_op (Intrin ''likely_if_innermost'' [X])) (Intrin ''likely_if_innermost'' [not_op X])]"

lemma not_rules_valid:
  "list_all (valid_rule P []) not_direct"
  "0 < lanes ty \<Longrightarrow> lanes ty < 2 ^ 14 \<Longrightarrow> list_all (valid_rule (in_lanes ty) []) (not_chain ty)"
  by ((unfold not_direct_def not_chain_def
        list.pred_inject(2) pat_ops,
      intro conjI list.pred_inject(1); rule valid_ruleI;
      simp add: rule_arith bool_simps cmp_val_def of_bool_def split del: if_split; (intro impI)?; (elim conjE)?;
      ((auto simp: min_def max_def; fail)
      | (drule nrm_succ_leD; auto simp: ctx_okD; fail)))+)

section \<open>Selection (Simplify_Select.cpp)\<close>

definition select_direct :: "expr \<Rightarrow> expr \<Rightarrow> rule list" where
  "select_direct true_value false_value = [
    rewrite (select (Intrin ''likely'' [Const 1]) X Y) X,
    rewrite (select (Intrin ''likely'' [Const 0]) X Y) Y,
    rewrite (select (Intrin ''likely_if_innermost'' [Const 1]) X Y) X,
    rewrite (select (Intrin ''likely_if_innermost'' [Const 0]) X Y) Y,
    rewrite (select (Const 1) X Y) X,
    rewrite (select (Const 0) X Y) Y,
    rewrite (select X Y Y) Y,
    rewrite_expr (select X (Intrin ''likely'' [Y]) Y) true_value,
    rewrite_expr (select X Y (Intrin ''likely'' [Y])) false_value,
    rewrite_expr (select X (Intrin ''likely_if_innermost'' [Y]) Y) true_value,
    rewrite_expr (select X Y (Intrin ''likely_if_innermost'' [Y])) false_value,
    rewrite (select X Y Indeterminate) Y,
    rewrite (select X Indeterminate Y) Y]"

definition select_chain_any :: "rule list" where
  "select_chain_any = [
    rewrite (select (broadcast X) Y Z) (select X Y Z),
    rewrite (select (ne X Y) Z W) (select (eq X Y) W Z),
    rewrite (select (le X Y) Z W) (select (lt Y X) W Z),
    rewrite (select X (select Y Z W) Z) (select (and_op X (not_op Y)) W Z),
    rewrite (select X (select Y Z W) W) (select (and_op X Y) Z W),
    rewrite (select X Y (select Z Y W)) (select (or_op X Z) Y W),
    rewrite (select X Y (select Z W Y)) (select (or_op X (not_op Z)) Y W),
    rewrite (select X (select X Y Z) W) (select X Y W),
    rewrite (select X Y (select X Z W)) (select X Y W),
    rewrite (select X (Y + Z) (Y + W)) (Y + select X Z W),
    rewrite (select X (Y + Z) (W + Y)) (Y + select X Z W),
    rewrite (select X (Z + Y) (Y + W)) (Y + select X Z W),
    rewrite (select X (Z + Y) (W + Y)) (select X Z W + Y),
    rewrite (select X (Y - Z) (Y - W)) (Y - select X Z W),
    rewrite (select X (Y - Z) (Y + W)) (Y + select X (- Z) W),
    rewrite (select X (Y + Z) (Y - W)) (Y + select X Z (- W)),
    rewrite (select X (Y - Z) (W + Y)) (Y + select X (- Z) W),
    rewrite (select X (Z + Y) (Y - W)) (Y + select X Z (- W)),
    rewrite (select X (Z - Y) (W - Y)) (select X Z W - Y),
    rewrite (select X (Y * Z) (Y * W)) (Y * select X Z W),
    rewrite (select X (Y * Z) (W * Y)) (Y * select X Z W),
    rewrite (select X (Z * Y) (Y * W)) (Y * select X Z W),
    rewrite (select X (Z * Y) (W * Y)) (select X Z W * Y),
    rewrite (select (lt X Y) X Y) (pmin X Y),
    rewrite (select (lt X Y) Y X) (pmax X Y)]"

definition select_chain_int :: "rule list" where
  "select_chain_int = [
    rewrite_if (select X (Y * C0) C1) (select X Y (Fold (C1 div C0)) * C0) (eq (C1 mod C0) (Const 0)),
    rewrite_if (select X C0 (Y * C1)) (select X (Fold (C0 div C1)) Y * C1) (eq (C0 mod C1) (Const 0)),
    rewrite_if (select (lt C0 X) (X + C1) C2) (pmax (X + C1) C2) (or_op (eq C2 (C0 + C1)) (eq C2 (C0 + C1 + Const 1))),
    rewrite_if (select (lt X C0) C1 (X + C2)) (pmax (X + C2) C1) (or_op (eq C1 (C0 + C2)) (eq (C1 + Const 1) (C0 + C2))),
    rewrite_if (select (lt C0 X) C1 (X + C2)) (pmin (X + C2) C1) (or_op (eq C1 (C0 + C2)) (eq C1 (C0 + C2 + Const 1))),
    rewrite_if (select (lt X C0) (X + C1) C2) (pmin (X + C1) C2) (or_op (eq C2 (C0 + C1)) (eq (C2 + Const 1) (C0 + C1))),
    rewrite_if (select (lt C0 X) X C1) (pmax X C1) (eq C1 (C0 + Const 1)),
    rewrite_if (select (lt X C0) C1 X) (pmax X C1) (eq (C1 + Const 1) C0),
    rewrite_if (select (lt C0 X) C1 X) (pmin X C1) (eq C1 (C0 + Const 1)),
    rewrite_if (select (lt X C0) X C1) (pmin X C1) (eq (C1 + Const 1) C0)]"

definition select_chain_bool :: "halide_type \<Rightarrow> rule list" where
  "select_chain_bool ty = [
    rewrite (select X (Const 1) (Const 0)) (CastOp ty X),
    rewrite (select X (Const 0) (Const 1)) (CastOp ty (not_op X)),
    rewrite (select X Y (Const 0)) (and_op X Y),
    rewrite (select X Y (Const 1)) (or_op (not_op X) Y),
    rewrite (select X (Const 0) Y) (and_op (not_op X) Y),
    rewrite (select X (Const 1) Y) (or_op X Y)]"

definition select_chain :: "halide_type \<Rightarrow> rule list" where
  "select_chain ty =
     select_chain_any @ (if no_overflow_int ty then select_chain_int else []) @
     (if is_bool ty then select_chain_bool ty else [])"

lemma select_rules_valid:
  "list_all (valid_rule P [c, true_value, false_value]) (select_direct true_value false_value)"
  "list_all (valid_rule P [c, true_value, false_value]) select_chain_any"
  "no_overflow (etype a) \<Longrightarrow> list_all (valid_rule P [c, a, b]) select_chain_int"
  "legal_type ty \<Longrightarrow> ety ty = bool_ety \<Longrightarrow> ety (etype a) = bool_ety \<Longrightarrow> list_all (valid_rule (in_lanes ty) [c, a, b]) (select_chain_bool ty)"
  by ((unfold select_direct_def select_chain_any_def select_chain_int_def select_chain_bool_def
        list.pred_inject(2) pat_ops,
      intro conjI list.pred_inject(1); ((rule valid_sel_wideI, assumption) | rule valid_ruleI);
      simp add: rule_arith cmp_val_def wty_order bool_simps; (intro impI conjI)?; (elim conjE)?;
      ((auto simp: bool_cast ctx_okD(1) dest: bool_wild(1); fail)))+)

section \<open>The tables\<close>

lemma and_table_valid:
  assumes "legal_type ty" "ety (etype a) = ety ty"
  shows "list_all (valid_rule (in_lanes ty) [a, b]) (and_direct a b @ and_chain ty)"
  using legal_lanes [of ty] assms no_overflow_cong [of "etype a" ty]
  by (auto simp: and_rules_valid list_all_append no_overflow_intD)

lemma or_table_valid:
  assumes "legal_type ty" "ety (etype a) = ety ty"
  shows "list_all (valid_rule (in_lanes ty) [a, b]) (or_direct a b @ or_chain ty)"
  using legal_lanes [of ty] assms no_overflow_cong [of "etype a" ty]
  by (auto simp: or_rules_valid list_all_append no_overflow_intD)

lemma not_table_valid:
  assumes "legal_type ty"
  shows "list_all (valid_rule (in_lanes ty) []) (not_direct @ not_chain ty)"
  using legal_lanes [of ty] assms
  by (auto simp: not_rules_valid list_all_append no_overflow_intD)

lemma select_table_valid:
  assumes "legal_type ty" "ety (etype a) = ety ty"
  shows "list_all (valid_rule (in_lanes ty) [c, a, b]) (select_direct a b @ select_chain ty)"
  using legal_lanes [of ty] assms no_overflow_cong [of "etype a" ty]
  by (auto simp: select_rules_valid select_chain_def is_bool_ety list_all_append no_overflow_intD)

text \<open>C13: A table rewrite of a conjunction keeps well-formedness, the element type and the value, in
  every lane in which the node has one, whatever the types of the operands, if the prover
  asked for side conditions is sound and no folded constant overflowed.\<close>

theorem and_rewrites_sound:
  assumes "apply_rules F prover (and_direct a b @ and_chain (etype a)) (And a b) (etype a) s = Some (Some e, s')"
    and "\<not> tainted s'" "wf (And a b)" "l < lanes (etype a)" "eval env (And a b) l = Some v"
    and "sound_prover I env l prover" "I s"
  shows "wf e \<and> ety (etype e) = ety (etype a) \<and> eval env e l = Some v"
  using table_sound [OF _ assms(1-3) _ _ assms(4-7)] and_table_valid [of "etype a" a b] wf_legal [of a] assms(3)
  by simp

theorem and_rewrites_sound_witness:
  "apply_rules no_floats ask (and_direct (LT var_x (num 3)) (LT var_x (num 7)) @ and_chain u1) (And (LT var_x (num 3)) (LT var_x (num 7))) u1 idle = Some (Some (LT var_x (num 3)), idle) \<and>
   eval sample (LT var_x (num 3)) 0 = Some 0"
proof (rule conjI)
  show r: "apply_rules no_floats ask (and_direct (LT var_x (num 3)) (LT var_x (num 7)) @ and_chain u1) (And (LT var_x (num 3)) (LT var_x (num 7))) u1 idle = Some (Some (LT var_x (num 3)), idle)"
    by (simp add: and_direct_def and_chain_def samples run_rules)
  show "eval sample (LT var_x (num 3)) 0 = Some 0"
    using and_rewrites_sound [of no_floats ask "LT var_x (num 3)" "LT var_x (num 7)" idle "(LT var_x (num 3))" idle 0 sample 0 "\<lambda>s. True"] r ask_sound
    by (simp add: samples run_eval)
qed

text \<open>C14: A table rewrite of a disjunction keeps well-formedness, the element type and the value, in
  every lane in which the node has one, whatever the types of the operands, if the prover
  asked for side conditions is sound and no folded constant overflowed.\<close>

theorem or_rewrites_sound:
  assumes "apply_rules F prover (or_direct a b @ or_chain (etype a)) (Or a b) (etype a) s = Some (Some e, s')"
    and "\<not> tainted s'" "wf (Or a b)" "l < lanes (etype a)" "eval env (Or a b) l = Some v"
    and "sound_prover I env l prover" "I s"
  shows "wf e \<and> ety (etype e) = ety (etype a) \<and> eval env e l = Some v"
  using table_sound [OF _ assms(1-3) _ _ assms(4-7)] or_table_valid [of "etype a" a b] wf_legal [of a] assms(3)
  by simp

theorem or_rewrites_sound_witness:
  "apply_rules no_floats ask (or_direct (LT var_x (num 3)) (LT var_x (num 7)) @ or_chain u1) (Or (LT var_x (num 3)) (LT var_x (num 7))) u1 idle = Some (Some (LT var_x (num 7)), idle) \<and>
   eval sample (LT var_x (num 7)) 0 = Some 1"
proof (rule conjI)
  show r: "apply_rules no_floats ask (or_direct (LT var_x (num 3)) (LT var_x (num 7)) @ or_chain u1) (Or (LT var_x (num 3)) (LT var_x (num 7))) u1 idle = Some (Some (LT var_x (num 7)), idle)"
    by (simp add: or_direct_def or_chain_def samples run_rules)
  show "eval sample (LT var_x (num 7)) 0 = Some 1"
    using or_rewrites_sound [of no_floats ask "LT var_x (num 3)" "LT var_x (num 7)" idle "(LT var_x (num 7))" idle 0 sample 1 "\<lambda>s. True"] r ask_sound
    by (simp add: samples run_eval)
qed

text \<open>C15: A table rewrite of a negation keeps well-formedness, the element type and the value, in
  every lane in which the node has one, whatever the types of the operands, if the prover
  asked for side conditions is sound and no folded constant overflowed.\<close>

theorem not_rewrites_sound:
  assumes "apply_rules F prover (not_direct @ not_chain (BoolT (lanes (etype a)))) (NotE a) (BoolT (lanes (etype a))) s = Some (Some e, s')"
    and "\<not> tainted s'" "wf (NotE a)" "l < lanes (BoolT (lanes (etype a)))" "eval env (NotE a) l = Some v"
    and "sound_prover I env l prover" "I s"
  shows "wf e \<and> ety (etype e) = ety (BoolT (lanes (etype a))) \<and> eval env e l = Some v"
  using table_sound [OF _ assms(1-3) _ _ assms(4-7)] not_table_valid [of "BoolT (lanes (etype a))"] wf_legal [of "NotE a"] assms(3)
  by simp

theorem not_rewrites_sound_witness:
  "apply_rules no_floats ask (not_direct @ not_chain u1) (NotE (LT var_x var_y)) u1 idle = Some (Some (LE var_y var_x), idle) \<and>
   eval sample (LE var_y var_x) 0 = Some 0"
proof (rule conjI)
  show r: "apply_rules no_floats ask (not_direct @ not_chain u1) (NotE (LT var_x var_y)) u1 idle = Some (Some (LE var_y var_x), idle)"
    by (simp add: not_direct_def not_chain_def samples run_rules)
  show "eval sample (LE var_y var_x) 0 = Some 0"
    using not_rewrites_sound [of no_floats ask "LT var_x var_y" idle "(LE var_y var_x)" idle 0 sample 0 "\<lambda>s. True"] r ask_sound
    by (simp add: samples run_eval)
qed

text \<open>C16: A table rewrite of a selection keeps well-formedness, the element type and the value, in
  every lane in which the node has one, whatever the types of the operands, if the prover
  asked for side conditions is sound and no folded constant overflowed.\<close>

theorem select_rewrites_sound:
  assumes "apply_rules F prover (select_direct a b @ select_chain (etype a)) (Select c a b) (etype a) s = Some (Some e, s')"
    and "\<not> tainted s'" "wf (Select c a b)" "l < lanes (etype a)" "eval env (Select c a b) l = Some v"
    and "sound_prover I env l prover" "I s"
  shows "wf e \<and> ety (etype e) = ety (etype a) \<and> eval env e l = Some v"
  using table_sound [OF _ assms(1-3) _ _ assms(4-7)] select_table_valid [of "etype a" a c b] wf_legal [of a] assms(3)
  by simp

theorem select_rewrites_sound_witness:
  "apply_rules no_floats ask (select_direct var_x var_y @ select_chain i32) (Select (NE var_x var_y) var_x var_y) i32 idle = Some (Some (Select (EQ var_x var_y) var_y var_x), idle) \<and>
   eval sample (Select (EQ var_x var_y) var_y var_x) 0 = Some 5"
proof (rule conjI)
  show r: "apply_rules no_floats ask (select_direct var_x var_y @ select_chain i32) (Select (NE var_x var_y) var_x var_y) i32 idle = Some (Some (Select (EQ var_x var_y) var_y var_x), idle)"
    by (simp add: select_direct_def select_chain_def select_chain_any_def select_chain_int_def samples run_rules)
  show "eval sample (Select (EQ var_x var_y) var_y var_x) 0 = Some 5"
    using select_rewrites_sound [of no_floats ask var_x var_y "NE var_x var_y" idle "(Select (EQ var_x var_y) var_y var_x)" idle 0 sample 5 "\<lambda>s. True"] r ask_sound
    by (simp add: samples run_eval)
qed

end
