(* ===== verification/Scope.thy ===== *)
theory Scope
  imports Prelude "HOL-Library.Multiset"
begin

text \<open>
  \<open>Scope.h\<close>: a table from names to stacks of values, in which a new binding of a name
  hides the older ones until it is popped. A scope may have a containing scope, which
  lookups fall back to. The abstract view is a function from names to lists; the locale
  \<open>name_stacks\<close> is what users of a scope rely on.
\<close>

section \<open>SmallStack\<close>

text \<open>\<open>_top\<close> is \<open>None\<close> where the code holds the default value \<open>T()\<close>.\<close>

record 'a small_stack =
  stack_top :: "'a option"
  stack_rest :: "'a list"
  stack_empty :: bool

definition small_stack_new :: "'a small_stack" where
  "small_stack_new = \<lparr>stack_top = None, stack_rest = [], stack_empty = True\<rparr>"

definition small_stack_pop :: "'a small_stack \<Rightarrow> 'a small_stack" where
  "small_stack_pop st =
     (if stack_rest st = [] then st\<lparr>stack_empty := True, stack_top := None\<rparr>
      else st\<lparr>stack_top := Some (last (stack_rest st)), stack_rest := butlast (stack_rest st)\<rparr>)"

definition small_stack_push :: "'a \<Rightarrow> 'a small_stack \<Rightarrow> 'a small_stack" where
  "small_stack_push x st =
     (let st = (if stack_empty st then st\<lparr>stack_empty := False\<rparr>
                else (case stack_top st of
                        Some y \<Rightarrow> st\<lparr>stack_rest := stack_rest st @ [y]\<rparr> | None \<Rightarrow> st))
      in st\<lparr>stack_top := Some x\<rparr>)"

text \<open>The list of a stack, its top first, and what the operations keep of its representation.\<close>

definition stack_list :: "'a small_stack \<Rightarrow> 'a list" where
  "stack_list st = (if stack_empty st then [] else the (stack_top st) # rev (stack_rest st))"

definition stack_ok :: "'a small_stack \<Rightarrow> bool" where
  "stack_ok st \<longleftrightarrow>
     (if stack_empty st then stack_top st = None \<and> stack_rest st = [] else stack_top st \<noteq> None)"

lemmas small_stack_defs =
  small_stack_new_def small_stack_pop_def small_stack_push_def stack_list_def stack_ok_def

lemma small_stack_new: "stack_ok small_stack_new" "stack_list small_stack_new = []"
  by (simp_all add: small_stack_defs)

lemma small_stack_push:
  "stack_ok st \<Longrightarrow> stack_ok (small_stack_push x st)"
  "stack_ok st \<Longrightarrow> stack_list (small_stack_push x st) = x # stack_list st"
  "stack_empty (small_stack_push x st) = False"
  by (auto simp: small_stack_defs Let_def split: option.splits if_splits)

lemma small_stack_pop:
  "stack_ok st \<Longrightarrow> stack_ok (small_stack_pop st)"
  "stack_ok st \<Longrightarrow> stack_list (small_stack_pop st) = tl (stack_list st)"
  by (auto simp: small_stack_defs last_rev hd_rev rev_eq_Cons_iff split: if_splits)
     (metis append_butlast_last_id rev.simps(2) rev_append append_Cons append_Nil rev_rev_ident)+

lemma stack_list_empty: "stack_list st = [] \<longleftrightarrow> stack_empty st"
  by (simp add: stack_list_def)

lemma stack_list_inject: "stack_ok st \<Longrightarrow> stack_ok st' \<Longrightarrow> stack_list st = stack_list st' \<Longrightarrow> st = st'"
  by (auto simp: small_stack_defs split: if_splits)

text \<open>A stack of voids only counts.\<close>

definition void_pop :: "int \<Rightarrow> int" where "void_pop counter = counter - 1"
definition void_push :: "int \<Rightarrow> int" where "void_push counter = counter + 1"
definition void_empty :: "int \<Rightarrow> bool" where "void_empty counter \<longleftrightarrow> counter = 0"

section \<open>Scope\<close>

datatype 'a scope =
  Scope (scope_table: "string \<Rightarrow> 'a small_stack option") (containing_scope: "'a scope option")

definition empty_scope :: "'a scope" where
  "empty_scope = Scope Map.empty None"

definition set_containing_scope :: "'a scope option \<Rightarrow> 'a scope \<Rightarrow> 'a scope" where
  "set_containing_scope c s = Scope (scope_table s) c"

text \<open>\<open>None\<close> is the assertion that the name is in scope.\<close>

fun scope_get :: "'a scope \<Rightarrow> string \<Rightarrow> 'a option" where
  "scope_get (Scope tbl c) n =
     (case tbl n of
        Some st \<Rightarrow> if stack_empty st
          then (case c of Some s \<Rightarrow> scope_get s n | None \<Rightarrow> None) else stack_top st
      | None \<Rightarrow> (case c of Some s \<Rightarrow> scope_get s n | None \<Rightarrow> None))"

fun scope_contains :: "'a scope \<Rightarrow> string \<Rightarrow> bool" where
  "scope_contains (Scope tbl c) n =
     (case tbl n of
        Some st \<Rightarrow> if stack_empty st
          then (case c of Some s \<Rightarrow> scope_contains s n | None \<Rightarrow> False) else True
      | None \<Rightarrow> (case c of Some s \<Rightarrow> scope_contains s n | None \<Rightarrow> False))"

text \<open>\<open>ref\<close> returns a reference, through which its callers update the entry by \<open>f\<close>.\<close>

definition scope_ref :: "string \<Rightarrow> 'a scope \<Rightarrow> 'a option" where
  "scope_ref n s =
     (case scope_table s n of
        Some st \<Rightarrow> if stack_empty st then None else stack_top st
      | None \<Rightarrow> None)"

definition scope_update :: "string \<Rightarrow> ('a \<Rightarrow> 'a) \<Rightarrow> 'a scope \<Rightarrow> 'a scope option" where
  "scope_update n f s =
     (case scope_table s n of
        Some st \<Rightarrow> if stack_empty st then None
          else Some (Scope ((scope_table s)(n \<mapsto> st\<lparr>stack_top := map_option f (stack_top st)\<rparr>)) (containing_scope s))
      | None \<Rightarrow> None)"

definition scope_push :: "string \<Rightarrow> 'a \<Rightarrow> 'a scope \<Rightarrow> 'a scope" where
  "scope_push n x s =
     (let st = (case scope_table s n of Some st \<Rightarrow> st | None \<Rightarrow> small_stack_new)
      in Scope ((scope_table s)(n \<mapsto> small_stack_push x st)) (containing_scope s))"

definition scope_pop :: "string \<Rightarrow> 'a scope \<Rightarrow> 'a scope option" where
  "scope_pop n s =
     (case scope_table s n of
        None \<Rightarrow> None
      | Some st \<Rightarrow>
          let st = small_stack_pop st
          in Some (Scope ((scope_table s)(n := (if stack_empty st then None else Some st))) (containing_scope s)))"

definition scope_swap :: "'a scope \<Rightarrow> 'a scope \<Rightarrow> 'a scope \<times> 'a scope" where
  "scope_swap s s' = (Scope (scope_table s') (containing_scope s'), Scope (scope_table s) (containing_scope s))"

text \<open>The bindings of a name in the scope itself, and the invariant: no empty stack is kept.\<close>

definition scope_stack :: "'a scope \<Rightarrow> string \<Rightarrow> 'a list" where
  "scope_stack s n = (case scope_table s n of Some st \<Rightarrow> stack_list st | None \<Rightarrow> [])"

definition scope_ok :: "'a scope \<Rightarrow> bool" where
  "scope_ok s \<longleftrightarrow> (\<forall>n st. scope_table s n = Some st \<longrightarrow> stack_ok st \<and> \<not> stack_empty st)"

lemmas scope_defs = scope_push_def scope_pop_def scope_stack_def scope_ok_def

lemma scope_ok_empty [simp]: "scope_ok empty_scope" and scope_stack_empty [simp]: "scope_stack empty_scope n = []"
  by (simp_all add: scope_defs empty_scope_def)

lemma scope_push_ok [intro]: "scope_ok s \<Longrightarrow> scope_ok (scope_push n x s)"
  by (auto simp: scope_defs Let_def small_stack_push small_stack_new split: option.splits)

lemma scope_push_stack: "scope_ok s \<Longrightarrow> scope_stack (scope_push n x s) = (scope_stack s)(n := x # scope_stack s n)"
  by (rule ext) (auto simp: scope_defs Let_def small_stack_push small_stack_new split: option.splits)

lemma scope_pop_None: "scope_ok s \<Longrightarrow> scope_pop n s = None \<longleftrightarrow> scope_stack s n = []"
  by (auto simp: scope_defs Let_def stack_list_empty split: option.splits)

lemma scope_pop_ok: "scope_ok s \<Longrightarrow> scope_pop n s = Some s' \<Longrightarrow> scope_ok s'"
  by (auto simp: scope_defs Let_def small_stack_pop split: option.splits if_splits)

lemma scope_pop_stack:
  assumes "scope_ok s" "scope_pop n s = Some s'"
  shows "scope_stack s' = (scope_stack s)(n := tl (scope_stack s n))"
proof
  fix m
  obtain st where st: "scope_table s n = Some st" "stack_ok st" "\<not> stack_empty st"
    using assms by (auto simp: scope_pop_def scope_ok_def split: option.splits)
  then have "s' = Scope ((scope_table s)(n := (if stack_empty (small_stack_pop st) then None
      else Some (small_stack_pop st)))) (containing_scope s)"
    using assms(2) by (simp add: scope_pop_def Let_def)
  then show "scope_stack s' m = ((scope_stack s)(n := tl (scope_stack s n))) m"
    using st small_stack_pop [OF st(2)] stack_list_empty [of "small_stack_pop st"]
    by (auto simp: scope_stack_def)
qed

lemma scope_push_containing [simp]: "containing_scope (scope_push n x s) = containing_scope s"
  by (simp add: scope_push_def Let_def)

lemma scope_containing:
  "scope_pop n s = Some s' \<Longrightarrow> containing_scope s' = containing_scope s"
  "scope_update n f s = Some s' \<Longrightarrow> containing_scope s' = containing_scope s"
  by (auto simp: scope_pop_def scope_update_def Let_def split: option.splits if_splits)

text \<open>A scope without a containing scope is its stacks.\<close>

lemma scope_get_stack:
  assumes "scope_ok s" "containing_scope s = None"
  shows "scope_get s n = (case scope_stack s n of [] \<Rightarrow> None | x # _ \<Rightarrow> Some x)"
    "scope_contains s n \<longleftrightarrow> scope_stack s n \<noteq> []"
    "scope_ref n s = scope_get s n"
proof -
  obtain tbl where "s = Scope tbl None" using assms(2) by (cases s) simp
  then show "scope_get s n = (case scope_stack s n of [] \<Rightarrow> None | x # _ \<Rightarrow> Some x)"
    "scope_contains s n \<longleftrightarrow> scope_stack s n \<noteq> []" "scope_ref n s = scope_get s n"
    using assms(1)
    by (auto simp: scope_ok_def scope_stack_def stack_list_def stack_ok_def scope_ref_def split: option.splits if_splits)
qed

lemma scope_update_stack:
  assumes "scope_ok s" "scope_update n f s = Some s'"
  shows "scope_ok s' \<and> scope_stack s' = (scope_stack s)(n := (case scope_stack s n of [] \<Rightarrow> [] | x # xs \<Rightarrow> f x # xs))"
proof -
  obtain st where st: "scope_table s n = Some st" "stack_ok st" "\<not> stack_empty st"
    "s' = Scope ((scope_table s)(n \<mapsto> st\<lparr>stack_top := map_option f (stack_top st)\<rparr>)) (containing_scope s)"
    using assms by (auto simp: scope_update_def scope_ok_def split: option.splits if_splits)
  then show ?thesis
    using assms(1) by (auto simp: scope_ok_def scope_stack_def stack_list_def stack_ok_def fun_eq_iff)
qed

lemma scope_update_defined: "scope_ok s \<Longrightarrow> scope_stack s n \<noteq> [] \<Longrightarrow> \<exists>s'. scope_update n f s = Some s'"
  by (auto simp: scope_update_def scope_stack_def scope_ok_def split: option.splits)

lemma scope_eqI:
  assumes "scope_ok s" "scope_ok s'" "scope_stack s = scope_stack s'" "containing_scope s = containing_scope s'"
  shows "s = s'"
proof -
  have "scope_table s n = scope_table s' n" for n
  proof -
    have e: "scope_stack s n = scope_stack s' n" using assms(3) by simp
    have o: "stack_ok st \<and> stack_list st \<noteq> []" if "scope_table s n = Some st \<or> scope_table s' n = Some st" for st
      using that assms(1,2) stack_list_empty unfolding scope_ok_def by blast
    show ?thesis
      using e o stack_list_inject
      by (cases "scope_table s n"; cases "scope_table s' n") (auto simp: scope_stack_def)
  qed
  then show ?thesis using assms(4) by (cases s; cases s') (auto simp: fun_eq_iff)
qed

section \<open>What users of a scope rely on\<close>

fun push_all :: "(string \<Rightarrow> 'a \<Rightarrow> 's \<Rightarrow> 's) \<Rightarrow> (string \<times> 'a) list \<Rightarrow> 's \<Rightarrow> 's" where
  "push_all push [] s = s"
| "push_all push ((n, x) # bs) s = push_all push bs (push n x s)"

fun pop_all :: "(string \<Rightarrow> 's \<Rightarrow> 's option) \<Rightarrow> string list \<Rightarrow> 's \<Rightarrow> 's option" where
  "pop_all pop [] s = Some s"
| "pop_all pop (n # ns) s = do { s \<leftarrow> pop n s; pop_all pop ns s }"

locale name_stacks =
  fixes ok :: "'s \<Rightarrow> bool" and stack :: "'s \<Rightarrow> string \<Rightarrow> 'a list"
    and push :: "string \<Rightarrow> 'a \<Rightarrow> 's \<Rightarrow> 's" and pop :: "string \<Rightarrow> 's \<Rightarrow> 's option"
  assumes push_ok: "ok s \<Longrightarrow> ok (push n x s)"
    and push_stack: "ok s \<Longrightarrow> stack (push n x s) = (stack s)(n := x # stack s n)"
    and pop_None: "ok s \<Longrightarrow> pop n s = None \<longleftrightarrow> stack s n = []"
    and pop_ok: "ok s \<Longrightarrow> pop n s = Some s' \<Longrightarrow> ok s'"
    and pop_stack: "ok s \<Longrightarrow> pop n s = Some s' \<Longrightarrow> stack s' = (stack s)(n := tl (stack s n))"
begin

lemma pop_push:
  assumes "ok s"
  shows "\<exists>s'. pop n (push n x s) = Some s' \<and> ok s' \<and> stack s' = stack s"
proof -
  have p: "ok (push n x s)" "stack (push n x s) = (stack s)(n := x # stack s n)"
    using push_ok push_stack assms by blast+
  then obtain s' where s': "pop n (push n x s) = Some s'"
    using pop_None [OF p(1), of n] by auto
  then show ?thesis using pop_ok [OF p(1)] pop_stack [OF p(1)] p(2) by auto
qed

lemma push_all_stack:
  "ok s \<Longrightarrow> ok (push_all push bs s) \<and>
    stack (push_all push bs s) m = rev (map snd (filter (\<lambda>b. fst b = m) bs)) @ stack s m"
proof (induction bs arbitrary: s)
  case (Cons b bs)
  then show ?case using push_ok push_stack by (cases b) auto
qed simp

lemma pop_all_stack:
  "ok s \<Longrightarrow> \<forall>m. count_list ns m \<le> length (stack s m) \<Longrightarrow>
    \<exists>s'. pop_all pop ns s = Some s' \<and> ok s' \<and> (\<forall>m. stack s' m = drop (count_list ns m) (stack s m))"
proof (induction ns arbitrary: s)
  case (Cons n ns)
  have ne: "stack s n \<noteq> []" using Cons.prems(2) by (auto dest: spec [of _ n])
  then obtain s1 where s1: "pop n s = Some s1" using pop_None [OF Cons.prems(1), of n] by auto
  have o1: "ok s1" and st1: "stack s1 = (stack s)(n := tl (stack s n))"
    using pop_ok [OF Cons.prems(1) s1] pop_stack [OF Cons.prems(1) s1] by auto
  have le: "count_list ns m \<le> length (stack s1 m)" for m
    using Cons.prems(2) by (auto simp: st1 dest: spec [of _ m])
  then obtain s' where s': "pop_all pop ns s1 = Some s'" "ok s'"
    "\<forall>m. stack s' m = drop (count_list ns m) (stack s1 m)"
    using Cons.IH [OF o1] by blast
  then show ?case using s1 by (auto simp: st1 drop_Suc)
qed auto

text \<open>Bindings may be popped in any order: the names need only be the same, with multiplicity.\<close>

lemma pop_all_push_all:
  assumes "ok s" "\<forall>m. count_list ns m = count_list (map fst bs) m"
    and "ok s1" "stack s1 = stack (push_all push bs s)"
  shows "\<exists>s'. pop_all pop ns s1 = Some s' \<and> ok s' \<and> stack s' = stack s"
proof -
  have n: "count_list (map fst bs) m = length (filter (\<lambda>b. fst b = m) bs)" for m
    by (induction bs) auto
  have st: "drop (count_list ns m) (stack s1 m) = stack s m" "count_list ns m \<le> length (stack s1 m)" for m
    using push_all_stack [OF assms(1), of bs m] assms(2) by (simp_all add: n assms(4))
  obtain s' where s': "pop_all pop ns s1 = Some s'" "ok s'" "\<forall>m. stack s' m = drop (count_list ns m) (stack s1 m)"
    using pop_all_stack [OF assms(3)] st(2) by blast
  then have "stack s' = stack s" using st(1) by (simp add: fun_eq_iff)
  then show ?thesis using s' by blast
qed

end

interpretation scope: name_stacks scope_ok scope_stack scope_push scope_pop
  by unfold_locales (auto simp: scope_push_stack scope_pop_None scope_pop_ok scope_pop_stack)

text \<open>\<open>ScopedBinding\<close>: a binding for the time of a computation on the scope.\<close>

definition scoped_binding ::
  "bool \<Rightarrow> string \<Rightarrow> 'a \<Rightarrow> ('a scope \<Rightarrow> ('b \<times> 'a scope) option) \<Rightarrow> 'a scope \<Rightarrow> ('b \<times> 'a scope) option" where
  "scoped_binding condition n x body s = do {
     (r, s) \<leftarrow> body (if condition then scope_push n x s else s);
     s \<leftarrow> (if condition then scope_pop n s else Some s);
     Some (r, s) }"

text \<open>
  The representation has one state for each family of stacks, so what restores the stacks
  restores the scope.
\<close>

lemma scope_pop_push:
  assumes "scope_ok s"
  shows "scope_pop n (scope_push n x s) = Some s"
proof -
  obtain s' where s': "scope_pop n (scope_push n x s) = Some s'" "scope_ok s'" "scope_stack s' = scope_stack s"
    using scope.pop_push [OF assms] by blast
  have "s' = s" by (rule scope_eqI) (use s' assms scope_containing(1) [OF s'(1)] in simp_all)
  then show ?thesis using s'(1) by simp
qed

lemma push_all_containing: "containing_scope (push_all scope_push bs s) = containing_scope s"
  by (induction bs arbitrary: s) auto

lemma pop_all_containing: "pop_all scope_pop ns s = Some s' \<Longrightarrow> containing_scope s' = containing_scope s"
  by (induction ns arbitrary: s) (auto simp: bind_eq_Some_conv dest: scope_containing(1))

lemma scope_pop_push_all:
  assumes "scope_ok s" "mset ns = mset (map fst bs)"
  shows "pop_all scope_pop ns (push_all scope_push bs s) = Some s"
proof -
  have c: "\<forall>m. count_list ns m = count_list (map fst bs) m"
    using assms(2) by (metis count_mset)
  obtain s' where s': "pop_all scope_pop ns (push_all scope_push bs s) = Some s'" "scope_ok s'"
    "scope_stack s' = scope_stack s"
    using scope.pop_all_push_all [OF assms(1) c conjunct1 [OF scope.push_all_stack [OF assms(1)]] refl] by blast
  have "s' = s"
    by (rule scope_eqI) (use s' assms push_all_containing pop_all_containing [OF s'(1)] in simp_all)
  then show ?thesis using s'(1) by simp
qed

lemma scope_push_get:
  assumes "scope_ok s"
  shows "scope_get (scope_push n x s) m = (if m = n then Some x else scope_get s m) \<and>
    scope_contains (scope_push n x s) m = (m = n \<or> scope_contains s m)"
  by (cases s) (auto simp: scope_push_def small_stack_push_def Let_def split: option.splits)

end
