(* ===== verification/IRCompare.thy ===== *)
theory IRCompare
  imports SemanticsFacts
begin

text \<open>
  The order on expressions of \<open>IREquality.cpp\<close>, by which \<open>std::set\<close> and \<open>std::map\<close> keep
  them: \<open>IRComparer\<close> without a cache. The member \<open>result\<close>, which every comparison
  returns unchanged once it is not \<open>Equal\<close>, is threaded through by \<open>and_then\<close>.
\<close>

section \<open>Three-way comparison\<close>

datatype cmp_result = CmpEqual | CmpLess | CmpGreater

definition and_then :: "cmp_result \<Rightarrow> cmp_result \<Rightarrow> cmp_result" where
  "and_then r r' = (if r = CmpEqual then r' else r)"

definition compare_scalar :: "'a::linorder \<Rightarrow> 'a \<Rightarrow> cmp_result" where
  "compare_scalar a b = (if a < b then CmpLess else if a > b then CmpGreater else CmpEqual)"

definition compare_float :: "float_ops \<Rightarrow> float64 \<Rightarrow> float64 \<Rightarrow> cmp_result" where
  "compare_float F a b = (if fl_lt F a b then CmpLess else if fl_lt F b a then CmpGreater else CmpEqual)"

definition compare_names :: "string \<Rightarrow> string \<Rightarrow> cmp_result" where
  "compare_names a b = (if a < b then CmpLess else if b < a then CmpGreater else CmpEqual)"

fun type_code_num :: "type_code \<Rightarrow> nat" where
  "type_code_num Halide_Int = 0"
| "type_code_num Halide_UInt = 1"
| "type_code_num Halide_Float = 2"
| "type_code_num Halide_Handle = 3"
| "type_code_num Halide_BFloat = 4"

fun call_type_num :: "call_type \<Rightarrow> nat" where
  "call_type_num Image = 0"
| "call_type_num Extern = 1"
| "call_type_num ExternCPlusPlus = 2"
| "call_type_num PureExtern = 3"
| "call_type_num Halide_Call = 4"
| "call_type_num Intrinsic = 5"
| "call_type_num PureIntrinsic = 6"

text \<open>Handle types are all \<open>void *\<close> in this model.\<close>

definition compare_types :: "halide_type \<Rightarrow> halide_type \<Rightarrow> cmp_result" where
  "compare_types a b =
     and_then (compare_scalar (type_code_num (code a)) (type_code_num (code b)))
       (and_then (compare_scalar (bits a) (bits b)) (compare_scalar (lanes a) (lanes b)))"

fun compare_indices :: "nat list \<Rightarrow> nat list \<Rightarrow> cmp_result" where
  "compare_indices (i # is) (j # js) = and_then (compare_scalar i j) (compare_indices is js)"
| "compare_indices _ _ = CmpEqual"

definition compare_heads :: "expr \<Rightarrow> expr \<Rightarrow> cmp_result" where
  "compare_heads a b =
     and_then (compare_scalar (node_type a) (node_type b)) (compare_types (etype a) (etype b))"

text \<open>
  \<open>compare_node\<close> is the \<open>visit\<close> methods: the nodes have the same \<open>node_type\<close>. The names
  of two loads are compared in the opposite order, as in the code.
\<close>

fun compare_node :: "float_ops \<Rightarrow> expr \<Rightarrow> expr \<Rightarrow> cmp_result"
and compare_all :: "float_ops \<Rightarrow> expr list \<Rightarrow> expr list \<Rightarrow> cmp_result" where
  "compare_node F (IntImm t v) e = (case e of IntImm t' v' \<Rightarrow> compare_scalar v v' | _ \<Rightarrow> CmpEqual)"
| "compare_node F (UIntImm t v) e = (case e of UIntImm t' v' \<Rightarrow> compare_scalar v v' | _ \<Rightarrow> CmpEqual)"
| "compare_node F (FloatImm t v) e = (case e of FloatImm t' v' \<Rightarrow> compare_float F v v' | _ \<Rightarrow> CmpEqual)"
| "compare_node F (StringImm s) e = (case e of StringImm s' \<Rightarrow> compare_names s s' | _ \<Rightarrow> CmpEqual)"
| "compare_node F (Cast t a) e =
     (case e of Cast t' a' \<Rightarrow> and_then (compare_heads a a') (compare_node F a a') | _ \<Rightarrow> CmpEqual)"
| "compare_node F (Broadcast a n) e =
     (case e of Broadcast a' n' \<Rightarrow> and_then (compare_heads a a') (compare_node F a a') | _ \<Rightarrow> CmpEqual)"
| "compare_node F (Variable t n) e = (case e of Variable t' n' \<Rightarrow> compare_names n n' | _ \<Rightarrow> CmpEqual)"
| "compare_node F (Bin op a b) e =
     (case e of Bin op' a' b' \<Rightarrow>
        and_then (and_then (compare_heads a a') (compare_node F a a'))
          (and_then (compare_heads b b') (compare_node F b b')) | _ \<Rightarrow> CmpEqual)"
| "compare_node F (Cmp op a b) e =
     (case e of Cmp op' a' b' \<Rightarrow>
        and_then (and_then (compare_heads a a') (compare_node F a a'))
          (and_then (compare_heads b b') (compare_node F b b')) | _ \<Rightarrow> CmpEqual)"
| "compare_node F (NotE a) e =
     (case e of NotE a' \<Rightarrow> and_then (compare_heads a a') (compare_node F a a') | _ \<Rightarrow> CmpEqual)"
| "compare_node F (Select c a b) e =
     (case e of Select c' a' b' \<Rightarrow>
        and_then (and_then (compare_heads c c') (compare_node F c c'))
          (and_then (and_then (compare_heads a a') (compare_node F a a'))
            (and_then (compare_heads b b') (compare_node F b b'))) | _ \<Rightarrow> CmpEqual)"
| "compare_node F (Load t n p i im pa al) e =
     (case e of Load t' n' p' i' im' pa' al' \<Rightarrow>
        and_then (compare_names n' n)
          (and_then (and_then (compare_heads p p') (compare_node F p p'))
            (and_then (and_then (compare_heads i i') (compare_node F i i'))
              (and_then (compare_scalar (modulus al) (modulus al'))
                (compare_scalar (remainder al) (remainder al'))))) | _ \<Rightarrow> CmpEqual)"
| "compare_node F (Ramp a b n) e =
     (case e of Ramp a' b' n' \<Rightarrow>
        and_then (and_then (compare_heads a a') (compare_node F a a'))
          (and_then (compare_heads b b') (compare_node F b b')) | _ \<Rightarrow> CmpEqual)"
| "compare_node F (Call t n as ct vi) e =
     (case e of Call t' n' as' ct' vi' \<Rightarrow>
        and_then (compare_names n n')
          (and_then (compare_scalar (call_type_num ct) (call_type_num ct'))
            (and_then (compare_scalar vi vi')
              (and_then (compare_scalar (length as) (length as')) (compare_all F as as')))) | _ \<Rightarrow> CmpEqual)"
| "compare_node F (LetE n v b) e =
     (case e of LetE n' v' b' \<Rightarrow>
        and_then (compare_names n n')
          (and_then (and_then (compare_heads v v') (compare_node F v v'))
            (and_then (compare_heads b b') (compare_node F b b'))) | _ \<Rightarrow> CmpEqual)"
| "compare_node F (Shuffle vs is) e =
     (case e of Shuffle vs' is' \<Rightarrow>
        and_then (and_then (compare_scalar (length vs) (length vs')) (compare_all F vs vs'))
          (and_then (compare_scalar (length is) (length is')) (compare_indices is is')) | _ \<Rightarrow> CmpEqual)"
| "compare_all F [] es = CmpEqual"
| "compare_all F (a # as) es =
     (case es of [] \<Rightarrow> CmpEqual
      | a' # as' \<Rightarrow> and_then (and_then (compare_heads a a') (compare_node F a a')) (compare_all F as as'))"

definition compare_expr :: "float_ops \<Rightarrow> expr \<Rightarrow> expr \<Rightarrow> cmp_result" where
  "compare_expr F a b = and_then (compare_heads a b) (compare_node F a b)"

definition compare_expr_vector :: "float_ops \<Rightarrow> expr list \<Rightarrow> expr list \<Rightarrow> cmp_result" where
  "compare_expr_vector F as bs = and_then (compare_scalar (length as) (length bs)) (compare_all F as bs)"

text \<open>\<open>IRDeepCompare\<close>, and \<open>equal\<close> of \<open>IREquality.h\<close>.\<close>

definition deep_less :: "float_ops \<Rightarrow> expr \<Rightarrow> expr \<Rightarrow> bool" where
  "deep_less F a b \<longleftrightarrow> compare_expr F a b = CmpLess"

definition deep_equal :: "float_ops \<Rightarrow> expr \<Rightarrow> expr \<Rightarrow> bool" where
  "deep_equal F a b \<longleftrightarrow> compare_expr F a b = CmpEqual"

section \<open>Equal expressions\<close>

lemma and_then_eq [simp]: "and_then r r' = CmpEqual \<longleftrightarrow> r = CmpEqual \<and> r' = CmpEqual"
  by (simp add: and_then_def)

lemma compare_scalar_eq [simp]: "compare_scalar a b = CmpEqual \<longleftrightarrow> a = b"
  by (auto simp: compare_scalar_def)

lemma compare_names_eq [simp]: "compare_names a b = CmpEqual \<longleftrightarrow> a = b"
  by (auto simp: compare_names_def)

lemma type_code_num_inject [simp]: "type_code_num a = type_code_num b \<longleftrightarrow> a = b"
  by (cases a; cases b) auto

lemma call_type_num_inject [simp]: "call_type_num a = call_type_num b \<longleftrightarrow> a = b"
  by (cases a; cases b) auto

lemma compare_types_eq [simp]: "compare_types a b = CmpEqual \<longleftrightarrow> a = b"
  by (auto simp: compare_types_def)

lemma compare_heads_eq: "compare_heads a b = CmpEqual \<longleftrightarrow> node_type a = node_type b \<and> etype a = etype b"
  by (simp add: compare_heads_def)

lemma compare_indices_eq: "length is = length js \<Longrightarrow> compare_indices is js = CmpEqual \<longleftrightarrow> is = js"
  by (induction "is" js rule: list_induct2) auto

text \<open>
  Expressions that compare equal differ in nothing that their values depend on: only in
  zeros and NaNs of literals and in the image and parameter of a load.
\<close>

lemma compare_all_eq:
  assumes "compare_all F as bs = CmpEqual" "length as = length bs"
    and "\<And>a b. a \<in> set as \<Longrightarrow> compare_heads a b = CmpEqual \<Longrightarrow> compare_node F a b = CmpEqual \<Longrightarrow> P a b"
  shows "list_all2 P as bs"
  using assms
proof (induction as arbitrary: bs)
  case (Cons a as)
  then obtain b bs' where b: "bs = b # bs'" by (cases bs) auto
  then show ?case using Cons.IH [of bs'] Cons.prems by auto
qed simp

lemma compare_eval:
  "compare_heads a b = CmpEqual \<Longrightarrow> compare_node F a b = CmpEqual \<Longrightarrow> eval env a l = eval env b l"
proof (induction a arbitrary: b env l)
  case (Call t n as ct vi)
  from Call.prems obtain as' where b: "b = Call t n as' ct vi" "length as = length as'" "compare_all F as as' = CmpEqual"
    by (cases b) (simp_all add: compare_heads_eq split: bin_op.splits cmp_op.splits)
  have "list_all2 (\<lambda>a b. \<forall>env l. eval env a l = eval env b l) as as'"
    by (rule compare_all_eq [OF b(3,2)]) (simp add: Call.IH)
  then have "map (\<lambda>a. eval env a k) as = map (\<lambda>a. eval env a k) as'" for k
    by (simp add: list_all2_conv_all_nth list_eq_iff_nth_eq)
  then show ?case by (simp only: b(1) eval.simps)
next
  case (Shuffle vs "is")
  from Shuffle.prems obtain vs' where b: "b = Shuffle vs' is" "length vs = length vs'" "compare_all F vs vs' = CmpEqual"
    by (cases b) (auto simp: compare_heads_eq compare_indices_eq split: bin_op.splits cmp_op.splits)
  have a: "list_all2 (\<lambda>a b. etype a = etype b \<and> (\<forall>env l. eval env a l = eval env b l)) vs vs'"
    by (rule compare_all_eq [OF b(3,2)]) (simp add: Shuffle.IH compare_heads_eq)
  then have "map (\<lambda>v. lanes (etype v)) vs = map (\<lambda>v. lanes (etype v)) vs'"
    "map (\<lambda>v. eval env v j) vs = map (\<lambda>v. eval env v j) vs'" for j
    by (simp_all add: list_all2_conv_all_nth list_eq_iff_nth_eq)
  then show ?case by (simp only: b eval.simps)
next
  case (LetE n v e)
  from LetE.prems obtain v' e' where b: "b = LetE n v' e'" "compare_heads v v' = CmpEqual" "compare_node F v v' = CmpEqual"
    "compare_heads e e' = CmpEqual" "compare_node F e e' = CmpEqual"
    by (cases b) (auto simp: compare_heads_eq split: bin_op.splits cmp_op.splits)
  have "eval env v = eval env v'" by (rule ext) (rule LetE.IH(1) [OF b(2,3)])
  then show ?case using LetE.IH(2) [OF b(4,5)] by (simp add: b(1))
next
  case (Load t n p i im pa al)
  from Load.prems obtain p' i' im' pa' al' where b: "b = Load t n p' i' im' pa' al'" "compare_heads p p' = CmpEqual"
    "compare_node F p p' = CmpEqual" "compare_heads i i' = CmpEqual" "compare_node F i i' = CmpEqual"
    by (cases b) (auto simp: compare_heads_eq split: bin_op.splits cmp_op.splits)
  then show ?case using Load.IH by simp
next
  case (Bin op a1 a2)
  from Bin.prems obtain b1 b2 where b: "b = Bin op b1 b2" "compare_heads a1 b1 = CmpEqual" "compare_node F a1 b1 = CmpEqual"
    "compare_heads a2 b2 = CmpEqual" "compare_node F a2 b2 = CmpEqual"
    by (cases b; cases op) (auto simp: compare_heads_eq split: bin_op.splits cmp_op.splits)
  then show ?case using Bin.IH by (simp add: compare_heads_eq)
next
  case (Cmp op a1 a2)
  from Cmp.prems obtain b1 b2 where b: "b = Cmp op b1 b2" "compare_heads a1 b1 = CmpEqual" "compare_node F a1 b1 = CmpEqual"
    "compare_heads a2 b2 = CmpEqual" "compare_node F a2 b2 = CmpEqual"
    by (cases b; cases op) (auto simp: compare_heads_eq split: bin_op.splits cmp_op.splits)
  then show ?case using Cmp.IH by (simp add: compare_heads_eq)
next
  case (Broadcast a n)
  from Broadcast.prems obtain a' n' where b: "b = Broadcast a' n'" "compare_heads a a' = CmpEqual" "compare_node F a a' = CmpEqual"
    by (cases b) (auto simp: compare_heads_eq split: bin_op.splits cmp_op.splits)
  then show ?case using Broadcast.IH by simp
next
  case (Cast t a)
  from Cast.prems obtain a' where b: "b = Cast t a'" "compare_heads a a' = CmpEqual" "compare_node F a a' = CmpEqual"
    by (cases b) (auto simp: compare_heads_eq split: bin_op.splits cmp_op.splits)
  then show ?case using Cast.IH by (simp add: compare_heads_eq)
next
  case (NotE a)
  from NotE.prems obtain a' where b: "b = NotE a'" "compare_heads a a' = CmpEqual" "compare_node F a a' = CmpEqual"
    by (cases b) (auto simp: compare_heads_eq split: bin_op.splits cmp_op.splits)
  then show ?case using NotE.IH by simp
next
  case (Select c x y)
  from Select.prems obtain c' x' y' where b: "b = Select c' x' y'" "compare_heads c c' = CmpEqual" "compare_node F c c' = CmpEqual"
    "compare_heads x x' = CmpEqual" "compare_node F x x' = CmpEqual" "compare_heads y y' = CmpEqual" "compare_node F y y' = CmpEqual"
    by (cases b) (auto simp: compare_heads_eq split: bin_op.splits cmp_op.splits)
  then show ?case using Select.IH by simp
next
  case (Ramp x y n)
  from Ramp.prems obtain x' y' n' where b: "b = Ramp x' y' n'"
    "compare_heads x x' = CmpEqual" "compare_node F x x' = CmpEqual" "compare_heads y y' = CmpEqual" "compare_node F y y' = CmpEqual"
    by (cases b) (auto simp: compare_heads_eq split: bin_op.splits cmp_op.splits)
  then show ?case using Ramp.IH by (simp add: compare_heads_eq)
qed (case_tac b; simp add: compare_heads_eq split: bin_op.splits cmp_op.splits)+

lemma deep_equal_eval:
  assumes "deep_equal F a b"
  shows "eval env a l = eval env b l"
  by (rule compare_eval [of a b F]) (use assms in \<open>simp_all add: deep_equal_def compare_expr_def\<close>)

lemma deep_equal_etype: "deep_equal F a b \<Longrightarrow> etype a = etype b"
  by (simp add: deep_equal_def compare_expr_def compare_heads_eq)

section \<open>The order\<close>

fun float_free :: "expr \<Rightarrow> bool" where
  "float_free (FloatImm t v) = False"
| "float_free (Broadcast e n) = float_free e"
| "float_free (Cast t e) = float_free e"
| "float_free (Bin op a b) = (float_free a \<and> float_free b)"
| "float_free (Cmp op a b) = (float_free a \<and> float_free b)"
| "float_free (NotE a) = float_free a"
| "float_free (Select c a b) = (float_free c \<and> float_free a \<and> float_free b)"
| "float_free (Load t n p i im pa al) = (float_free p \<and> float_free i)"
| "float_free (Ramp a b n) = (float_free a \<and> float_free b)"
| "float_free (Call t n as ct vi) = list_all float_free as"
| "float_free (LetE n v b) = (float_free v \<and> float_free b)"
| "float_free (Shuffle vs is) = list_all float_free vs"
| "float_free _ = True"

fun flip_result :: "cmp_result \<Rightarrow> cmp_result" where
  "flip_result CmpLess = CmpGreater"
| "flip_result CmpEqual = CmpEqual"
| "flip_result CmpGreater = CmpLess"

text \<open>The results of comparing a with b, b with c, and a with c, fit a linear preorder.\<close>

definition consistent :: "cmp_result \<Rightarrow> cmp_result \<Rightarrow> cmp_result \<Rightarrow> bool" where
  "consistent ab bc ac \<longleftrightarrow>
     (ab = CmpEqual \<longrightarrow> ac = bc) \<and> (bc = CmpEqual \<longrightarrow> ac = ab) \<and>
     (ab = CmpLess \<and> bc = CmpLess \<longrightarrow> ac = CmpLess) \<and>
     (ab = CmpGreater \<and> bc = CmpGreater \<longrightarrow> ac = CmpGreater)"

lemma consistent_and_then [intro]:
  assumes "consistent ab bc ac"
    and "ab = CmpEqual \<Longrightarrow> bc = CmpEqual \<Longrightarrow> ac = CmpEqual \<Longrightarrow> consistent ab' bc' ac'"
  shows "consistent (and_then ab ab') (and_then bc bc') (and_then ac ac')"
  using assms by (cases ab; cases bc; cases ac) (auto simp: consistent_def and_then_def)

lemma consistent_scalar [intro, simp]: "consistent (compare_scalar a b) (compare_scalar b c) (compare_scalar a c)"
  by (auto simp: consistent_def compare_scalar_def)

lemma consistent_names [intro, simp]: "consistent (compare_names a b) (compare_names b c) (compare_names a c)"
  "consistent (compare_names b a) (compare_names c b) (compare_names c a)"
  by (auto simp: consistent_def compare_names_def)

lemma consistent_equal [simp]: "consistent CmpEqual CmpEqual CmpEqual"
  by (simp add: consistent_def)

lemma consistent_types [intro]: "consistent (compare_types a b) (compare_types b c) (compare_types a c)"
  unfolding compare_types_def by (intro consistent_and_then consistent_scalar)

lemma consistent_heads [intro]: "consistent (compare_heads a b) (compare_heads b c) (compare_heads a c)"
  unfolding compare_heads_def by (intro consistent_and_then consistent_scalar consistent_types)

lemma consistent_indices [intro]:
  "length is = length js \<Longrightarrow> length js = length ks \<Longrightarrow>
    consistent (compare_indices is js) (compare_indices js ks) (compare_indices is ks)"
  by (induction "is" js ks rule: list_induct3) auto

lemma flip_and_then [simp]: "flip_result (and_then r r') = and_then (flip_result r) (flip_result r')"
  by (cases r) (auto simp: and_then_def)

lemma flip_scalar [simp]: "flip_result (compare_scalar a b) = compare_scalar b a"
  by (auto simp: compare_scalar_def)

lemma flip_names [simp]: "flip_result (compare_names a b) = compare_names b a"
  by (auto simp: compare_names_def)

lemma flip_types [simp]: "flip_result (compare_types t u) = compare_types u t"
  and flip_heads [simp]: "flip_result (compare_heads a b) = compare_heads b a"
  by (simp_all add: compare_types_def compare_heads_def)

lemma flip_indices: "length is = length js \<Longrightarrow> flip_result (compare_indices is js) = compare_indices js is"
  by (induction "is" js rule: list_induct2) auto

lemma fold_compare: "and_then (compare_heads a b) (compare_node F a b) = compare_expr F a b"
  by (simp add: compare_expr_def)

lemma flip_exprI:
  assumes "node_type a = node_type b \<Longrightarrow> etype a = etype b \<Longrightarrow> flip_result (compare_node F a b) = compare_node F b a"
  shows "flip_result (compare_expr F a b) = compare_expr F b a"
proof (cases "compare_heads a b = CmpEqual")
  case True
  then show ?thesis using assms by (simp add: compare_expr_def compare_heads_eq)
next
  case False
  then have "compare_heads b a \<noteq> CmpEqual" by (auto simp: compare_heads_eq)
  then show ?thesis using False by (simp add: compare_expr_def and_then_def)
qed

lemma flip_all:
  assumes "\<And>a b. a \<in> set as \<Longrightarrow> float_free a \<Longrightarrow> float_free b \<Longrightarrow> flip_result (compare_expr F a b) = compare_expr F b a"
    and "length as = length bs" "list_all float_free as" "list_all float_free bs"
  shows "flip_result (compare_all F as bs) = compare_all F bs as"
  using assms
proof (induction as arbitrary: bs)
  case (Cons a as)
  then obtain b bs' where b: "bs = b # bs'" by (cases bs) auto
  then show ?case using Cons.IH [of bs'] Cons.prems by (simp add: fold_compare)
qed simp

lemma flip_expr: "float_free a \<Longrightarrow> float_free b \<Longrightarrow> flip_result (compare_expr F a b) = compare_expr F b a"
proof (induction a arbitrary: b)
  case (Call t n as ct vi)
  show ?case
  proof (rule flip_exprI)
    assume h: "node_type (Call t n as ct vi) = node_type b"
    then obtain t' n' as' ct' vi' where b: "b = Call t' n' as' ct' vi'"
      by (cases b) (auto split: bin_op.splits cmp_op.splits)
    show "flip_result (compare_node F (Call t n as ct vi) b) = compare_node F b (Call t n as ct vi)"
    proof (cases "length as = length as'")
      case True
      then show ?thesis using flip_all [of as F as'] Call b by simp
    next
      case False
      then have "compare_scalar (length as) (length as') \<noteq> CmpEqual" "compare_scalar (length as') (length as) \<noteq> CmpEqual"
        by auto
      then show ?thesis by (simp add: b and_then_def [of "compare_scalar (length as) (length as')"]
          and_then_def [of "compare_scalar (length as') (length as)"])
    qed
  qed
next
  case (Shuffle vs "is")
  show ?case
  proof (rule flip_exprI)
    assume h: "node_type (Shuffle vs is) = node_type b"
    then obtain vs' is' where b: "b = Shuffle vs' is'"
      by (cases b) (auto split: bin_op.splits cmp_op.splits)
    have v: "flip_result (and_then (compare_scalar (length vs) (length vs')) (compare_all F vs vs')) =
      and_then (compare_scalar (length vs') (length vs)) (compare_all F vs' vs)"
    proof (cases "length vs = length vs'")
      case True
      then show ?thesis using flip_all [of vs F vs'] Shuffle b by simp
    next
      case False
      then have "compare_scalar (length vs) (length vs') \<noteq> CmpEqual" "compare_scalar (length vs') (length vs) \<noteq> CmpEqual"
        by auto
      then show ?thesis by (simp add: and_then_def)
    qed
    have i: "flip_result (and_then (compare_scalar (length is) (length is')) (compare_indices is is')) =
      and_then (compare_scalar (length is') (length is)) (compare_indices is' is)"
      using flip_indices [of "is" is'] by (cases "length is = length is'") (auto simp: and_then_def compare_scalar_def)
    show "flip_result (compare_node F (Shuffle vs is) b) = compare_node F b (Shuffle vs is)"
      using v i by (simp add: b del: flip_and_then) (simp add: flip_and_then)
  qed
qed (rule flip_exprI, (case_tac b; simp add: fold_compare split: bin_op.splits cmp_op.splits))+

text \<open>The same for the consistency of three comparisons.\<close>

lemma consistent_exprI:
  assumes "node_type a = node_type b \<Longrightarrow> node_type b = node_type c \<Longrightarrow> etype a = etype b \<Longrightarrow> etype b = etype c \<Longrightarrow>
    consistent (compare_node F a b) (compare_node F b c) (compare_node F a c)"
  shows "consistent (compare_expr F a b) (compare_expr F b c) (compare_expr F a c)"
  unfolding compare_expr_def
  by (rule consistent_and_then [OF consistent_heads]) (use assms in \<open>simp add: compare_heads_eq\<close>)

lemma consistent_all:
  assumes "\<And>a b c. a \<in> set as \<Longrightarrow> float_free a \<Longrightarrow> float_free b \<Longrightarrow> float_free c \<Longrightarrow>
      consistent (compare_expr F a b) (compare_expr F b c) (compare_expr F a c)"
    and "length as = length bs" "length bs = length cs"
    and "list_all float_free as" "list_all float_free bs" "list_all float_free cs"
  shows "consistent (compare_all F as bs) (compare_all F bs cs) (compare_all F as cs)"
  using assms
proof (induction as arbitrary: bs cs)
  case (Cons a as)
  then obtain b bs' c cs' where b: "bs = b # bs'" "cs = c # cs'"
    by (cases bs; cases cs) auto
  then show ?case using Cons.IH [of bs' cs'] Cons.prems by (auto simp: fold_compare)
qed simp

lemma same_node:
  "node_type (Call t n as ct vi) = node_type b \<longleftrightarrow> (\<exists>t' n' as' ct' vi'. b = Call t' n' as' ct' vi')"
  "node_type (Shuffle vs is) = node_type b \<longleftrightarrow> (\<exists>vs' is'. b = Shuffle vs' is')"
  by (cases b; auto split: bin_op.splits cmp_op.splits)+

lemma consistent_expr:
  "float_free a \<Longrightarrow> float_free b \<Longrightarrow> float_free c \<Longrightarrow>
    consistent (compare_expr F a b) (compare_expr F b c) (compare_expr F a c)"
proof (induction a arbitrary: b c)
  case (Call t n as ct vi)
  show ?case
  proof (rule consistent_exprI)
    assume "node_type (Call t n as ct vi) = node_type b" "node_type b = node_type c"
    then obtain t1 n1 as1 ct1 vi1 t2 n2 as2 ct2 vi2 where
      bc: "b = Call t1 n1 as1 ct1 vi1" "c = Call t2 n2 as2 ct2 vi2"
      by (metis same_node(1))
    show "consistent (compare_node F (Call t n as ct vi) b) (compare_node F b c) (compare_node F (Call t n as ct vi) c)"
      unfolding bc compare_node.simps expr.case
      by (intro consistent_and_then consistent_names consistent_scalar consistent_all)
        (use Call bc in simp_all)
  qed
next
  case (Shuffle vs "is")
  show ?case
  proof (rule consistent_exprI)
    assume "node_type (Shuffle vs is) = node_type b" "node_type b = node_type c"
    then obtain vs1 is1 vs2 is2 where bc: "b = Shuffle vs1 is1" "c = Shuffle vs2 is2"
      by (metis same_node(2))
    show "consistent (compare_node F (Shuffle vs is) b) (compare_node F b c) (compare_node F (Shuffle vs is) c)"
      unfolding bc compare_node.simps expr.case
      by (intro consistent_and_then consistent_scalar consistent_all consistent_indices)
        (use Shuffle bc in simp_all)
  qed
qed (rule consistent_exprI,
  (case_tac b; (simp split: bin_op.splits cmp_op.splits; fail)?;
   case_tac c; (simp split: bin_op.splits cmp_op.splits; fail)?;
   simp add: fold_compare; (intro consistent_and_then)?; simp))+

lemma deep_less_order:
  assumes "float_free a" "float_free b" "float_free c"
  shows "\<not> deep_less F a a \<and> (deep_less F a b \<and> deep_less F b c \<longrightarrow> deep_less F a c) \<and>
    (deep_equal F a b \<longleftrightarrow> \<not> deep_less F a b \<and> \<not> deep_less F b a) \<and>
    (deep_equal F a b \<and> deep_equal F b c \<longrightarrow> deep_equal F a c)"
  using flip_expr [OF assms(1,1), of F] flip_expr [OF assms(1,2), of F] consistent_expr [OF assms, of F]
  by (cases "compare_expr F a a"; cases "compare_expr F a b"; cases "compare_expr F b a")
    (auto simp: deep_less_def deep_equal_def consistent_def)

end
