(* ===== verification/ExprInfo.thy ===== *)
theory ExprInfo
  imports FoldSound
begin

text \<open>
  \<open>Simplify::ExprInfo\<close> (Simplify_Internal.h): what the simplifier knows of the value of an
  integer expression, its constant bounds and its alignment. A value of the domain
  stands for a set of integers; the operations over-approximate those on sets. The
  fields are \<open>int64_t\<close>: their arithmetic is undefined (\<open>None\<close>) when it overflows.
\<close>

record expr_info =
  info_min :: int
  info_max :: int
  min_defined :: bool
  max_defined :: bool
  alignment :: modulus_remainder

definition no_info :: expr_info where
  "no_info = \<lparr>info_min = 0, info_max = 0, min_defined = False, max_defined = False, alignment = mr_top\<rparr>"

text \<open>The bounds round to the next member of the alignment.\<close>

definition trim_min :: "int \<Rightarrow> modulus_remainder \<Rightarrow> int option" where
  "trim_min lo al = do {
     k \<leftarrow> mod_imp lo (modulus al);
     d \<leftarrow> chk64 (lo - k);
     new_min \<leftarrow> chk64 (d + remainder al);
     if new_min < lo then chk64 (new_min + modulus al) else Some new_min }"

definition trim_max :: "int \<Rightarrow> modulus_remainder \<Rightarrow> int option" where
  "trim_max hi al = do {
     k \<leftarrow> mod_imp hi (modulus al);
     d \<leftarrow> chk64 (hi - k);
     new_max \<leftarrow> chk64 (d + remainder al);
     if new_max > hi then chk64 (new_max - modulus al) else Some new_max }"

definition trim_bounds_using_alignment :: "expr_info \<Rightarrow> expr_info option" where
  "trim_bounds_using_alignment i = do {
     i \<leftarrow> (if modulus (alignment i) = 0 then
             Some (i\<lparr>min_defined := True, max_defined := True,
                     info_min := remainder (alignment i), info_max := remainder (alignment i)\<rparr>)
           else if modulus (alignment i) > 1 then do {
             lo \<leftarrow> (if min_defined i then trim_min (info_min i) (alignment i) else Some (info_min i));
             hi \<leftarrow> (if max_defined i then trim_max (info_max i) (alignment i) else Some (info_max i));
             Some (i\<lparr>info_min := lo, info_max := hi\<rparr>) }
           else Some i);
     Some (if min_defined i \<and> max_defined i \<and> info_min i = info_max i
           then i\<lparr>alignment := MR 0 (info_min i)\<rparr> else i) }"

definition info_intersect :: "expr_info \<Rightarrow> expr_info \<Rightarrow> expr_info option" where
  "info_intersect i other =
     (let i = (if min_defined i \<and> min_defined other then i\<lparr>info_min := max (info_min i) (info_min other)\<rparr>
               else if min_defined other then i\<lparr>min_defined := True, info_min := info_min other\<rparr> else i);
          i = (if max_defined i \<and> max_defined other then i\<lparr>info_max := min (info_max i) (info_max other)\<rparr>
               else if max_defined other then i\<lparr>max_defined := True, info_max := info_max other\<rparr> else i)
      in trim_bounds_using_alignment (i\<lparr>alignment := mr_intersect (alignment i) (alignment other)\<rparr>))"

section \<open>Meaning\<close>

definition info_int64 :: "expr_info \<Rightarrow> bool" where
  "info_int64 i \<longleftrightarrow> int64 (info_min i) \<and> int64 (info_max i) \<and> mr_int64 (alignment i)"

definition info_ok :: "expr_info \<Rightarrow> int \<Rightarrow> bool" where
  "info_ok i v \<longleftrightarrow> (min_defined i \<longrightarrow> info_min i \<le> v) \<and> (max_defined i \<longrightarrow> v \<le> info_max i) \<and>
     mr_has (alignment i) v \<and> info_int64 i"

text \<open>
  Trimming is right for an alignment whose remainder lies between zero and the modulus.
  The arithmetic of alignments does not always give one: a product with a negative
  constant can lead to a remainder that is negative.
\<close>

definition trim_exact :: "modulus_remainder \<Rightarrow> bool" where
  "trim_exact al \<longleftrightarrow> (1 < modulus al \<longrightarrow> 0 \<le> remainder al \<and> remainder al < modulus al)"

lemma canonical_trim_exact: "mr_canonical al \<Longrightarrow> trim_exact al"
  by (auto simp: mr_canonical_def trim_exact_def)

lemma info_ok_no_info [simp]: "info_ok no_info v"
  by (simp add: info_ok_def no_info_def info_int64_def mr_int64_def mr_top_def)

lemma info_okD:
  assumes "info_ok i v"
  shows "min_defined i \<Longrightarrow> info_min i \<le> v" "max_defined i \<Longrightarrow> v \<le> info_max i" "mr_has (alignment i) v"
    "int64 (info_min i)" "int64 (info_max i)" "mr_int64 (alignment i)"
  using assms by (simp_all add: info_ok_def info_int64_def)

section \<open>Trimming\<close>

lemma congruent_step:
  fixes m v w :: int
  assumes "0 < m" "m dvd v - w" "w - m < v"
  shows "w \<le> v"
proof -
  obtain k where k: "v - w = m * k" using assms(2) by (auto simp: dvd_def)
  have "- m < m * k" using assms(3) k by linarith
  then have "- 1 < k" using assms(1) by (metis mult_minus1_right mult_less_cancel_left_pos)
  then have "0 \<le> m * k" using assms(1) by simp
  then show ?thesis using k by linarith
qed

lemma trim_min_sound:
  assumes "trim_min lo al = Some lo'" "1 < modulus al" "trim_exact al" "mr_has al v" "lo \<le> v"
  shows "lo' \<le> v \<and> int64 lo'"
proof -
  let ?m = "modulus al"
  obtain k where k: "mod_imp lo ?m = Some k" "int64 (lo - k + remainder al)"
    and r: "(if lo - k + remainder al < lo then chk64 (lo - k + remainder al + ?m)
             else Some (lo - k + remainder al)) = Some lo'"
    using assms(1) by (auto simp: trim_min_def bind_eq_Some_conv)
  have km: "k = emod lo ?m" using mod_imp_SomeD [OF k(1)] assms(2) by simp
  have kb: "0 \<le> k" "k < ?m" using emod_bounds [of ?m lo] assms(2) km by auto
  have rb: "0 \<le> remainder al" "remainder al < ?m" using assms(2,3) by (simp_all add: trim_exact_def)
  have lo': "int64 lo' \<and> (lo' = lo - k + remainder al \<or> lo' = lo - k + remainder al + ?m) \<and> lo' - ?m < lo"
  proof (cases "lo - k + remainder al < lo")
    case True
    then have "chk64 (lo - k + remainder al + ?m) = Some lo'" using r by simp
    then have "lo' = lo - k + remainder al + ?m" "int64 lo'" by simp_all
    then show ?thesis using True by linarith
  next
    case False
    then have "lo' = lo - k + remainder al" using r by simp
    then show ?thesis using k(2) kb(1) rb(2) by auto
  qed
  have "?m dvd lo - k" using emod_dvd_diff [of ?m lo] km by simp
  then have "?m dvd (v - remainder al) - (lo - k)" using assms(4) by (auto simp: mr_has_def intro: dvd_diff)
  then have "?m dvd v - (lo - k + remainder al)" by (simp add: algebra_simps)
  then have "?m dvd v - lo'" using lo' by (metis diff_diff_eq dvd_diff dvd_refl)
  then show ?thesis using congruent_step [of ?m v lo'] assms(2,5) lo' by linarith
qed

lemma trim_max_sound:
  assumes "trim_max hi al = Some hi'" "1 < modulus al" "trim_exact al" "mr_has al v" "v \<le> hi"
  shows "v \<le> hi' \<and> int64 hi'"
proof -
  let ?m = "modulus al"
  obtain k where k: "mod_imp hi ?m = Some k" "int64 (hi - k + remainder al)"
    and r: "(if hi - k + remainder al > hi then chk64 (hi - k + remainder al - ?m)
             else Some (hi - k + remainder al)) = Some hi'"
    using assms(1) by (auto simp: trim_max_def bind_eq_Some_conv)
  have km: "k = emod hi ?m" using mod_imp_SomeD [OF k(1)] assms(2) by simp
  have kb: "0 \<le> k" "k < ?m" using emod_bounds [of ?m hi] assms(2) km by auto
  have rb: "0 \<le> remainder al" "remainder al < ?m" using assms(2,3) by (simp_all add: trim_exact_def)
  have hi': "int64 hi' \<and> (hi' = hi - k + remainder al \<or> hi' = hi - k + remainder al - ?m) \<and> hi < hi' + ?m"
  proof (cases "hi - k + remainder al > hi")
    case True
    then have "chk64 (hi - k + remainder al - ?m) = Some hi'" using r by simp
    then have "hi' = hi - k + remainder al - ?m" "int64 hi'" by simp_all
    then show ?thesis using True by linarith
  next
    case False
    then have "hi' = hi - k + remainder al" using r by simp
    then show ?thesis using k(2) kb(2) rb(1) by auto
  qed
  have "?m dvd hi - k" using emod_dvd_diff [of ?m hi] km by simp
  then have "?m dvd (hi - k) - (v - remainder al)" using assms(4) by (auto simp: mr_has_def intro: dvd_diff)
  then have "?m dvd (hi - k + remainder al) - v" by (simp add: algebra_simps)
  then have "?m dvd hi' - v" using hi' by (metis diff_right_commute dvd_diff dvd_refl)
  then show ?thesis using congruent_step [of ?m hi' v] assms(2,5) hi' by linarith
qed

lemma trim_sound:
  assumes "trim_bounds_using_alignment i = Some i'" "trim_exact (alignment i)" "info_ok i v"
  shows "info_ok i' v"
proof -
  obtain j where j: "(if modulus (alignment i) = 0 then
             Some (i\<lparr>min_defined := True, max_defined := True,
                     info_min := remainder (alignment i), info_max := remainder (alignment i)\<rparr>)
           else if modulus (alignment i) > 1 then do {
             lo \<leftarrow> (if min_defined i then trim_min (info_min i) (alignment i) else Some (info_min i));
             hi \<leftarrow> (if max_defined i then trim_max (info_max i) (alignment i) else Some (info_max i));
             Some (i\<lparr>info_min := lo, info_max := hi\<rparr>) }
           else Some i) = Some j"
    and i': "i' = (if min_defined j \<and> max_defined j \<and> info_min j = info_max j
           then j\<lparr>alignment := MR 0 (info_min j)\<rparr> else j)"
    using assms(1) by (auto simp: trim_bounds_using_alignment_def bind_eq_Some_conv)
  note ok = info_okD [OF assms(3)]
  consider (const) "modulus (alignment i) = 0" | (aligned) "modulus (alignment i) > 1"
    | (other) "modulus (alignment i) \<noteq> 0" "\<not> modulus (alignment i) > 1" by linarith
  then have "info_ok j v"
  proof cases
    case const
    then show ?thesis
      using j ok by (auto simp: info_ok_def info_int64_def mr_has_def mr_int64_def)
  next
    case aligned
    then obtain lo hi where b: "(if min_defined i then trim_min (info_min i) (alignment i) else Some (info_min i)) = Some lo"
      "(if max_defined i then trim_max (info_max i) (alignment i) else Some (info_max i)) = Some hi"
      "j = i\<lparr>info_min := lo, info_max := hi\<rparr>"
      using j by (auto simp: bind_eq_Some_conv)
    then show ?thesis
      using trim_min_sound [OF _ aligned assms(2) ok(3)] trim_max_sound [OF _ aligned assms(2) ok(3)] ok assms(3)
      by (auto simp: info_ok_def info_int64_def split: if_splits)
  next
    case other
    then show ?thesis using j assms(3) by simp
  qed
  then show ?thesis
    unfolding i' by (auto simp: info_ok_def info_int64_def mr_int64_def)
qed

lemma mr_intersect_int64: "mr_int64 a \<Longrightarrow> mr_int64 b \<Longrightarrow> mr_int64 (mr_intersect a b)"
  by (simp add: mr_intersect_def)

lemma intersect_sound:
  assumes "info_intersect i other = Some i'" "trim_exact (mr_intersect (alignment i) (alignment other))"
    and "info_ok i v" "info_ok other v"
  shows "info_ok i' v"
  using assms(1) unfolding info_intersect_def Let_def
  by (rule trim_sound)
    (use assms(2-4) mr_intersect_sound [of "alignment i" v "alignment other"]
       mr_intersect_int64 [of "alignment i" "alignment other"] in
      \<open>auto simp: info_ok_def info_int64_def max_def min_def\<close>)

lemma mr_int64_MR [simp]: "mr_int64 (MR m r) \<longleftrightarrow> int64 m \<and> int64 r"
  by (simp add: mr_int64_def)

lemma mr_int64_top [simp]: "mr_int64 mr_top"
  by (simp add: mr_top_def)

section \<open>The fields stay int64_t\<close>

lemma gcd_loop_int64: "gcd_loop a b = Some g \<Longrightarrow> int64 a \<Longrightarrow> int64 b \<Longrightarrow> int64 g"
proof (induction a b rule: gcd_loop.induct)
  case (1 a b)
  show ?case
  proof (cases "b = 0")
    case True
    then show ?thesis using "1.prems" by (simp add: gcd_loop.simps [of a 0])
  next
    case False
    then obtain r where r: "crem64 a b = Some r" "gcd_loop b r = Some g"
      using "1.prems" by (auto simp: gcd_loop.simps [of a b] bind_eq_Some_conv)
    then have "int64 r"
      using smod_abs_less [OF False, of a] "1.prems"(3) by (auto simp: crem64_def int64_def split: if_splits)
    then show ?thesis using "1.IH" [OF False r] "1.prems" by simp
  qed
qed

lemma gcd_imp_int64: "gcd_imp a b = Some g \<Longrightarrow> int64 a \<Longrightarrow> int64 b \<Longrightarrow> int64 g"
  using gcd_loop_int64 by (auto simp: gcd_imp_def split: if_splits)

lemma mr_mod_int64: "mr_mod a m = Some r \<Longrightarrow> int64 a \<Longrightarrow> int64 m \<Longrightarrow> int64 r"
  using mr_mod_Some [of a m r] emod_bounds [of m a]
  by (cases "m = 0") (auto simp: int64_def mr_mod_def)

lemma would_overflow_int64:
  "int64 a \<Longrightarrow> int64 b \<Longrightarrow> \<not> add_would_overflow 64 a b \<Longrightarrow> int64 (a + b)"
  "int64 a \<Longrightarrow> int64 b \<Longrightarrow> \<not> sub_would_overflow 64 a b \<Longrightarrow> int64 (a - b)"
  "int64 a \<Longrightarrow> int64 b \<Longrightarrow> \<not> mul_would_overflow 64 a b \<Longrightarrow> int64 (a * b)"
  by (simp_all add: add_would_overflow_iff sub_would_overflow_iff mul_would_overflow_iff fits_64)

lemma div_imp_int64: "div_imp a b = Some q \<Longrightarrow> int64 a \<Longrightarrow> int64 b \<Longrightarrow> int64 q"
  by (rule conjunct1 [OF int64_div_imp [of "word_of_int a" "word_of_int b" q]])
    (simp_all only: sint_word_of_int)

lemma mr_reduced_int64:
  assumes "do { r \<leftarrow> mr_mod x m; Some (MR m r) } = Some c" "int64 x" "int64 m"
  shows "mr_int64 c"
proof -
  obtain r where r: "mr_mod x m = Some r" "c = MR m r" using assms(1) by (auto simp: bind_eq_Some_conv)
  then show ?thesis using mr_mod_int64 [OF r(1)] assms(2,3) by simp
qed

lemma mr_gcd_int64:
  assumes "do { m \<leftarrow> gcd_imp a b; f m } = Some c" "int64 a" "int64 b"
    "\<And>m. f m = Some c \<Longrightarrow> int64 m \<Longrightarrow> mr_int64 c"
  shows "mr_int64 c"
proof -
  obtain m where m: "gcd_imp a b = Some m" "f m = Some c" using assms(1) by (auto simp: bind_eq_Some_conv)
  show ?thesis by (rule assms(4) [OF m(2) gcd_imp_int64 [OF m(1) assms(2,3)]])
qed

lemma mr_add_int64:
  assumes "mr_add a b = Some c" "mr_int64 a" "mr_int64 b"
  shows "mr_int64 c"
proof (cases "add_would_overflow 64 (remainder a) (remainder b)")
  case True
  then show ?thesis using assms(1) by (auto simp: mr_add_def)
next
  case False
  have i: "int64 (remainder a)" "int64 (remainder b)" "int64 (modulus a)" "int64 (modulus b)"
    using assms(2,3) by (simp_all add: mr_int64_def)
  show ?thesis
    using assms(1) unfolding mr_add_def if_not_P [OF False]
    by (rule mr_gcd_int64 [OF _ i(3,4) mr_reduced_int64 [OF _ would_overflow_int64(1) [OF i(1,2) False]]])
qed

lemma mr_sub_int64:
  assumes "mr_sub a b = Some c" "mr_int64 a" "mr_int64 b"
  shows "mr_int64 c"
proof (cases "sub_would_overflow 64 (remainder a) (remainder b)")
  case True
  then show ?thesis using assms(1) by (auto simp: mr_sub_def)
next
  case False
  have i: "int64 (remainder a)" "int64 (remainder b)" "int64 (modulus a)" "int64 (modulus b)"
    using assms(2,3) by (simp_all add: mr_int64_def)
  show ?thesis
    using assms(1) unfolding mr_sub_def if_not_P [OF False]
    by (rule mr_gcd_int64 [OF _ i(3,4) mr_reduced_int64 [OF _ would_overflow_int64(2) [OF i(1,2) False]]])
qed

lemma mr_mul_int64:
  assumes "mr_mul a b = Some c" "mr_int64 a" "mr_int64 b"
  shows "mr_int64 c"
proof -
  have i: "int64 (remainder a)" "int64 (remainder b)" "int64 (modulus a)" "int64 (modulus b)"
    using assms(2,3) by (simp_all add: mr_int64_def)
  have p: "int64 x \<Longrightarrow> int64 y \<Longrightarrow> (if \<not> mul_would_overflow 64 x y then Some (MR (x * y) 0) else Some mr_top) = Some c
      \<Longrightarrow> mr_int64 c" for x y
    using would_overflow_int64(3) [of x y] by (auto split: if_splits)
  show ?thesis
  proof (cases "modulus a \<noteq> 0 \<and> modulus b \<noteq> 0 \<and> (remainder a = 0 \<or> remainder b = 0)")
    case True
    then show ?thesis
      using assms(1) i p unfolding mr_mul_def
      by (auto split: if_split_asm elim!: mr_gcd_int64)
  next
    case False
    then show ?thesis
      using assms(1) i would_overflow_int64(3) unfolding mr_mul_def
      by (auto split: if_split_asm elim!: mr_gcd_int64 mr_reduced_int64)
  qed
qed

lemma mr_div_int64:
  assumes "mr_div a b = Some c" "mr_int64 a" "mr_int64 b"
  shows "mr_int64 c"
proof (cases "modulus b = 0 \<and> remainder b \<noteq> 0 \<and> mr_mod (modulus a) (remainder b) = Some 0")
  case True
  then obtain m r where mr: "cdiv64 (modulus a) (remainder b) = Some m" "div_imp (remainder a) (remainder b) = Some r"
    "c = MR m r"
    using assms(1) by (auto simp: mr_div_def bind_eq_Some_conv)
  then show ?thesis
    using div_imp_int64 [OF mr(2)] assms(2,3) by (auto simp: mr_int64_def cdiv64_def split: if_splits)
next
  case False
  then have "c = mr_top" using assms(1) by (auto simp: mr_div_def bind_eq_Some_conv split: if_splits)
  then show ?thesis by simp
qed

lemma mr_modulo_int64:
  assumes "mr_modulo a b = Some c" "mr_int64 a" "mr_int64 b"
  shows "mr_int64 c"
proof -
  have i: "int64 (remainder a)" "int64 (remainder b)" "int64 (modulus a)" "int64 (modulus b)"
    using assms(2,3) by (simp_all add: mr_int64_def)
  show ?thesis
    using assms(1) unfolding mr_modulo_def
    by (rule mr_gcd_int64 [OF _ i(3,4)]) (erule (1) mr_gcd_int64 [OF _ _ i(2)], erule (1) mr_reduced_int64 [OF _ i(1)])
qed

lemma mr_unify_int64:
  assumes "mr_unify a b = Some c" "mr_int64 a" "mr_int64 b"
  shows "mr_int64 c"
proof -
  have u: "mr_int64 c" if "do {
       m \<leftarrow> gcd_imp (modulus a) (modulus b);
       diff \<leftarrow> chk64 (remainder a - remainder b);
       m \<leftarrow> gcd_imp diff m;
       ra \<leftarrow> mr_mod (remainder a) m;
       rb \<leftarrow> mr_mod (remainder b) m;
       if ra = rb then Some (MR m ra) else None } = Some c" "mr_int64 a" "mr_int64 b" for a b
  proof -
    note eq = that(1)
    obtain m g r where m: "gcd_imp (modulus a) (modulus b) = Some m" "int64 (remainder a - remainder b)"
      "gcd_imp (remainder a - remainder b) m = Some g" "mr_mod (remainder a) g = Some r" "c = MR g r"
      using eq by (auto simp: bind_eq_Some_conv split: if_splits)
    have "int64 m" using gcd_imp_int64 [OF m(1)] that(2,3) by (simp add: mr_int64_def)
    then have "int64 g" using gcd_imp_int64 [OF m(3,2)] by simp
    then show ?thesis using mr_mod_int64 [OF m(4)] m(5) that(2) by (simp add: mr_int64_def)
  qed
  show ?thesis
    using assms u [of a b] u [of b a] by (auto simp: mr_unify_def Let_def split: if_splits)
qed

lemmas mr_ops_int64 = mr_add_int64 mr_sub_int64 mr_mul_int64 mr_div_int64 mr_modulo_int64 mr_unify_int64

end
