(* ===== verification/SimpState.thy ===== *)
theory SimpState
  imports Scope IRCompare ExprInfo Limits
begin

text \<open>
  The state of the simplifier (\<open>Simplify_Internal.h\<close>, \<open>Simplify.cpp\<close>), what its visitors
  share, and the contract that they keep. A visitor calls back to \<open>mutate\<close>, which is a
  parameter of its definition: a function from an expression, the \<open>ExprInfo\<close> to fill in
  (\<open>None\<close> for a null pointer) and the state. No result stands for a failed assertion,
  undefined behaviour, a construct left out of the model or an exhausted recursion budget.
\<close>

section \<open>State\<close>

record var_info =
  replacement :: "expr option"
  old_uses :: int
  new_uses :: int

record simp_state = mach +
  var_infos :: "var_info scope"
  bounds_and_alignment_info :: "expr_info scope"
  truths :: "expr list"
  falsehoods :: "expr list"
  remove_dead_lets :: bool
  no_float_simplify :: bool

type_synonym simp_result = "(expr \<times> expr_info option \<times> simp_state) option"
type_synonym mutator = "expr \<Rightarrow> expr_info option \<Rightarrow> simp_state \<Rightarrow> simp_result"

definition may_simplify :: "simp_state \<Rightarrow> halide_type \<Rightarrow> bool" where
  "may_simplify s t \<longleftrightarrow> \<not> no_float_simplify s \<or> \<not> is_float t"

definition const_float :: "expr \<Rightarrow> float64 option" where
  "const_float e = (if is_vector (etype e) then None else as_const_float e)"

definition const_int :: "expr \<Rightarrow> int option" where
  "const_int e = (if is_vector (etype e) then None else as_const_int e)"

definition const_uint :: "expr \<Rightarrow> int option" where
  "const_uint e = (if is_vector (etype e) then None else as_const_uint e)"

definition should_commute :: "expr \<Rightarrow> expr \<Rightarrow> bool" where
  "should_commute a b =
     (if node_type a < node_type b then True
      else if node_type a > node_type b then False
      else case (a, b) of
          (Variable ta va, Variable tb vb) \<Rightarrow> va > vb
        | _ \<Rightarrow> False)"

text \<open>The sets of known facts are ordered by \<open>IRDeepCompare\<close>.\<close>

definition fact_count :: "float_ops \<Rightarrow> expr \<Rightarrow> expr list \<Rightarrow> bool" where
  "fact_count F e facts \<longleftrightarrow> (\<exists>f \<in> set facts. deep_equal F f e)"

definition count_old_use :: "string \<Rightarrow> simp_state \<Rightarrow> simp_state option" where
  "count_old_use n s =
     (if scope_contains (var_infos s) n then do {
        vs \<leftarrow> scope_update n (\<lambda>i. i\<lparr>old_uses := old_uses i + 1\<rparr>) (var_infos s);
        Some (s\<lparr>var_infos := vs\<rparr>) }
      else Some s)"

text \<open>The dimensions are counted up from zero: \<open>found_dimensions d k\<close> does \<open>d, ..., d + k - 1\<close>.\<close>

fun decimal :: "nat \<Rightarrow> string" where
  "decimal n = (if n < 10 then [char_of (48 + n)] else decimal (n div 10) @ [char_of (48 + n mod 10)])"

declare decimal.simps [simp del]

fun found_dimensions :: "string \<Rightarrow> nat \<Rightarrow> nat \<Rightarrow> simp_state \<Rightarrow> simp_state option" where
  "found_dimensions name i 0 s = Some s"
| "found_dimensions name i (Suc k) s = do {
     s \<leftarrow> count_old_use (name @ ''.stride.'' @ decimal i) s;
     s \<leftarrow> count_old_use (name @ ''.min.'' @ decimal i) s;
     found_dimensions name (i + 1) k s }"

definition found_buffer_reference :: "string \<Rightarrow> nat \<Rightarrow> simp_state \<Rightarrow> simp_state option" where
  "found_buffer_reference name dimensions s = do {
     s \<leftarrow> found_dimensions name 0 dimensions s;
     count_old_use name s }"

text \<open>
  The ghost \<open>tainted\<close>: set where the run leaves what is proved, with no effect on the
  result.
\<close>

definition taint_if :: "bool \<Rightarrow> simp_state \<Rightarrow> simp_state" where
  "taint_if p s = (if p then s\<lparr>tainted := True\<rparr> else s)"

definition trim_bounds :: "expr_info \<Rightarrow> simp_state \<Rightarrow> (expr_info \<times> simp_state) option" where
  "trim_bounds i s = do {
     i' \<leftarrow> trim_bounds_using_alignment i;
     Some (i', taint_if (\<not> trim_exact (alignment i)) s) }"

definition mutate_plain :: "mutator \<Rightarrow> expr \<Rightarrow> simp_state \<Rightarrow> (expr \<times> simp_state) option" where
  "mutate_plain mu e s = do { (e, b, s) \<leftarrow> mu e None s; Some (e, s) }"

definition mutate_info :: "mutator \<Rightarrow> expr \<Rightarrow> simp_state \<Rightarrow> (expr \<times> expr_info \<times> simp_state) option" where
  "mutate_info mu e s = do {
     (e, b, s) \<leftarrow> mu e (Some no_info) s;
     b \<leftarrow> b;
     Some (e, b, s) }"

section \<open>Rewriting in a visitor\<close>

text \<open>
  Groups of rules in the order they are tried. The rules of a group that refer to the
  bounds of a type exist only where these can be made, and are made only when the group
  is reached. A group marked \<open>True\<close> has rules that are not proved for the type.
\<close>

type_synonym rule_group = "bool \<times> rule list option"

fun try_groups ::
  "float_ops \<Rightarrow> mutator \<Rightarrow> rule_group list \<Rightarrow> expr \<Rightarrow> halide_type \<Rightarrow> simp_state \<Rightarrow>
   (expr option \<times> simp_state) option" where
  "try_groups F mu [] e ty s = Some (None, s)"
| "try_groups F mu ((bad, rs) # gs) e ty s = do {
     rs \<leftarrow> rs;
     (r, s) \<leftarrow> apply_rules F (mutate_plain mu) rs e ty s;
     case r of Some e' \<Rightarrow> Some (Some e', taint_if bad s) | None \<Rightarrow> try_groups F mu gs e ty s }"

text \<open>
  Results of the \<open>direct\<close> groups are returned, those of the \<open>chain\<close> groups mutated again;
  when no rule applies, the node is finished by \<open>rest\<close>.
\<close>

definition rewrite_node ::
  "float_ops \<Rightarrow> mutator \<Rightarrow> rule_group list \<Rightarrow> rule_group list \<Rightarrow> expr \<Rightarrow> halide_type \<Rightarrow> expr option \<Rightarrow>
   expr_info option \<Rightarrow> simp_state \<Rightarrow> simp_result" where
  "rewrite_node F mu direct chain e ty rest bounds s = do {
     (r, s) \<leftarrow> try_groups F mu direct e ty s;
     case r of Some e' \<Rightarrow> Some (e', bounds, s)
     | None \<Rightarrow> do {
         (r, s) \<leftarrow> try_groups F mu chain e ty s;
         case r of Some e' \<Rightarrow> mu e' bounds s
         | None \<Rightarrow> do { e \<leftarrow> rest; Some (e, bounds, s) } } }"

text \<open>\<open>same_as\<close> compares pointers; the nodes are immutable, so a fresh copy will do.\<close>

fun is_ramp_indices :: "nat list \<Rightarrow> int \<Rightarrow> bool" where
  "is_ramp_indices (i # j # is) stride \<longleftrightarrow> int i + stride = int j \<and> is_ramp_indices (j # is) stride"
| "is_ramp_indices _ stride \<longleftrightarrow> True"

definition slice_stride :: "nat list \<Rightarrow> int" where
  "slice_stride is = (case is of i # j # _ \<Rightarrow> int j - int i | _ \<Rightarrow> 1)"

definition is_slice :: "expr list \<Rightarrow> nat list \<Rightarrow> bool" where
  "is_slice vectors indices \<longleftrightarrow>
     length indices < sum_list (map (\<lambda>v. lanes (etype v)) vectors) \<and>
     is_ramp_indices indices (slice_stride indices)"

definition hoist_slice_vector :: "bin_op \<Rightarrow> expr list \<Rightarrow> nat list \<Rightarrow> expr list \<Rightarrow> nat list \<Rightarrow> expr option" where
  "hoist_slice_vector op vas ias vbs ibs =
     (if ias \<noteq> ibs then Bin_make op (Shuffle vas ias) (Shuffle vbs ibs)
      else if length vas \<noteq> length vbs then Bin_make op (Shuffle vas ias) (Shuffle vbs ibs)
      else if \<not> list_all (\<lambda>(a, b). etype a = etype b) (zip vas vbs)
      then Bin_make op (Shuffle vas ias) (Shuffle vbs ibs)
      else do {
        new_slices \<leftarrow> those (map (\<lambda>(a, b). Bin_make op a b) (zip vas vbs));
        Shuffle_make new_slices ias })"

definition finish_bin :: "bin_op \<Rightarrow> expr \<Rightarrow> expr \<Rightarrow> expr option" where
  "finish_bin op a b =
     (case (a, b) of
        (Shuffle vas ias, Shuffle vbs ibs) \<Rightarrow>
          if is_slice vas ias \<and> is_slice vbs ibs then hoist_slice_vector op vas ias vbs ibs
          else Bin_make op a b
      | _ \<Rightarrow> Bin_make op a b)"

section \<open>The contract\<close>

definition replacements :: "simp_state \<Rightarrow> string \<Rightarrow> expr option list" where
  "replacements s n = map replacement (scope_stack (var_infos s) n)"

definition state_ok :: "simp_state \<Rightarrow> bool" where
  "state_ok s \<longleftrightarrow> scope_ok (var_infos s) \<and> containing_scope (var_infos s) = None"

definition same_facts :: "simp_state \<Rightarrow> simp_state \<Rightarrow> bool" where
  "same_facts s s' \<longleftrightarrow>
     bounds_and_alignment_info s' = bounds_and_alignment_info s \<and> truths s' = truths s \<and>
     falsehoods s' = falsehoods s \<and> remove_dead_lets s' = remove_dead_lets s \<and>
     no_float_simplify s' = no_float_simplify s \<and>
     (state_ok s \<longrightarrow> state_ok s' \<and> replacements s' = replacements s)"

definition kept :: "simp_state \<Rightarrow> simp_state \<Rightarrow> bool" where
  "kept s s' \<longleftrightarrow> same_facts s s' \<and> (tainted s \<longrightarrow> tainted s')"

lemma same_facts_refl [simp]: "same_facts s s" and kept_refl [simp]: "kept s s"
  by (simp_all add: same_facts_def kept_def)

lemma same_facts_trans [trans]: "same_facts s s' \<Longrightarrow> same_facts s' s'' \<Longrightarrow> same_facts s s''"
  by (simp add: same_facts_def)

lemma kept_trans [trans]: "kept s s' \<Longrightarrow> kept s' s'' \<Longrightarrow> kept s s''"
  using same_facts_trans by (auto simp: kept_def)

lemma kept_same_facts: "kept s s' \<Longrightarrow> same_facts s s'"
  and kept_tainted: "kept s s' \<Longrightarrow> \<not> tainted s' \<Longrightarrow> \<not> tainted s"
  by (auto simp: kept_def)

lemma kept_taint_if [simp]: "kept s (taint_if p s)" and taint_if_tainted [simp]: "tainted (taint_if p s) \<longleftrightarrow> p \<or> tainted s"
  by (simp_all add: taint_if_def kept_def same_facts_def replacements_def state_ok_def fun_eq_iff)

lemma kept_flags: "kept s s' \<Longrightarrow> may_simplify s' t = may_simplify s t"
  by (simp add: kept_def same_facts_def may_simplify_def)

lemma kept_count_old_use:
  assumes "count_old_use n s = Some s'"
  shows "kept s s'"
proof (cases "scope_contains (var_infos s) n")
  case True
  then obtain vs where vs: "scope_update n (\<lambda>i. i\<lparr>old_uses := old_uses i + 1\<rparr>) (var_infos s) = Some vs"
    "s' = s\<lparr>var_infos := vs\<rparr>"
    using assms by (auto simp: count_old_use_def bind_eq_Some_conv)
  have "state_ok s \<longrightarrow> state_ok s' \<and> replacements s' = replacements s"
    using scope_update_stack [OF _ vs(1)] scope_containing(2) [OF vs(1)]
    by (auto simp: state_ok_def replacements_def vs(2) fun_eq_iff split: list.splits)
  then show ?thesis by (auto simp: kept_def same_facts_def vs(2))
qed (use assms in \<open>simp add: count_old_use_def\<close>)

lemma kept_found_dimensions: "found_dimensions name i k s = Some s' \<Longrightarrow> kept s s'"
proof (induction name i k s rule: found_dimensions.induct)
  case (2 name i k s)
  then show ?case by (auto simp: bind_eq_Some_conv) (blast intro: kept_trans kept_count_old_use)
qed simp

lemma kept_found_buffer_reference: "found_buffer_reference name d s = Some s' \<Longrightarrow> kept s s'"
  by (auto simp: found_buffer_reference_def bind_eq_Some_conv)
    (blast intro: kept_trans kept_count_old_use kept_found_dimensions)

text \<open>The facts the state holds are true of an environment.\<close>

definition facts_ok :: "eval_env \<Rightarrow> simp_state \<Rightarrow> bool" where
  "facts_ok env s \<longleftrightarrow> state_ok s \<and>
     (\<forall>n i l v. scope_get (bounds_and_alignment_info s) n = Some i \<and> vars env n l = Some v \<longrightarrow> info_ok i v) \<and>
     (\<forall>n e r. replacements s n = Some e # r \<longrightarrow> wf e \<and>
        (\<forall>l v. lane_ok l e \<and> eval env (Variable (etype e) n) l = Some v \<longrightarrow> eval env e l = Some v)) \<and>
     (\<forall>e \<in> set (truths s). \<forall>l v. lane_ok l e \<and> eval env e l = Some v \<longrightarrow> v \<noteq> 0) \<and>
     (\<forall>e \<in> set (falsehoods s). \<forall>l v. lane_ok l e \<and> eval env e l = Some v \<longrightarrow> v = 0)"

lemma same_facts_ok: "same_facts s s' \<Longrightarrow> facts_ok env s \<Longrightarrow> facts_ok env s'"
  by (simp add: facts_ok_def same_facts_def)

lemma kept_facts_ok: "kept s s' \<Longrightarrow> facts_ok env s \<Longrightarrow> facts_ok env s'"
  using same_facts_ok kept_same_facts by blast

definition opt_ok :: "expr_info option \<Rightarrow> int \<Rightarrow> bool" where
  "opt_ok b v \<longleftrightarrow> (case b of Some i \<Rightarrow> info_ok i v | None \<Rightarrow> True)"

lemma opt_ok_simps [simp]: "opt_ok None v" "opt_ok (Some i) v \<longleftrightarrow> info_ok i v"
  by (simp_all add: opt_ok_def)

text \<open>
  What a run promises of its result, under a condition \<open>C\<close> on where it started: it keeps
  the facts, and unless it is tainted an expression of the type \<open>ty\<close> is well-formed and has
  the value \<open>v\<close> in the lane \<open>l\<close>, and the information about it is right.
\<close>

definition simp_ok ::
  "bool \<Rightarrow> eval_env \<Rightarrow> nat \<Rightarrow> int \<Rightarrow> halide_type \<Rightarrow> expr_info option \<Rightarrow> simp_state \<Rightarrow>
   expr \<times> expr_info option \<times> simp_state \<Rightarrow> bool" where
  "simp_ok C env l v ty b s r \<longleftrightarrow>
     (case r of (e', b', s') \<Rightarrow> kept s s' \<and> (b' = None \<longleftrightarrow> b = None) \<and>
        (C \<and> \<not> tainted s' \<and> etype e' = ty \<longrightarrow> wf e' \<and> eval env e' l = Some v \<and> opt_ok b' v))"

definition simp_pre :: "eval_env \<Rightarrow> nat \<Rightarrow> expr \<Rightarrow> int \<Rightarrow> expr_info option \<Rightarrow> simp_state \<Rightarrow> bool" where
  "simp_pre env l e v b s \<longleftrightarrow>
     wf e \<and> lane_ok l e \<and> facts_ok env s \<and> eval env e l = Some v \<and> opt_ok b v"

definition visit_pre :: "eval_env \<Rightarrow> nat \<Rightarrow> expr \<Rightarrow> int \<Rightarrow> expr_info option \<Rightarrow> simp_state \<Rightarrow> bool" where
  "visit_pre env l e v b s \<longleftrightarrow>
     wf e \<and> l < lanes (etype e) \<and> facts_ok env s \<and> eval env e l = Some v \<and> opt_ok b v"

lemma simp_ok_after:
  assumes "kept s s1" "b1 = None \<longleftrightarrow> b = None" "simp_ok (C \<and> \<not> tainted s1) env l v ty b1 s1 r"
  shows "simp_ok C env l v ty b s r"
  using assms kept_trans [OF assms(1)] kept_tainted by (auto simp: simp_ok_def)

lemma simp_ok_done:
  assumes "C \<Longrightarrow> \<not> tainted s \<Longrightarrow> etype e = ty \<Longrightarrow> wf e \<and> eval env e l = Some v \<and> opt_ok b v"
  shows "simp_ok C env l v ty b s (e, b, s)"
  using assms by (simp add: simp_ok_def)

lemma simp_ok_kept: "simp_ok C env l v ty b s (e', b', s') \<Longrightarrow> kept s s'"
  by (simp add: simp_ok_def)

lemma simp_ok_mono: "simp_ok C' env l v ty b s r \<Longrightarrow> (C \<Longrightarrow> C') \<Longrightarrow> simp_ok C env l v ty b s r"
  by (auto simp: simp_ok_def)

text \<open>A group of rules that is not marked is valid, in the lane.\<close>

definition group_ok :: "float_ops \<Rightarrow> eval_env \<Rightarrow> nat \<Rightarrow> expr \<Rightarrow> rule_group \<Rightarrow> bool" where
  "group_ok F env l e g \<longleftrightarrow>
     (case g of (bad, rs) \<Rightarrow> \<forall>rules. rs = Some rules \<and> \<not> bad \<longrightarrow>
        (\<exists>P. list_all (valid_rule P (operands e)) rules \<and> (\<forall>r \<in> set rules. restricted P F env l r e)))"

lemma group_ok_table:
  assumes "list_all (valid_rule (in_lanes ty) (operands e)) rules" "l < lanes ty"
  shows "group_ok F env l e (bad, Some rules)"
  unfolding group_ok_def
  using assms by (auto simp: restricted_def in_lanes_def vctx_of_def split: rule.splits intro!: exI [of _ "in_lanes ty"])

section \<open>What visitors rely on\<close>

locale sound_mutator =
  fixes mu :: mutator
  assumes mu_type: "mu e b s = Some (e', b', s') \<Longrightarrow> etype e' = etype e"
    and mu_ok: "mu e b s = Some r \<Longrightarrow> simp_ok (simp_pre env l e v b s) env l v (etype e) b s r"
begin

lemma plain:
  assumes "mutate_plain mu e s = Some (e', s')"
  shows "kept s s'" "etype e' = etype e"
    "wf e \<Longrightarrow> lane_ok l e \<Longrightarrow> facts_ok env s \<Longrightarrow> eval env e l = Some v \<Longrightarrow> \<not> tainted s' \<Longrightarrow>
      wf e' \<and> eval env e' l = Some v"
proof -
  obtain b where m: "mu e None s = Some (e', b, s')"
    using assms by (auto simp: mutate_plain_def bind_eq_Some_conv)
  note ok = mu_ok [OF m, unfolded simp_ok_def simp_pre_def]
  show "kept s s'" "etype e' = etype e" using ok mu_type [OF m] by auto
  then show "wf e \<Longrightarrow> lane_ok l e \<Longrightarrow> facts_ok env s \<Longrightarrow> eval env e l = Some v \<Longrightarrow> \<not> tainted s' \<Longrightarrow>
      wf e' \<and> eval env e' l = Some v"
    using ok [where env = env and l = l and v = v] by simp
qed

lemma info:
  assumes "mutate_info mu e s = Some (e', i, s')"
  shows "kept s s'" "etype e' = etype e"
    "wf e \<Longrightarrow> lane_ok l e \<Longrightarrow> facts_ok env s \<Longrightarrow> eval env e l = Some v \<Longrightarrow> \<not> tainted s' \<Longrightarrow>
      wf e' \<and> eval env e' l = Some v \<and> info_ok i v"
proof -
  have m: "mu e (Some no_info) s = Some (e', Some i, s')"
    using assms by (auto simp: mutate_info_def bind_eq_Some_conv)
  note ok = mu_ok [OF m, unfolded simp_ok_def simp_pre_def]
  show "kept s s'" "etype e' = etype e" using ok mu_type [OF m] by auto
  then show "wf e \<Longrightarrow> lane_ok l e \<Longrightarrow> facts_ok env s \<Longrightarrow> eval env e l = Some v \<Longrightarrow> \<not> tainted s' \<Longrightarrow>
      wf e' \<and> eval env e' l = Some v \<and> info_ok i v"
    using ok [where env = env and l = l and v = v] by simp
qed

lemma same_facts_set_mach: "same_facts s s' \<Longrightarrow> same_facts s (set_mach m s')"
  by (simp add: same_facts_def set_mach_def state_ok_def replacements_def fun_eq_iff)

lemma keeping: "keeping_prover (same_facts s) (mutate_plain mu)"
  unfolding keeping_prover_def
  using same_facts_set_mach plain(1) same_facts_trans kept_same_facts by (meson kept_def)

lemma prover:
  assumes "facts_ok env s"
  shows "sound_prover (same_facts s) env l (mutate_plain mu)"
  unfolding sound_prover_def
  using keeping plain(2,3) same_facts_ok [OF _ assms] by metis

lemma try_groups_kept: "try_groups F mu gs e ty s = Some (r, s') \<Longrightarrow> kept s s'"
proof (induction gs arbitrary: s)
  case (Cons g gs)
  obtain bad rs where g: "g = (bad, rs)" by (cases g)
  obtain rules res s1 where a: "rs = Some rules" "apply_rules F (mutate_plain mu) rules e ty s = Some (res, s1)"
    "(case res of Some e' \<Rightarrow> Some (Some e', taint_if bad s1) | None \<Rightarrow> try_groups F mu gs e ty s1) = Some (r, s')"
    using Cons.prems by (auto simp: g bind_eq_Some_conv)
  have "kept s s1" using apply_rules_keeps [OF a(2) keeping [of s] same_facts_refl] by (simp add: kept_def)
  then show ?case using a(3) Cons.IH [of s1] kept_trans [of s s1] by (auto split: option.splits)
qed simp

lemma try_groups_sound:
  assumes "wf e" "etype e = ty" "l < lanes ty" "eval env e l = Some v"
  shows "try_groups F mu gs e ty s = Some (Some e', s') \<Longrightarrow> facts_ok env s \<Longrightarrow> \<not> tainted s' \<Longrightarrow>
    (\<And>g. g \<in> set gs \<Longrightarrow> group_ok F env l e g) \<Longrightarrow> wf e' \<and> eval env e' l = Some v"
proof (induction gs arbitrary: s)
  case (Cons g gs)
  obtain bad rs where g: "g = (bad, rs)" by (cases g)
  obtain rules res s1 where a: "rs = Some rules" "apply_rules F (mutate_plain mu) rules e ty s = Some (res, s1)"
    "(case res of Some e' \<Rightarrow> Some (Some e', taint_if bad s1) | None \<Rightarrow> try_groups F mu gs e ty s1) = Some (Some e', s')"
    using Cons.prems(1) by (auto simp: g bind_eq_Some_conv)
  have k: "kept s s1" using apply_rules_keeps [OF a(2) keeping [of s] same_facts_refl] by (simp add: kept_def)
  show ?case
  proof (cases res)
    case None
    then show ?thesis using Cons a(3) kept_facts_ok [OF k] by simp
  next
    case (Some e'')
    then have e: "e'' = e'" "\<not> bad" "\<not> tainted s1" using a(3) Cons.prems(3) by auto
    obtain P where P: "list_all (valid_rule P (operands e)) rules" "\<forall>r \<in> set rules. restricted P F env l r e"
      using Cons.prems(4) [of g] e(2) a(1) unfolding group_ok_def g by auto
    have "num_ety (ety (etype e))" using eval_ety [OF assms(1,4)] by simp
    then have "hint_ok ty" using assms(1,2) wf_legal num_ety_num [of ty] by (auto simp: hint_ok_def)
    then show ?thesis
      using apply_rules_sound [OF P(1) _ assms(1,4) _ _ prover [OF Cons.prems(2)], of F ty s e' s1] a(2) P(2) assms(2,3) e Some
      by (auto simp: lane_okt_def)
  qed
qed simp

lemma rewrite_node_ok:
  assumes "rewrite_node F mu direct chain e ty rest b s = Some r"
    and pre: "C \<Longrightarrow> visit_pre env l e v b s \<and> etype e = ty"
    and groups: "\<And>g. C \<Longrightarrow> g \<in> set direct \<union> set chain \<Longrightarrow> group_ok F env l e g"
    and rest: "\<And>e'. C \<Longrightarrow> rest = Some e' \<Longrightarrow> etype e' = ty \<Longrightarrow> wf e' \<and> eval env e' l = Some v"
  shows "simp_ok C env l v ty b s r"
proof -
  obtain r1 s1 where d: "try_groups F mu direct e ty s = Some (r1, s1)"
    using assms(1) by (auto simp: rewrite_node_def bind_eq_Some_conv)
  note k1 = try_groups_kept [OF d]
  show ?thesis
  proof (cases r1)
    case (Some e')
    then have r: "r = (e', b, s1)" using assms(1) d by (simp add: rewrite_node_def)
    show ?thesis
      unfolding r
    proof (rule simp_ok_after [OF k1 refl simp_ok_done])
      assume C: "C \<and> \<not> tainted s1"
      then have p: "visit_pre env l e v b s" "etype e = ty" using pre by blast+
      then show "wf e' \<and> eval env e' l = Some v \<and> opt_ok b v"
        using try_groups_sound [of e ty l env v F direct s e' s1] d Some C groups by (auto simp: visit_pre_def)
    qed
  next
    case None
    then obtain r2 s2 where c: "try_groups F mu chain e ty s1 = Some (r2, s2)"
      and r: "(case r2 of Some e' \<Rightarrow> mu e' b s2 | None \<Rightarrow> do { e \<leftarrow> rest; Some (e, b, s2) }) = Some r"
      using assms(1) d by (auto simp: rewrite_node_def bind_eq_Some_conv)
    note k2 = try_groups_kept [OF c]
    have k: "kept s s2" using k1 k2 kept_trans by blast
    show ?thesis
    proof (cases r2)
      case (Some e')
      then have m: "mu e' b s2 = Some r" using r by simp
      obtain e'' b'' s'' where r': "r = (e'', b'', s'')" by (cases r)
      show ?thesis
      proof (rule simp_ok_after [OF k refl])
        have "simp_ok (simp_pre env l e' v b s2) env l v (etype e') b s2 r" by (rule mu_ok [OF m])
        moreover have "simp_pre env l e' v b s2" if C: "C" "\<not> tainted s2" and ty: "etype e' = ty"
        proof -
          have p: "visit_pre env l e v b s" "etype e = ty" using pre C(1) by blast+
          then have "wf e' \<and> eval env e' l = Some v"
            using try_groups_sound [of e ty l env v F chain s1 e' s2] c Some C groups kept_facts_ok [OF k1]
            by (auto simp: visit_pre_def)
          then show ?thesis
            using p ty kept_facts_ok [OF k] by (auto simp: simp_pre_def visit_pre_def lane_okt_def)
        qed
        ultimately show "simp_ok (C \<and> \<not> tainted s2) env l v ty b s2 r"
          using mu_type [OF m [unfolded r']] by (auto simp: simp_ok_def r')
      qed
    next
      case None
      then obtain e' where e': "rest = Some e'" "r = (e', b, s2)" using r by (auto simp: bind_eq_Some_conv)
      show ?thesis
        unfolding e'(2)
        by (rule simp_ok_after [OF k refl simp_ok_done])
          (use e'(1) pre rest in \<open>auto simp: visit_pre_def\<close>)
    qed
  qed
qed

end

end
