(* ===== verification/SimpBounds.thy ===== *)
theory SimpBounds
  imports SimpState
begin

text \<open>
  What the visitors compute for \<open>bounds\<close> (the first part of the \<open>visit\<close> methods of
  Simplify_Add.cpp, Simplify_Sub.cpp, Simplify_Mul.cpp, Simplify_Div.cpp, Simplify_Mod.cpp,
  Simplify_Min.cpp, Simplify_Max.cpp, Simplify_Select.cpp and of \<open>Ramp\<close> in
  Simplify_Exprs.cpp), and that the result holds of the value of the node.
\<close>

definition on_bounds ::
  "expr_info option \<Rightarrow> (expr_info \<Rightarrow> simp_state \<Rightarrow> (expr_info \<times> simp_state) option) \<Rightarrow> simp_state \<Rightarrow>
   (expr_info option \<times> simp_state) option" where
  "on_bounds bounds f s =
     (case bounds of None \<Rightarrow> Some (None, s) | Some i \<Rightarrow> do { (i, s) \<leftarrow> f i s; Some (Some i, s) })"

definition Add_bounds :: "halide_type \<Rightarrow> expr_info \<Rightarrow> expr_info \<Rightarrow> expr_info \<Rightarrow> simp_state \<Rightarrow> (expr_info \<times> simp_state) option" where
  "Add_bounds ty a b bounds s =
     (if \<not> no_overflow_int ty then Some (bounds, s)
      else do {
        lo \<leftarrow> chk64 (info_min a + info_min b);
        hi \<leftarrow> chk64 (info_max a + info_max b);
        al \<leftarrow> mr_add (alignment a) (alignment b);
        trim_bounds \<lparr>info_min = lo, info_max = hi, min_defined = min_defined a \<and> min_defined b,
                     max_defined = max_defined a \<and> max_defined b, alignment = al\<rparr> s })"

definition Sub_bounds :: "halide_type \<Rightarrow> expr_info \<Rightarrow> expr_info \<Rightarrow> expr_info \<Rightarrow> simp_state \<Rightarrow> (expr_info \<times> simp_state) option" where
  "Sub_bounds ty a b bounds s =
     (if \<not> no_overflow_int ty then Some (bounds, s)
      else do {
        lo \<leftarrow> chk64 (info_min a - info_max b);
        hi \<leftarrow> chk64 (info_max a - info_min b);
        al \<leftarrow> mr_sub (alignment a) (alignment b);
        trim_bounds \<lparr>info_min = lo, info_max = hi, min_defined = min_defined a \<and> max_defined b,
                     max_defined = max_defined a \<and> min_defined b, alignment = al\<rparr> s })"

text \<open>
  With one factor bounded and positive and the other bounded on one side only, the code
  takes the product of the two upper (lower) bounds, which is a bound only when the other
  bound is not negative, or the positive factor is constant.
\<close>

definition bounded :: "expr_info \<Rightarrow> bool" where
  "bounded a \<longleftrightarrow> min_defined a \<and> max_defined a"

definition positive :: "expr_info \<Rightarrow> bool" where
  "positive a \<longleftrightarrow> min_defined a \<and> info_min a > 0"

definition product_bound :: "bool \<Rightarrow> int \<Rightarrow> expr_info \<Rightarrow> bool" where
  "product_bound defined v b \<longleftrightarrow> defined \<and> bounded b \<and> positive b \<and> (0 \<le> v \<or> info_min b = info_max b)"

definition Mul_extent :: "expr_info \<Rightarrow> expr_info \<Rightarrow> expr_info \<Rightarrow> simp_state \<Rightarrow> (expr_info \<times> simp_state) option" where
  "Mul_extent a b bounds s =
     (if bounded a \<and> bounded b then do {
        v1 \<leftarrow> chk64 (info_min a * info_min b);
        v2 \<leftarrow> chk64 (info_min a * info_max b);
        v3 \<leftarrow> chk64 (info_max a * info_min b);
        v4 \<leftarrow> chk64 (info_max a * info_max b);
        Some (bounds\<lparr>min_defined := True, max_defined := True,
                     info_min := min (min v1 v2) (min v3 v4),
                     info_max := max (max v1 v2) (max v3 v4)\<rparr>, s) }
      else if (max_defined a \<and> bounded b \<and> positive b) \<or> (max_defined b \<and> bounded a \<and> positive a) then do {
        hi \<leftarrow> chk64 (info_max a * info_max b);
        Some (bounds\<lparr>max_defined := True, info_max := hi\<rparr>,
          taint_if (\<not> product_bound (max_defined a) (info_max a) b \<and>
                    \<not> product_bound (max_defined b) (info_max b) a) s) }
      else if (min_defined a \<and> bounded b \<and> positive b) \<or> (min_defined b \<and> bounded a \<and> positive a) then do {
        lo \<leftarrow> chk64 (info_min a * info_min b);
        Some (bounds\<lparr>min_defined := True, info_min := lo\<rparr>,
          taint_if (\<not> product_bound (min_defined a) (info_min a) b \<and>
                    \<not> product_bound (min_defined b) (info_min b) a) s) }
      else Some (bounds, s))"

definition Mul_bounds :: "halide_type \<Rightarrow> expr_info \<Rightarrow> expr_info \<Rightarrow> expr_info \<Rightarrow> simp_state \<Rightarrow> (expr_info \<times> simp_state) option" where
  "Mul_bounds ty a b bounds s =
     (if \<not> no_overflow_int ty then Some (bounds, s)
      else do {
        (bounds, s) \<leftarrow> Mul_extent a b bounds s;
        al \<leftarrow> mr_mul (alignment a) (alignment b);
        trim_bounds (bounds\<lparr>alignment := al\<rparr>) s })"

text \<open>
  A quotient whose bounds coincide is returned as a constant: \<open>Div_bounds\<close> has an
  expression then.
\<close>

definition overflow_expr :: "halide_type \<Rightarrow> simp_state \<Rightarrow> (expr \<times> simp_state) option" where
  "overflow_expr ty s = do {
     (e, k) \<leftarrow> make_signed_integer_overflow ty (overflows s);
     Some (e, s\<lparr>overflows := k, tainted := True\<rparr>) }"

definition Div_extent ::
  "float_ops \<Rightarrow> halide_type \<Rightarrow> expr_info \<Rightarrow> expr_info \<Rightarrow> expr_info \<Rightarrow> simp_state \<Rightarrow>
   (expr option \<times> expr_info \<times> simp_state) option" where
  "Div_extent F ty a b bounds s =
     (let defined = (min_defined a \<and> min_defined b \<and> max_defined a \<and> max_defined b \<and>
                     (info_min b > 0 \<or> info_max b < 0));
          bounds = bounds\<lparr>min_defined := defined, max_defined := defined\<rparr>
      in if \<not> defined then Some (None, bounds, s)
         else do {
           v1 \<leftarrow> div_imp (info_min a) (info_min b);
           v2 \<leftarrow> div_imp (info_min a) (info_max b);
           v3 \<leftarrow> div_imp (info_max a) (info_min b);
           v4 \<leftarrow> div_imp (info_max a) (info_max b);
           let lo = min (min v1 v2) (min v3 v4); hi = max (max v1 v2) (max v3 v4);
               bounds = bounds\<lparr>info_min := lo, info_max := hi\<rparr>
           in if lo \<noteq> hi then Some (None, bounds, s)
              else if can_represent_int ty lo then do {
                e \<leftarrow> make_const F ty lo; Some (Some e, bounds, s) }
              else do { (e, s) \<leftarrow> overflow_expr ty s; Some (Some e, bounds, s) } })"

definition Div_bounds ::
  "float_ops \<Rightarrow> halide_type \<Rightarrow> expr_info \<Rightarrow> expr_info \<Rightarrow> expr_info \<Rightarrow> simp_state \<Rightarrow>
   (expr option \<times> expr_info \<times> simp_state) option" where
  "Div_bounds F ty a b bounds s =
     (if \<not> no_overflow_int ty then Some (None, bounds, s)
      else do {
        (e, bounds, s) \<leftarrow> Div_extent F ty a b bounds s;
        case e of Some e \<Rightarrow> Some (Some e, bounds, s)
        | None \<Rightarrow> do {
            al \<leftarrow> mr_div (alignment a) (alignment b);
            (bounds, s) \<leftarrow> trim_bounds (bounds\<lparr>alignment := al\<rparr>) s;
            Some (None, bounds, s) } })"

definition Mod_bounds :: "halide_type \<Rightarrow> expr_info \<Rightarrow> expr_info \<Rightarrow> simp_state \<Rightarrow> (expr_info \<times> simp_state) option" where
  "Mod_bounds ty a b s =
     (if \<not> no_overflow_int ty then Some (no_info, s)
      else do {
        p \<leftarrow> chk64 \<bar>info_min b\<bar>;
        q \<leftarrow> chk64 \<bar>info_max b\<bar>;
        al \<leftarrow> mr_modulo (alignment a) (alignment b);
        let defined = (min_defined b \<and> max_defined b \<and> (info_min b > 0 \<or> info_max b < 0))
        in trim_bounds \<lparr>info_min = 0, info_max = max p q - 1, min_defined = defined,
                        max_defined = defined, alignment = al\<rparr> s })"

definition Min_bounds :: "expr_info \<Rightarrow> expr_info \<Rightarrow> simp_state \<Rightarrow> (expr_info \<times> simp_state) option" where
  "Min_bounds a b s = do {
     al \<leftarrow> mr_unify (alignment a) (alignment b);
     trim_bounds \<lparr>info_min = min (info_min a) (info_min b),
       info_max = (if max_defined a \<and> max_defined b then min (info_max a) (info_max b)
                   else if max_defined a then info_max a else info_max b),
       min_defined = min_defined a \<and> min_defined b, max_defined = max_defined a \<or> max_defined b,
       alignment = al\<rparr> s }"

definition Max_bounds :: "expr_info \<Rightarrow> expr_info \<Rightarrow> simp_state \<Rightarrow> (expr_info \<times> simp_state) option" where
  "Max_bounds a b s = do {
     al \<leftarrow> mr_unify (alignment a) (alignment b);
     trim_bounds \<lparr>info_min = (if min_defined a \<and> min_defined b then max (info_min a) (info_min b)
                              else if min_defined a then info_min a else info_min b),
       info_max = max (info_max a) (info_max b),
       min_defined = min_defined a \<or> min_defined b, max_defined = max_defined a \<and> max_defined b,
       alignment = al\<rparr> s }"

definition Select_bounds :: "expr_info \<Rightarrow> expr_info \<Rightarrow> simp_state \<Rightarrow> (expr_info \<times> simp_state) option" where
  "Select_bounds a b s = do {
     al \<leftarrow> mr_unify (alignment a) (alignment b);
     trim_bounds \<lparr>info_min = min (info_min a) (info_min b), info_max = max (info_max a) (info_max b),
       min_defined = min_defined a \<and> min_defined b, max_defined = max_defined a \<and> max_defined b,
       alignment = al\<rparr> s }"

definition Ramp_bounds :: "halide_type \<Rightarrow> expr_info \<Rightarrow> expr_info \<Rightarrow> expr_info \<Rightarrow> simp_state \<Rightarrow> (expr_info \<times> simp_state) option" where
  "Ramp_bounds ty base stride bounds s =
     (if \<not> no_overflow_int ty then Some (bounds, s)
      else do {
        p \<leftarrow> chk64 ((int (lanes ty) - 1) * info_min stride);
        lo \<leftarrow> chk64 (info_min base + p);
        q \<leftarrow> chk64 ((int (lanes ty) - 1) * info_max stride);
        hi \<leftarrow> chk64 (info_max base + q);
        m \<leftarrow> gcd_imp (modulus (alignment stride)) (remainder (alignment stride));
        m \<leftarrow> gcd_imp m (modulus (alignment base));
        r \<leftarrow> (if m \<noteq> 0 then mod_imp (remainder (alignment base)) m else Some (remainder (alignment base)));
        Some (\<lparr>info_min = min (info_min base) lo, info_max = max (info_max base) hi,
               min_defined = min_defined base \<and> min_defined stride,
               max_defined = max_defined base \<and> max_defined stride, alignment = MR m r\<rparr>, s) })"

section \<open>Soundness\<close>

lemma norm_wide: "no_overflow_int t \<Longrightarrow> norm t v = v"
  by (simp add: norm_def wrap_ty_def no_overflow_int_def is_int_def)

lemma trim_bounds_ok:
  assumes "trim_bounds i s = Some (i', s')"
  shows "kept s s'" "\<not> tainted s' \<Longrightarrow> info_ok i v \<Longrightarrow> info_ok i' v"
  using assms trim_sound by (auto simp: trim_bounds_def bind_eq_Some_conv)

lemma on_bounds_ok:
  assumes "on_bounds b f s = Some (b', s')"
    and "\<And>i i'. b = Some i \<Longrightarrow> f i s = Some (i', s') \<Longrightarrow> kept s s'"
    and "\<And>i i'. b = Some i \<Longrightarrow> f i s = Some (i', s') \<Longrightarrow> D \<Longrightarrow> \<not> tainted s' \<Longrightarrow> info_ok i v \<Longrightarrow> info_ok i' v"
  shows "kept s s'" "b' = None \<longleftrightarrow> b = None" "D \<Longrightarrow> \<not> tainted s' \<Longrightarrow> opt_ok b v \<Longrightarrow> opt_ok b' v"
  using assms by (auto simp: on_bounds_def bind_eq_Some_conv split: option.splits)

lemma Add_bounds_ok:
  assumes "Add_bounds ty a b i s = Some (i', s')"
  shows "kept s s'"
    and "info_ok a x \<Longrightarrow> info_ok b y \<Longrightarrow> \<not> tainted s' \<Longrightarrow> info_ok i (norm ty (x + y)) \<Longrightarrow> info_ok i' (norm ty (x + y))"
proof -
  show "kept s s'"
    using assms trim_bounds_ok(1) by (auto simp: Add_bounds_def bind_eq_Some_conv split: if_splits)
  assume ok: "info_ok a x" "info_ok b y" "\<not> tainted s'" "info_ok i (norm ty (x + y))"
  show "info_ok i' (norm ty (x + y))"
  proof (cases "no_overflow_int ty")
    case True
    then obtain al where m: "int64 (info_min a + info_min b)" "int64 (info_max a + info_max b)"
      "mr_add (alignment a) (alignment b) = Some al"
      "trim_bounds \<lparr>info_min = info_min a + info_min b, info_max = info_max a + info_max b,
         min_defined = min_defined a \<and> min_defined b, max_defined = max_defined a \<and> max_defined b, alignment = al\<rparr> s =
       Some (i', s')"
      using assms by (auto simp: Add_bounds_def bind_eq_Some_conv)
    have n: "norm ty (x + y) = x + y" using True by (simp add: norm_wide)
    note A = info_okD [OF ok(1)] and B = info_okD [OF ok(2)]
    show ?thesis
      by (rule trim_bounds_ok(2) [OF m(4) ok(3)])
        (use m(1,2) A B mr_add_int64 [OF m(3)] mr.add_sound [OF m(3)] in
          \<open>auto simp: info_ok_def info_int64_def n intro: add_mono\<close>)
  qed (use assms ok in \<open>simp add: Add_bounds_def\<close>)
qed

lemma Sub_bounds_ok:
  assumes "Sub_bounds ty a b i s = Some (i', s')"
  shows "kept s s'"
    and "info_ok a x \<Longrightarrow> info_ok b y \<Longrightarrow> \<not> tainted s' \<Longrightarrow> info_ok i (norm ty (x - y)) \<Longrightarrow> info_ok i' (norm ty (x - y))"
proof -
  show "kept s s'"
    using assms trim_bounds_ok(1) by (auto simp: Sub_bounds_def bind_eq_Some_conv split: if_splits)
  assume ok: "info_ok a x" "info_ok b y" "\<not> tainted s'" "info_ok i (norm ty (x - y))"
  show "info_ok i' (norm ty (x - y))"
  proof (cases "no_overflow_int ty")
    case True
    then obtain al where m: "int64 (info_min a - info_max b)" "int64 (info_max a - info_min b)"
      "mr_sub (alignment a) (alignment b) = Some al"
      "trim_bounds \<lparr>info_min = info_min a - info_max b, info_max = info_max a - info_min b,
         min_defined = min_defined a \<and> max_defined b, max_defined = max_defined a \<and> min_defined b, alignment = al\<rparr> s =
       Some (i', s')"
      using assms by (auto simp: Sub_bounds_def bind_eq_Some_conv)
    have n: "norm ty (x - y) = x - y" using True by (simp add: norm_wide)
    note A = info_okD [OF ok(1)] and B = info_okD [OF ok(2)]
    show ?thesis
      by (rule trim_bounds_ok(2) [OF m(4) ok(3)])
        (use m(1,2) A B mr_sub_int64 [OF m(3)] mr.sub_sound [OF m(3)] in
          \<open>auto simp: info_ok_def info_int64_def n intro: diff_mono\<close>)
  qed (use assms ok in \<open>simp add: Sub_bounds_def\<close>)
qed

lemma product_between:
  fixes a c p q :: int
  assumes "p \<le> a" "a \<le> q"
  shows "min (p * c) (q * c) \<le> a * c" "a * c \<le> max (p * c) (q * c)"
  using assms by (cases "0 \<le> c"; auto simp: min_le_iff_disj le_max_iff_disj mult_right_mono mult_right_mono_neg)+

lemma product_corners:
  fixes a b p q r s :: int
  assumes "p \<le> a" "a \<le> q" "r \<le> b" "b \<le> s"
  shows "min (min (p * r) (p * s)) (min (q * r) (q * s)) \<le> a * b"
    "a * b \<le> max (max (p * r) (p * s)) (max (q * r) (q * s))"
  using product_between [OF assms(1,2), of b] product_between [OF assms(3,4), of p] product_between [OF assms(3,4), of q]
  by (auto simp: mult.commute)

lemma product_upper:
  fixes x y :: int
  assumes "product_bound (max_defined a) (info_max a) b" "info_ok a x" "info_ok b y"
  shows "x * y \<le> info_max a * info_max b"
proof -
  have b: "0 < info_min b" "info_min b \<le> y" "y \<le> info_max b" "x \<le> info_max a"
    using assms by (auto simp: product_bound_def bounded_def positive_def info_ok_def)
  show ?thesis
  proof (cases "0 \<le> info_max a")
    case True
    have "x * y \<le> info_max a * y" using b by (intro mult_right_mono) auto
    also have "\<dots> \<le> info_max a * info_max b" using b True by (intro mult_left_mono) auto
    finally show ?thesis .
  next
    case False
    then have "y = info_max b" using assms(1) b by (auto simp: product_bound_def)
    then show ?thesis using b by (auto intro: mult_right_mono)
  qed
qed

lemma product_lower:
  fixes x y :: int
  assumes "product_bound (min_defined a) (info_min a) b" "info_ok a x" "info_ok b y"
  shows "info_min a * info_min b \<le> x * y"
proof -
  have b: "0 < info_min b" "info_min b \<le> y" "y \<le> info_max b" "info_min a \<le> x"
    using assms by (auto simp: product_bound_def bounded_def positive_def info_ok_def)
  show ?thesis
  proof (cases "0 \<le> info_min a")
    case True
    have "info_min a * info_min b \<le> info_min a * y" using b True by (intro mult_left_mono) auto
    also have "\<dots> \<le> x * y" using b by (intro mult_right_mono) auto
    finally show ?thesis .
  next
    case False
    then have "y = info_min b" using assms(1) b by (auto simp: product_bound_def)
    then show ?thesis using b by (auto intro: mult_right_mono)
  qed
qed

lemma info_ok_update:
  "info_ok i v \<Longrightarrow> int64 m \<Longrightarrow> m \<le> v \<Longrightarrow> info_ok (i\<lparr>min_defined := d, info_min := m\<rparr>) v"
  "info_ok i v \<Longrightarrow> int64 m \<Longrightarrow> v \<le> m \<Longrightarrow> info_ok (i\<lparr>max_defined := d, info_max := m\<rparr>) v"
  "info_ok i v \<Longrightarrow> mr_int64 al \<Longrightarrow> mr_has al v \<Longrightarrow> info_ok (i\<lparr>alignment := al\<rparr>) v"
  by (auto simp: info_ok_def info_int64_def)

lemma info_ok_between:
  "info_ok i v \<Longrightarrow> int64 m \<Longrightarrow> int64 n \<Longrightarrow> (d \<Longrightarrow> m \<le> v \<and> v \<le> n) \<Longrightarrow>
    info_ok (i\<lparr>min_defined := d, max_defined := d, info_min := m, info_max := n\<rparr>) v"
  by (auto simp: info_ok_def info_int64_def)

lemma int64_min_max [simp]: "int64 a \<Longrightarrow> int64 b \<Longrightarrow> int64 (min a b)" "int64 a \<Longrightarrow> int64 b \<Longrightarrow> int64 (max a b)"
  by (simp_all add: min_def max_def)

lemma Mul_extent_ok:
  assumes "Mul_extent a b i s = Some (j, s1)"
  shows "kept s s1 \<and> (info_ok a x \<and> info_ok b y \<and> \<not> tainted s1 \<and> info_ok i (x * y) \<longrightarrow> info_ok j (x * y))"
proof -
  consider (both) "bounded a \<and> bounded b"
    | (upper) "\<not> (bounded a \<and> bounded b)"
        "(max_defined a \<and> bounded b \<and> positive b) \<or> (max_defined b \<and> bounded a \<and> positive a)"
    | (lower) "\<not> (bounded a \<and> bounded b)"
        "\<not> ((max_defined a \<and> bounded b \<and> positive b) \<or> (max_defined b \<and> bounded a \<and> positive a))"
        "(min_defined a \<and> bounded b \<and> positive b) \<or> (min_defined b \<and> bounded a \<and> positive a)"
    | (none) "Mul_extent a b i s = Some (i, s)"
    unfolding Mul_extent_def by argo
  then show ?thesis
  proof cases
    case both
    then have j: "int64 (info_min a * info_min b)" "int64 (info_min a * info_max b)" "int64 (info_max a * info_min b)"
      "int64 (info_max a * info_max b)" "s1 = s"
      "j = i\<lparr>min_defined := True, max_defined := True,
         info_min := min (min (info_min a * info_min b) (info_min a * info_max b))
           (min (info_max a * info_min b) (info_max a * info_max b)),
         info_max := max (max (info_min a * info_min b) (info_min a * info_max b))
           (max (info_max a * info_min b) (info_max a * info_max b))\<rparr>"
      using assms by (auto simp: Mul_extent_def bind_eq_Some_conv)
    show ?thesis
      unfolding j(5,6)
      by (intro conjI impI kept_refl info_ok_between)
        (use j(1-4) product_corners [of "info_min a" x "info_max a" "info_min b" y "info_max b"] both in
          \<open>auto simp: bounded_def info_ok_def\<close>)
  next
    case upper
    then have j: "int64 (info_max a * info_max b)" "j = i\<lparr>max_defined := True, info_max := info_max a * info_max b\<rparr>"
      "s1 = taint_if (\<not> product_bound (max_defined a) (info_max a) b \<and> \<not> product_bound (max_defined b) (info_max b) a) s"
      using assms unfolding Mul_extent_def if_not_P [OF upper(1)] if_P [OF upper(2)]
      by (auto simp: bind_eq_Some_conv)
    show ?thesis
      unfolding j(2,3)
      using product_upper [of a b x y] product_upper [of b a y x] j(1)
      by (auto intro!: info_ok_update(2) simp: mult.commute)
  next
    case lower
    then have j: "int64 (info_min a * info_min b)" "j = i\<lparr>min_defined := True, info_min := info_min a * info_min b\<rparr>"
      "s1 = taint_if (\<not> product_bound (min_defined a) (info_min a) b \<and> \<not> product_bound (min_defined b) (info_min b) a) s"
      using assms unfolding Mul_extent_def if_not_P [OF lower(1)] if_not_P [OF lower(2)] if_P [OF lower(3)]
      by (auto simp: bind_eq_Some_conv)
    show ?thesis
      unfolding j(2,3)
      using product_lower [of a b x y] product_lower [of b a y x] j(1)
      by (auto intro!: info_ok_update(1) simp: mult.commute)
  next
    case none
    then show ?thesis using assms by simp
  qed
qed

lemma Mul_bounds_ok:
  assumes "Mul_bounds ty a b i s = Some (i', s')"
  shows "kept s s'"
    and "info_ok a x \<Longrightarrow> info_ok b y \<Longrightarrow> \<not> tainted s' \<Longrightarrow> info_ok i (norm ty (x * y)) \<Longrightarrow> info_ok i' (norm ty (x * y))"
proof -
  have main: "kept s s' \<and> (info_ok a x \<and> info_ok b y \<and> \<not> tainted s' \<and> info_ok i (norm ty (x * y)) \<longrightarrow>
    info_ok i' (norm ty (x * y)))" for x y
  proof (cases "no_overflow_int ty")
    case True
    then obtain j s1 al where m: "Mul_extent a b i s = Some (j, s1)" "mr_mul (alignment a) (alignment b) = Some al"
      "trim_bounds (j\<lparr>alignment := al\<rparr>) s1 = Some (i', s')"
      using assms by (auto simp: Mul_bounds_def bind_eq_Some_conv)
    note p = Mul_extent_ok [OF m(1), of x y] and t = trim_bounds_ok [OF m(3)]
    have "info_ok (j\<lparr>alignment := al\<rparr>) (x * y)" if "info_ok a x" "info_ok b y" "info_ok j (x * y)"
      by (rule info_ok_update(3) [OF that(3) mr_mul_int64 [OF m(2)] mr.mul_sound [OF m(2)]])
        (use that info_okD in blast)+
    then show ?thesis
      using p t kept_trans [of s s1 s'] kept_tainted [OF t(1)] norm_wide [OF True, of "x * y"] by auto
  qed (use assms in \<open>simp add: Mul_bounds_def\<close>)
  then show "kept s s'" by blast
  show "info_ok a x \<Longrightarrow> info_ok b y \<Longrightarrow> \<not> tainted s' \<Longrightarrow> info_ok i (norm ty (x * y)) \<Longrightarrow> info_ok i' (norm ty (x * y))"
    using main [of x y] by blast
qed

lemma ediv_between:
  fixes a p q c :: int
  assumes "p \<le> a" "a \<le> q" "c \<noteq> 0"
  shows "min (ediv p c) (ediv q c) \<le> ediv a c" "ediv a c \<le> max (ediv p c) (ediv q c)"
  using assms ediv_mono [of c p a] ediv_mono [of c a q] by (cases "0 < c"; auto)+

lemma div_between:
  fixes a b r s :: int
  assumes "0 < r" "r \<le> b" "b \<le> s"
  shows "min (a div r) (a div s) \<le> a div b" "a div b \<le> max (a div r) (a div s)"
proof -
  have "a div s \<le> a div b \<and> a div b \<le> a div r \<or> a div r \<le> a div b \<and> a div b \<le> a div s"
  proof (cases "0 \<le> a")
    case True
    then show ?thesis using zdiv_mono2 [of a r b] zdiv_mono2 [of a b s] assms by auto
  next
    case False
    then show ?thesis using zdiv_mono2_neg [of a r b] zdiv_mono2_neg [of a b s] assms by auto
  qed
  then show "min (a div r) (a div s) \<le> a div b" "a div b \<le> max (a div r) (a div s)" by auto
qed

lemma ediv_divisor_between:
  fixes a b r s :: int
  assumes "0 < r \<or> s < 0" "r \<le> b" "b \<le> s"
  shows "min (ediv a r) (ediv a s) \<le> ediv a b" "ediv a b \<le> max (ediv a r) (ediv a s)"
proof -
  have pos: "min (ediv a r) (ediv a s) \<le> ediv a b \<and> ediv a b \<le> max (ediv a r) (ediv a s)" if "0 < r"
    using div_between [OF that assms(2,3), of a] that assms by (simp add: ediv_def)
  have neg: "min (ediv a r) (ediv a s) \<le> ediv a b \<and> ediv a b \<le> max (ediv a r) (ediv a s)" if "s < 0"
    using div_between [of "- s" "- b" "- r" a] that assms by (auto simp: ediv_def)
  show "min (ediv a r) (ediv a s) \<le> ediv a b" "ediv a b \<le> max (ediv a r) (ediv a s)"
    using pos neg assms(1) by blast+
qed

lemma quotient_corners:
  fixes a b p q r s :: int
  assumes "p \<le> a" "a \<le> q" "0 < r \<or> s < 0" "r \<le> b" "b \<le> s"
  shows "min (min (ediv p r) (ediv p s)) (min (ediv q r) (ediv q s)) \<le> ediv a b"
    "ediv a b \<le> max (max (ediv p r) (ediv p s)) (max (ediv q r) (ediv q s))"
proof -
  have "b \<noteq> 0" using assms by auto
  note f = ediv_between [OF assms(1,2) this] ediv_divisor_between [OF assms(3-5), of p] ediv_divisor_between [OF assms(3-5), of q]
  show "min (min (ediv p r) (ediv p s)) (min (ediv q r) (ediv q s)) \<le> ediv a b"
    using f(1,3,5) by linarith
  show "ediv a b \<le> max (max (ediv p r) (ediv p s)) (max (ediv q r) (ediv q s))"
    using f(2,4,6) by linarith
qed

lemma overflow_expr_kept: "overflow_expr ty s = Some (e, s') \<Longrightarrow> kept s s' \<and> tainted s'"
  by (auto simp: overflow_expr_def bind_eq_Some_conv kept_def same_facts_def state_ok_def replacements_def fun_eq_iff)

lemma can_represent_const_val:
  assumes "legal_type t" "can_represent_int t v"
  shows "is_num t" "const_val t v = v"
proof -
  show "is_num t" using assms by (auto simp: can_represent_int_def is_num_def split: if_splits)
  have "in_ety (ety t) v"
    using assms legal_bits [OF assms(1)]
    by (auto simp: can_represent_int_def in_ety_def ety_def fits_def is_int_def is_uint_def max_int_eq min_int_eq
        max_uint_eq split: if_splits)
  then show "const_val t v = v"
    using const_val_fits [of t v] \<open>is_num t\<close>
    by (auto simp: in_ety_def ety_def const_val_def is_num_def is_int_def is_uint_def take_bit_int_eq_self split: if_splits)
qed

lemma made_constant:
  assumes "make_const F t v = Some e" "legal_type t" "can_represent_int t v"
  shows "wf e \<and> etype e = t \<and> eval env e l = Some v"
  using make_const_eval [OF assms(1) can_represent_const_val(1) [OF assms(2,3)] assms(2)]
    can_represent_const_val(2) [OF assms(2,3)] by simp

lemma Div_extent_ok:
  assumes "Div_extent F ty a b i s = Some (r, j, s1)"
  shows "kept s s1 \<and> (info_ok a x \<and> info_ok b y \<and> info_ok i (ediv x y) \<and> legal_type ty \<longrightarrow>
    info_ok j (ediv x y) \<and> (\<not> tainted s1 \<longrightarrow> (\<forall>e. r = Some e \<longrightarrow> wf e \<and> (\<forall>env l. eval env e l = Some (ediv x y)))))"
proof (cases "min_defined a \<and> min_defined b \<and> max_defined a \<and> max_defined b \<and> (info_min b > 0 \<or> info_max b < 0)")
  case False
  then have "r = None" "j = i\<lparr>min_defined := False, max_defined := False\<rparr>" "s1 = s"
    using assms by (auto simp: Div_extent_def Let_def)
  then show ?thesis by (auto simp: info_ok_def info_int64_def)
next
  case True
  obtain v1 v2 v3 v4 where v: "div_imp (info_min a) (info_min b) = Some v1" "div_imp (info_min a) (info_max b) = Some v2"
    "div_imp (info_max a) (info_min b) = Some v3" "div_imp (info_max a) (info_max b) = Some v4"
    and r: "(let lo = min (min v1 v2) (min v3 v4); hi = max (max v1 v2) (max v3 v4);
               bounds = i\<lparr>min_defined := True, max_defined := True, info_min := lo, info_max := hi\<rparr>
           in if lo \<noteq> hi then Some (None, bounds, s)
              else if can_represent_int ty lo then do {
                e \<leftarrow> make_const F ty lo; Some (Some e, bounds, s) }
              else do { (e, s) \<leftarrow> overflow_expr ty s; Some (Some e, bounds, s) }) = Some (r, j, s1)"
    using assms True by (auto simp: Div_extent_def Let_def bind_eq_Some_conv)
  let ?lo = "min (min v1 v2) (min v3 v4)" and ?hi = "max (max v1 v2) (max v3 v4)"
  have j: "j = i\<lparr>min_defined := True, max_defined := True, info_min := ?lo, info_max := ?hi\<rparr>"
    using r by (auto simp: Let_def bind_eq_Some_conv split: if_splits)
  have k: "kept s s1"
    using r overflow_expr_kept by (auto simp: Let_def bind_eq_Some_conv split: if_splits)
  {
    assume ok: "info_ok a x" "info_ok b y" "info_ok i (ediv x y)" "legal_type ty"
    note A = info_okD(4,5) [OF ok(1)] and B = info_okD(4,5) [OF ok(2)]
    have e: "v1 = ediv (info_min a) (info_min b)" "v2 = ediv (info_min a) (info_max b)"
      "v3 = ediv (info_max a) (info_min b)" "v4 = ediv (info_max a) (info_max b)"
      using div_imp_SomeD [OF v(1)] div_imp_SomeD [OF v(2)] div_imp_SomeD [OF v(3)] div_imp_SomeD [OF v(4)] A B by auto
    have i: "int64 v1" "int64 v2" "int64 v3" "int64 v4"
      using div_imp_int64 [OF v(1)] div_imp_int64 [OF v(2)] div_imp_int64 [OF v(3)] div_imp_int64 [OF v(4)] A B by auto
    have c: "?lo \<le> ediv x y" "ediv x y \<le> ?hi"
      unfolding e
      by (rule quotient_corners [of "info_min a" x "info_max a" "info_min b" "info_max b" y];
          use True info_okD(1,2) [OF ok(1)] info_okD(1,2) [OF ok(2)] in blast)+
    have jo: "info_ok j (ediv x y)"
      unfolding j by (rule info_ok_between [OF ok(3)]) (use i c in auto)
    have "wf e \<and> (\<forall>env l. eval env e l = Some (ediv x y))" if "\<not> tainted s1" "r = Some e" for e
    proof -
      have lh: "?lo = ?hi" "can_represent_int ty ?lo" "make_const F ty ?lo = Some e"
        using r that overflow_expr_kept [of ty s] by (auto simp: Let_def bind_eq_Some_conv split: if_splits)
      then have "ediv x y = ?lo" using c by linarith
      then show ?thesis using made_constant [OF lh(3) ok(4) lh(2)] by simp
    qed
    then have "info_ok j (ediv x y) \<and> (\<not> tainted s1 \<longrightarrow> (\<forall>e. r = Some e \<longrightarrow> wf e \<and> (\<forall>env l. eval env e l = Some (ediv x y))))"
      using jo by blast
  }
  then show ?thesis using k by blast
qed

lemma Div_bounds_ok:
  assumes "Div_bounds F ty a b i s = Some (r, i', s')"
  shows "kept s s'"
    and "info_ok a x \<Longrightarrow> info_ok b y \<Longrightarrow> legal_type ty \<Longrightarrow> \<not> tainted s' \<Longrightarrow> info_ok i (norm ty (ediv x y)) \<Longrightarrow>
      info_ok i' (norm ty (ediv x y)) \<and> (\<forall>e. r = Some e \<longrightarrow> wf e \<and> eval env e l = Some (norm ty (ediv x y)))"
proof -
  have main: "kept s s' \<and> (info_ok a x \<and> info_ok b y \<and> legal_type ty \<and> \<not> tainted s' \<and> info_ok i (norm ty (ediv x y)) \<longrightarrow>
      info_ok i' (norm ty (ediv x y)) \<and> (\<forall>e. r = Some e \<longrightarrow> wf e \<and> eval env e l = Some (norm ty (ediv x y))))" for x y
  proof (cases "no_overflow_int ty")
    case True
    then obtain e j s1 where m: "Div_extent F ty a b i s = Some (e, j, s1)"
      "(case e of Some e \<Rightarrow> Some (Some e, j, s1)
        | None \<Rightarrow> do {
            al \<leftarrow> mr_div (alignment a) (alignment b);
            (bounds, s) \<leftarrow> trim_bounds (j\<lparr>alignment := al\<rparr>) s1;
            Some (None, bounds, s) }) = Some (r, i', s')"
      using assms by (auto simp: Div_bounds_def bind_eq_Some_conv)
    note p = Div_extent_ok [OF m(1), of x y] and n = norm_wide [OF True, of "ediv x y"]
    show ?thesis
    proof (cases e)
      case (Some e')
      then show ?thesis using m(2) p n by auto
    next
      case None
      then obtain al where t: "mr_div (alignment a) (alignment b) = Some al" "r = None"
        "trim_bounds (j\<lparr>alignment := al\<rparr>) s1 = Some (i', s')"
        using m(2) by (auto simp: bind_eq_Some_conv)
      have "info_ok (j\<lparr>alignment := al\<rparr>) (ediv x y)" if "info_ok a x" "info_ok b y" "info_ok j (ediv x y)"
        by (rule info_ok_update(3) [OF that(3) mr_div_int64 [OF t(1)] mr.quot_sound [OF t(1)]])
          (use that info_okD in blast)+
      then show ?thesis
        using p n t(2) trim_bounds_ok [OF t(3)] kept_trans [of s s1 s'] by auto
    qed
  qed (use assms in \<open>auto simp: Div_bounds_def\<close>)
  show "kept s s'" using main by blast
  show "info_ok a x \<Longrightarrow> info_ok b y \<Longrightarrow> legal_type ty \<Longrightarrow> \<not> tainted s' \<Longrightarrow> info_ok i (norm ty (ediv x y)) \<Longrightarrow>
      info_ok i' (norm ty (ediv x y)) \<and> (\<forall>e. r = Some e \<longrightarrow> wf e \<and> eval env e l = Some (norm ty (ediv x y)))"
    using main [of x y] by blast
qed

lemma Mod_bounds_ok:
  assumes "Mod_bounds ty a b s = Some (i', s')"
  shows "kept s s'"
    and "info_ok a x \<Longrightarrow> info_ok b y \<Longrightarrow> y \<noteq> 0 \<Longrightarrow> \<not> tainted s' \<Longrightarrow> info_ok i' (emod x y)"
proof -
  show "kept s s'"
    using assms trim_bounds_ok(1) by (auto simp: Mod_bounds_def bind_eq_Some_conv Let_def split: if_splits)
  assume ok: "info_ok a x" "info_ok b y" "y \<noteq> 0" "\<not> tainted s'"
  show "info_ok i' (emod x y)"
  proof (cases "no_overflow_int ty")
    case True
    let ?d = "min_defined b \<and> max_defined b \<and> (info_min b > 0 \<or> info_max b < 0)"
    obtain al where m: "int64 \<bar>info_min b\<bar>" "int64 \<bar>info_max b\<bar>" "mr_modulo (alignment a) (alignment b) = Some al"
      "trim_bounds \<lparr>info_min = 0, info_max = max \<bar>info_min b\<bar> \<bar>info_max b\<bar> - 1, min_defined = ?d,
                    max_defined = ?d, alignment = al\<rparr> s = Some (i', s')"
      using assms True by (auto simp: Mod_bounds_def bind_eq_Some_conv Let_def)
    note A = info_okD [OF ok(1)] and B = info_okD [OF ok(2)]
    have i: "int64 (max \<bar>info_min b\<bar> \<bar>info_max b\<bar> - 1)" using m(1,2) by (auto simp: int64_def max_def)
    have u: "emod x y \<le> max \<bar>info_min b\<bar> \<bar>info_max b\<bar> - 1" if "?d"
    proof -
      have "\<bar>y\<bar> \<le> max \<bar>info_min b\<bar> \<bar>info_max b\<bar>" using B(1,2) that by auto
      then show ?thesis using emod_bounds [OF ok(3), of x] by linarith
    qed
    show ?thesis
      by (rule trim_bounds_ok(2) [OF m(4) ok(4)])
        (use i u emod_bounds [OF ok(3), of x] A B mr_modulo_int64 [OF m(3)] mr.modulo_sound [OF m(3)] in
          \<open>simp add: info_ok_def info_int64_def\<close>)
  qed (use assms in \<open>simp add: Mod_bounds_def\<close>)
qed

lemma Min_bounds_ok:
  assumes "Min_bounds a b s = Some (i', s')"
  shows "kept s s'"
    and "info_ok a x \<Longrightarrow> info_ok b y \<Longrightarrow> \<not> tainted s' \<Longrightarrow> info_ok i' (min x y)"
proof -
  obtain al where m: "mr_unify (alignment a) (alignment b) = Some al"
    "trim_bounds \<lparr>info_min = min (info_min a) (info_min b),
       info_max = (if max_defined a \<and> max_defined b then min (info_max a) (info_max b)
                   else if max_defined a then info_max a else info_max b),
       min_defined = min_defined a \<and> min_defined b, max_defined = max_defined a \<or> max_defined b,
       alignment = al\<rparr> s = Some (i', s')"
    using assms by (auto simp: Min_bounds_def bind_eq_Some_conv)
  show "kept s s'" by (rule trim_bounds_ok(1) [OF m(2)])
  assume ok: "info_ok a x" "info_ok b y" "\<not> tainted s'"
  note A = info_okD [OF ok(1)] and B = info_okD [OF ok(2)]
  have "mr_has al (min x y)" using mr.join_sound [OF m(1), of "min x y"] A(3) B(3) by (auto simp: min_def)
  then show "info_ok i' (min x y)"
    by (intro trim_bounds_ok(2) [OF m(2) ok(3)])
      (use A B mr_unify_int64 [OF m(1)] in \<open>auto simp: info_ok_def info_int64_def min_le_iff_disj\<close>)
qed

lemma Max_bounds_ok:
  assumes "Max_bounds a b s = Some (i', s')"
  shows "kept s s'"
    and "info_ok a x \<Longrightarrow> info_ok b y \<Longrightarrow> \<not> tainted s' \<Longrightarrow> info_ok i' (max x y)"
proof -
  obtain al where m: "mr_unify (alignment a) (alignment b) = Some al"
    "trim_bounds \<lparr>info_min = (if min_defined a \<and> min_defined b then max (info_min a) (info_min b)
                              else if min_defined a then info_min a else info_min b),
       info_max = max (info_max a) (info_max b),
       min_defined = min_defined a \<or> min_defined b, max_defined = max_defined a \<and> max_defined b,
       alignment = al\<rparr> s = Some (i', s')"
    using assms by (auto simp: Max_bounds_def bind_eq_Some_conv)
  show "kept s s'" by (rule trim_bounds_ok(1) [OF m(2)])
  assume ok: "info_ok a x" "info_ok b y" "\<not> tainted s'"
  note A = info_okD [OF ok(1)] and B = info_okD [OF ok(2)]
  have "mr_has al (max x y)" using mr.join_sound [OF m(1), of "max x y"] A(3) B(3) by (auto simp: max_def)
  then show "info_ok i' (max x y)"
    by (intro trim_bounds_ok(2) [OF m(2) ok(3)])
      (use A B mr_unify_int64 [OF m(1)] in \<open>auto simp: info_ok_def info_int64_def le_max_iff_disj\<close>)
qed

lemma Select_bounds_ok:
  assumes "Select_bounds a b s = Some (i', s')"
  shows "kept s s'"
    and "info_ok a x \<Longrightarrow> info_ok b y \<Longrightarrow> \<not> tainted s' \<Longrightarrow> info_ok i' (if p then x else y)"
proof -
  obtain al where m: "mr_unify (alignment a) (alignment b) = Some al"
    "trim_bounds \<lparr>info_min = min (info_min a) (info_min b), info_max = max (info_max a) (info_max b),
       min_defined = min_defined a \<and> min_defined b, max_defined = max_defined a \<and> max_defined b,
       alignment = al\<rparr> s = Some (i', s')"
    using assms by (auto simp: Select_bounds_def bind_eq_Some_conv)
  show "kept s s'" by (rule trim_bounds_ok(1) [OF m(2)])
  assume ok: "info_ok a x" "info_ok b y" "\<not> tainted s'"
  note A = info_okD [OF ok(1)] and B = info_okD [OF ok(2)]
  have "mr_has al (if p then x else y)" using mr.join_sound [OF m(1), of "if p then x else y"] A(3) B(3) by auto
  then show "info_ok i' (if p then x else y)"
    by (intro trim_bounds_ok(2) [OF m(2) ok(3)])
      (use A B mr_unify_int64 [OF m(1)] in \<open>auto simp: info_ok_def info_int64_def min_le_iff_disj le_max_iff_disj\<close>)
qed

lemma ramp_corners:
  fixes x y :: int
  assumes "l < n"
  shows "p \<le> x \<Longrightarrow> q \<le> y \<Longrightarrow> min p (p + (int n - 1) * q) \<le> x + int l * y"
    and "x \<le> p \<Longrightarrow> y \<le> q \<Longrightarrow> x + int l * y \<le> max p (p + (int n - 1) * q)"
proof -
  have l: "int l \<le> int n - 1" using assms by linarith
  show "p \<le> x \<Longrightarrow> q \<le> y \<Longrightarrow> min p (p + (int n - 1) * q) \<le> x + int l * y"
  proof -
    assume h: "p \<le> x" "q \<le> y"
    have "int l * q \<le> int l * y" using h(2) by (simp add: mult_left_mono)
    moreover have "0 \<le> int l * q \<or> (int n - 1) * q \<le> int l * q"
      using l by (cases "0 \<le> q") (auto simp: mult_right_mono_neg)
    ultimately show ?thesis using h(1) by (auto simp: min_le_iff_disj)
  qed
  show "x \<le> p \<Longrightarrow> y \<le> q \<Longrightarrow> x + int l * y \<le> max p (p + (int n - 1) * q)"
  proof -
    assume h: "x \<le> p" "y \<le> q"
    have "int l * y \<le> int l * q" using h(2) by (simp add: mult_left_mono)
    moreover have "int l * q \<le> 0 \<or> int l * q \<le> (int n - 1) * q"
      using l by (cases "0 \<le> q") (auto simp: mult_right_mono mult_nonneg_nonpos)
    ultimately show ?thesis using h(1) by (auto simp: le_max_iff_disj)
  qed
qed

lemma Ramp_bounds_ok:
  assumes "Ramp_bounds ty base stride i s = Some (i', s')"
  shows "kept s s'"
    and "info_ok base x \<Longrightarrow> info_ok stride y \<Longrightarrow> l < lanes ty \<Longrightarrow> info_ok i (norm ty (x + int l * y)) \<Longrightarrow>
      info_ok i' (norm ty (x + int l * y))"
proof -
  show "kept s s'" using assms by (auto simp: Ramp_bounds_def bind_eq_Some_conv split: if_splits)
  assume ok: "info_ok base x" "info_ok stride y" "l < lanes ty" "info_ok i (norm ty (x + int l * y))"
  show "info_ok i' (norm ty (x + int l * y))"
  proof (cases "no_overflow_int ty")
    case True
    let ?lo = "info_min base + (int (lanes ty) - 1) * info_min stride"
      and ?hi = "info_max base + (int (lanes ty) - 1) * info_max stride"
    obtain g m r where d: "int64 ?lo" "int64 ?hi"
      "gcd_imp (modulus (alignment stride)) (remainder (alignment stride)) = Some g"
      "gcd_imp g (modulus (alignment base)) = Some m"
      "(if m \<noteq> 0 then mod_imp (remainder (alignment base)) m else Some (remainder (alignment base))) = Some r"
      "i' = \<lparr>info_min = min (info_min base) ?lo, info_max = max (info_max base) ?hi,
               min_defined = min_defined base \<and> min_defined stride,
               max_defined = max_defined base \<and> max_defined stride, alignment = MR m r\<rparr>"
      using assms True by (auto simp: Ramp_bounds_def bind_eq_Some_conv simp del: int64_min_max)
    note A = info_okD [OF ok(1)] and B = info_okD [OF ok(2)]
    have r: "mr_mod (remainder (alignment base)) m = Some r" using d(5) by (auto simp: mr_mod_def)
    have dv: "m dvd g" "m dvd modulus (alignment base)" "g dvd modulus (alignment stride)" "g dvd remainder (alignment stride)"
      using gcd_imp_dvd [OF d(3)] gcd_imp_dvd [OF d(4)] by auto
    have "m dvd y" using dv B(3) by (metis dvd_trans mr_has_def dvd_diff_commute dvd_diffD diff_add_cancel dvd_add)
    moreover have "m dvd x - remainder (alignment base)" using dv(2) A(3) by (auto simp: mr_has_def intro: dvd_trans)
    moreover have "m dvd remainder (alignment base) - r" using mr_mod_shift [OF r, of "remainder (alignment base)"] by simp
    ultimately have "m dvd (x - remainder (alignment base)) + (remainder (alignment base) - r) + int l * y"
      by (intro dvd_add dvd_mult)
    then have mh: "mr_has (MR m r) (x + int l * y)" by (simp add: mr_has_def algebra_simps)
    have mi: "int64 m" "int64 r"
      using gcd_imp_int64 [OF d(4) gcd_imp_int64 [OF d(3)]] mr_mod_int64 [OF r] A(6) B(6) by (auto simp: mr_int64_def)
    show ?thesis
      using d(1,2) mh mi A B ramp_corners [OF ok(3), of "info_min base" x "info_min stride" y]
        ramp_corners [OF ok(3), of x "info_max base" y "info_max stride"]
      by (auto simp: norm_wide [OF True] d(6) info_ok_def info_int64_def)
  qed (use assms ok in \<open>simp add: Ramp_bounds_def\<close>)
qed

end
