(* ===== verification/SimpArith.thy ===== *)
theory SimpArith
  imports SimpBounds RulesLinear RulesDivMod RulesMinMax
begin

text \<open>
  The visitors of the arithmetic operators (Simplify_Add.cpp, Simplify_Sub.cpp,
  Simplify_Mul.cpp, Simplify_Div.cpp, Simplify_Mod.cpp, Simplify_Min.cpp,
  Simplify_Max.cpp): they mutate the operands, compute the bounds, try the rule tables and
  build the node. Their soundness, for a callback that keeps the contract.
\<close>

definition table :: "rule list \<Rightarrow> rule_group list" where
  "table rs = [(False, Some rs)]"

definition commuted :: "expr \<Rightarrow> expr \<Rightarrow> expr \<times> expr" where
  "commuted a b = (if should_commute a b then (b, a) else (a, b))"

definition visit_Add :: "float_ops \<Rightarrow> mutator \<Rightarrow> expr \<Rightarrow> expr \<Rightarrow> expr_info option \<Rightarrow> simp_state \<Rightarrow> simp_result" where
  "visit_Add F mu a b bounds s = do {
     let ty = etype a;
     (a, a_bounds, s) \<leftarrow> mutate_info mu a s;
     (b, b_bounds, s) \<leftarrow> mutate_info mu b s;
     (bounds, s) \<leftarrow> on_bounds bounds (Add_bounds ty a_bounds b_bounds) s;
     if may_simplify s ty then
       let (a, b) = commuted a b
       in rewrite_node F mu (table (add_direct a b)) (table (add_chain ty)) (Add a b) ty (finish_bin OpAdd a b) bounds s
     else do { e \<leftarrow> Bin_make OpAdd a b; Some (e, bounds, s) } }"

definition visit_Sub :: "float_ops \<Rightarrow> mutator \<Rightarrow> expr \<Rightarrow> expr \<Rightarrow> expr_info option \<Rightarrow> simp_state \<Rightarrow> simp_result" where
  "visit_Sub F mu a b bounds s = do {
     let ty = etype a;
     (a, a_bounds, s) \<leftarrow> mutate_info mu a s;
     (b, b_bounds, s) \<leftarrow> mutate_info mu b s;
     (bounds, s) \<leftarrow> on_bounds bounds (Sub_bounds ty a_bounds b_bounds) s;
     if may_simplify s ty then
       rewrite_node F mu (table (sub_direct a b)) (table (sub_chain ty)) (Sub a b) ty (finish_bin OpSub a b) bounds s
     else do { e \<leftarrow> finish_bin OpSub a b; Some (e, bounds, s) } }"

definition visit_Mul :: "float_ops \<Rightarrow> mutator \<Rightarrow> expr \<Rightarrow> expr \<Rightarrow> expr_info option \<Rightarrow> simp_state \<Rightarrow> simp_result" where
  "visit_Mul F mu a b bounds s = do {
     let ty = etype a;
     (a, a_bounds, s) \<leftarrow> mutate_info mu a s;
     (b, b_bounds, s) \<leftarrow> mutate_info mu b s;
     (bounds, s) \<leftarrow> on_bounds bounds (Mul_bounds ty a_bounds b_bounds) s;
     if may_simplify s ty then
       let (a, b) = commuted a b
       in rewrite_node F mu (table (mul_direct a b)) (table (mul_chain ty)) (Mul a b) ty (finish_bin OpMul a b) bounds s
     else do { e \<leftarrow> finish_bin OpMul a b; Some (e, bounds, s) } }"

definition visit_Div :: "float_ops \<Rightarrow> mutator \<Rightarrow> expr \<Rightarrow> expr \<Rightarrow> expr_info option \<Rightarrow> simp_state \<Rightarrow> simp_result" where
  "visit_Div F mu a b bounds s = do {
     let ty = etype a;
     (a, a_bounds, s) \<leftarrow> mutate_info mu a s;
     (b, b_bounds, s) \<leftarrow> mutate_info mu b s;
     (e, bounds, s) \<leftarrow> (case bounds of
         None \<Rightarrow> Some (None, None, s)
       | Some i \<Rightarrow> do { (e, i, s) \<leftarrow> Div_bounds F ty a_bounds b_bounds i s; Some (e, Some i, s) });
     case e of Some e \<Rightarrow> Some (e, bounds, s)
     | None \<Rightarrow>
         if may_simplify s ty then
           rewrite_node F mu (table (div_direct ty a b)) (table (div_chain ty)) (Div a b) ty (Bin_make OpDiv a b) bounds s
         else do { e \<leftarrow> Bin_make OpDiv a b; Some (e, bounds, s) } }"

text \<open>A constant that does not fit a wide type has the wrong value.\<close>

definition visit_Mod :: "float_ops \<Rightarrow> mutator \<Rightarrow> expr \<Rightarrow> expr \<Rightarrow> expr_info option \<Rightarrow> simp_state \<Rightarrow> simp_result" where
  "visit_Mod F mu a b bounds s = do {
     let ty = etype a;
     (a, a_bounds, s) \<leftarrow> mutate_info mu a s;
     (b, b_bounds, s) \<leftarrow> mutate_info mu b s;
     (mod_bounds, s) \<leftarrow> Mod_bounds ty a_bounds b_bounds s;
     let bounds = (if no_overflow_int ty \<and> bounds \<noteq> None then Some mod_bounds else bounds);
     if may_simplify s ty then
       if min_defined a_bounds \<and> info_min a_bounds \<ge> 0 \<and> max_defined a_bounds \<and> min_defined b_bounds \<and>
          info_max a_bounds < info_min b_bounds
       then Some (a, bounds, s)
       else if min_defined mod_bounds \<and> max_defined mod_bounds \<and> info_min mod_bounds = info_max mod_bounds
       then do {
         e \<leftarrow> make_const F ty (info_min mod_bounds);
         Some (e, bounds, taint_if (\<not> can_represent_int ty (info_min mod_bounds)) s) }
       else rewrite_node F mu (table (mod_direct ty a b)) (table (mod_chain ty)) (Mod a b) ty (Bin_make OpMod a b) bounds s
     else do { e \<leftarrow> Bin_make OpMod a b; Some (e, bounds, s) } }"

text \<open>
  The rules on the bounds of the type are proved for types whose values are machine
  integers, those on stair-step functions for types other than narrow signed ones.
\<close>

definition limit_group :: "(expr \<Rightarrow> expr \<Rightarrow> rule list) \<Rightarrow> float_ops \<Rightarrow> halide_type \<Rightarrow> rule_group" where
  "limit_group rules F ty =
     (no_overflow_int ty, do { tmin \<leftarrow> type_min F ty; tmax \<leftarrow> type_max F ty; Some (rules tmin tmax) })"

definition stair_group :: "halide_type \<Rightarrow> rule list \<Rightarrow> rule_group" where
  "stair_group ty rules = (is_int ty \<and> bits ty < 32, Some rules)"

definition visit_Min :: "float_ops \<Rightarrow> mutator \<Rightarrow> expr \<Rightarrow> expr \<Rightarrow> expr_info option \<Rightarrow> simp_state \<Rightarrow> simp_result" where
  "visit_Min F mu a b bounds s = do {
     let ty = etype a;
     (a, a_bounds, s) \<leftarrow> mutate_info mu a s;
     (b, b_bounds, s) \<leftarrow> mutate_info mu b s;
     (bounds, s) \<leftarrow> on_bounds bounds (\<lambda>i. Min_bounds a_bounds b_bounds) s;
     if max_defined a_bounds \<and> min_defined b_bounds \<and> info_max a_bounds \<le> info_min b_bounds then Some (a, bounds, s)
     else if max_defined b_bounds \<and> min_defined a_bounds \<and> info_max b_bounds \<le> info_min a_bounds then Some (b, bounds, s)
     else if may_simplify s ty then
       let (a, b) = commuted a b
       in rewrite_node F mu
            [(False, Some (min_direct_1 a b)), limit_group (\<lambda>tmin tmax. min_direct_limits tmin tmax a b) F ty,
             stair_group ty (min_direct_stair a b), (False, Some (min_direct_rest ty a b))]
            (table (min_chain ty a b)) (MinE a b) ty (finish_bin OpMin a b) bounds s
     else do { e \<leftarrow> finish_bin OpMin a b; Some (e, bounds, s) } }"

definition visit_Max :: "float_ops \<Rightarrow> mutator \<Rightarrow> expr \<Rightarrow> expr \<Rightarrow> expr_info option \<Rightarrow> simp_state \<Rightarrow> simp_result" where
  "visit_Max F mu a b bounds s = do {
     let ty = etype a;
     (a, a_bounds, s) \<leftarrow> mutate_info mu a s;
     (b, b_bounds, s) \<leftarrow> mutate_info mu b s;
     (bounds, s) \<leftarrow> on_bounds bounds (\<lambda>i. Max_bounds a_bounds b_bounds) s;
     if max_defined a_bounds \<and> min_defined b_bounds \<and> info_max a_bounds \<le> info_min b_bounds then Some (b, bounds, s)
     else if max_defined b_bounds \<and> min_defined a_bounds \<and> info_max b_bounds \<le> info_min a_bounds then Some (a, bounds, s)
     else if may_simplify s ty then
       let (a, b) = commuted a b
       in rewrite_node F mu
            [(False, Some (max_direct_1 a b)), limit_group (\<lambda>tmin tmax. max_direct_limits tmin tmax a b) F ty,
             stair_group ty (max_direct_stair a b), (False, Some (max_direct_rest ty a b))]
            (table (max_chain ty a b)) (MaxE a b) ty (finish_bin OpMax a b) bounds s
     else do { e \<leftarrow> finish_bin OpMax a b; Some (e, bounds, s) } }"

section \<open>Building the node\<close>

lemma bin_etype:
  assumes "wf (Bin op a b)" "Bin_make op a b = Some e"
  shows "e = Bin op a b"
  using assms by (auto simp: Bin_make_def split: if_splits)

lemma those_map_Some:
  "those (map f xs) = Some ys \<longleftrightarrow> length ys = length xs \<and> (\<forall>i < length xs. f (xs ! i) = Some (ys ! i))"
proof (induction xs arbitrary: ys)
  case (Cons x xs)
  have "those (map f (x # xs)) = Some ys \<longleftrightarrow> (\<exists>y ys'. f x = Some y \<and> those (map f xs) = Some ys' \<and> ys = y # ys')"
    by (auto split: option.splits)
  also have "\<dots> \<longleftrightarrow> (\<exists>y ys'. f x = Some y \<and> ys = y # ys' \<and> length ys' = length xs \<and> (\<forall>i < length xs. f (xs ! i) = Some (ys' ! i)))"
    using Cons.IH by blast
  also have "\<dots> \<longleftrightarrow> length ys = length (x # xs) \<and> (\<forall>i < length (x # xs). f ((x # xs) ! i) = Some (ys ! i))"
    by (cases ys) (auto simp: less_Suc_eq_0_disj)
  finally show ?case .
qed auto

lemma norm_element:
  assumes "legal_type t" "legal_type t'" "element_of t = element_of t'" "n < 2 ^ 14"
  shows "norm (with_lanes n (element_of t)) = norm t'"
proof -
  have "code (element_of t) = code t'" "bits (element_of t) = bits t'"
    using assms(2,3) element_of_sel by simp_all
  moreover have "bits t' < 256" using legal_bits [OF assms(2)] by simp
  ultimately show ?thesis by (simp add: norm_def with_lanes_def mk_type_def fun_eq_iff take_bit_nat_eq_self)
qed

text \<open>A binary operation on two slices of the same shape is the slice of the operations.\<close>

lemma hoist_eval:
  assumes "length vbs = length vas" "\<forall>i < length vas. etype (vas ! i) = etype (vbs ! i)" "vas \<noteq> []"
    and "\<forall>i < length vas. element_of (etype (vas ! i)) = element_of (etype (hd vas))"
    and "eval env (Bin op (Shuffle vas is) (Shuffle vbs is)) l = Some v"
    and "\<forall>i < length vas. wf (vas ! i)" "length is < 2 ^ 14"
  shows "eval env (Shuffle (map2 (Bin op) vas vbs) is) l = Some v"
proof -
  let ?l = "if length is = 1 then 0 else l"
  have ty: "map (\<lambda>v. lanes (etype v)) vbs = map (\<lambda>v. lanes (etype v)) vas"
    "map (\<lambda>v. lanes (etype v)) (map2 (Bin op) vas vbs) = map (\<lambda>v. lanes (etype v)) vas"
    using assms(1,2) by (simp_all add: list_eq_iff_nth_eq)
  obtain k j where kj: "find_lane (map (\<lambda>v. lanes (etype v)) vas) (is ! ?l) = (k, j)" by fastforce
  have lt: "?l < length is" "k < length vas"
    using assms(5) kj by (auto simp: Let_def bind_eq_Some_conv split: if_splits)
  obtain x y where xy: "eval env (vas ! k) j = Some x" "eval env (vbs ! k) j = Some y"
    "bin_val op (norm (etype (Shuffle vas is))) x y = Some v"
    using assms(1,5) kj lt ty by (auto simp: Let_def bind_eq_Some_conv split: if_splits)
  have "element_of (etype (vas ! k)) = element_of (etype (hd vas))" using assms(4) lt by blast
  moreover have "etype (Shuffle vas is) = with_lanes (length is) (element_of (etype (hd vas)))"
    using assms(3) by (cases vas) auto
  moreover have "legal_type (etype (hd vas))" "legal_type (etype (vas ! k))"
    using assms(3,6) lt wf_legal by (auto simp: hd_conv_nth)
  ultimately have "norm (etype (Shuffle vas is)) = norm (etype (vas ! k))"
    using norm_element [OF _ _ _ assms(7)] by metis
  then show ?thesis using xy kj lt ty(2) assms(1) by (auto simp: Let_def)
qed

lemma hoist_ok:
  assumes "hoist_slice_vector op vas ias vbs ibs = Some e" "wf (Bin op (Shuffle vas ias) (Shuffle vbs ibs))"
    and "eval env (Bin op (Shuffle vas ias) (Shuffle vbs ibs)) l = Some v" "op \<noteq> OpAnd" "op \<noteq> OpOr"
  shows "wf e \<and> eval env e l = Some v"
proof (cases "ias = ibs \<and> length vas = length vbs \<and> list_all (\<lambda>(a, b). etype a = etype b) (zip vas vbs)")
  case False
  then have "Bin_make op (Shuffle vas ias) (Shuffle vbs ibs) = Some e"
    using assms(1) by (auto simp: hoist_slice_vector_def split: if_splits)
  then show ?thesis using bin_etype [OF assms(2)] assms(2,3) by blast
next
  case True
  then obtain ns where ns: "those (map (\<lambda>(a, b). Bin_make op a b) (zip vas vbs)) = Some ns" "Shuffle_make ns ias = Some e"
    using assms(1) by (auto simp: hoist_slice_vector_def bind_eq_Some_conv)
  have ty: "\<forall>i < length vas. etype (vas ! i) = etype (vbs ! i)" "length vbs = length vas"
    using True by (auto simp: list_all_length)
  have w: "vas \<noteq> []" "ias \<noteq> []" "length ias < 2 ^ 14" "list_all wf vas" "list_all wf vbs"
    "list_all (\<lambda>v. element_of (etype v) = element_of (etype (hd vas))) vas"
    "list_all (\<lambda>i. i < sum_list (map (\<lambda>v. lanes (etype v)) vas)) ias"
    using assms(2) by simp_all
  have n: "ns = map2 (Bin op) vas vbs"
    using ns(1) unfolding those_map_Some
    by (auto simp: list_eq_iff_nth_eq Bin_make_def ty(2) assms(4,5) split: if_splits)
  have e: "e = Shuffle ns ias" using ns(2) by (auto simp: Shuffle_make_def split: if_splits)
  have hd: "etype (hd ns) = etype (hd vas)" using w(1) ty by (cases vas; cases vbs) (auto simp: n)
  have "wf e"
    unfolding e wf.simps
  proof (intro conjI)
    show "ns \<noteq> []" "ias \<noteq> []" "length ias < 2 ^ 14" using w ty(2) by (auto simp: n)
    show "list_all wf ns"
      using w(4,5) ty assms(4,5) by (auto simp: n list_all_length)
    show "list_all (\<lambda>v. element_of (etype v) = element_of (etype (hd ns))) ns"
      unfolding hd using w(6) ty by (auto simp: n list_all_length)
    have "map (\<lambda>v. lanes (etype v)) ns = map (\<lambda>v. lanes (etype v)) vas"
      using ty by (auto simp: n list_eq_iff_nth_eq)
    then show "list_all (\<lambda>i. i < sum_list (map (\<lambda>v. lanes (etype v)) ns)) ias" using w(7) by simp
  qed
  moreover have "eval env e l = Some v"
    unfolding e n
    by (rule hoist_eval [OF ty(2,1) w(1)]) (use w(3,4,6) assms(3) True in \<open>auto simp: list_all_length\<close>)
  ultimately show ?thesis by blast
qed

lemma finish_bin_ok:
  assumes "finish_bin op a b = Some e \<or> Bin_make op a b = Some e" "wf (Bin op a b)" "eval env (Bin op a b) l = Some v"
    and "op \<noteq> OpAnd" "op \<noteq> OpOr"
  shows "wf e \<and> eval env e l = Some v"
proof (cases "Bin_make op a b = Some e")
  case True
  then show ?thesis using bin_etype [OF assms(2)] assms(2,3) by blast
next
  case False
  then obtain vas ias vbs ibs where "a = Shuffle vas ias" "b = Shuffle vbs ibs"
    "hoist_slice_vector op vas ias vbs ibs = Some e"
    using assms(1) by (auto simp: finish_bin_def split: expr.splits if_splits)
  then show ?thesis using hoist_ok assms(2-) by blast
qed

section \<open>Operands\<close>

lemma in_ety_narrow:
  assumes "num_ety h" "\<not> wide h" "nrm h v = v"
  shows "in_ety h v"
  using assms(1) by (cases rule: narrow_cases) (use assms(2,3) in \<open>auto simp: nrm_range in_ety_def wide_def fits_def\<close>)

lemma restrictedI:
  assumes "wf e" "eval env e l = Some v" "typed lhs" "node_pat lhs"
    and "\<And>M. ctx_ok M \<Longrightarrow> wtd M (ety (etype e)) lhs \<Longrightarrow> knows M (ety (etype e)) (operands e) lhs \<Longrightarrow> P M"
  shows "restricted P F env l (Rewrite lhs aft p) e"
  unfolding restricted_def
proof (simp, intro allI impI)
  fix \<sigma>
  assume m: "pmatch F lhs e empty_state = Some \<sigma>"
  have M: "matches env l lhs e v empty_state \<sigma>"
    by (rule pmatch_sound [OF m assms(3,1,2) good_empty])
  then have g: "good env l \<sigma>" by (simp add: matches_def)
  have l: "lane (vctx_of env l \<sigma>) = l" by (simp add: vctx_of_def)
  show "P (vctx_of env l \<sigma>)"
    using assms(5) [OF vctx_of_ok [OF g]] M vctx_of_agrees [OF g] l
      match_knows [OF m assms(3,1,2) vctx_of_agrees [OF g] l assms(4)]
    unfolding matches_def by blast
qed

lemma limit_group_ok:
  assumes "\<not> no_overflow_int ty \<Longrightarrow> wf e \<and> eval env e l = Some v"
    and "\<And>tmin tmax. is_limit ty (ety_min (ety ty)) tmin \<Longrightarrow> is_limit ty (ety_max (ety ty)) tmax \<Longrightarrow>
      list_all (valid_rule in_bounds (operands e)) (rules tmin tmax)"
    and "\<And>tmin tmax lhs aft p M. is_limit ty (ety_min (ety ty)) tmin \<Longrightarrow> is_limit ty (ety_max (ety ty)) tmax \<Longrightarrow>
      Rewrite lhs aft p \<in> set (rules tmin tmax) \<Longrightarrow> wtd M (ety (etype e)) lhs \<Longrightarrow> knows M (ety (etype e)) (operands e) lhs \<Longrightarrow>
      wty M 0 = ety ty"
    and "legal_type ty" "is_num ty"
  shows "group_ok F env l e (limit_group rules F ty)"
proof (cases "no_overflow_int ty")
  case False
  show ?thesis
    unfolding group_ok_def limit_group_def case_prod_conv
  proof (intro allI impI)
    fix rs
    assume "do { tmin \<leftarrow> type_min F ty; tmax \<leftarrow> type_max F ty; Some (rules tmin tmax) } = Some rs \<and> \<not> no_overflow_int ty"
    then obtain tmin tmax where t: "type_min F ty = Some tmin" "type_max F ty = Some tmax" "rs = rules tmin tmax"
      by (auto simp: bind_eq_Some_conv)
    note lim = type_limit_is_limit(2) [OF assms(4,5) t(1)] type_limit_is_limit(1) [OF assms(4,5) t(2)]
    have v: "list_all (valid_rule in_bounds (operands e)) rs" using assms(2) [OF lim] t(3) by simp
    moreover have "restricted in_bounds F env l r e" if r: "r \<in> set rs" for r
    proof -
      obtain lhs aft p where rw: "r = Rewrite lhs aft p" by (cases r)
      have "typed lhs" "node_pat lhs" using v r by (auto simp: list_all_iff valid_rule_def rw)
      moreover have "in_bounds M" if M: "ctx_ok M" "wtd M (ety (etype e)) lhs" "knows M (ety (etype e)) (operands e) lhs" for M
      proof -
        have "wty M 0 = ety ty" using assms(3) [OF lim _ M(2,3)] r by (simp add: t(3) rw)
        then show ?thesis
          using ctx_okD(1,3) [OF M(1), of 0] False no_overflow_int_wide [of ty] by (auto simp: in_bounds_def intro: in_ety_narrow)
      qed
      ultimately show ?thesis using assms(1) [OF False] restrictedI by (simp add: rw)
    qed
    ultimately show "\<exists>P. list_all (valid_rule P (operands e)) rs \<and> (\<forall>r \<in> set rs. restricted P F env l r e)" by blast
  qed
qed (auto simp: group_ok_def limit_group_def)

lemma extremum_stair_group:
  assumes "op \<in> {OpMin, OpMax}" "wf (Bin op a b)" "eval env (Bin op a b) l = Some v" "etype a = ty"
    and "rules = (if op = OpMin then min_direct_stair a b else max_direct_stair a b)"
  shows "group_ok F env l (Bin op a b) (stair_group ty rules)"
proof -
  have n: "is_num ty" using eval_num [OF assms(2,3)] assms(4) by simp
  have v: "list_all (valid_rule no_narrow_int [a, b]) rules"
    using stair_rules_valid [of a b] by (simp add: assms(5))
  have "restricted no_narrow_int F env l r (Bin op a b)" if r: "r \<in> set rules" "\<not> (is_int ty \<and> bits ty < 32)" for r
  proof -
    obtain lhs aft p where rw: "r = Rewrite lhs aft p" by (cases r)
    have t: "typed lhs" "node_pat lhs" using v r(1) by (auto simp: list_all_iff valid_rule_def rw)
    show ?thesis
      unfolding rw
    proof (rule restrictedI [OF assms(2,3) t])
      fix M
      assume "wtd M (ety (etype (Bin op a b))) lhs"
      then have "wty M 0 = ety ty"
        using r(1) assms(1,4) by (auto simp: assms(5) rw min_direct_stair_def max_direct_stair_def pat_ops split: if_splits)
      then show "no_narrow_int M"
        using r(2) n by (auto simp: no_narrow_int_def ety_def wide_def is_num_def is_int_def is_uint_def)
    qed
  qed
  then show ?thesis using v by (auto simp: group_ok_def stair_group_def)
qed

definition operands_info ::
  "eval_env \<Rightarrow> nat \<Rightarrow> expr \<Rightarrow> expr_info \<Rightarrow> expr \<Rightarrow> expr_info \<Rightarrow> expr_info option \<Rightarrow> int \<Rightarrow> bool" where
  "operands_info env l a ai b bi bs v \<longleftrightarrow> opt_ok bs v \<and>
     (\<exists>x y. eval env a l = Some x \<and> eval env b l = Some y \<and> info_ok ai x \<and> info_ok bi y)"

lemma operand_values:
  assumes "visit_pre env l (Bin op a b) v b3 s3 \<and> operands_info env l a ai b bi bs v \<and> etype a = ty"
  obtains x y where "eval env a l = Some x" "eval env b l = Some y" "info_ok ai x" "info_ok bi y"
    "bin_val op (norm ty) x y = Some v" "wf a" "wf b" "legal_type ty" "opt_ok bs v" "opt_ok b3 v"
proof -
  obtain x y where xy: "eval env a l = Some x" "eval env b l = Some y" "info_ok ai x" "info_ok bi y"
    using assms unfolding operands_info_def by blast
  moreover have ty: "ty = etype a" using assms by simp
  have "eval env (Bin op a b) l = Some v" using assms by (simp only: visit_pre_def)
  then have "bin_val op (norm ty) x y = Some v" using xy(1,2) by (simp add: ty)
  moreover have "wf a" "wf b" "opt_ok bs v" "opt_ok b3 v"
    using assms by (simp_all add: visit_pre_def operands_info_def)
  moreover have "legal_type ty" unfolding ty by (rule wf_legal) fact
  ultimately show ?thesis using that by blast
qed

lemma bin_val_commute:
  "op \<in> {OpAdd, OpMul, OpMin, OpMax, OpAnd, OpOr} \<Longrightarrow> bin_val op N a b = bin_val op N b a"
  by (auto simp: add.commute mult.commute min.commute max.commute)

lemma visit_pre_commute:
  assumes "op \<in> {OpAdd, OpMul, OpMin, OpMax, OpAnd, OpOr}" "visit_pre env l (Bin op a b) v bs s"
  shows "visit_pre env l (Bin op b a) v bs s \<and> etype b = etype a"
  using assms(2) bin_val_commute [OF assms(1), of "norm (etype b)"]
  by (auto simp: visit_pre_def bind_eq_Some_conv)

lemma table_groups:
  assumes "list_all (valid_rule (in_lanes ty) (operands e)) (d @ c)" "l < lanes ty" "g \<in> set (table d) \<union> set (table c)"
  shows "group_ok F env l e g"
  using assms group_ok_table [of ty e d l F env False] group_ok_table [of ty e c l F env False]
  by (auto simp: table_def)

lemma simp_ok_finish_bin:
  assumes "finish_bin op a b = Some e \<or> Bin_make op a b = Some e" "op \<noteq> OpAnd" "op \<noteq> OpOr"
  shows "simp_ok (visit_pre env l (Bin op a b) v bs s) env l v ty bs s (e, bs, s)"
  by (rule simp_ok_done) (use finish_bin_ok [OF assms(1)] assms(2,3) in \<open>auto simp: visit_pre_def\<close>)

context sound_mutator
begin

lemma operands:
  assumes a: "mutate_info mu a0 s = Some (a, ai, s1)" and b: "mutate_info mu b0 s1 = Some (b, bi, s2)"
  shows "kept s s2" "etype a = etype a0" "etype b = etype b0"
    "visit_pre env l (Bin op a0 b0) v bs s \<Longrightarrow> \<not> tainted s2 \<Longrightarrow>
      wf (Bin op a b) \<and> facts_ok env s2 \<and> operands_info env l a ai b bi bs v \<and> eval env (Bin op a b) l = Some v"
proof -
  note A = info [OF a] and B = info [OF b]
  show k: "kept s s2" and "etype a = etype a0" "etype b = etype b0" using A(1,2) B(1,2) kept_trans by blast+
  assume p: "visit_pre env l (Bin op a0 b0) v bs s" "\<not> tainted s2"
  then have w: "wf a0" "wf b0" "etype b0 = etype a0" "lane_ok l a0" "facts_ok env s" "op = OpAnd \<or> op = OpOr \<longrightarrow> is_bool (etype a0)"
    and e: "eval env (Bin op a0 b0) l = Some v"
    unfolding visit_pre_def wf.simps etype.simps lane_okt_def by metis+
  obtain x y where xy: "eval env a0 l = Some x" "eval env b0 l = Some y" "bin_val op (norm (etype a0)) x y = Some v"
    using e by (auto simp: bind_eq_Some_conv)
  have t: "\<not> tainted s1" using kept_tainted [OF B(1) p(2)] .
  have "wf a \<and> eval env a l = Some x \<and> info_ok ai x"
    by (rule A(3) [OF w(1,4,5) xy(1) t])
  moreover have "wf b \<and> eval env b l = Some y \<and> info_ok bi y"
    by (rule B(3) [OF w(2) _ kept_facts_ok [OF A(1) w(5)] xy(2) p(2)]) (use w in simp)
  ultimately show "wf (Bin op a b) \<and> facts_ok env s2 \<and> operands_info env l a ai b bi bs v \<and> eval env (Bin op a b) l = Some v"
    using p(1) xy(3) w(3,6) A(2) B(2) kept_facts_ok [OF k w(5)] unfolding operands_info_def visit_pre_def by simp
qed

lemma binary_ok:
  assumes a: "mutate_info mu a0 s = Some (a, ai, s1)" and b: "mutate_info mu b0 s1 = Some (b, bi, s2)"
    and k: "kept s2 s3" "b3 = None \<longleftrightarrow> bs = None"
    and bnd: "\<And>x y. info_ok ai x \<Longrightarrow> info_ok bi y \<Longrightarrow> bin_val op (norm (etype a0)) x y = Some v \<Longrightarrow> legal_type (etype a0) \<Longrightarrow>
      \<not> tainted s3 \<Longrightarrow> opt_ok bs v \<Longrightarrow> opt_ok b3 v"
    and tail: "simp_ok (visit_pre env l (Bin op a b) v b3 s3 \<and> operands_info env l a ai b bi bs v \<and> etype a = etype a0)
      env l v (etype a0) b3 s3 r"
  shows "simp_ok (visit_pre env l (Bin op a0 b0) v bs s) env l v (etype a0) bs s r"
proof (rule simp_ok_after [OF kept_trans [OF operands(1) [OF a b] k(1)] k(2)])
  note o = operands(2-) [OF a b]
  show "simp_ok (visit_pre env l (Bin op a0 b0) v bs s \<and> \<not> tainted s3) env l v (etype a0) b3 s3 r"
  proof (rule simp_ok_mono [OF tail])
    assume p: "visit_pre env l (Bin op a0 b0) v bs s \<and> \<not> tainted s3"
    then have m: "wf (Bin op a b)" "facts_ok env s2" "operands_info env l a ai b bi bs v" "eval env (Bin op a b) l = Some v"
      using o(3) [of env l op v bs] kept_tainted [OF k(1)] by blast+
    have "opt_ok b3 v"
      using m(1,3,4) bnd p o(1) wf_legal [of a0]
      by (auto simp: operands_info_def visit_pre_def bind_eq_Some_conv)
    then show "visit_pre env l (Bin op a b) v b3 s3 \<and> operands_info env l a ai b bi bs v \<and> etype a = etype a0"
      using m p o(1) kept_facts_ok [OF k(1)] by (auto simp: visit_pre_def)
  qed
qed

lemma bounded_binary_ok:
  assumes a: "mutate_info mu a0 s = Some (a, ai, s1)" and b: "mutate_info mu b0 s1 = Some (b, bi, s2)"
    and f: "on_bounds bs f s2 = Some (b3, s3)" "\<And>i i' s'. f i s2 = Some (i', s') \<Longrightarrow> kept s2 s'"
    and bnd: "\<And>i i' s' x y. f i s2 = Some (i', s') \<Longrightarrow> info_ok ai x \<Longrightarrow> info_ok bi y \<Longrightarrow>
      bin_val op (norm (etype a0)) x y = Some v \<Longrightarrow> \<not> tainted s' \<Longrightarrow> info_ok i v \<Longrightarrow> info_ok i' v"
    and tail: "simp_ok (visit_pre env l (Bin op a b) v b3 s3 \<and> operands_info env l a ai b bi bs v \<and> etype a = etype a0)
      env l v (etype a0) b3 s3 r"
  shows "simp_ok (visit_pre env l (Bin op a0 b0) v bs s) env l v (etype a0) bs s r"
proof (rule binary_ok [OF a b _ _ _ tail])
  show "kept s2 s3"
    by (rule on_bounds_ok(1) [where D = False and v = v, OF f(1)]) (use f(2) in blast)+
  show "b3 = None \<longleftrightarrow> bs = None"
    by (rule on_bounds_ok(2) [where D = False and v = v, OF f(1)]) (use f(2) in blast)+
  show "opt_ok b3 v" if "info_ok ai x" "info_ok bi y" "bin_val op (norm (etype a0)) x y = Some v" "\<not> tainted s3" "opt_ok bs v" for x y
    by (rule on_bounds_ok(3) [where D = True, OF f(1)]) (use f(2) bnd [OF _ that(1-3)] that(4,5) in blast)+
qed

lemma rewrite_bin_ok:
  assumes "rewrite_node F mu direct chain (Bin op a b) ty rest bs s = Some r"
    and "rest = finish_bin op a b \<or> rest = Bin_make op a b" "op \<noteq> OpAnd" "op \<noteq> OpOr"
    and "\<And>g. g \<in> set direct \<union> set chain \<Longrightarrow> wf (Bin op a b) \<Longrightarrow> etype a = ty \<Longrightarrow> l < lanes ty \<Longrightarrow>
      eval env (Bin op a b) l = Some v \<Longrightarrow> group_ok F env l (Bin op a b) g"
  shows "simp_ok (visit_pre env l (Bin op a b) v bs s \<and> etype a = ty) env l v ty bs s r"
proof (rule rewrite_node_ok [OF assms(1)])
  assume C: "visit_pre env l (Bin op a b) v bs s \<and> etype a = ty"
  then show "visit_pre env l (Bin op a b) v bs s \<and> etype (Bin op a b) = ty" by simp
  then show "group_ok F env l (Bin op a b) g" if "g \<in> set direct \<union> set chain" for g
    using assms(5) [OF that] C by (auto simp: visit_pre_def)
  show "wf e' \<and> eval env e' l = Some v" if "rest = Some e'" for e'
    using finish_bin_ok [of op a b e' env l v] assms(2-4) that C by (auto simp: visit_pre_def)
qed

lemma rewrite_commuted_ok:
  assumes "op \<in> {OpAdd, OpMul, OpMin, OpMax}"
    and "(let (a, b) = commuted a b in rewrite_node F mu (direct a b) (chain a b) (Bin op a b) ty (finish_bin op a b) bs s) = Some r"
    and "\<And>a b g. g \<in> set (direct a b) \<union> set (chain a b) \<Longrightarrow> wf (Bin op a b) \<Longrightarrow> etype a = ty \<Longrightarrow> l < lanes ty \<Longrightarrow>
      eval env (Bin op a b) l = Some v \<Longrightarrow> group_ok F env l (Bin op a b) g"
  shows "simp_ok (visit_pre env l (Bin op a b) v bs s \<and> etype a = ty) env l v ty bs s r"
proof (cases "should_commute a b")
  case True
  have "simp_ok (visit_pre env l (Bin op b a) v bs s \<and> etype b = ty) env l v ty bs s r"
    by (rule rewrite_bin_ok [where rest = "finish_bin op b a"]) (use True assms in \<open>auto simp: commuted_def\<close>)
  then show ?thesis
    by (rule simp_ok_mono) (use visit_pre_commute [of op env l a b v bs s] assms(1) in auto)
next
  case False
  show ?thesis
    by (rule rewrite_bin_ok [where rest = "finish_bin op a b"]) (use False assms in \<open>auto simp: commuted_def\<close>)
qed

text \<open>The end of a visitor: rewriting if the type may be simplified, else the node itself.\<close>

lemma unsimplified_ok:
  assumes "do { e \<leftarrow> fin; Some (e, bs, s) } = Some r" "fin = finish_bin op a b \<or> fin = Bin_make op a b" "op \<noteq> OpAnd" "op \<noteq> OpOr"
  shows "simp_ok (visit_pre env l (Bin op a b) v bs s \<and> C) env l v ty bs s r"
  using assms simp_ok_mono [OF simp_ok_finish_bin [of op a b]] by (auto simp: bind_eq_Some_conv)

lemma commuted_tail:
  assumes "op \<in> {OpAdd, OpMul, OpMin, OpMax}"
    and "(if c then let (a, b) = commuted a b in rewrite_node F mu (direct a b) (chain a b) (Bin op a b) ty (finish_bin op a b) bs s
          else do { e \<leftarrow> fin; Some (e, bs, s) }) = Some r"
    and "fin = finish_bin op a b \<or> fin = Bin_make op a b"
    and "\<And>a b g. g \<in> set (direct a b) \<union> set (chain a b) \<Longrightarrow> wf (Bin op a b) \<Longrightarrow> etype a = ty \<Longrightarrow> l < lanes ty \<Longrightarrow>
      eval env (Bin op a b) l = Some v \<Longrightarrow> group_ok F env l (Bin op a b) g"
  shows "simp_ok (visit_pre env l (Bin op a b) v bs s \<and> C \<and> etype a = ty) env l v ty bs s r"
proof (cases c)
  case True
  then show ?thesis
    by (intro simp_ok_mono [OF rewrite_commuted_ok [OF assms(1) assms(2) [unfolded if_P [OF True]] assms(4)]]) blast+
next
  case False
  show ?thesis
    by (rule unsimplified_ok [OF assms(2) [unfolded if_not_P [OF False]] assms(3)]) (use assms(1) in auto)
qed

lemma plain_tail:
  assumes "(if c then rewrite_node F mu direct chain (Bin op a b) ty fin bs s
          else do { e \<leftarrow> fin; Some (e, bs, s) }) = Some r"
    and "fin = finish_bin op a b \<or> fin = Bin_make op a b" "op \<noteq> OpAnd" "op \<noteq> OpOr"
    and "\<And>g. g \<in> set direct \<union> set chain \<Longrightarrow> wf (Bin op a b) \<Longrightarrow> etype a = ty \<Longrightarrow> l < lanes ty \<Longrightarrow>
      eval env (Bin op a b) l = Some v \<Longrightarrow> group_ok F env l (Bin op a b) g"
  shows "simp_ok (visit_pre env l (Bin op a b) v bs s \<and> C \<and> etype a = ty) env l v ty bs s r"
proof (cases c)
  case True
  then show ?thesis
    by (intro simp_ok_mono [OF rewrite_bin_ok [OF assms(1) [unfolded if_P [OF True]] assms(2-4) assms(5)]]) blast+
next
  case False
  show ?thesis by (rule unsimplified_ok [OF assms(1) [unfolded if_not_P [OF False]] assms(2-4)])
qed

section \<open>Sums, differences, products\<close>

lemma Add_groups:
  "g \<in> set (table (add_direct a b)) \<union> set (table (add_chain ty)) \<Longrightarrow> wf (Add a b) \<Longrightarrow> etype a = ty \<Longrightarrow> l < lanes ty \<Longrightarrow>
    group_ok F env l (Add a b) g"
  by (rule table_groups [of ty]) (use add_table_valid [of ty a b] wf_legal [of a] in auto)

lemma Sub_groups:
  "g \<in> set (table (sub_direct a b)) \<union> set (table (sub_chain ty)) \<Longrightarrow> wf (Sub a b) \<Longrightarrow> etype a = ty \<Longrightarrow> l < lanes ty \<Longrightarrow>
    group_ok F env l (Sub a b) g"
  by (rule table_groups [of ty]) (use sub_table_valid [of ty a b] wf_legal [of a] in auto)

lemma Mul_groups:
  "g \<in> set (table (mul_direct a b)) \<union> set (table (mul_chain ty)) \<Longrightarrow> wf (Mul a b) \<Longrightarrow> etype a = ty \<Longrightarrow> l < lanes ty \<Longrightarrow>
    group_ok F env l (Mul a b) g"
  by (rule table_groups [of ty]) (use mul_table_valid [of ty a b] wf_legal [of a] in auto)

lemma visit_Add_ok:
  assumes "visit_Add F mu a0 b0 bs s = Some r"
  shows "simp_ok (visit_pre env l (Add a0 b0) v bs s) env l v (etype a0) bs s r"
proof -
  obtain a ai s1 b bi s2 b3 s3 where m: "mutate_info mu a0 s = Some (a, ai, s1)" "mutate_info mu b0 s1 = Some (b, bi, s2)"
    "on_bounds bs (Add_bounds (etype a0) ai bi) s2 = Some (b3, s3)"
    and tl: "(if may_simplify s3 (etype a0) then
       let (a, b) = commuted a b
       in rewrite_node F mu (table (add_direct a b)) (table (add_chain (etype a0))) (Add a b) (etype a0) (finish_bin OpAdd a b) b3 s3
     else do { e \<leftarrow> Bin_make OpAdd a b; Some (e, b3, s3) }) = Some r"
    using assms by (auto simp: visit_Add_def bind_eq_Some_conv Let_def [where s = "etype a0"])
  show ?thesis
    by (rule bounded_binary_ok [OF m Add_bounds_ok(1)])
      (auto dest: Add_bounds_ok(2) intro!: commuted_tail [OF _ tl _ Add_groups])
qed

lemma visit_Sub_ok:
  assumes "visit_Sub F mu a0 b0 bs s = Some r"
  shows "simp_ok (visit_pre env l (Sub a0 b0) v bs s) env l v (etype a0) bs s r"
proof -
  obtain a ai s1 b bi s2 b3 s3 where m: "mutate_info mu a0 s = Some (a, ai, s1)" "mutate_info mu b0 s1 = Some (b, bi, s2)"
    "on_bounds bs (Sub_bounds (etype a0) ai bi) s2 = Some (b3, s3)"
    and tl: "(if may_simplify s3 (etype a0) then
       rewrite_node F mu (table (sub_direct a b)) (table (sub_chain (etype a0))) (Sub a b) (etype a0) (finish_bin OpSub a b) b3 s3
     else do { e \<leftarrow> finish_bin OpSub a b; Some (e, b3, s3) }) = Some r"
    using assms by (auto simp: visit_Sub_def bind_eq_Some_conv Let_def [where s = "etype a0"])
  show ?thesis
    by (rule bounded_binary_ok [OF m Sub_bounds_ok(1)])
      (auto dest: Sub_bounds_ok(2) intro!: plain_tail [OF tl _ _ _ Sub_groups])
qed

lemma visit_Mul_ok:
  assumes "visit_Mul F mu a0 b0 bs s = Some r"
  shows "simp_ok (visit_pre env l (Mul a0 b0) v bs s) env l v (etype a0) bs s r"
proof -
  obtain a ai s1 b bi s2 b3 s3 where m: "mutate_info mu a0 s = Some (a, ai, s1)" "mutate_info mu b0 s1 = Some (b, bi, s2)"
    "on_bounds bs (Mul_bounds (etype a0) ai bi) s2 = Some (b3, s3)"
    and tl: "(if may_simplify s3 (etype a0) then
       let (a, b) = commuted a b
       in rewrite_node F mu (table (mul_direct a b)) (table (mul_chain (etype a0))) (Mul a b) (etype a0) (finish_bin OpMul a b) b3 s3
     else do { e \<leftarrow> finish_bin OpMul a b; Some (e, b3, s3) }) = Some r"
    using assms by (auto simp: visit_Mul_def bind_eq_Some_conv Let_def [where s = "etype a0"])
  show ?thesis
    by (rule bounded_binary_ok [OF m Mul_bounds_ok(1)])
      (auto dest: Mul_bounds_ok(2) intro!: commuted_tail [OF _ tl _ Mul_groups])
qed

section \<open>Quotients and remainders\<close>

lemma Div_groups:
  "g \<in> set (table (div_direct ty a b)) \<union> set (table (div_chain ty)) \<Longrightarrow> wf (Div a b) \<Longrightarrow> etype a = ty \<Longrightarrow> l < lanes ty \<Longrightarrow>
    eval env (Div a b) l = Some v \<Longrightarrow> group_ok F env l (Div a b) g"
  by (rule table_groups [of ty]) (use div_table_valid [of ty a b] wf_legal [of a] eval_num [of "Div a b" env l v] in auto)

lemma Mod_groups:
  "g \<in> set (table (mod_direct ty a b)) \<union> set (table (mod_chain ty)) \<Longrightarrow> wf (Mod a b) \<Longrightarrow> etype a = ty \<Longrightarrow> l < lanes ty \<Longrightarrow>
    group_ok F env l (Mod a b) g"
  by (rule table_groups [of ty]) (use mod_table_valid [of ty a b] wf_legal [of a] in auto)

lemma visit_Div_ok:
  assumes "visit_Div F mu a0 b0 bs s = Some r"
  shows "simp_ok (visit_pre env l (Div a0 b0) v bs s) env l v (etype a0) bs s r"
proof -
  obtain a ai s1 b bi s2 e b3 s3 where m: "mutate_info mu a0 s = Some (a, ai, s1)" "mutate_info mu b0 s1 = Some (b, bi, s2)"
    and bd: "(case bs of None \<Rightarrow> Some (None, None, s2)
       | Some i \<Rightarrow> do { (e, i, s) \<leftarrow> Div_bounds F (etype a0) ai bi i s2; Some (e, Some i, s) }) = Some (e, b3, s3)"
    and tl: "(case e of Some e \<Rightarrow> Some (e, b3, s3)
     | None \<Rightarrow>
         if may_simplify s3 (etype a0) then
           rewrite_node F mu (table (div_direct (etype a0) a b)) (table (div_chain (etype a0))) (Div a b) (etype a0)
             (Bin_make OpDiv a b) b3 s3
         else do { e \<leftarrow> Bin_make OpDiv a b; Some (e, b3, s3) }) = Some r"
    using assms by (auto simp: visit_Div_def bind_eq_Some_conv Let_def [where s = "etype a0"])
  have k: "kept s2 s3" "b3 = None \<longleftrightarrow> bs = None"
    using bd Div_bounds_ok(1) by (auto simp: bind_eq_Some_conv split: option.splits)
  have d: "opt_ok b3 v \<and> (\<forall>e'. e = Some e' \<longrightarrow> wf e' \<and> eval env e' l = Some v)"
    if "info_ok ai x" "info_ok bi y" "bin_val OpDiv (norm (etype a0)) x y = Some v" "legal_type (etype a0)" "\<not> tainted s3" "opt_ok bs v" for x y
    using bd that Div_bounds_ok(2) [of F "etype a0" ai bi _ s2 e _ s3 x y env l]
    by (auto simp: bind_eq_Some_conv split: option.splits if_splits)
  show ?thesis
  proof (rule binary_ok [OF m k])
    show "simp_ok (visit_pre env l (Div a b) v b3 s3 \<and> operands_info env l a ai b bi bs v \<and> etype a = etype a0)
      env l v (etype a0) b3 s3 r"
    proof (cases e)
      case None
      then show ?thesis using tl by (auto intro!: plain_tail [OF _ _ _ _ Div_groups])
    next
      case (Some e')
      then have r: "r = (e', b3, s3)" using tl by simp
      show ?thesis
        unfolding r
      proof (rule simp_ok_done)
        assume C: "visit_pre env l (Div a b) v b3 s3 \<and> operands_info env l a ai b bi bs v \<and> etype a = etype a0"
          and t: "\<not> tainted s3"
        obtain x y where "info_ok ai x" "info_ok bi y" "bin_val OpDiv (norm (etype a0)) x y = Some v"
          "legal_type (etype a0)" "opt_ok bs v"
          by (rule operand_values [OF C])
        then show "wf e' \<and> eval env e' l = Some v \<and> opt_ok b3 v" using d t Some by blast
      qed
    qed
  qed (use d in blast)
qed

lemma visit_Mod_ok:
  assumes "visit_Mod F mu a0 b0 bs s = Some r"
  shows "simp_ok (visit_pre env l (Mod a0 b0) v bs s) env l v (etype a0) bs s r"
proof -
  let ?ty = "etype a0"
  obtain a ai s1 b bi s2 mi s3 where m: "mutate_info mu a0 s = Some (a, ai, s1)" "mutate_info mu b0 s1 = Some (b, bi, s2)"
    and bd: "Mod_bounds ?ty ai bi s2 = Some (mi, s3)"
    and tl: "(let bounds = (if no_overflow_int ?ty \<and> bs \<noteq> None then Some mi else bs) in
     if may_simplify s3 ?ty then
       if min_defined ai \<and> info_min ai \<ge> 0 \<and> max_defined ai \<and> min_defined bi \<and> info_max ai < info_min bi
       then Some (a, bounds, s3)
       else if min_defined mi \<and> max_defined mi \<and> info_min mi = info_max mi
       then do {
         e \<leftarrow> make_const F ?ty (info_min mi);
         Some (e, bounds, taint_if (\<not> can_represent_int ?ty (info_min mi)) s3) }
       else rewrite_node F mu (table (mod_direct ?ty a b)) (table (mod_chain ?ty)) (Mod a b) ?ty (Bin_make OpMod a b) bounds s3
     else do { e \<leftarrow> Bin_make OpMod a b; Some (e, bounds, s3) }) = Some r"
    using assms by (auto simp: visit_Mod_def bind_eq_Some_conv Let_def [where s = "etype a0"])
  define b3 where "b3 = (if no_overflow_int ?ty \<and> bs \<noteq> None then Some mi else bs)"
  note M = Mod_bounds_ok [OF bd]
  note tl' = tl [folded b3_def, unfolded Let_def [where s = b3]]
  have mod: "info_ok mi v" if "info_ok ai x" "info_ok bi y" "bin_val OpMod (norm ?ty) x y = Some v" "\<not> tainted s3" for x y
    using M(2) [OF that(1,2)] that(3,4) by (auto split: if_splits)
  show ?thesis
  proof (rule binary_ok [OF m M(1)])
    show "b3 = None \<longleftrightarrow> bs = None" by (simp add: b3_def)
    show "opt_ok b3 v" if "info_ok ai x" "info_ok bi y" "bin_val OpMod (norm ?ty) x y = Some v" "\<not> tainted s3" "opt_ok bs v" for x y
      using mod [OF that(1-4)] that(5) by (simp add: b3_def)
    let ?small = "min_defined ai \<and> info_min ai \<ge> 0 \<and> max_defined ai \<and> min_defined bi \<and> info_max ai < info_min bi"
    let ?const = "min_defined mi \<and> max_defined mi \<and> info_min mi = info_max mi"
    consider (plain) "may_simplify s3 ?ty \<longrightarrow> \<not> ?small \<and> \<not> ?const" | (small) "may_simplify s3 ?ty" ?small
      | (const) "may_simplify s3 ?ty" "\<not> ?small" ?const
      by blast
    then show "simp_ok (visit_pre env l (Mod a b) v b3 s3 \<and> operands_info env l a ai b bi bs v \<and> etype a = ?ty)
      env l v ?ty b3 s3 r"
    proof cases
      case plain
      have "(if may_simplify s3 ?ty then rewrite_node F mu (table (mod_direct ?ty a b)) (table (mod_chain ?ty)) (Mod a b) ?ty
          (Bin_make OpMod a b) b3 s3 else do { e \<leftarrow> Bin_make OpMod a b; Some (e, b3, s3) }) = Some r"
        using tl' plain by (cases "may_simplify s3 ?ty") (simp_all only: if_True if_False simp_thms)
      then show ?thesis by (rule plain_tail [OF _ _ _ _ Mod_groups]) simp_all
    next
      case small
      then have r: "r = (a, b3, s3)" using tl' by (simp only: if_True simp_thms option.inject)
      show ?thesis
        unfolding r
      proof (rule simp_ok_done)
        assume C: "visit_pre env l (Mod a b) v b3 s3 \<and> operands_info env l a ai b bi bs v \<and> etype a = ?ty"
        obtain x y where xy: "eval env a l = Some x" "info_ok ai x" "info_ok bi y" "bin_val OpMod (norm ?ty) x y = Some v" "wf a"
          by (rule operand_values [OF C])
        then have "0 \<le> x" "x < y" using small(2) info_okD(1,2) [OF xy(2)] info_okD(1) [OF xy(3)] by linarith+
        then have "emod x y = x" by (simp add: emod_def)
        then show "wf a \<and> eval env a l = Some v \<and> opt_ok b3 v" using xy C by (auto simp: visit_pre_def split: if_splits)
      qed
    next
      case const
      then obtain e where e: "make_const F ?ty (info_min mi) = Some e"
        "r = (e, b3, taint_if (\<not> can_represent_int ?ty (info_min mi)) s3)"
        using tl' by (auto simp only: if_True if_False simp_thms bind_eq_Some_conv)
      show ?thesis
        unfolding e(2)
      proof (rule simp_ok_after [OF kept_taint_if refl simp_ok_done])
        assume C: "(visit_pre env l (Mod a b) v b3 s3 \<and> operands_info env l a ai b bi bs v \<and> etype a = ?ty) \<and>
          \<not> tainted (taint_if (\<not> can_represent_int ?ty (info_min mi)) s3)"
        obtain x y where xy: "info_ok ai x" "info_ok bi y" "bin_val OpMod (norm ?ty) x y = Some v" "legal_type ?ty"
          by (rule operand_values [OF conjunct1 [OF C]])
        then have "v = info_min mi" using mod [OF xy(1-3)] C const(3) by (auto simp: info_ok_def)
        then show "wf e \<and> eval env e l = Some v \<and> opt_ok b3 v"
          using made_constant [OF e(1) xy(4)] C by (auto simp: visit_pre_def)
      qed
    qed
  qed
qed

section \<open>Minima and maxima\<close>

lemma extremum_limit_group:
  assumes "op \<in> {OpMin, OpMax}" "wf (Bin op a b)" "eval env (Bin op a b) l = Some v" "etype a = ty"
    and "rules = (\<lambda>tmin tmax. if op = OpMin then min_direct_limits tmin tmax a b else max_direct_limits tmin tmax a b)"
  shows "group_ok F env l (Bin op a b) (limit_group rules F ty)"
proof (rule limit_group_ok)
  show "legal_type ty" using assms(2,4) wf_legal [of a] by auto
  show "is_num ty" using eval_num [OF assms(2,3)] assms(4) by simp
  show "list_all (valid_rule in_bounds (operands (Bin op a b))) (rules tmin tmax)"
    if "is_limit ty (ety_min (ety ty)) tmin" "is_limit ty (ety_max (ety ty)) tmax" for tmin tmax
    using limit_rules_valid [OF that] assms(1) by (auto simp: assms(5))
  show "wty M 0 = ety ty"
    if "Rewrite lhs aft p \<in> set (rules tmin tmax)" "wtd M (ety (etype (Bin op a b))) lhs" for tmin tmax lhs aft p M
    using that assms(1,4) by (auto simp: assms(5) min_direct_limits_def max_direct_limits_def pat_ops split: if_splits)
qed (use assms in blast)

lemma Min_groups:
  assumes "g \<in> set [(False, Some (min_direct_1 a b)), limit_group (\<lambda>tmin tmax. min_direct_limits tmin tmax a b) F ty,
             stair_group ty (min_direct_stair a b), (False, Some (min_direct_rest ty a b))] \<union> set (table (min_chain ty a b))"
    and "wf (MinE a b)" "etype a = ty" "l < lanes ty" "eval env (MinE a b) l = Some v"
  shows "group_ok F env l (MinE a b) g"
proof -
  have t: "list_all (valid_rule (in_lanes ty) [a, b]) (min_direct_1 a b @ min_direct_rest ty a b @ min_chain ty a b)"
    using min_table_valid [of ty a b] assms(2,3) wf_legal [of a] by auto
  have "group_ok F env l (MinE a b) (False, Some rs)" if "list_all (valid_rule (in_lanes ty) [a, b]) rs" for rs
    by (rule group_ok_table [OF _ assms(4)]) (use that in simp)
  then show ?thesis
    using assms(1) t extremum_limit_group [OF _ assms(2,5,3) refl] extremum_stair_group [OF _ assms(2,5,3) refl]
    by (auto simp: table_def)
qed

lemma Max_groups:
  assumes "g \<in> set [(False, Some (max_direct_1 a b)), limit_group (\<lambda>tmin tmax. max_direct_limits tmin tmax a b) F ty,
             stair_group ty (max_direct_stair a b), (False, Some (max_direct_rest ty a b))] \<union> set (table (max_chain ty a b))"
    and "wf (MaxE a b)" "etype a = ty" "l < lanes ty" "eval env (MaxE a b) l = Some v"
  shows "group_ok F env l (MaxE a b) g"
proof -
  have t: "list_all (valid_rule (in_lanes ty) [a, b]) (max_direct_1 a b @ max_direct_rest ty a b @ max_chain ty a b)"
    using max_table_valid [of ty a b] assms(2,3) wf_legal [of a] by auto
  have "group_ok F env l (MaxE a b) (False, Some rs)" if "list_all (valid_rule (in_lanes ty) [a, b]) rs" for rs
    by (rule group_ok_table [OF _ assms(4)]) (use that in simp)
  then show ?thesis
    using assms(1) t extremum_limit_group [OF _ assms(2,5,3) refl] extremum_stair_group [OF _ assms(2,5,3) refl]
    by (auto simp: table_def)
qed

lemma early_operand:
  assumes "\<And>x y. info_ok ai x \<Longrightarrow> info_ok bi y \<Longrightarrow> bin_val op (norm ty) x y = Some (if first then x else y)"
  shows "simp_ok (visit_pre env l (Bin op a b) v b3 s3 \<and> operands_info env l a ai b bi bs v \<and> etype a = ty) env l v ty b3 s3
    (if first then a else b, b3, s3)"
proof (rule simp_ok_done)
  assume C: "visit_pre env l (Bin op a b) v b3 s3 \<and> operands_info env l a ai b bi bs v \<and> etype a = ty"
  obtain x y where "eval env a l = Some x" "eval env b l = Some y" "info_ok ai x" "info_ok bi y"
    "bin_val op (norm ty) x y = Some v" "wf a" "wf b" "opt_ok b3 v"
    by (rule operand_values [OF C])
  then show "wf (if first then a else b) \<and> eval env (if first then a else b) l = Some v \<and> opt_ok b3 v"
    using assms [of x y] by auto
qed

lemma visit_Min_ok:
  assumes "visit_Min F mu a0 b0 bs s = Some r"
  shows "simp_ok (visit_pre env l (MinE a0 b0) v bs s) env l v (etype a0) bs s r"
proof -
  let ?ty = "etype a0"
  obtain a ai s1 b bi s2 b3 s3 where m: "mutate_info mu a0 s = Some (a, ai, s1)" "mutate_info mu b0 s1 = Some (b, bi, s2)"
    "on_bounds bs (\<lambda>i. Min_bounds ai bi) s2 = Some (b3, s3)"
    and tl: "(if max_defined ai \<and> min_defined bi \<and> info_max ai \<le> info_min bi then Some (a, b3, s3)
     else if max_defined bi \<and> min_defined ai \<and> info_max bi \<le> info_min ai then Some (b, b3, s3)
     else if may_simplify s3 ?ty then
       let (a, b) = commuted a b
       in rewrite_node F mu
            [(False, Some (min_direct_1 a b)), limit_group (\<lambda>tmin tmax. min_direct_limits tmin tmax a b) F ?ty,
             stair_group ?ty (min_direct_stair a b), (False, Some (min_direct_rest ?ty a b))]
            (table (min_chain ?ty a b)) (MinE a b) ?ty (finish_bin OpMin a b) b3 s3
     else do { e \<leftarrow> finish_bin OpMin a b; Some (e, b3, s3) }) = Some r"
    using assms by (auto simp: visit_Min_def bind_eq_Some_conv Let_def [where s = "etype a0"])
  show ?thesis
  proof (rule bounded_binary_ok [OF m Min_bounds_ok(1)])
    consider (first) "max_defined ai \<and> min_defined bi \<and> info_max ai \<le> info_min bi"
      | (second) "\<not> (max_defined ai \<and> min_defined bi \<and> info_max ai \<le> info_min bi)"
          "max_defined bi \<and> min_defined ai \<and> info_max bi \<le> info_min ai"
      | (rules) "\<not> (max_defined ai \<and> min_defined bi \<and> info_max ai \<le> info_min bi)"
          "\<not> (max_defined bi \<and> min_defined ai \<and> info_max bi \<le> info_min ai)"
      by blast
    then show "simp_ok (visit_pre env l (MinE a b) v b3 s3 \<and> operands_info env l a ai b bi bs v \<and> etype a = ?ty)
      env l v ?ty b3 s3 r"
    proof cases
      case first
      then have "r = (if True then a else b, b3, s3)" using tl by (simp only: if_True if_False simp_thms option.inject)
      moreover have "bin_val OpMin (norm ?ty) x y = Some (if True then x else y)" if "info_ok ai x" "info_ok bi y" for x y
        using that first by (auto simp: info_ok_def min_def)
      ultimately show ?thesis using early_operand by blast
    next
      case second
      then have "r = (if False then a else b, b3, s3)" using tl by (simp only: if_True if_False simp_thms option.inject)
      moreover have "bin_val OpMin (norm ?ty) x y = Some (if False then x else y)" if "info_ok ai x" "info_ok bi y" for x y
        using that second(2) by (auto simp: info_ok_def min_def)
      ultimately show ?thesis using early_operand by blast
    next
      case rules
      show ?thesis
        by (rule commuted_tail [OF _ tl [unfolded if_not_P [OF rules(1)] if_not_P [OF rules(2)]] _ Min_groups]) simp_all
    qed
  qed (auto dest: Min_bounds_ok(2))
qed

lemma visit_Max_ok:
  assumes "visit_Max F mu a0 b0 bs s = Some r"
  shows "simp_ok (visit_pre env l (MaxE a0 b0) v bs s) env l v (etype a0) bs s r"
proof -
  let ?ty = "etype a0"
  obtain a ai s1 b bi s2 b3 s3 where m: "mutate_info mu a0 s = Some (a, ai, s1)" "mutate_info mu b0 s1 = Some (b, bi, s2)"
    "on_bounds bs (\<lambda>i. Max_bounds ai bi) s2 = Some (b3, s3)"
    and tl: "(if max_defined ai \<and> min_defined bi \<and> info_max ai \<le> info_min bi then Some (b, b3, s3)
     else if max_defined bi \<and> min_defined ai \<and> info_max bi \<le> info_min ai then Some (a, b3, s3)
     else if may_simplify s3 ?ty then
       let (a, b) = commuted a b
       in rewrite_node F mu
            [(False, Some (max_direct_1 a b)), limit_group (\<lambda>tmin tmax. max_direct_limits tmin tmax a b) F ?ty,
             stair_group ?ty (max_direct_stair a b), (False, Some (max_direct_rest ?ty a b))]
            (table (max_chain ?ty a b)) (MaxE a b) ?ty (finish_bin OpMax a b) b3 s3
     else do { e \<leftarrow> finish_bin OpMax a b; Some (e, b3, s3) }) = Some r"
    using assms by (auto simp: visit_Max_def bind_eq_Some_conv Let_def [where s = "etype a0"])
  show ?thesis
  proof (rule bounded_binary_ok [OF m Max_bounds_ok(1)])
    consider (first) "max_defined ai \<and> min_defined bi \<and> info_max ai \<le> info_min bi"
      | (second) "\<not> (max_defined ai \<and> min_defined bi \<and> info_max ai \<le> info_min bi)"
          "max_defined bi \<and> min_defined ai \<and> info_max bi \<le> info_min ai"
      | (rules) "\<not> (max_defined ai \<and> min_defined bi \<and> info_max ai \<le> info_min bi)"
          "\<not> (max_defined bi \<and> min_defined ai \<and> info_max bi \<le> info_min ai)"
      by blast
    then show "simp_ok (visit_pre env l (MaxE a b) v b3 s3 \<and> operands_info env l a ai b bi bs v \<and> etype a = ?ty)
      env l v ?ty b3 s3 r"
    proof cases
      case first
      then have "r = (if False then a else b, b3, s3)" using tl by (simp only: if_True if_False simp_thms option.inject)
      moreover have "bin_val OpMax (norm ?ty) x y = Some (if False then x else y)" if "info_ok ai x" "info_ok bi y" for x y
        using that first by (auto simp: info_ok_def max_def)
      ultimately show ?thesis using early_operand by blast
    next
      case second
      then have "r = (if True then a else b, b3, s3)" using tl by (simp only: if_True if_False simp_thms option.inject)
      moreover have "bin_val OpMax (norm ?ty) x y = Some (if True then x else y)" if "info_ok ai x" "info_ok bi y" for x y
        using that second(2) by (auto simp: info_ok_def max_def)
      ultimately show ?thesis using early_operand by blast
    next
      case rules
      show ?thesis
        by (rule commuted_tail [OF _ tl [unfolded if_not_P [OF rules(1)] if_not_P [OF rules(2)]] _ Max_groups]) simp_all
    qed
  qed (auto dest: Max_bounds_ok(2))
qed

end

end
