(* ===== verification/SimpExprs.thy ===== *)
theory SimpExprs
  imports SimpArith
begin

text \<open>
  The visitors of literals, variables, broadcasts, ramps and loads (Simplify_Exprs.cpp) and
  of casts (Simplify_Cast.cpp), and their soundness for a callback that keeps the contract.
\<close>

section \<open>Visitors\<close>

definition literal_info :: "int \<Rightarrow> expr_info" where
  "literal_info v = \<lparr>info_min = v, info_max = v, min_defined = True, max_defined = True, alignment = MR 0 v\<rparr>"

definition visit_IntImm :: "halide_type \<Rightarrow> int \<Rightarrow> expr_info option \<Rightarrow> simp_state \<Rightarrow> simp_result" where
  "visit_IntImm t v bounds s =
     Some (IntImm t v, (if no_overflow_int t then map_option (\<lambda>i. literal_info v) bounds else bounds), s)"

definition visit_UIntImm :: "halide_type \<Rightarrow> int \<Rightarrow> expr_info option \<Rightarrow> simp_state \<Rightarrow> simp_result" where
  "visit_UIntImm t v bounds s =
     Some (UIntImm t v, (if v \<le> max_int 64 then map_option (\<lambda>i. literal_info v) bounds else bounds), s)"

definition visit_Broadcast :: "mutator \<Rightarrow> expr \<Rightarrow> nat \<Rightarrow> expr_info option \<Rightarrow> simp_state \<Rightarrow> simp_result" where
  "visit_Broadcast mu a n bounds s = do {
     (value, bounds, s) \<leftarrow> mu a bounds s;
     e \<leftarrow> Broadcast_make value (lanes (etype (Broadcast a n)));
     Some (e, bounds, s) }"

text \<open>What the bounds and alignment scope says of a variable, and its replacement.\<close>

definition known_info :: "string \<Rightarrow> simp_state \<Rightarrow> expr_info option option" where
  "known_info n s =
     (if scope_contains (bounds_and_alignment_info s) n
      then do { i \<leftarrow> scope_get (bounds_and_alignment_info s) n; Some (Some i) }
      else Some None)"

definition set_var_info :: "string \<Rightarrow> (var_info \<Rightarrow> var_info) \<Rightarrow> simp_state \<Rightarrow> simp_state option" where
  "set_var_info n f s = do { vs \<leftarrow> scope_update n f (var_infos s); Some (s\<lparr>var_infos := vs\<rparr>) }"

definition replace_variable :: "mutator \<Rightarrow> halide_type \<Rightarrow> string \<Rightarrow> expr_info option \<Rightarrow> simp_state \<Rightarrow> simp_result" where
  "replace_variable mu t n bounds s =
     (if scope_contains (var_infos s) n then do {
        info \<leftarrow> scope_ref n (var_infos s);
        case replacement info of
          Some r \<Rightarrow>
            if etype r \<noteq> t then None
            else do {
              s \<leftarrow> set_var_info n (\<lambda>i. i\<lparr>new_uses := new_uses i + 1\<rparr>) s;
              mu r bounds s }
        | None \<Rightarrow> do {
            s \<leftarrow> set_var_info n (\<lambda>i. i\<lparr>old_uses := old_uses i + 1\<rparr>) s;
            Some (Variable t n, bounds, s) } }
      else Some (Variable t n, bounds, s))"

definition visit_Variable ::
  "float_ops \<Rightarrow> mutator \<Rightarrow> halide_type \<Rightarrow> string \<Rightarrow> expr_info option \<Rightarrow> simp_state \<Rightarrow> simp_result" where
  "visit_Variable F mu t n bounds s = do {
     known \<leftarrow> known_info n s;
     case known of
       None \<Rightarrow> replace_variable mu t n bounds s
     | Some i \<Rightarrow>
         let bounds = map_option (\<lambda>b. i) bounds
         in if min_defined i \<and> max_defined i \<and> info_min i = info_max i then do {
              e \<leftarrow> make_const F t (info_min i);
              Some (e, bounds, taint_if (\<not> can_represent_int t (info_min i)) s) }
            else replace_variable mu t n bounds s }"

definition ramp_direct :: "nat \<Rightarrow> rule list" where
  "ramp_direct n = [rewrite (ramp_n X (Const 0) n) (broadcast_n X n)]"

definition visit_Ramp :: "float_ops \<Rightarrow> mutator \<Rightarrow> expr \<Rightarrow> expr \<Rightarrow> nat \<Rightarrow> expr_info option \<Rightarrow> simp_state \<Rightarrow> simp_result" where
  "visit_Ramp F mu base stride n bounds s = do {
     let ty = etype (Ramp base stride n);
     (base, base_bounds, s) \<leftarrow> mutate_info mu base s;
     (stride, stride_bounds, s) \<leftarrow> mutate_info mu stride s;
     (bounds, s) \<leftarrow> on_bounds bounds (Ramp_bounds ty base_bounds stride_bounds) s;
     (r, s) \<leftarrow> apply_rules F (mutate_plain mu) (ramp_direct (lanes ty)) (Ramp base stride (lanes ty)) ty s;
     case r of Some e \<Rightarrow> Some (e, bounds, s)
     | None \<Rightarrow> do { e \<leftarrow> Ramp_make base stride n; Some (e, bounds, s) } }"

definition visit_Load ::
  "float_ops \<Rightarrow> mutator \<Rightarrow> halide_type \<Rightarrow> string \<Rightarrow> expr \<Rightarrow> expr \<Rightarrow> bool \<Rightarrow> bool \<Rightarrow> modulus_remainder \<Rightarrow>
   expr_info option \<Rightarrow> simp_state \<Rightarrow> simp_result" where
  "visit_Load F mu t n p i im pa al bounds s = do {
     s \<leftarrow> found_buffer_reference n 0 s;
     (predicate, s) \<leftarrow> mutate_plain mu p s;
     (index, index_info, s) \<leftarrow> mutate_info mu i s;
     (base, s) \<leftarrow> (case index of
         Ramp b st k \<Rightarrow> do { (b, base_info, s) \<leftarrow> mutate_info mu b s; Some (alignment base_info, s) }
       | _ \<Rightarrow> Some (alignment no_info, s));
     let align = mr_intersect al (mr_intersect base (alignment index_info));
     e \<leftarrow> (if is_zero F predicate then Call_make t ''undef'' [] PureIntrinsic 0 False
           else case (index, predicate) of
             (Broadcast bi ni, Broadcast bp np) \<Rightarrow> do {
               load \<leftarrow> Load_make (element_of t) n bi im pa bp align;
               Broadcast_make load ni }
           | _ \<Rightarrow> Load_make t n index im pa predicate align);
     Some (e, bounds, s) }"

text \<open>
  \<open>safe_numeric_cast\<close> saturates, and \<open>isfinite\<close> is read off the exponent of the IEEE pattern.
\<close>

definition is_finite64 :: "float64 \<Rightarrow> bool" where
  "is_finite64 f \<longleftrightarrow> take_bit 11 (drop_bit 52 f) \<noteq> 0x7FF"

definition float_to_integer :: "float_ops \<Rightarrow> int \<Rightarrow> int \<Rightarrow> float64 \<Rightarrow> int" where
  "float_to_integer F lo hi f =
     (if fl_lt F f (fl_of_int F lo) then lo else if fl_lt F (fl_of_int F hi) f then hi else fl_to_int F f)"

definition fold_cast :: "float_ops \<Rightarrow> halide_type \<Rightarrow> expr \<Rightarrow> expr option option" where
  "fold_cast F t value =
     (case (const_float value, const_int value, const_uint value) of
        (Some f, _, _) \<Rightarrow>
          if is_int t \<and> is_finite64 f then Some (IntImm_make t (float_to_integer F int64_min int64_max f))
          else if is_uint t \<and> is_finite64 f then Some (UIntImm_make t (float_to_integer F 0 (max_uint 64) f))
          else if is_float t then Some (FloatImm_make F t f) else None
      | (None, Some i, _) \<Rightarrow>
          if is_int t then Some (IntImm_make t i)
          else if is_uint t then Some (UIntImm_make t (take_bit 64 i))
          else if is_float t then Some (FloatImm_make F t (fl_of_int F i)) else None
      | (None, None, Some u) \<Rightarrow>
          if is_int t then Some (IntImm_make t (wrap64 u))
          else if is_uint t then Some (UIntImm_make t u)
          else if is_float t then Some (FloatImm_make F t (fl_of_int F u)) else None
      | (None, None, None) \<Rightarrow> None)"

text \<open>
  A cast of a cast to a type at least as wide as the outer one. Where the operand has a
  type without overflow behaviour that the outer cast does not narrow, the inner cast may
  have changed a value outside the range of that type.
\<close>

definition inner_cast :: "halide_type \<Rightarrow> expr \<Rightarrow> expr option" where
  "inner_cast t value =
     (case value of
        Cast t' a \<Rightarrow>
          if code t = code t' \<and> bits t < bits t' then Some a
          else if (is_int t \<or> is_uint t) \<and> (is_int t' \<or> is_uint t') \<and> bits t \<le> bits t' then Some a
          else None
      | _ \<Rightarrow> None)"

definition push_cast :: "halide_type \<Rightarrow> expr \<Rightarrow> expr option option" where
  "push_cast t value =
     (case value of
        Broadcast a n \<Rightarrow> Some (do { e \<leftarrow> Cast_make (element_of t) a; Broadcast_make e n })
      | Ramp a b n \<Rightarrow>
          if element_of t = IntT 64 1 \<and> element_of (etype value) = IntT 32 1
          then Some (do {
            base \<leftarrow> Cast_make (element_of t) a;
            stride \<leftarrow> Cast_make (element_of t) b;
            Ramp_make base stride n })
          else None
      | _ \<Rightarrow> None)"

definition is_call :: "expr \<Rightarrow> string \<Rightarrow> bool" where
  "is_call e name \<longleftrightarrow> (case e of Call t n as ct vi \<Rightarrow> is_intrinsic n ct name | _ \<Rightarrow> False)"

definition with_bounds :: "expr option \<Rightarrow> expr_info option \<Rightarrow> simp_state \<Rightarrow> simp_result" where
  "with_bounds e bounds s = do { e \<leftarrow> e; Some (e, bounds, s) }"

definition cast_indeterminate :: "halide_type \<Rightarrow> expr_info option \<Rightarrow> simp_state \<Rightarrow> simp_result" where
  "cast_indeterminate t bounds s = do {
     (e, k) \<leftarrow> make_indeterminate_expression t (indeterminates s);
     Some (e, bounds, s\<lparr>indeterminates := k\<rparr>) }"

definition cast_overflowed :: "halide_type \<Rightarrow> expr_info option \<Rightarrow> simp_state \<Rightarrow> simp_result" where
  "cast_overflowed t bounds s = do {
     (e, k) \<leftarrow> make_signed_integer_overflow t (overflows s);
     Some (e, bounds, s\<lparr>overflows := k\<rparr>) }"

definition remutate_cast :: "mutator \<Rightarrow> halide_type \<Rightarrow> expr \<Rightarrow> expr_info option \<Rightarrow> simp_state \<Rightarrow> simp_result" where
  "remutate_cast mu t e bounds s = do {
     c \<leftarrow> Cast_make t e;
     mu c bounds (taint_if (no_overflow_int (etype e) \<and> is_int t \<and> bits (etype e) \<le> bits t) s) }"

definition simplify_cast :: "float_ops \<Rightarrow> mutator \<Rightarrow> halide_type \<Rightarrow> expr \<Rightarrow> expr_info option \<Rightarrow> simp_state \<Rightarrow> simp_result" where
  "simplify_cast F mu t value bounds s =
     (if is_call value ''indeterminate_expression'' then
        cast_indeterminate t bounds s
      else if is_call value ''signed_integer_overflow'' then
        cast_overflowed t bounds s
      else if etype value = t then Some (value, bounds, s)
      else (case fold_cast F t value of
          Some e \<Rightarrow> with_bounds e bounds s
        | None \<Rightarrow> (case inner_cast t value of
            Some e \<Rightarrow> remutate_cast mu t e bounds s
          | None \<Rightarrow> (case push_cast t value of
              Some e \<Rightarrow> do { e \<leftarrow> e; mu e bounds s }
            | None \<Rightarrow> with_bounds (Cast_make t value) bounds s))))"

definition visit_Cast :: "float_ops \<Rightarrow> mutator \<Rightarrow> halide_type \<Rightarrow> expr \<Rightarrow> expr_info option \<Rightarrow> simp_state \<Rightarrow> simp_result" where
  "visit_Cast F mu t a bounds s = do {
     (value, s) \<leftarrow> mutate_plain mu a s;
     if may_simplify s t \<and> may_simplify s (etype a) then simplify_cast F mu t value bounds s
     else with_bounds (Cast_make t value) bounds s }"

section \<open>Running again, and ending\<close>

lemma simp_ok_with_bounds:
  assumes "with_bounds e bs s = Some r"
    and "\<And>e'. e = Some e' \<Longrightarrow> C \<Longrightarrow> \<not> tainted s \<Longrightarrow> etype e' = ty \<Longrightarrow> wf e' \<and> eval env e' l = Some v \<and> opt_ok bs v"
  shows "simp_ok C env l v ty bs s r"
  using assms by (auto simp: with_bounds_def bind_eq_Some_conv intro: simp_ok_done)

context sound_mutator
begin

lemma remutate_ok:
  assumes "mu e bs s = Some r" "C \<Longrightarrow> etype e = ty \<Longrightarrow> simp_pre env l e v bs s"
  shows "simp_ok C env l v ty bs s r"
proof -
  obtain e' b' s' where r: "r = (e', b', s')" by (cases r)
  show ?thesis
    using mu_ok [OF assms(1), of env l v] assms(2) mu_type [OF assms(1) [unfolded r]] by (auto simp: simp_ok_def r)
qed

end

section \<open>Soundness\<close>

lemma literal_info_ok: "int64 v \<Longrightarrow> info_ok (literal_info v) v"
  by (simp add: literal_info_def info_ok_def info_int64_def mr_int64_def mr_has_def)

lemma visit_IntImm_ok:
  assumes "visit_IntImm t c bs s = Some r"
  shows "simp_ok (visit_pre env l (IntImm t c) v bs s) env l v t bs s r"
  using assms legal_bits [of t]
  by (auto simp: visit_IntImm_def simp_ok_def visit_pre_def opt_ok_def fits_int64 literal_info_ok split: option.splits)

lemma visit_UIntImm_ok:
  assumes "visit_UIntImm t c bs s = Some r"
  shows "simp_ok (visit_pre env l (UIntImm t c) v bs s) env l v t bs s r"
  using assms literal_info_ok [of c]
  by (auto simp: visit_UIntImm_def simp_ok_def visit_pre_def opt_ok_def max_int_def int64_def split: option.splits)

context sound_mutator
begin

lemma visit_Broadcast_ok:
  assumes "visit_Broadcast mu a n bs s = Some r"
  shows "simp_ok (visit_pre env l (Broadcast a n) v bs s) env l v (etype (Broadcast a n)) bs s r"
proof -
  obtain a' b' s' e where m: "mu a bs s = Some (a', b', s')" "Broadcast_make a' (lanes (etype (Broadcast a n))) = Some e"
    "r = (e, b', s')"
    using assms by (auto simp: visit_Broadcast_def bind_eq_Some_conv)
  have e: "e = Broadcast a' (lanes (etype (Broadcast a n)))" using m(2) by (auto simp: Broadcast_make_def split: if_splits)
  show ?thesis
    using mu_ok [OF m(1), of env l v] mu_type [OF m(1)]
    by (auto simp: simp_ok_def m(3) e visit_pre_def simp_pre_def lanes_with)
qed

lemma set_var_info_kept:
  assumes "set_var_info n f s = Some s'" "\<And>i. replacement (f i) = replacement i"
  shows "kept s s'"
proof -
  obtain vs where vs: "scope_update n f (var_infos s) = Some vs" "s' = s\<lparr>var_infos := vs\<rparr>"
    using assms(1) by (auto simp: set_var_info_def bind_eq_Some_conv)
  have "state_ok s \<longrightarrow> state_ok s' \<and> replacements s' = replacements s"
    using scope_update_stack [OF _ vs(1)] scope_containing(2) [OF vs(1)] assms(2)
    by (auto simp: state_ok_def replacements_def vs(2) fun_eq_iff split: list.splits)
  then show ?thesis by (auto simp: kept_def same_facts_def vs(2))
qed

lemma replace_variable_ok:
  assumes "replace_variable mu t n bs s = Some r"
  shows "simp_ok (visit_pre env l (Variable t n) v bs s) env l v t bs s r"
proof -
  consider (none) "r = (Variable t n, bs, s)"
    | (old) s' where "set_var_info n (\<lambda>i. i\<lparr>old_uses := old_uses i + 1\<rparr>) s = Some s'" "r = (Variable t n, bs, s')"
    | (new) info e s' where "scope_ref n (var_infos s) = Some info" "replacement info = Some e" "etype e = t"
        "set_var_info n (\<lambda>i. i\<lparr>new_uses := new_uses i + 1\<rparr>) s = Some s'" "mu e bs s' = Some r"
    using assms by (auto simp: replace_variable_def bind_eq_Some_conv split: if_splits option.splits)
  then show ?thesis
  proof cases
    case none
    then show ?thesis by (auto intro!: simp_ok_done simp: visit_pre_def)
  next
    case old
    show ?thesis
      unfolding old(2)
      by (rule simp_ok_after [OF set_var_info_kept [OF old(1)] refl simp_ok_done]) (auto simp: visit_pre_def)
  next
    case new
    have k: "kept s s'" by (rule set_var_info_kept [OF new(4)]) simp
    show ?thesis
    proof (rule simp_ok_after [OF k refl remutate_ok [OF new(5)]])
      assume C: "visit_pre env l (Variable t n) v bs s \<and> \<not> tainted s'"
      then have f: "facts_ok env s" and ev: "eval env (Variable t n) l = Some v" and l: "l < lanes t"
        by (simp_all add: visit_pre_def)
      have st: "state_ok s" using f by (simp add: facts_ok_def)
      then obtain rest where "scope_stack (var_infos s) n = info # rest"
        using new(1) scope_get_stack(1,3) [of "var_infos s" n] by (auto simp: state_ok_def split: list.splits)
      then have "replacements s n = Some e # map replacement rest" by (simp add: replacements_def new(2))
      then have "wf e \<and> (\<forall>l v. lane_ok l e \<and> eval env (Variable (etype e) n) l = Some v \<longrightarrow> eval env e l = Some v)"
        using f unfolding facts_ok_def by blast
      then show "simp_pre env l e v bs s'"
        using C ev l kept_facts_ok [OF k f] unfolding simp_pre_def visit_pre_def lane_okt_def new(3) by blast
    qed
  qed
qed

lemma visit_Variable_ok:
  assumes "visit_Variable F mu t n bs s = Some r"
  shows "simp_ok (visit_pre env l (Variable t n) v bs s) env l v t bs s r"
proof -
  obtain known where k: "known_info n s = Some known"
    "(case known of None \<Rightarrow> replace_variable mu t n bs s
      | Some i \<Rightarrow>
         let bounds = map_option (\<lambda>b. i) bs
         in if min_defined i \<and> max_defined i \<and> info_min i = info_max i then do {
              e \<leftarrow> make_const F t (info_min i);
              Some (e, bounds, taint_if (\<not> can_represent_int t (info_min i)) s) }
            else replace_variable mu t n bounds s) = Some r"
    using assms by (auto simp: visit_Variable_def bind_eq_Some_conv)
  show ?thesis
  proof (cases known)
    case None
    then show ?thesis using k replace_variable_ok by simp
  next
    case (Some i)
    let ?bs = "map_option (\<lambda>b. i) bs"
    have sg: "scope_get (bounds_and_alignment_info s) n = Some i"
      using k(1) Some by (auto simp: known_info_def bind_eq_Some_conv split: if_splits)
    have i: "visit_pre env l (Variable t n) v bs s \<Longrightarrow> info_ok i v" and
      pre: "visit_pre env l (Variable t n) v bs s \<Longrightarrow> visit_pre env l (Variable t n) v ?bs s"
      using sg by (auto simp: visit_pre_def facts_ok_def bind_eq_Some_conv opt_ok_def split: option.splits if_splits)
    have bs: "?bs = None \<longleftrightarrow> bs = None" by simp
    show ?thesis
    proof (cases "min_defined i \<and> max_defined i \<and> info_min i = info_max i")
      case True
      then obtain e where e: "make_const F t (info_min i) = Some e"
        "r = (e, ?bs, taint_if (\<not> can_represent_int t (info_min i)) s)"
        using k(2) Some by (auto simp: bind_eq_Some_conv)
      show ?thesis
        unfolding e(2)
      proof (rule simp_ok_after [OF kept_taint_if bs simp_ok_done])
        assume C: "visit_pre env l (Variable t n) v bs s \<and> \<not> tainted (taint_if (\<not> can_represent_int t (info_min i)) s)"
        then have "info_min i = v" "legal_type t" using i True by (auto simp: info_ok_def visit_pre_def)
        then show "wf e \<and> eval env e l = Some v \<and> opt_ok ?bs v"
          using made_constant [OF e(1)] C pre by (auto simp: visit_pre_def)
      qed
    next
      case False
      then have "replace_variable mu t n ?bs s = Some r" using k(2) Some by (simp only: option.case Let_def if_False)
      then have "simp_ok (visit_pre env l (Variable t n) v ?bs s) env l v t ?bs s r" by (rule replace_variable_ok)
      from simp_ok_after [OF kept_refl bs simp_ok_mono [OF this]] pre show ?thesis by blast
    qed
  qed
qed

lemma ramp_direct_cases:
  assumes "apply_rules F prover (ramp_direct k) (Ramp a b k) ty s = Some (r, s')" "wf (Ramp a b k)"
  shows "s' = s" "r = Some e \<Longrightarrow> match_const F 0 b \<and> e = Broadcast a k"
proof -
  have k: "lanes (etype (Ramp a b k)) = k" using assms(2) by (simp add: lanes_with)
  show "s' = s" "r = Some e \<Longrightarrow> match_const F 0 b \<and> e = Broadcast a k"
    using assms(1) k
    by (auto simp: ramp_direct_def apply_rule_def evaluate_predicate_def build_replacement_def set_binding_def empty_state_def
        get_mach_def set_mach_def Broadcast_make_def bind_eq_Some_conv split: if_splits option.splits)
qed

lemma match_zero:
  assumes "match_const F 0 e" "eval env e l = Some y"
  shows "y = 0"
  using assms by (auto simp: match_const_def scalar_of_def split: expr.splits)

lemma visit_Ramp_ok:
  assumes "visit_Ramp F mu a0 b0 n bs s = Some r"
  shows "simp_ok (visit_pre env l (Ramp a0 b0 n) v bs s) env l v (etype (Ramp a0 b0 n)) bs s r"
proof -
  let ?ty = "etype (Ramp a0 b0 n)"
  obtain a ai s1 b bi s2 b3 s3 q s4 where m: "mutate_info mu a0 s = Some (a, ai, s1)" "mutate_info mu b0 s1 = Some (b, bi, s2)"
    and f: "on_bounds bs (Ramp_bounds ?ty ai bi) s2 = Some (b3, s3)"
    and g: "apply_rules F (mutate_plain mu) (ramp_direct (lanes ?ty)) (Ramp a b (lanes ?ty)) ?ty s3 = Some (q, s4)"
    and q: "(case q of Some e \<Rightarrow> Some (e, b3, s4)
     | None \<Rightarrow> do { e \<leftarrow> Ramp_make a b n; Some (e, b3, s4) }) = Some r"
    using assms by (auto simp: visit_Ramp_def bind_eq_Some_conv Let_def [where s = "with_lanes n (etype a0)"])
  note A = info [OF m(1)] and B = info [OF m(2)]
  have k3: "kept s2 s3" and n3: "b3 = None \<longleftrightarrow> bs = None"
    using on_bounds_ok(1,2) [where D = False and v = v, OF f] Ramp_bounds_ok(1) by blast+
  have k4: "kept s3 s4" using apply_rules_keeps [OF g keeping [of s3] same_facts_refl] by (simp add: kept_def)
  have k: "kept s s4" using A(1) B(1) k3 k4 kept_trans by blast
  have main: "wf (Ramp a b n) \<and> n = lanes ?ty \<and> (\<exists>x y. eval env a l = Some x \<and> eval env b l = Some y \<and>
      v = norm (etype a) (x + int l * y) \<and> norm (etype a) x = x) \<and> opt_ok b3 v"
    if p: "visit_pre env l (Ramp a0 b0 n) v bs s" "\<not> tainted s4"
  proof -
    have w: "wf a0" "wf b0" "is_scalar (etype a0)" "etype b0 = etype a0" "1 < n" "n < 2 ^ 14" "facts_ok env s"
      "l < lanes (with_lanes n (etype a0))" "opt_ok bs v"
      using p(1) by (simp_all add: visit_pre_def)
    have l: "l < n" using w(6,8) by (simp add: lanes_with)
    have t: "\<not> tainted s1" "\<not> tainted s2" "\<not> tainted s3"
      using p(2) k4 k3 B(1) kept_tainted by blast+
    obtain x y where xy: "eval env a0 l = Some x" "eval env b0 l = Some y" "v = norm (etype a0) (x + int l * y)"
      using p(1) by (auto simp: visit_pre_def bind_eq_Some_conv)
    have a: "wf a \<and> eval env a l = Some x \<and> info_ok ai x"
      by (rule A(3) [OF w(1) _ w(7) xy(1) t(1)]) (use w(3) in simp)
    have b: "wf b \<and> eval env b l = Some y \<and> info_ok bi y"
      by (rule B(3) [OF w(2) _ kept_facts_ok [OF A(1) w(7)] xy(2) t(2)]) (use w(3,4) in simp)
    have nt: "norm ?ty = norm (etype a0)" using norm_with_lanes [OF wf_legal [OF w(1)]] w(5,6) by simp
    have nx: "norm (etype a) x = x" using eval_ety [of a env l x] a by (simp add: ety_def nrm_def norm_def)
    have ba: "etype b = etype a" using A(2) B(2) w(4) by simp
    have "opt_ok b3 v"
      by (rule on_bounds_ok(3) [where D = True, OF f])
        (use Ramp_bounds_ok [of ?ty ai bi] a b l lanes_with [OF w(6)] xy(3) nt t(3) w(9) in auto)
    then show ?thesis using a b ba xy(3) nx A(2) w(3,5,6) by (auto simp: lanes_with)
  qed
  show ?thesis
  proof (cases q)
    case (Some e)
    then have r: "r = (e, b3, s4)" using q by simp
    show ?thesis
      unfolding r
    proof (rule simp_ok_after [OF k n3 simp_ok_done])
      assume C: "visit_pre env l (Ramp a0 b0 n) v bs s \<and> \<not> tainted s4"
      then obtain x y where M: "wf (Ramp a b n)" "n = lanes ?ty" "eval env a l = Some x" "eval env b l = Some y"
        "v = norm (etype a) (x + int l * y)" "norm (etype a) x = x" "opt_ok b3 v"
        using main by blast
      have "match_const F 0 b \<and> e = Broadcast a n"
        using ramp_direct_cases(2) [OF g [folded M(2)] M(1) Some] .
      then show "wf e \<and> eval env e l = Some v \<and> opt_ok b3 v"
        using M match_zero [of F b env l y] by auto
    qed
  next
    case None
    then obtain e where e: "Ramp_make a b n = Some e" "r = (e, b3, s4)" using q by (auto simp: bind_eq_Some_conv)
    then have "e = Ramp a b n" by (auto simp: Ramp_make_def split: if_splits)
    then show ?thesis
      unfolding e(2) using main by (auto intro!: simp_ok_after [OF k n3 simp_ok_done])
  qed
qed

lemma visit_Load_ok:
  assumes "visit_Load F mu t n p0 i0 im pa al bs s = Some r"
  shows "simp_ok (visit_pre env l (Load t n p0 i0 im pa al) v bs s) env l v t bs s r"
proof -
  obtain s1 p s2 i ii s3 base s4 e where m: "found_buffer_reference n 0 s = Some s1" "mutate_plain mu p0 s1 = Some (p, s2)"
    "mutate_info mu i0 s2 = Some (i, ii, s3)"
    and b: "(case i of Ramp b st k \<Rightarrow> do { (b, base_info, s) \<leftarrow> mutate_info mu b s3; Some (alignment base_info, s) }
       | _ \<Rightarrow> Some (alignment no_info, s3)) = Some (base, s4)"
    and e: "(if is_zero F p then Call_make t ''undef'' [] PureIntrinsic 0 False
           else case (i, p) of
             (Broadcast bi ni, Broadcast bp np) \<Rightarrow> do {
               load \<leftarrow> Load_make (element_of t) n bi im pa bp (mr_intersect al (mr_intersect base (alignment ii)));
               Broadcast_make load ni }
           | _ \<Rightarrow> Load_make t n i im pa p (mr_intersect al (mr_intersect base (alignment ii)))) = Some e"
    and r: "r = (e, bs, s4)"
    using assms by (auto simp: visit_Load_def bind_eq_Some_conv Let_def)
  note k1 = kept_found_buffer_reference [OF m(1)] and P = plain [OF m(2)] and I = info [OF m(3)]
  have k4: "kept s3 s4"
    using b info(1) by (auto simp: bind_eq_Some_conv split: expr.splits)
  have k: "kept s s4" using k1 P(1) I(1) k4 kept_trans by blast
  show ?thesis
    unfolding r
  proof (rule simp_ok_after [OF k refl simp_ok_done])
    assume C: "visit_pre env l (Load t n p0 i0 im pa al) v bs s \<and> \<not> tainted s4"
    then have w: "legal_type t" "wf p0" "wf i0" "lanes t = lanes (etype i0)" "lanes t = lanes (etype p0)" "l < lanes t"
      "facts_ok env s" "opt_ok bs v"
      by (simp_all add: visit_pre_def)
    obtain x q where xq: "eval env p0 l = Some q" "eval env i0 l = Some x" "q \<noteq> 0" "is_num t" "map_option (norm t) (mem env n x) = Some v"
      using C by (auto simp: visit_pre_def bind_eq_Some_conv split: if_splits)
    have t: "\<not> tainted s2" "\<not> tainted s3" using C k4 I(1) kept_tainted by blast+
    have p: "wf p \<and> eval env p l = Some q"
      by (rule P(3) [OF w(2) _ kept_facts_ok [OF k1 w(7)] xq(1) t(1)]) (use w(5,6) in \<open>simp add: lane_okt_def\<close>)
    have "facts_ok env s2" using kept_facts_ok [OF kept_trans [OF k1 P(1)] w(7)] .
    then have i: "wf i \<and> eval env i l = Some x"
      using I(3) [OF w(3) _ _ xq(2) t(2)] w(4,6) by (auto simp: lane_okt_def)
    have nz: "\<not> is_zero F p" using is_zero_eval [of F p env l q] p xq(3) by blast
    have ln: "lanes (etype p) = lanes t" "lanes (etype i) = lanes t" using P(2) I(2) w(4,5) by simp_all
    show "wf e \<and> eval env e l = Some v \<and> opt_ok bs v"
    proof (cases "\<exists>bi ni bp np. i = Broadcast bi ni \<and> p = Broadcast bp np")
      case True
      then obtain bi ni bp np where B: "i = Broadcast bi ni" "p = Broadcast bp np" by blast
      obtain al' ld where ld: "Load_make (element_of t) n bi im pa bp al' = Some ld" "Broadcast_make ld ni = Some e"
        using e nz B by (auto simp: bind_eq_Some_conv)
      have ldd: "ld = Load (element_of t) n bp bi im pa al'" using ld(1) by (auto simp: Load_make_def split: if_splits)
      have ed: "e = Broadcast ld ni" using ld(2) by (auto simp: Broadcast_make_def split: if_splits)
      have "norm (element_of t) = norm t" by (rule norm_element_of) fact
      then show ?thesis
        using p i w xq ln legal_element_of [OF w(1)] element_of_sel(3) [of t]
        by (auto simp: B ldd ed is_scalar_def)
    next
      case False
      then have "\<exists>al'. Load_make t n i im pa p al' = Some e" using e nz by (auto split: expr.splits)
      then obtain al' where "e = Load t n p i im pa al'" by (auto simp: Load_make_def split: if_splits)
      then show ?thesis using p i w xq ln by auto
    qed
  qed
qed

end

section \<open>Casts\<close>

text \<open>A conversion keeps the low bits of the value.\<close>

definition low_value :: "halide_type \<Rightarrow> int \<Rightarrow> int" where
  "low_value t v = (if is_int t then signed_take_bit (bits t - 1) v else take_bit (bits t) v)"

lemma low_value_again:
  assumes "bits t \<le> bits t'" "0 < bits t"
  shows "low_value t (low_value t' v) = low_value t v"
proof -
  have m: "min (bits t) (bits t') = bits t" "min (bits t - 1) (bits t' - 1) = bits t - 1" using assms by auto
  have n: "\<not> bits t' \<le> bits t - 1" using assms by linarith
  have "signed_take_bit (bits t - 1) (take_bit (bits t') v) = signed_take_bit (bits t - 1) v"
    using n by (simp add: signed_take_bit_take_bit)
  moreover have "take_bit (bits t) (signed_take_bit (bits t' - 1) v) = take_bit (bits t) v"
    using assms by (simp add: take_bit_signed_take_bit)
  ultimately show ?thesis using m by (simp add: low_value_def)
qed

lemma cast_val_low:
  assumes "is_num t" "norm src v = v" "legal_type src" "\<not> (no_overflow_int src \<and> is_int t \<and> bits src \<le> bits t)"
  shows "cast_val src t v = low_value t v"
proof (cases "is_int t \<and> is_int src \<and> bits src \<le> bits t")
  case True
  then have "\<not> 32 \<le> bits src" using assms(4) by (auto simp: no_overflow_int_def)
  then have "fits (bits src) v"
    using assms(2,3) True norm_fixed_iff [of src v] by (auto simp: no_overflow_int_def is_int_def)
  moreover have "(2::int) ^ (bits src - 1) \<le> 2 ^ (bits t - 1)"
    using True by (intro power_increasing) auto
  ultimately have "fits (bits t) v" unfolding fits_def by linarith
  then show ?thesis using True fits_signed_take_bit_id [of "bits t" v] by (simp add: cast_val_def low_value_def)
qed (use assms(1) in \<open>auto simp: cast_val_def low_value_def is_num_def is_int_def is_uint_def\<close>)

lemma inner_cast_val:
  assumes "is_num t" "is_num t'" "bits t \<le> bits t'" "0 < bits t" "norm src v = v" "legal_type src"
    and "\<not> (no_overflow_int src \<and> is_int t \<and> bits src \<le> bits t)"
  shows "cast_val t' t (cast_val src t' v) = cast_val src t v"
proof (cases "is_int t \<and> is_int t' \<and> bits t' \<le> bits t")
  case True
  then show ?thesis using assms(3) by (auto simp: cast_val_def)
next
  case False
  then have outer: "cast_val t' t w = low_value t w" for w
    using assms(1,2) by (auto simp: cast_val_def low_value_def is_num_def is_int_def is_uint_def)
  show ?thesis
  proof (cases "is_int t' \<and> is_int src \<and> bits src \<le> bits t'")
    case True
    then have "cast_val src t' v = v" by (simp add: cast_val_def)
    then show ?thesis using outer cast_val_low [OF assms(1,5-7)] by simp
  next
    case False
    then have "cast_val src t' v = low_value t' v"
      using assms(2) by (auto simp: cast_val_def low_value_def is_num_def is_int_def is_uint_def)
    then show ?thesis using outer cast_val_low [OF assms(1,5-7)] low_value_again [OF assms(3,4)] by simp
  qed
qed

lemma make_const_scalar:
  assumes "is_scalar t"
  shows "is_int t \<Longrightarrow> make_const F t v = IntImm_make t v" "is_uint t \<Longrightarrow> make_const F t v = UIntImm_make t v"
  using assms by (auto simp: make_const_def is_vector_def is_scalar_def is_int_def is_uint_def)

lemma make_low:
  "IntImm_make t (wrap64 v) = IntImm_make t v" "UIntImm_make t (take_bit 64 v) = UIntImm_make t v"
proof -
  have s: "sext b (wrap64 v) = sext b v" if "0 < b" "b \<le> 64" for b
  proof -
    have "min (b - 1) 63 = b - 1" using that by simp
    then show ?thesis using that by (simp add: sext_eq wrap64_def)
  qed
  show "IntImm_make t (wrap64 v) = IntImm_make t v" by (auto simp: IntImm_make_def s)
  have z: "zext b (take_bit 64 v) = zext b v" if "b \<le> 64" for b
    using that by (simp add: zext_eq)
  show "UIntImm_make t (take_bit 64 v) = UIntImm_make t v" by (auto simp: UIntImm_make_def z)
qed

lemma fold_cast_ok:
  assumes "fold_cast F t a = Some (Some e)" "wf (Cast t a)" "eval env (Cast t a) l = Some v"
  shows "wf e \<and> eval env e l = Some v"
proof -
  obtain x where x: "eval env a l = Some x" "v = cast_val (etype a) t x" and t: "is_num t"
    using assms(3) by (auto split: if_splits)
  have w: "wf a" "legal_type t" "lanes t = lanes (etype a)" using assms(2) by simp_all
  have n: "is_num (etype a)" by (rule eval_num [OF w(1) x(1)])
  then have nf: "as_const_float a = None"
    using const_literal(3) [OF w(1)]
    by (cases "as_const_float a") (auto simp: is_num_def is_float_def is_int_def is_uint_def)
  have "\<exists>c. (as_const_int a = Some c \<or> as_const_int a = None \<and> as_const_uint a = Some c) \<and> make_const F t c = Some e"
    using assms(1) nf t w(3) make_const_scalar [of t F] make_low
    by (auto simp: fold_cast_def const_float_def const_int_def const_uint_def is_vector_def is_scalar_def is_num_def
        is_float_def is_int_def is_uint_def split: if_splits option.splits)
  then have "cast_const F t a = Some (Some e)" by (auto simp: cast_const_def)
  from cast_const_sound [OF this t w(2,1) n, of env l] show ?thesis
    using x conv_cast [of "etype a" _ t] by (simp add: casts_to_def)
qed

lemma inner_cast_ok:
  assumes "inner_cast t a = Some e" "wf (Cast t a)" "eval env (Cast t a) l = Some v"
    and "\<not> (no_overflow_int (etype e) \<and> is_int t \<and> bits (etype e) \<le> bits t)"
  shows "wf (Cast t e) \<and> eval env (Cast t e) l = Some v"
proof -
  obtain t' where a: "a = Cast t' e" "bits t \<le> bits t'"
    using assms(1) by (auto simp: inner_cast_def split: expr.splits if_splits)
  then obtain x where x: "eval env e l = Some x" "v = cast_val t' t (cast_val (etype e) t' x)" "is_num t" "is_num t'"
    using assms(3) by (auto split: if_splits)
  have w: "wf e" "legal_type t" "legal_type t'" "lanes t = lanes (etype e)" using assms(2) a(1) by simp_all
  have "norm (etype e) x = x" using eval_range [OF w(1) x(1)] by (simp add: ranged_def)
  then have "v = cast_val (etype e) t x"
    using inner_cast_val [OF x(3,4) a(2) _ _ wf_legal [OF w(1)] assms(4)] legal_bits [OF w(2)] x(2) by simp
  then show ?thesis using w x by simp
qed

lemma push_cast_ok:
  assumes "push_cast t a = Some (Some e)" "wf (Cast t a)" "eval env (Cast t a) l = Some v"
  shows "wf e \<and> eval env e l = Some v"
proof -
  obtain x where x: "eval env a l = Some x" "v = cast_val (etype a) t x" and t: "is_num t"
    using assms(3) by (auto split: if_splits)
  have w: "wf a" "legal_type t" "lanes t = lanes (etype a)" using assms(2) by simp_all
  have el: "legal_type (element_of t)" "code (element_of t) = code t" "bits (element_of t) = bits t" "lanes (element_of t) = 1"
    using legal_element_of [OF w(2)] element_of_sel [of t] w(2) by auto
  consider (broadcast) b n where "a = Broadcast b n" "e = Broadcast (Cast (element_of t) b) n"
    | (ramp) b c n where "a = Ramp b c n" "element_of t = IntT 64 1" "element_of (etype a) = IntT 32 1"
        "e = Ramp (Cast (element_of t) b) (Cast (element_of t) c) n"
    using assms(1) by (auto simp: push_cast_def Cast_make_def Broadcast_make_def Ramp_make_def bind_eq_Some_conv
        split: expr.splits if_splits)
  then show ?thesis
  proof cases
    case broadcast
    have "cast_val (with_lanes n (etype b)) t x = cast_val (etype b) (element_of t) x"
      using w(1) el wf_legal [of b] by (auto simp: cast_val_def broadcast(1) with_lanes_sel is_int_def is_uint_def)
    then show ?thesis using w el x t by (simp add: broadcast is_scalar_def)
  next
    case ramp
    have wa: "wf b" "wf c" "is_scalar (etype b)" "etype c = etype b" "1 < n" "n < 2 ^ 14"
      using w(1) by (simp_all add: ramp(1))
    have c: "code t = Halide_Int" "bits t = 64"
      using el(2,3) unfolding ramp(2) by (simp_all add: IntT_def mk_type_def)
    have "code (element_of (etype a)) = code (etype b)" "bits (element_of (etype a)) = bits (etype b)"
      using element_of_sel [of "etype a"] wf_legal [OF wa(1)] wf_legal [OF w(1)] by (auto simp: ramp(1) with_lanes_sel)
    then have d: "code (etype b) = Halide_Int" "bits (etype b) = 32"
      unfolding ramp(3) by (simp_all add: IntT_def mk_type_def)
    have num: "is_num (element_of t)" using t by simp
    have v: "cast_val (etype a) t y = y" "cast_val (etype b) (element_of t) y = y" for y
      using c d el wf_legal [OF wa(1)] by (simp_all add: cast_val_def ramp(1) with_lanes_sel is_int_def)
    have nn: "norm (etype b) y = y" "norm (element_of t) y = y" for y
      using c d el by (simp_all add: norm_def wrap_ty_def)
    show ?thesis
    proof -
      obtain y z where yz: "eval env b l = Some y" "eval env c l = Some z" "x = y + int l * z"
        using x(1) nn(1) by (auto simp: ramp(1) bind_eq_Some_conv)
      have "wf e"
        using wa el w(2) by (simp add: ramp(4) is_scalar_def)
      moreover have "eval env e l = Some v"
        using yz x(2) v nn(2) num wa(4) by (simp add: ramp(4))
      ultimately show ?thesis ..
    qed
  qed
qed

context sound_mutator
begin

lemma simplify_cast_ok:
  assumes "simplify_cast F mu t a bs s = Some r"
  shows "simp_ok (visit_pre env l (Cast t a) v bs s) env l v t bs s r"
proof -
  have special_None: "eval env (Cast t a) l = None" if "is_call a ''indeterminate_expression'' \<or> is_call a ''signed_integer_overflow''"
    using that by (auto simp: is_call_def call_val_def is_special_def split: expr.splits option.splits)
  consider (special) e s' where "is_call a ''indeterminate_expression'' \<or> is_call a ''signed_integer_overflow''"
        "r = (e, bs, s')" "kept s s'"
    | (same) "etype a = t" "r = (a, bs, s)"
    | (fold) e where "fold_cast F t a = Some e" "with_bounds e bs s = Some r"
    | (inner) e where "inner_cast t a = Some e" "remutate_cast mu t e bs s = Some r"
    | (push) e where "push_cast t a = Some (Some e)" "mu e bs s = Some r"
    | (make) "with_bounds (Cast_make t a) bs s = Some r"
  proof (cases "is_call a ''indeterminate_expression'' \<or> is_call a ''signed_integer_overflow''")
    case True
    have "kept s (s\<lparr>indeterminates := k\<rparr>)" "kept s (s\<lparr>overflows := k\<rparr>)" for k
      by (simp_all add: kept_def same_facts_def state_ok_def replacements_def fun_eq_iff)
    with True have "\<exists>e s'. r = (e, bs, s') \<and> kept s s'"
      using assms unfolding simplify_cast_def cast_indeterminate_def cast_overflowed_def
      by (cases "is_call a ''indeterminate_expression''") (auto simp: bind_eq_Some_conv)
    then show ?thesis using special True by blast
  next
    case False
    have c: "(if etype a = t then Some (a, bs, s)
      else (case fold_cast F t a of
          Some e \<Rightarrow> with_bounds e bs s
        | None \<Rightarrow> (case inner_cast t a of
            Some e \<Rightarrow> remutate_cast mu t e bs s
          | None \<Rightarrow> (case push_cast t a of
              Some e \<Rightarrow> do { e \<leftarrow> e; mu e bs s }
            | None \<Rightarrow> with_bounds (Cast_make t a) bs s)))) = Some r"
      using assms False unfolding simplify_cast_def by simp
    show ?thesis
    proof (cases "etype a = t")
      case True
      then show ?thesis using c same by simp
    next
      case False
      show ?thesis
      proof (cases "fold_cast F t a")
        case (Some e)
        then show ?thesis using c False by (intro fold) simp_all
      next
        case nofold: None
        show ?thesis
        proof (cases "inner_cast t a")
          case (Some e)
          then show ?thesis using c False nofold by (intro inner) simp_all
        next
          case noinner: None
          show ?thesis
          proof (cases "push_cast t a")
            case None
            then show ?thesis using c False nofold noinner by (intro make) simp
          next
            case (Some e)
            then have "do { e \<leftarrow> e; mu e bs s } = Some r" using c False nofold noinner by simp
            then obtain e' where "e = Some e'" "mu e' bs s = Some r" by (auto simp: bind_eq_Some_conv)
            then show ?thesis using Some by (intro push) simp_all
          qed
        qed
      qed
    qed
  qed
  then show ?thesis
  proof cases
    case special
    show ?thesis
      unfolding special(2) using special(3) special_None [OF special(1)] by (auto simp: simp_ok_def visit_pre_def)
  next
    case same
    have "norm t x = x \<Longrightarrow> is_num t \<Longrightarrow> cast_val t t x = x" for x
      by (auto simp: cast_val_def norm_def wrap_ty_def is_num_def is_int_def is_uint_def)
    then have "cast_val t t x = x" if "eval env a l = Some x" "wf a" for x
      using eval_range [OF that(2,1)] by (simp add: same(1) ranged_def)
    then have "eval env a l = Some v" if "visit_pre env l (Cast t a) v bs s"
      using that by (auto simp: visit_pre_def same(1) split: if_splits)
    then show ?thesis
      unfolding same(2) by (intro simp_ok_done) (auto simp: visit_pre_def)
  next
    case fold
    show ?thesis
      by (rule simp_ok_with_bounds [OF fold(2)]) (use fold_cast_ok fold(1) in \<open>auto simp: visit_pre_def\<close>)
  next
    case inner
    let ?p = "no_overflow_int (etype e) \<and> is_int t \<and> bits (etype e) \<le> bits t"
    have m: "mu (Cast t e) bs (taint_if ?p s) = Some r"
      using inner(2) by (auto simp: remutate_cast_def Cast_make_def split: if_splits)
    show ?thesis
    proof (rule simp_ok_after [OF kept_taint_if refl remutate_ok [OF m]])
      assume C: "visit_pre env l (Cast t a) v bs s \<and> \<not> tainted (taint_if ?p s)"
      then show "simp_pre env l (Cast t e) v bs (taint_if ?p s)"
        using inner_cast_ok [OF inner(1), of env l v] kept_facts_ok [OF kept_taint_if]
        by (auto simp: visit_pre_def simp_pre_def lane_okt_def)
    qed
  next
    case push
    show ?thesis
      by (rule remutate_ok [OF push(2)])
        (use push_cast_ok [OF push(1), of env l v] in \<open>auto simp: visit_pre_def simp_pre_def lane_okt_def\<close>)
  next
    case make
    show ?thesis
      by (rule simp_ok_with_bounds [OF make]) (auto simp: visit_pre_def Cast_make_def split: if_splits)
  qed
qed

lemma visit_Cast_ok:
  assumes "visit_Cast F mu t a0 bs s = Some r"
  shows "simp_ok (visit_pre env l (Cast t a0) v bs s) env l v t bs s r"
proof -
  obtain a s1 where m: "mutate_plain mu a0 s = Some (a, s1)"
    and c: "simplify_cast F mu t a bs s1 = Some r \<or> with_bounds (Cast_make t a) bs s1 = Some r"
    using assms by (auto simp: visit_Cast_def bind_eq_Some_conv split: if_splits)
  note A = plain [OF m]
  show ?thesis
  proof (rule simp_ok_after [OF A(1) refl])
    have pre: "visit_pre env l (Cast t a) v bs s1" if C: "visit_pre env l (Cast t a0) v bs s \<and> \<not> tainted s1"
    proof -
      obtain x where "eval env a0 l = Some x" using C by (auto simp: visit_pre_def split: if_splits)
      then show ?thesis
        using C A(3) [of l env x] A(2) kept_facts_ok [OF A(1)] by (auto simp: visit_pre_def lane_okt_def split: if_splits)
    qed
    from c show "simp_ok (visit_pre env l (Cast t a0) v bs s \<and> \<not> tainted s1) env l v t bs s1 r"
    proof
      assume "simplify_cast F mu t a bs s1 = Some r"
      then show ?thesis by (rule simp_ok_mono [OF simplify_cast_ok]) (rule pre)
    next
      assume "with_bounds (Cast_make t a) bs s1 = Some r"
      then show ?thesis
        by (rule simp_ok_with_bounds) (use pre in \<open>auto simp: visit_pre_def Cast_make_def split: if_splits\<close>)
    qed
  qed
qed

end

end
