(* ===== verification/SimpBool.thy ===== *)
theory SimpBool
  imports SimpExprs RulesBool
begin

text \<open>
  The visitors of the Boolean operators and of selection (Simplify_Not.cpp, Simplify_And.cpp,
  Simplify_Or.cpp, Simplify_Select.cpp), and their soundness. Conjunctions and disjunctions
  are looked up among the facts that are known.
\<close>

section \<open>Visitors\<close>

definition visit_Not :: "float_ops \<Rightarrow> mutator \<Rightarrow> expr \<Rightarrow> expr_info option \<Rightarrow> simp_state \<Rightarrow> simp_result" where
  "visit_Not F mu a bounds s = do {
     let ty = etype (NotE a);
     (a, s) \<leftarrow> mutate_plain mu a s;
     rewrite_node F mu (table not_direct) (table (not_chain ty)) (NotE a) ty (Not_make a) bounds s }"

definition visit_And :: "float_ops \<Rightarrow> mutator \<Rightarrow> expr \<Rightarrow> expr \<Rightarrow> expr_info option \<Rightarrow> simp_state \<Rightarrow> simp_result" where
  "visit_And F mu a b bounds s =
     (let ty = etype (And a b)
      in if fact_count F (And a b) (falsehoods s) then with_bounds (const_false F (lanes ty)) bounds s
         else do {
           (a, s) \<leftarrow> mutate_plain mu a s;
           (b, s) \<leftarrow> mutate_plain mu b s;
           let (a, b) = commuted a b
           in rewrite_node F mu (table (and_direct a b)) (table (and_chain ty)) (And a b) ty (Bin_make OpAnd a b) bounds s })"

definition visit_Or :: "float_ops \<Rightarrow> mutator \<Rightarrow> expr \<Rightarrow> expr \<Rightarrow> expr_info option \<Rightarrow> simp_state \<Rightarrow> simp_result" where
  "visit_Or F mu a b bounds s =
     (let ty = etype (Or a b)
      in if fact_count F (Or a b) (truths s) then with_bounds (const_true F (lanes ty)) bounds s
         else do {
           (a, s) \<leftarrow> mutate_plain mu a s;
           (b, s) \<leftarrow> mutate_plain mu b s;
           let (a, b) = commuted a b
           in rewrite_node F mu (table (or_direct a b)) (table (or_chain ty)) (Or a b) ty (Bin_make OpOr a b) bounds s })"

definition visit_Select ::
  "float_ops \<Rightarrow> mutator \<Rightarrow> expr \<Rightarrow> expr \<Rightarrow> expr \<Rightarrow> expr_info option \<Rightarrow> simp_state \<Rightarrow> simp_result" where
  "visit_Select F mu c a b bounds s = do {
     let ty = etype a;
     (c, s) \<leftarrow> mutate_plain mu c s;
     (a, a_bounds, s) \<leftarrow> mutate_info mu a s;
     (b, b_bounds, s) \<leftarrow> mutate_info mu b s;
     (bounds, s) \<leftarrow> on_bounds bounds (\<lambda>i. Select_bounds a_bounds b_bounds) s;
     if may_simplify s ty then
       rewrite_node F mu (table (select_direct a b)) (table (select_chain ty)) (Select c a b) ty (Select_make c a b) bounds s
     else with_bounds (Select_make c a b) bounds s }"

section \<open>Known facts\<close>

lemma bool_const:
  assumes "legal_type t" "is_bool t"
  shows "const_true F (lanes t) = Some e \<Longrightarrow> wf e \<and> etype e = t \<and> eval env e l = Some 1"
    and "const_false F (lanes t) = Some e \<Longrightarrow> wf e \<and> etype e = t \<and> eval env e l = Some 0"
proof -
  have t: "t = BoolT (lanes t)"
    using assms legal_lanes [OF assms(1)] BoolT_sel [of "lanes t"] take_bit_16_lanes [of "lanes t"]
    by (auto simp: is_bool_def is_uint_def intro!: halide_type.equality)
  have r: "can_represent_int t 1" "can_represent_int t 0"
    using assms(2) by (auto simp: can_represent_int_def is_bool_def is_int_def is_uint_def max_uint_def)
  have h: "\<not> is_handle t" using assms(2) by (auto simp: is_bool_def is_uint_def is_handle_def)
  show "const_true F (lanes t) = Some e \<Longrightarrow> wf e \<and> etype e = t \<and> eval env e l = Some 1"
    using made_constant [OF _ assms(1) r(1), of F e env l] t by (simp add: const_true_def make_one_def BoolT_def)
  show "const_false F (lanes t) = Some e \<Longrightarrow> wf e \<and> etype e = t \<and> eval env e l = Some 0"
    using made_constant [OF _ assms(1) r(2), of F e env l] t h by (simp add: const_false_def make_zero_def BoolT_def)
qed

lemma known_fact:
  assumes "facts_ok env s" "lane_ok l e" "eval env e l = Some v"
  shows "fact_count F e (truths s) \<Longrightarrow> v \<noteq> 0" "fact_count F e (falsehoods s) \<Longrightarrow> v = 0"
proof -
  have same: "lane_ok l f \<and> eval env f l = Some v" if "deep_equal F f e" for f
    using deep_equal_etype [OF that] deep_equal_eval [OF that] assms(2,3) by simp
  have t: "v \<noteq> 0" if "f \<in> set (truths s)" "deep_equal F f e" for f
    using assms(1) same [OF that(2)] that(1) unfolding facts_ok_def by metis
  have u: "v = 0" if "f \<in> set (falsehoods s)" "deep_equal F f e" for f
    using assms(1) same [OF that(2)] that(1) unfolding facts_ok_def by metis
  show "fact_count F e (truths s) \<Longrightarrow> v \<noteq> 0" "fact_count F e (falsehoods s) \<Longrightarrow> v = 0"
    using t u unfolding fact_count_def by blast+
qed

text \<open>A comparison or a Boolean operator that is decided becomes a constant.\<close>

lemma decided_ok:
  assumes "with_bounds (if p then const_true F (lanes (etype e)) else const_false F (lanes (etype e))) bs s = Some r"
    and "C \<Longrightarrow> visit_pre env l e v bs s \<and> is_bool (etype e) \<and> v = of_bool p"
  shows "simp_ok C env l v (etype e) bs s r"
proof (rule simp_ok_with_bounds [OF assms(1)])
  fix e'
  assume e': "(if p then const_true F (lanes (etype e)) else const_false F (lanes (etype e))) = Some e'" and c: C
  have w: "legal_type (etype e)" "is_bool (etype e)" "v = of_bool p" "opt_ok bs v"
    using assms(2) [OF c] wf_legal [of e] by (auto simp: visit_pre_def)
  have "wf e' \<and> eval env e' l = Some v"
  proof (cases p)
    case True
    with e' have "const_true F (lanes (etype e)) = Some e'" by simp
    from bool_const(1) [OF w(1,2) this] show ?thesis using True w(3) by simp
  next
    case False
    with e' have "const_false F (lanes (etype e)) = Some e'" by simp
    from bool_const(2) [OF w(1,2) this] show ?thesis using False w(3) by simp
  qed
  then show "wf e' \<and> eval env e' l = Some v \<and> opt_ok bs v" using w(4) by blast
qed

lemma known_false_ok:
  assumes "with_bounds (const_false F (lanes (etype e))) bs s = Some r" "fact_count F e (falsehoods s)"
    and "C \<Longrightarrow> visit_pre env l e v bs s \<and> is_bool (etype e)"
  shows "simp_ok C env l v (etype e) bs s r"
proof (rule decided_ok [where p = False])
  show "with_bounds (if False then const_true F (lanes (etype e)) else const_false F (lanes (etype e))) bs s = Some r"
    using assms(1) by simp
  show "visit_pre env l e v bs s \<and> is_bool (etype e) \<and> v = of_bool False" if C
    using assms(3) [OF that] known_fact(2) [OF _ _ _ assms(2), of env l v] by (simp add: visit_pre_def lane_okt_def)
qed

lemma known_true_ok:
  assumes "with_bounds (const_true F (lanes (etype e))) bs s = Some r" "fact_count F e (truths s)"
    and "C \<Longrightarrow> visit_pre env l e v bs s \<and> is_bool (etype e)"
  shows "simp_ok C env l v (etype e) bs s r"
proof (rule decided_ok [where p = True])
  show "with_bounds (if True then const_true F (lanes (etype e)) else const_false F (lanes (etype e))) bs s = Some r"
    using assms(1) by simp
  show "visit_pre env l e v bs s \<and> is_bool (etype e) \<and> v = of_bool True" if C
    using assms(3) [OF that] known_fact(1) [OF _ _ _ assms(2), of env l v] bool_value [of e env l v]
    by (auto simp: visit_pre_def lane_okt_def)
qed

section \<open>Soundness\<close>

lemma visited_fact: "visit_pre env l (Bin op a b) v bs s \<Longrightarrow> op = OpAnd \<or> op = OpOr \<Longrightarrow> is_bool (etype (Bin op a b))"
  by (auto simp: visit_pre_def)

lemma Not_groups:
  "g \<in> set (table not_direct) \<union> set (table (not_chain ty)) \<Longrightarrow> legal_type ty \<Longrightarrow> l < lanes ty \<Longrightarrow> group_ok F env l (NotE a) g"
  by (rule table_groups [of ty]) (use not_table_valid [of ty] in auto)

lemma And_groups:
  "g \<in> set (table (and_direct a b)) \<union> set (table (and_chain ty)) \<Longrightarrow> wf (And a b) \<Longrightarrow> etype a = ty \<Longrightarrow> l < lanes ty \<Longrightarrow>
    group_ok F env l (And a b) g"
  by (rule table_groups [of ty]) (use and_table_valid [of ty a b] wf_legal [of a] in auto)

lemma Or_groups:
  "g \<in> set (table (or_direct a b)) \<union> set (table (or_chain ty)) \<Longrightarrow> wf (Or a b) \<Longrightarrow> etype a = ty \<Longrightarrow> l < lanes ty \<Longrightarrow>
    group_ok F env l (Or a b) g"
  by (rule table_groups [of ty]) (use or_table_valid [of ty a b] wf_legal [of a] in auto)

lemma Select_groups:
  "g \<in> set (table (select_direct a b)) \<union> set (table (select_chain ty)) \<Longrightarrow> wf (Select c a b) \<Longrightarrow> etype a = ty \<Longrightarrow> l < lanes ty \<Longrightarrow>
    group_ok F env l (Select c a b) g"
  by (rule table_groups [of ty]) (use select_table_valid [of ty a c b] wf_legal [of a] in auto)

context sound_mutator
begin

lemma visit_Not_ok:
  assumes "visit_Not F mu a0 bs s = Some r"
  shows "simp_ok (visit_pre env l (NotE a0) v bs s) env l v (etype (NotE a0)) bs s r"
proof -
  let ?ty = "etype (NotE a0)"
  obtain a s1 where m: "mutate_plain mu a0 s = Some (a, s1)"
    and n: "rewrite_node F mu (table not_direct) (table (not_chain ?ty)) (NotE a) ?ty (Not_make a) bs s1 = Some r"
    using assms by (auto simp: visit_Not_def bind_eq_Some_conv Let_def [where s = "BoolT (lanes (etype a0))"])
  note A = plain [OF m]
  have pre: "visit_pre env l (NotE a) v bs s1 \<and> etype (NotE a) = ?ty" if C: "visit_pre env l (NotE a0) v bs s \<and> \<not> tainted s1"
  proof -
    have w: "wf a0" "is_bool (etype a0)" "l < lanes (BoolT (lanes (etype a0)))" "facts_ok env s"
      using C by (simp_all add: visit_pre_def)
    obtain x where x: "eval env a0 l = Some x" using C by (auto simp: visit_pre_def bind_eq_Some_conv)
    have "lane_ok l a0" using w(3) lanes_BoolT [of "lanes (etype a0)"] wf_lanes [OF w(1)] by (simp add: lane_okt_def)
    then have "wf a \<and> eval env a l = Some x" using A(3) [OF w(1) _ w(4) x] C by blast
    then show ?thesis using C A(2) x kept_facts_ok [OF A(1) w(4)] by (simp add: visit_pre_def)
  qed
  show ?thesis
  proof (rule simp_ok_after [OF A(1) refl rewrite_node_ok [OF n pre]])
    show "group_ok F env l (NotE a) g" if "visit_pre env l (NotE a0) v bs s \<and> \<not> tainted s1"
      "g \<in> set (table not_direct) \<union> set (table (not_chain ?ty))" for g
      by (rule Not_groups [OF that(2)]) (use that(1) wf_legal [of "NotE a0"] in \<open>auto simp: visit_pre_def\<close>)
    show "wf e' \<and> eval env e' l = Some v" if "visit_pre env l (NotE a0) v bs s \<and> \<not> tainted s1" "Not_make a = Some e'" for e'
      using pre [OF that(1)] that(2) by (auto simp: visit_pre_def Not_make_def split: if_splits)
  qed
qed

lemma logic_operands:
  assumes a: "mutate_plain mu a0 s = Some (a, s1)" and b: "mutate_plain mu b0 s1 = Some (b, s2)"
  shows "kept s s2" "visit_pre env l (Bin op a0 b0) v bs s \<Longrightarrow> \<not> tainted s2 \<Longrightarrow>
      visit_pre env l (Bin op a b) v bs s2 \<and> etype (Bin op a b) = etype (Bin op a0 b0)"
proof -
  note A = plain [OF a] and B = plain [OF b]
  show k: "kept s s2" using A(1) B(1) kept_trans by blast
  assume p: "visit_pre env l (Bin op a0 b0) v bs s" "\<not> tainted s2"
  then have w: "wf a0" "wf b0" "etype b0 = etype a0" "lane_ok l a0" "facts_ok env s" "op = OpAnd \<or> op = OpOr \<longrightarrow> is_bool (etype a0)"
    and e: "eval env (Bin op a0 b0) l = Some v"
    unfolding visit_pre_def wf.simps etype.simps lane_okt_def by metis+
  obtain x y where xy: "eval env a0 l = Some x" "eval env b0 l = Some y" "bin_val op (norm (etype a0)) x y = Some v"
    using e by (auto simp: bind_eq_Some_conv)
  have "wf a \<and> eval env a l = Some x"
    by (rule A(3) [OF w(1,4,5) xy(1) kept_tainted [OF B(1) p(2)]])
  moreover have "wf b \<and> eval env b l = Some y"
    by (rule B(3) [OF w(2) _ kept_facts_ok [OF A(1) w(5)] xy(2) p(2)]) (use w in simp)
  ultimately show "visit_pre env l (Bin op a b) v bs s2 \<and> etype (Bin op a b) = etype (Bin op a0 b0)"
    using p(1) xy(3) w(3,6) A(2) B(2) kept_facts_ok [OF k w(5)] unfolding visit_pre_def by simp
qed

lemma logic_ok:
  assumes "op = OpAnd \<or> op = OpOr" "mutate_plain mu a0 s = Some (a, s1)" "mutate_plain mu b0 s1 = Some (b, s2)"
    and n: "(let (a, b) = commuted a b in rewrite_node F mu (direct a b) chain (Bin op a b) (etype (Bin op a0 b0)) (Bin_make op a b) bs s2) = Some r"
    and g: "\<And>a b g. g \<in> set (direct a b) \<union> set chain \<Longrightarrow> wf (Bin op a b) \<Longrightarrow> etype a = etype (Bin op a0 b0) \<Longrightarrow>
      l < lanes (etype (Bin op a0 b0)) \<Longrightarrow> group_ok F env l (Bin op a b) g"
  shows "simp_ok (visit_pre env l (Bin op a0 b0) v bs s) env l v (etype (Bin op a0 b0)) bs s r"
proof -
  let ?ty = "etype (Bin op a0 b0)"
  obtain p q where pq: "commuted a b = (p, q)" by (cases "commuted a b")
  have pre: "visit_pre env l (Bin op p q) v bs s2 \<and> etype (Bin op p q) = ?ty"
    if "visit_pre env l (Bin op a0 b0) v bs s \<and> \<not> tainted s2"
    using logic_operands(2) [OF assms(2,3), of env l op v bs] that visit_pre_commute [of op env l a b v bs s2] assms(1) pq
    by (auto simp: commuted_def split: if_splits)
  have n: "rewrite_node F mu (direct p q) chain (Bin op p q) ?ty (Bin_make op p q) bs s2 = Some r" using n pq by simp
  show ?thesis
  proof (rule simp_ok_after [OF logic_operands(1) [OF assms(2,3)] refl rewrite_node_ok [OF n pre]])
    fix g' assume C: "visit_pre env l (Bin op a0 b0) v bs s \<and> \<not> tainted s2" "g' \<in> set (direct p q) \<union> set chain"
    show "group_ok F env l (Bin op p q) g'"
      by (rule g [OF C(2)]) (use pre [OF C(1)] in \<open>auto simp: visit_pre_def\<close>)
  next
    fix e' assume C: "visit_pre env l (Bin op a0 b0) v bs s \<and> \<not> tainted s2" "Bin_make op p q = Some e'"
    show "wf e' \<and> eval env e' l = Some v"
      using pre [OF C(1)] bin_etype [OF _ C(2)] by (auto simp: visit_pre_def)
  qed
qed

lemma visit_And_ok:
  assumes "visit_And F mu a0 b0 bs s = Some r"
  shows "simp_ok (visit_pre env l (And a0 b0) v bs s) env l v (etype (And a0 b0)) bs s r"
proof (cases "fact_count F (And a0 b0) (falsehoods s)")
  case True
  then have "with_bounds (const_false F (lanes (etype (And a0 b0)))) bs s = Some r"
    using assms by (simp add: visit_And_def)
  then show ?thesis by (rule known_false_ok [OF _ True]) (use visited_fact in blast)
next
  case False
  then obtain a s1 b s2 where m: "mutate_plain mu a0 s = Some (a, s1)" "mutate_plain mu b0 s1 = Some (b, s2)"
    "(let (a, b) = commuted a b in rewrite_node F mu (table (and_direct a b)) (table (and_chain (etype (And a0 b0))))
       (And a b) (etype (And a0 b0)) (Bin_make OpAnd a b) bs s2) = Some r"
    using assms by (auto simp: visit_And_def bind_eq_Some_conv Let_def [where s = "etype a0"])
  show ?thesis by (rule logic_ok [OF _ m And_groups]) (assumption | simp)+
qed

lemma visit_Or_ok:
  assumes "visit_Or F mu a0 b0 bs s = Some r"
  shows "simp_ok (visit_pre env l (Or a0 b0) v bs s) env l v (etype (Or a0 b0)) bs s r"
proof (cases "fact_count F (Or a0 b0) (truths s)")
  case True
  then have "with_bounds (const_true F (lanes (etype (Or a0 b0)))) bs s = Some r"
    using assms by (simp add: visit_Or_def)
  then show ?thesis by (rule known_true_ok [OF _ True]) (use visited_fact in blast)
next
  case False
  then obtain a s1 b s2 where m: "mutate_plain mu a0 s = Some (a, s1)" "mutate_plain mu b0 s1 = Some (b, s2)"
    "(let (a, b) = commuted a b in rewrite_node F mu (table (or_direct a b)) (table (or_chain (etype (Or a0 b0))))
       (Or a b) (etype (Or a0 b0)) (Bin_make OpOr a b) bs s2) = Some r"
    using assms by (auto simp: visit_Or_def bind_eq_Some_conv Let_def [where s = "etype a0"])
  show ?thesis by (rule logic_ok [OF _ m Or_groups]) (assumption | simp)+
qed

lemma visit_Select_ok:
  assumes "visit_Select F mu c0 a0 b0 bs s = Some r"
  shows "simp_ok (visit_pre env l (Select c0 a0 b0) v bs s) env l v (etype a0) bs s r"
proof -
  let ?ty = "etype a0"
  obtain c s0 a ai s1 b bi s2 b3 s3 where m: "mutate_plain mu c0 s = Some (c, s0)" "mutate_info mu a0 s0 = Some (a, ai, s1)"
      "mutate_info mu b0 s1 = Some (b, bi, s2)"
    and f: "on_bounds bs (\<lambda>i. Select_bounds ai bi) s2 = Some (b3, s3)"
    and tl: "(if may_simplify s3 ?ty then
       rewrite_node F mu (table (select_direct a b)) (table (select_chain ?ty)) (Select c a b) ?ty (Select_make c a b) b3 s3
     else with_bounds (Select_make c a b) b3 s3) = Some r"
    using assms by (auto simp: visit_Select_def bind_eq_Some_conv Let_def [where s = "etype a0"])
  note C = plain [OF m(1)] and A = info [OF m(2)] and B = info [OF m(3)]
  have k3: "kept s2 s3" and n3: "b3 = None \<longleftrightarrow> bs = None"
    using on_bounds_ok(1,2) [where D = False and v = v, OF f] Select_bounds_ok(1) by blast+
  have k2: "kept s s2" using C(1) A(1) B(1) kept_trans by blast
  have k: "kept s s3" using k2 k3 kept_trans by blast
  have pre: "visit_pre env l (Select c a b) v b3 s3 \<and> etype (Select c a b) = ?ty"
    if p: "visit_pre env l (Select c0 a0 b0) v bs s \<and> \<not> tainted s3"
  proof -
    have w: "wf c0" "wf a0" "wf b0" "is_bool (etype c0)" "etype b0 = etype a0"
      "is_scalar (etype c0) \<or> lanes (etype c0) = lanes (etype a0)" "l < lanes (etype a0)" "facts_ok env s" "opt_ok bs v"
      using p by (simp_all add: visit_pre_def)
    have ln: "lane_ok l c0" "lane_ok l a0" "lane_ok l b0" using w(5-7) by (auto simp: lane_okt_def is_scalar_def)
    have t: "\<not> tainted s0" "\<not> tainted s1" "\<not> tainted s2" using p k3 B(1) A(1) kept_tainted by blast+
    obtain q x y where e: "eval env c0 l = Some q" "eval env a0 l = Some x" "eval env b0 l = Some y" "v = (if q \<noteq> 0 then x else y)"
      using p by (auto simp: visit_pre_def bind_eq_Some_conv)
    have c: "wf c \<and> eval env c l = Some q" by (rule C(3) [OF w(1) ln(1) w(8) e(1) t(1)])
    have f0: "facts_ok env s0" by (rule kept_facts_ok [OF C(1) w(8)])
    have a: "wf a \<and> eval env a l = Some x \<and> info_ok ai x" by (rule A(3) [OF w(2) ln(2) f0 e(2) t(2)])
    have b: "wf b \<and> eval env b l = Some y \<and> info_ok bi y"
      by (rule B(3) [OF w(3) ln(3) kept_facts_ok [OF A(1) f0] e(3) t(3)])
    have "opt_ok b3 v"
      by (rule on_bounds_ok(3) [where D = True, OF f])
        (use Select_bounds_ok [of ai bi] a b e(4) p w(9) in auto)
    then show ?thesis
      using a b c e w(4-7) A(2) B(2) C(2) kept_facts_ok [OF k w(8)] by (simp add: visit_pre_def)
  qed
  have made: "wf e' \<and> eval env e' l = Some v \<and> opt_ok b3 v"
    if "visit_pre env l (Select c0 a0 b0) v bs s \<and> \<not> tainted s3" "Select_make c a b = Some e'" for e'
    using pre [OF that(1)] that(2) by (auto simp: visit_pre_def Select_make_def split: if_splits)
  show ?thesis
  proof (cases "may_simplify s3 ?ty")
    case True
    show ?thesis
    proof (rule simp_ok_after [OF k n3 rewrite_node_ok [OF tl [unfolded if_P [OF True]] pre]])
      show "group_ok F env l (Select c a b) g" if "visit_pre env l (Select c0 a0 b0) v bs s \<and> \<not> tainted s3"
        "g \<in> set (table (select_direct a b)) \<union> set (table (select_chain ?ty))" for g
        by (rule Select_groups [OF that(2)]) (use pre [OF that(1)] in \<open>auto simp: visit_pre_def\<close>)
      show "wf e' \<and> eval env e' l = Some v" if "visit_pre env l (Select c0 a0 b0) v bs s \<and> \<not> tainted s3"
        "Select_make c a b = Some e'" for e'
        using made [OF that] by blast
    qed
  next
    case False
    then have "with_bounds (Select_make c a b) b3 s3 = Some r" using tl by simp
    then show ?thesis
      by (intro simp_ok_after [OF k n3 simp_ok_with_bounds]) (use made in blast)+
  qed
qed

end

end
