(* ===== verification/SimpCompare.thy ===== *)
theory SimpCompare
  imports SimpBool RulesCompare
begin

text \<open>
  The visitors of comparisons (Simplify_EQ.cpp, Simplify_LT.cpp), and their soundness: an
  equation is decided by the bounds and the alignment of the difference of its sides, an
  order comparison by the bounds of the two sides, and the other comparisons redirect to
  these two.
\<close>

section \<open>Visitors\<close>

definition unsimplified_cmp ::
  "mutator \<Rightarrow> cmp_op \<Rightarrow> expr \<Rightarrow> expr \<Rightarrow> expr_info option \<Rightarrow> simp_state \<Rightarrow> simp_result" where
  "unsimplified_cmp mu op a b bounds s = do {
     (a, s) \<leftarrow> mutate_plain mu a s;
     (b, s) \<leftarrow> mutate_plain mu b s;
     with_bounds (Cmp_make op a b) bounds s }"

text \<open>
  The difference of the sides is compared with the literal zero. A difference with a
  remainder other than zero is taken not to be zero, which is wrong for an alignment that
  is not canonical.
\<close>

definition compare_zero ::
  "float_ops \<Rightarrow> mutator \<Rightarrow> halide_type \<Rightarrow> expr \<Rightarrow> expr_info option \<Rightarrow> simp_state \<Rightarrow> simp_result" where
  "compare_zero F mu ty delta bounds s = do {
     let t = etype delta;
     zero \<leftarrow> make_const F t 0;
     (r, s) \<leftarrow> try_groups F mu
       [(False, Some (eq_chain ty t)), (\<not> no_overflow t, Some eq_chain_clamp), (False, Some eq_chain_bound)]
       (EQ delta zero) ty s;
     case r of Some e \<Rightarrow> mu e bounds s
     | None \<Rightarrow> do {
         (r, s) \<leftarrow> try_groups F mu (table eq_direct) (EQ delta zero) ty s;
         case r of Some e \<Rightarrow> Some (e, bounds, s)
         | None \<Rightarrow>
             with_bounds (case delta of
                 Bin op x y \<Rightarrow> if op = OpSub then Cmp_make OpEQ x y else Cmp_make OpEQ delta zero
               | _ \<Rightarrow> Cmp_make OpEQ delta zero) bounds s } }"

definition visit_EQ :: "float_ops \<Rightarrow> mutator \<Rightarrow> expr \<Rightarrow> expr \<Rightarrow> expr_info option \<Rightarrow> simp_state \<Rightarrow> simp_result" where
  "visit_EQ F mu a b bounds s =
     (let ty = etype (EQ a b)
      in if fact_count F (EQ a b) (truths s) then with_bounds (const_true F (lanes ty)) bounds s
         else if fact_count F (EQ a b) (falsehoods s) then with_bounds (const_false F (lanes ty)) bounds s
         else if \<not> may_simplify s (etype a) then unsimplified_cmp mu OpEQ a b bounds s
         else if is_bool (etype a) then do {
           (a, s) \<leftarrow> mutate_plain mu a s;
           (b, s) \<leftarrow> mutate_plain mu b s;
           rewrite_node F mu (table eq_bool_one) (table eq_bool_zero) (EQ a b) ty (Cmp_make OpEQ a b) bounds s }
         else do {
           d \<leftarrow> Bin_make OpSub a b;
           (delta, i, s) \<leftarrow> mutate_info mu d s;
           if min_defined i \<and> info_min i > 0 then with_bounds (const_false F (lanes ty)) bounds s
           else if max_defined i \<and> info_max i < 0 then with_bounds (const_false F (lanes ty)) bounds s
           else if remainder (alignment i) \<noteq> 0 then
             with_bounds (const_false F (lanes ty)) bounds (taint_if (mr_has (alignment i) 0) s)
           else compare_zero F mu ty delta bounds s })"

definition visit_NE :: "mutator \<Rightarrow> expr \<Rightarrow> expr \<Rightarrow> expr_info option \<Rightarrow> simp_state \<Rightarrow> simp_result" where
  "visit_NE mu a b bounds s =
     (if \<not> may_simplify s (etype a) then unsimplified_cmp mu OpNE a b bounds s
      else do { e \<leftarrow> Cmp_make OpEQ a b; n \<leftarrow> Not_make e; mu n bounds s })"

definition visit_LT :: "float_ops \<Rightarrow> mutator \<Rightarrow> expr \<Rightarrow> expr \<Rightarrow> expr_info option \<Rightarrow> simp_state \<Rightarrow> simp_result" where
  "visit_LT F mu a0 b0 bounds s = do {
     let ty = etype (LT a0 b0);
     let t = etype a0;
     (a, a_bounds, s) \<leftarrow> mutate_info mu a0 s;
     (b, b_bounds, s) \<leftarrow> mutate_info mu b0 s;
     if fact_count F (LT a0 b0) (truths s) then with_bounds (const_true F (lanes ty)) bounds s
     else if fact_count F (LT a0 b0) (falsehoods s) then with_bounds (const_false F (lanes ty)) bounds s
     else if may_simplify s t then
       if max_defined a_bounds \<and> min_defined b_bounds \<and> info_max a_bounds < info_min b_bounds then
         with_bounds (const_true F (lanes ty)) bounds s
       else if min_defined a_bounds \<and> max_defined b_bounds \<and> info_min a_bounds \<ge> info_max b_bounds then
         with_bounds (const_false F (lanes ty)) bounds s
       else rewrite_node F mu
         [(False, Some lt_direct_1), limit_group lt_direct_limits F t, (False, Some (lt_direct_rest ty))]
         (table (lt_chain ty t)) (LT a b) ty (Cmp_make OpLT a b) bounds s
     else with_bounds (Cmp_make OpLT a b) bounds s }"

definition visit_LE :: "mutator \<Rightarrow> expr \<Rightarrow> expr \<Rightarrow> expr_info option \<Rightarrow> simp_state \<Rightarrow> simp_result" where
  "visit_LE mu a b bounds s =
     (if \<not> may_simplify s (etype a) then unsimplified_cmp mu OpLE a b bounds s
      else do { e \<leftarrow> Cmp_make OpLT b a; n \<leftarrow> Not_make e; mu n bounds s })"

definition visit_GT :: "mutator \<Rightarrow> expr \<Rightarrow> expr \<Rightarrow> expr_info option \<Rightarrow> simp_state \<Rightarrow> simp_result" where
  "visit_GT mu a b bounds s =
     (if \<not> may_simplify s (etype a) then unsimplified_cmp mu OpGT a b bounds s
      else do { e \<leftarrow> Cmp_make OpLT b a; mu e bounds s })"

definition visit_GE :: "mutator \<Rightarrow> expr \<Rightarrow> expr \<Rightarrow> expr_info option \<Rightarrow> simp_state \<Rightarrow> simp_result" where
  "visit_GE mu a b bounds s =
     (if \<not> may_simplify s (etype a) then unsimplified_cmp mu OpGE a b bounds s
      else do { e \<leftarrow> Cmp_make OpLT a b; n \<leftarrow> Not_make e; mu n bounds s })"

section \<open>Tables\<close>

lemma Cmp_lanes: "wf (Cmp op a b) \<Longrightarrow> lanes (etype (Cmp op a b)) = lanes (etype a)"
  using wf_lanes [of a] by (simp add: lanes_BoolT)

lemma EQ_bool_groups:
  "g \<in> set (table eq_bool_one) \<union> set (table eq_bool_zero) \<Longrightarrow> wf (EQ a b) \<Longrightarrow> is_bool (etype a) \<Longrightarrow> l < lanes (ty :: halide_type) \<Longrightarrow>
    group_ok F env l (EQ a b) g"
  by (rule table_groups [of ty]) (use eq_rules_valid(1,2) [of a _ b] in \<open>auto simp: is_bool_ety\<close>)

lemma EQ_groups:
  assumes "g \<in> set [(False, Some (eq_chain ty t)), (\<not> no_overflow t, Some eq_chain_clamp), (False, Some eq_chain_bound)] \<union> set (table eq_direct)"
    and "legal_type ty" "etype a = t" "l < lanes ty"
  shows "group_ok F env l (EQ a b) g"
proof -
  have t: "list_all (valid_rule (in_lanes ty) [a, b]) (eq_chain ty t @ eq_chain_bound @ eq_direct)"
    using eq_table_valid [of ty a t b] assms(2,3) by simp
  have c: "list_all (valid_rule (in_lanes ty) [a, b]) eq_chain_clamp" if "no_overflow t"
    using eq_rules_valid(6) [of a "in_lanes ty" b] that assms(3) by simp
  have "group_ok F env l (EQ a b) (p, Some rs)" if "\<not> p \<Longrightarrow> list_all (valid_rule (in_lanes ty) [a, b]) rs" for p rs
    using that group_ok_table [of ty "EQ a b" rs l F env p] assms(4) by (cases p) (auto simp: group_ok_def)
  then show ?thesis using assms(1) t c by (auto simp: table_def)
qed

lemma LT_limit_group:
  assumes "wf (LT a b)" "eval env (LT a b) l = Some v" "etype a = t"
  shows "group_ok F env l (LT a b) (limit_group lt_direct_limits F t)"
proof (rule limit_group_ok)
  show "legal_type t" using assms(1,3) wf_legal [of a] by auto
  show "is_num t" using compared_num [OF assms(1,2)] assms(3) by simp
  show "list_all (valid_rule in_bounds (operands (LT a b))) (lt_direct_limits tmin tmax)"
    if "is_limit t (ety_min (ety t)) tmin" "is_limit t (ety_max (ety t)) tmax" for tmin tmax
    using lt_limit_rules_valid [OF that] by simp
  show "wty M 0 = ety t"
    if "is_limit t (ety_min (ety t)) tmin" "is_limit t (ety_max (ety t)) tmax"
      "Rewrite lhs aft p \<in> set (lt_direct_limits tmin tmax)" "wtd M (ety (etype (LT a b))) lhs" "knows M (ety (etype (LT a b))) (operands (LT a b)) lhs"
    for tmin tmax lhs aft p M
    using that assms(3) by (auto simp: lt_direct_limits_def pat_ops knows_def chint_def)
qed (use assms in blast)

lemma LT_groups:
  assumes "g \<in> set [(False, Some lt_direct_1), limit_group lt_direct_limits F t, (False, Some (lt_direct_rest ty))] \<union> set (table (lt_chain ty t))"
    and "wf (LT a b)" "etype a = t" "ty = etype (LT a b)" "l < lanes ty" "eval env (LT a b) l = Some v"
  shows "group_ok F env l (LT a b) g"
proof -
  have t: "list_all (valid_rule (in_lanes ty) [a, b]) (lt_direct_1 @ lt_direct_rest ty @ lt_chain ty t)"
    using lt_table_valid [of ty a t b] assms(3,4) wf_legal [OF assms(2)] compared_num [OF assms(2,6)] by simp
  have "group_ok F env l (LT a b) (False, Some rs)" if "list_all (valid_rule (in_lanes ty) [a, b]) rs" for rs
    by (rule group_ok_table [OF _ assms(5)]) (use that in simp)
  then show ?thesis using assms(1) t LT_limit_group [OF assms(2,6,3)] by (auto simp: table_def)
qed

section \<open>Soundness\<close>

lemma norm_zero_iff:
  assumes "norm t a = a" "norm t b = b"
  shows "norm t (a - b) = 0 \<longleftrightarrow> a = b"
  using assms nrm_zero_iff [of "ety t" a b] by (simp add: norm_nrm)

lemma represents_zero:
  assumes "is_num t"
  shows "can_represent_int t 0"
proof -
  have "0 \<le> max_int n" for n by (simp add: max_int_def)
  then have "0 \<le> max_int (bits t)" .
  then have "min_int (bits t) \<le> 0" "0 \<le> max_int (bits t)" by (simp_all add: min_int_def not_int_def)
  moreover have "0 \<le> max_uint (bits t)" by (simp add: max_uint_def)
  ultimately show ?thesis using assms by (auto simp: can_represent_int_def is_num_def)
qed

context sound_mutator
begin

lemma cmp_pre:
  assumes "visit_pre env l (Cmp op a b) v bs s"
  obtains x y where "wf a" "wf b" "etype a = etype b" "lane_ok l a" "lane_ok l b" "facts_ok env s"
    "eval env a l = Some x" "eval env b l = Some y" "v = cmp_val op x y" "opt_ok bs v" "l < lanes (etype a)"
proof -
  have w: "wf (Cmp op a b)" "l < lanes (etype (Cmp op a b))" using assms unfolding visit_pre_def by blast+
  have l: "l < lanes (etype a)" using w Cmp_lanes [OF w(1)] by simp
  obtain x y where "eval env a l = Some x" "eval env b l = Some y" "v = cmp_val op x y"
    using assms by (auto simp: visit_pre_def bind_eq_Some_conv)
  then show thesis using that assms l by (simp add: visit_pre_def lane_okt_def)
qed

lemma cmp_operands:
  assumes a: "mutate_plain mu a0 s = Some (a, s1)" and b: "mutate_plain mu b0 s1 = Some (b, s2)"
  shows "kept s s2" "visit_pre env l (Cmp op a0 b0) v bs s \<Longrightarrow> \<not> tainted s2 \<Longrightarrow>
      visit_pre env l (Cmp op a b) v bs s2 \<and> etype (Cmp op a b) = etype (Cmp op a0 b0)"
proof -
  note A = plain [OF a] and B = plain [OF b]
  show k: "kept s s2" using A(1) B(1) kept_trans by blast
  assume p: "visit_pre env l (Cmp op a0 b0) v bs s" "\<not> tainted s2"
  obtain x y where w: "wf a0" "wf b0" "etype a0 = etype b0" "lane_ok l a0" "lane_ok l b0" "facts_ok env s"
    "eval env a0 l = Some x" "eval env b0 l = Some y" "v = cmp_val op x y" "opt_ok bs v"
    by (rule cmp_pre [OF p(1)])
  have "wf a \<and> eval env a l = Some x"
    by (rule A(3) [OF w(1,4,6,7) kept_tainted [OF B(1) p(2)]])
  moreover have "wf b \<and> eval env b l = Some y"
    by (rule B(3) [OF w(2,5) kept_facts_ok [OF A(1) w(6)] w(8) p(2)])
  ultimately show "visit_pre env l (Cmp op a b) v bs s2 \<and> etype (Cmp op a b) = etype (Cmp op a0 b0)"
    using p(1) w A(2) B(2) kept_facts_ok [OF k w(6)] by (simp add: visit_pre_def)
qed

lemma cmp_info_operands:
  assumes a: "mutate_info mu a0 s = Some (a, ai, s1)" and b: "mutate_info mu b0 s1 = Some (b, bi, s2)"
  shows "kept s s2" "visit_pre env l (Cmp op a0 b0) v bs s \<Longrightarrow> \<not> tainted s2 \<Longrightarrow>
      visit_pre env l (Cmp op a b) v bs s2 \<and> etype (Cmp op a b) = etype (Cmp op a0 b0) \<and> etype a = etype a0 \<and>
      (\<exists>x y. v = cmp_val op x y \<and> info_ok ai x \<and> info_ok bi y)"
proof -
  note A = info [OF a] and B = info [OF b]
  show k: "kept s s2" using A(1) B(1) kept_trans by blast
  assume p: "visit_pre env l (Cmp op a0 b0) v bs s" "\<not> tainted s2"
  obtain x y where w: "wf a0" "wf b0" "etype a0 = etype b0" "lane_ok l a0" "lane_ok l b0" "facts_ok env s"
    "eval env a0 l = Some x" "eval env b0 l = Some y" "v = cmp_val op x y" "opt_ok bs v"
    by (rule cmp_pre [OF p(1)])
  have "wf a \<and> eval env a l = Some x \<and> info_ok ai x"
    by (rule A(3) [OF w(1,4,6,7) kept_tainted [OF B(1) p(2)]])
  moreover have "wf b \<and> eval env b l = Some y \<and> info_ok bi y"
    by (rule B(3) [OF w(2,5) kept_facts_ok [OF A(1) w(6)] w(8) p(2)])
  ultimately show "visit_pre env l (Cmp op a b) v bs s2 \<and> etype (Cmp op a b) = etype (Cmp op a0 b0) \<and> etype a = etype a0 \<and>
      (\<exists>x y. v = cmp_val op x y \<and> info_ok ai x \<and> info_ok bi y)"
    using p(1) w A(2) B(2) kept_facts_ok [OF k w(6)] by (auto simp: visit_pre_def)
qed

lemma made_cmp_ok:
  assumes "with_bounds (Cmp_make op a b) bs s = Some r"
    and "C \<Longrightarrow> \<not> tainted s \<Longrightarrow> visit_pre env l (Cmp op a b) v bs s"
  shows "simp_ok C env l v ty bs s r"
  by (rule simp_ok_with_bounds [OF assms(1)])
    (use assms(2) in \<open>auto simp: visit_pre_def Cmp_make_def split: if_splits\<close>)

lemma unsimplified_cmp_ok:
  assumes "unsimplified_cmp mu op a0 b0 bs s = Some r"
  shows "simp_ok (visit_pre env l (Cmp op a0 b0) v bs s) env l v ty bs s r"
proof -
  obtain a s1 b s2 where m: "mutate_plain mu a0 s = Some (a, s1)" "mutate_plain mu b0 s1 = Some (b, s2)"
    "with_bounds (Cmp_make op a b) bs s2 = Some r"
    using assms by (auto simp: unsimplified_cmp_def bind_eq_Some_conv)
  show ?thesis
    by (rule simp_ok_after [OF cmp_operands(1) [OF m(1,2)] refl made_cmp_ok [OF m(3)]])
      (use cmp_operands(2) [OF m(1,2), of env l op v bs] in blast)
qed

text \<open>A visitor that hands over to an equivalent expression.\<close>

lemma redirect_ok:
  assumes "mu e' bs s = Some r" "visit_pre env l e v bs s \<Longrightarrow> wf e' \<and> eval env e' l = Some v"
    and "etype e = ty"
  shows "simp_ok (visit_pre env l e v bs s) env l v ty bs s r"
  by (rule remutate_ok [OF assms(1)]) (use assms(2,3) in \<open>auto simp: visit_pre_def simp_pre_def lane_okt_def\<close>)

lemma visit_NE_ok:
  assumes "visit_NE mu a b bs s = Some r"
  shows "simp_ok (visit_pre env l (NE a b) v bs s) env l v (etype (NE a b)) bs s r"
proof (cases "may_simplify s (etype a)")
  case False
  then show ?thesis using assms unsimplified_cmp_ok by (simp add: visit_NE_def)
next
  case True
  then have m: "mu (NotE (EQ a b)) bs s = Some r"
    using assms by (auto simp: visit_NE_def bind_eq_Some_conv Cmp_make_def Not_make_def split: if_splits)
  show ?thesis
    by (rule redirect_ok [OF m], erule cmp_pre) (auto simp: cmp_val_def)
qed

lemma visit_LE_ok:
  assumes "visit_LE mu a b bs s = Some r"
  shows "simp_ok (visit_pre env l (LE a b) v bs s) env l v (etype (LE a b)) bs s r"
proof (cases "may_simplify s (etype a)")
  case False
  then show ?thesis using assms unsimplified_cmp_ok by (simp add: visit_LE_def)
next
  case True
  then have m: "mu (NotE (LT b a)) bs s = Some r"
    using assms by (auto simp: visit_LE_def bind_eq_Some_conv Cmp_make_def Not_make_def split: if_splits)
  show ?thesis
    by (rule redirect_ok [OF m], erule cmp_pre) (auto simp: cmp_val_def)
qed

lemma visit_GT_ok:
  assumes "visit_GT mu a b bs s = Some r"
  shows "simp_ok (visit_pre env l (GT a b) v bs s) env l v (etype (GT a b)) bs s r"
proof (cases "may_simplify s (etype a)")
  case False
  then show ?thesis using assms unsimplified_cmp_ok by (simp add: visit_GT_def)
next
  case True
  then have m: "mu (LT b a) bs s = Some r"
    using assms by (auto simp: visit_GT_def bind_eq_Some_conv Cmp_make_def split: if_splits)
  show ?thesis
    by (rule redirect_ok [OF m], erule cmp_pre) (auto simp: cmp_val_def)
qed

lemma visit_GE_ok:
  assumes "visit_GE mu a b bs s = Some r"
  shows "simp_ok (visit_pre env l (GE a b) v bs s) env l v (etype (GE a b)) bs s r"
proof (cases "may_simplify s (etype a)")
  case False
  then show ?thesis using assms unsimplified_cmp_ok by (simp add: visit_GE_def)
next
  case True
  then have m: "mu (NotE (LT a b)) bs s = Some r"
    using assms by (auto simp: visit_GE_def bind_eq_Some_conv Cmp_make_def Not_make_def split: if_splits)
  show ?thesis
    by (rule redirect_ok [OF m], erule cmp_pre) (auto simp: cmp_val_def)
qed

lemma visit_LT_ok:
  assumes "visit_LT F mu a0 b0 bs s = Some r"
  shows "simp_ok (visit_pre env l (LT a0 b0) v bs s) env l v (etype (LT a0 b0)) bs s r"
proof -
  let ?ty = "etype (LT a0 b0)" and ?t = "etype a0"
  obtain a ai s1 b bi s2 where m: "mutate_info mu a0 s = Some (a, ai, s1)" "mutate_info mu b0 s1 = Some (b, bi, s2)"
    and tl: "(if fact_count F (LT a0 b0) (truths s2) then with_bounds (const_true F (lanes ?ty)) bs s2
     else if fact_count F (LT a0 b0) (falsehoods s2) then with_bounds (const_false F (lanes ?ty)) bs s2
     else if may_simplify s2 ?t then
       if max_defined ai \<and> min_defined bi \<and> info_max ai < info_min bi then
         with_bounds (const_true F (lanes ?ty)) bs s2
       else if min_defined ai \<and> max_defined bi \<and> info_min ai \<ge> info_max bi then
         with_bounds (const_false F (lanes ?ty)) bs s2
       else rewrite_node F mu
         [(False, Some lt_direct_1), limit_group lt_direct_limits F ?t, (False, Some (lt_direct_rest ?ty))]
         (table (lt_chain ?ty ?t)) (LT a b) ?ty (Cmp_make OpLT a b) bs s2
     else with_bounds (Cmp_make OpLT a b) bs s2) = Some r"
    using assms by (auto simp: visit_LT_def bind_eq_Some_conv Let_def simp del: etype.simps)
  note O = cmp_info_operands [OF m]
  let ?C = "visit_pre env l (LT a0 b0) v bs s \<and> \<not> tainted s2"
  have pre: "visit_pre env l (LT a b) v bs s2 \<and> etype (LT a b) = ?ty \<and> etype a = ?t \<and>
      (\<exists>x y. v = cmp_val OpLT x y \<and> info_ok ai x \<and> info_ok bi y)" if ?C
    using O(2) [of env l OpLT v bs] that by blast
  have orig: "visit_pre env l (LT a0 b0) v bs s2 \<and> is_bool (etype (LT a0 b0))" if ?C
    using that kept_facts_ok [OF O(1)] by (auto simp: visit_pre_def)
  have "simp_ok ?C env l v ?ty bs s2 r"
  proof -
    let ?less = "max_defined ai \<and> min_defined bi \<and> info_max ai < info_min bi"
    let ?geq = "min_defined ai \<and> max_defined bi \<and> info_min ai \<ge> info_max bi"
    show ?thesis
    proof (cases "fact_count F (LT a0 b0) (truths s2)")
      case True
      show ?thesis by (rule known_true_ok [OF tl [unfolded if_P [OF True]] True orig])
    next
      case nt: False
      note tl1 = tl [unfolded if_not_P [OF nt]]
      show ?thesis
      proof (cases "fact_count F (LT a0 b0) (falsehoods s2)")
        case True
        show ?thesis by (rule known_false_ok [OF tl1 [unfolded if_P [OF True]] True orig])
      next
        case nf: False
        note tl2 = tl1 [unfolded if_not_P [OF nf]]
        show ?thesis
        proof (cases "may_simplify s2 ?t")
          case False
          show ?thesis by (rule made_cmp_ok [OF tl2 [unfolded if_not_P [OF False]]]) (use pre in blast)
        next
          case m: True
          note tl3 = tl2 [unfolded if_P [OF m]]
          consider (less) ?less | (geq) "\<not> ?less" ?geq | (rules) "\<not> ?less" "\<not> ?geq" by blast
          then show ?thesis
          proof cases
            case less
            have "v = of_bool True" if ?C using pre [OF that] less by (auto simp: info_ok_def cmp_val_def)
            then show ?thesis
              by (intro decided_ok [where p = True]) (use tl3 [unfolded if_P [OF less]] orig in auto)
          next
            case geq
            have "v = of_bool False" if ?C using pre [OF that] geq(2) by (auto simp: info_ok_def cmp_val_def)
            then show ?thesis
              by (intro decided_ok [where p = False])
                (use tl3 [unfolded if_not_P [OF geq(1)] if_P [OF geq(2)]] orig in auto)
          next
            case rules
            show ?thesis
            proof (rule rewrite_node_ok [OF tl3 [unfolded if_not_P [OF rules(1)] if_not_P [OF rules(2)]]])
              show "visit_pre env l (LT a b) v bs s2 \<and> etype (LT a b) = ?ty" if ?C using pre [OF that] by blast
              show "group_ok F env l (LT a b) g" if ?C "g \<in> set [(False, Some lt_direct_1), limit_group lt_direct_limits F ?t,
                  (False, Some (lt_direct_rest ?ty))] \<union> set (table (lt_chain ?ty ?t))" for g
                by (rule LT_groups [OF that(2)]) (use pre [OF that(1)] in \<open>auto simp: visit_pre_def\<close>)
              show "wf e' \<and> eval env e' l = Some v" if ?C "Cmp_make OpLT a b = Some e'" for e'
                using pre [OF that(1)] that(2) by (auto simp: visit_pre_def Cmp_make_def split: if_splits)
            qed
          qed
        qed
      qed
    qed
  qed
  then show ?thesis by (rule simp_ok_after [OF O(1) refl])
qed

lemma compare_zero_ok:
  assumes "compare_zero F mu ty delta bs s = Some r"
  shows "simp_ok (wf delta \<and> ty = etype (EQ delta delta) \<and> l < lanes ty \<and> facts_ok env s \<and>
      (\<exists>d. eval env delta l = Some d \<and> v = of_bool (d = 0)) \<and> opt_ok bs v) env l v ty bs s r"
    (is "simp_ok ?C env l v ty bs s r")
proof -
  let ?t = "etype delta"
  let ?chain = "[(False, Some (eq_chain ty ?t)), (\<not> no_overflow ?t, Some eq_chain_clamp), (False, Some eq_chain_bound)]"
  obtain zero r1 s1 where z: "make_const F ?t 0 = Some zero"
    and c: "try_groups F mu ?chain (EQ delta zero) ty s = Some (r1, s1)"
    and r1: "(case r1 of Some e \<Rightarrow> mu e bs s1
     | None \<Rightarrow> do {
         (r, s) \<leftarrow> try_groups F mu (table eq_direct) (EQ delta zero) ty s1;
         case r of Some e \<Rightarrow> Some (e, bs, s)
         | None \<Rightarrow>
             with_bounds (case delta of
                 Bin op x y \<Rightarrow> if op = OpSub then Cmp_make OpEQ x y else Cmp_make OpEQ delta zero
               | _ \<Rightarrow> Cmp_make OpEQ delta zero) bs s }) = Some r"
    using assms by (auto simp: compare_zero_def bind_eq_Some_conv Let_def)
  have e: "wf (EQ delta zero) \<and> etype (EQ delta zero) = ty \<and> l < lanes ty \<and> eval env (EQ delta zero) l = Some v \<and>
      legal_type ty \<and> visit_pre env l (EQ delta zero) v bs s" if C: ?C
  proof -
    obtain d where d: "eval env delta l = Some d" "v = of_bool (d = 0)" and w: "wf delta" using C by blast
    have lt: "legal_type ?t" by (rule wf_legal [OF w])
    from made_constant [OF z lt represents_zero [OF eval_num [OF w d(1)]], of env l] have "wf zero" "etype zero = ?t" "eval env zero l = Some 0" by blast+
    then show ?thesis using C w d wf_legal [of "EQ delta zero"] by (auto simp: cmp_val_def visit_pre_def)
  qed
  have groups: "group_ok F env l (EQ delta zero) g" if ?C "g \<in> set ?chain \<union> set (table eq_direct)" for g
    by (rule EQ_groups [OF that(2)]) (use e [OF that(1)] in auto)
  note k1 = try_groups_kept [OF c]
  show ?thesis
  proof (cases r1)
    case (Some e')
    have m: "mu e' bs s1 = Some r" using r1 Some by simp
    show ?thesis
    proof (rule simp_ok_after [OF k1 refl remutate_ok [OF m]])
      assume C: "?C \<and> \<not> tainted s1" and ty: "etype e' = ty"
      have "wf e' \<and> eval env e' l = Some v"
        using try_groups_sound [of "EQ delta zero" ty l env v F ?chain s e' s1] e C c groups Some by blast
      then show "simp_pre env l e' v bs s1"
        using C ty kept_facts_ok [OF k1] by (auto simp: simp_pre_def lane_okt_def)
    qed
  next
    case None
    then obtain r2 s2 where d: "try_groups F mu (table eq_direct) (EQ delta zero) ty s1 = Some (r2, s2)"
      and r2: "(case r2 of Some e \<Rightarrow> Some (e, bs, s2)
         | None \<Rightarrow>
             with_bounds (case delta of
                 Bin op x y \<Rightarrow> if op = OpSub then Cmp_make OpEQ x y else Cmp_make OpEQ delta zero
               | _ \<Rightarrow> Cmp_make OpEQ delta zero) bs s2) = Some r"
      using r1 by (auto simp: bind_eq_Some_conv)
    have k: "kept s s2" using k1 try_groups_kept [OF d] kept_trans by blast
    show ?thesis
    proof (cases r2)
      case (Some e')
      then have r: "r = (e', bs, s2)" using r2 by simp
      show ?thesis
        unfolding r
      proof (rule simp_ok_after [OF k refl simp_ok_done])
        assume C: "?C \<and> \<not> tainted s2"
        then show "wf e' \<and> eval env e' l = Some v \<and> opt_ok bs v"
          using try_groups_sound [of "EQ delta zero" ty l env v F "table eq_direct" s1 e' s2] e d groups Some
            kept_facts_ok [OF k1] by blast
      qed
    next
      case None
      then have w: "with_bounds (case delta of
                 Bin op x y \<Rightarrow> if op = OpSub then Cmp_make OpEQ x y else Cmp_make OpEQ delta zero
               | _ \<Rightarrow> Cmp_make OpEQ delta zero) bs s2 = Some r" using r2 by simp
      show ?thesis
      proof (cases "\<exists>x y. delta = Sub x y")
        case True
        then obtain x y where xy: "delta = Sub x y" by blast
        then have m: "with_bounds (Cmp_make OpEQ x y) bs s2 = Some r" using w by simp
        show ?thesis
        proof (rule simp_ok_after [OF k refl made_cmp_ok [OF m]])
          assume C: "?C \<and> \<not> tainted s2"
          then have wd: "wf x" "wf y" "etype x = etype y" by (simp_all add: xy)
          obtain d where d: "eval env delta l = Some d" "v = of_bool (d = 0)" using C by blast
          then obtain a b where ab: "eval env x l = Some a" "eval env y l = Some b" "d = norm (etype x) (a - b)"
            by (auto simp: xy bind_eq_Some_conv)
          have "d = 0 \<longleftrightarrow> a = b"
            using eval_range [OF wd(1) ab(1)] eval_range [OF wd(2) ab(2)] wd(3) ab(3) norm_zero_iff [of "etype x" a b]
            by (simp add: ranged_def)
          then show "visit_pre env l (EQ x y) v bs s2"
            using C wd ab d(2) kept_facts_ok [OF k] by (auto simp: visit_pre_def cmp_val_def xy)
        qed
      next
        case False
        then have m: "with_bounds (Cmp_make OpEQ delta zero) bs s2 = Some r" using w by (auto split: expr.splits if_splits)
        show ?thesis
          by (rule simp_ok_after [OF k refl made_cmp_ok [OF m]])
            (use e kept_facts_ok [OF k] in \<open>auto simp: visit_pre_def\<close>)
      qed
    qed
  qed
qed

lemma visit_EQ_ok:
  assumes "visit_EQ F mu a0 b0 bs s = Some r"
  shows "simp_ok (visit_pre env l (EQ a0 b0) v bs s) env l v (etype (EQ a0 b0)) bs s r"
proof -
  let ?ty = "etype (EQ a0 b0)" and ?C = "visit_pre env l (EQ a0 b0) v bs s"
  have orig: "?C \<and> is_bool ?ty" if ?C using that by simp
  consider (true) "fact_count F (EQ a0 b0) (truths s)" "with_bounds (const_true F (lanes ?ty)) bs s = Some r"
    | (false) "fact_count F (EQ a0 b0) (falsehoods s)" "with_bounds (const_false F (lanes ?ty)) bs s = Some r"
    | (plain) "unsimplified_cmp mu OpEQ a0 b0 bs s = Some r"
    | (bool) a s1 b s2 where "is_bool (etype a0)" "mutate_plain mu a0 s = Some (a, s1)" "mutate_plain mu b0 s1 = Some (b, s2)"
       "rewrite_node F mu (table eq_bool_one) (table eq_bool_zero) (EQ a b) ?ty (Cmp_make OpEQ a b) bs s2 = Some r"
    | (delta) delta i s1 where "mutate_info mu (Sub a0 b0) s = Some (delta, i, s1)"
       "(if min_defined i \<and> info_min i > 0 then with_bounds (const_false F (lanes ?ty)) bs s1
           else if max_defined i \<and> info_max i < 0 then with_bounds (const_false F (lanes ?ty)) bs s1
           else if remainder (alignment i) \<noteq> 0 then
             with_bounds (const_false F (lanes ?ty)) bs (taint_if (mr_has (alignment i) 0) s1)
           else compare_zero F mu ?ty delta bs s1) = Some r"
  proof (cases "fact_count F (EQ a0 b0) (truths s) \<or> fact_count F (EQ a0 b0) (falsehoods s) \<or> \<not> may_simplify s (etype a0)")
    case True
    then show ?thesis
      using assms that(1-3) by (auto simp: visit_EQ_def Let_def simp del: etype.simps split: if_split_asm)
  next
    case False
    show ?thesis
    proof (cases "is_bool (etype a0)")
      case True
      then show ?thesis
        using assms False that(4) by (auto simp: visit_EQ_def Let_def bind_eq_Some_conv simp del: etype.simps)
    next
      case nb: False
      then obtain d delta i s1 where d: "Bin_make OpSub a0 b0 = Some d" "mutate_info mu d s = Some (delta, i, s1)"
       "(if min_defined i \<and> info_min i > 0 then with_bounds (const_false F (lanes ?ty)) bs s1
           else if max_defined i \<and> info_max i < 0 then with_bounds (const_false F (lanes ?ty)) bs s1
           else if remainder (alignment i) \<noteq> 0 then
             with_bounds (const_false F (lanes ?ty)) bs (taint_if (mr_has (alignment i) 0) s1)
           else compare_zero F mu ?ty delta bs s1) = Some r"
        using assms False by (auto simp: visit_EQ_def Let_def bind_eq_Some_conv simp del: etype.simps)
      then have "d = Sub a0 b0" by (auto simp: Bin_make_def split: if_splits)
      then show ?thesis using d that(5) by blast
    qed
  qed
  then show ?thesis
  proof cases
    case true
    then show ?thesis using known_true_ok [OF true(2,1)] orig by blast
  next
    case false
    then show ?thesis using known_false_ok [OF false(2,1)] orig by blast
  next
    case plain
    then show ?thesis by (rule unsimplified_cmp_ok)
  next
    case bool
    note O = cmp_operands [OF bool(2,3)]
    have ea: "etype a = etype a0" using plain(2) [OF bool(2)] .
    show ?thesis
    proof (rule simp_ok_after [OF O(1) refl rewrite_node_ok [OF bool(4)]])
      show "visit_pre env l (EQ a b) v bs s2 \<and> etype (EQ a b) = ?ty" if "?C \<and> \<not> tainted s2"
        using O(2) [of env l OpEQ v bs] that by blast
      show "group_ok F env l (EQ a b) g" if "?C \<and> \<not> tainted s2" "g \<in> set (table eq_bool_one) \<union> set (table eq_bool_zero)" for g
        by (rule EQ_bool_groups [OF that(2)]) (use O(2) [of env l OpEQ v bs] that(1) bool(1) ea in \<open>auto simp: visit_pre_def\<close>)
      show "wf e' \<and> eval env e' l = Some v" if "?C \<and> \<not> tainted s2" "Cmp_make OpEQ a b = Some e'" for e'
        using O(2) [of env l OpEQ v bs] that by (auto simp: visit_pre_def Cmp_make_def split: if_splits)
    qed
  next
    case delta
    note D = info [OF delta(1)]
    have main: "wf delta \<and> ?ty = etype (EQ delta delta) \<and> l < lanes ?ty \<and> facts_ok env s1 \<and>
      (\<exists>d. eval env delta l = Some d \<and> v = of_bool (d = 0) \<and> info_ok i d) \<and> opt_ok bs v \<and>
      visit_pre env l (EQ a0 b0) v bs s1" if C: "?C \<and> \<not> tainted s1"
    proof -
      obtain x y where w: "wf a0" "wf b0" "etype a0 = etype b0" "lane_ok l a0" "facts_ok env s"
        "eval env a0 l = Some x" "eval env b0 l = Some y" "v = cmp_val OpEQ x y" "opt_ok bs v" "l < lanes (etype a0)"
        by (rule cmp_pre [OF conjunct1 [OF C]])
      have "eval env (Sub a0 b0) l = Some (norm (etype a0) (x - y))" using w by simp
      moreover have "norm (etype a0) (x - y) = 0 \<longleftrightarrow> x = y"
        using eval_range [OF w(1,6)] eval_range [OF w(2,7)] w(3) norm_zero_iff [of "etype a0" x y]
        by (simp add: ranged_def)
      ultimately show ?thesis
        using D(3) [of l env "norm (etype a0) (x - y)"] w C D(2) kept_facts_ok [OF D(1) w(5)]
        by (simp add: cmp_val_def visit_pre_def)
    qed
    let ?D = "?C \<and> \<not> tainted s1"
    have false: "simp_ok ?D env l v ?ty bs s1 r"
      if f: "with_bounds (const_false F (lanes ?ty)) bs s' = Some r" "kept s1 s'"
        "\<And>d. info_ok i d \<Longrightarrow> \<not> tainted s' \<Longrightarrow> d \<noteq> 0" for s'
    proof (rule simp_ok_after [OF f(2) refl decided_ok [where p = False and e = "EQ a0 b0"]])
      show "with_bounds (if False then const_true F (lanes ?ty) else const_false F (lanes ?ty)) bs s' = Some r"
        using f(1) by simp
      show "visit_pre env l (EQ a0 b0) v bs s' \<and> is_bool ?ty \<and> v = of_bool False" if C: "?D \<and> \<not> tainted s'"
        using main C f(3) kept_facts_ok [OF f(2)] by (auto simp: visit_pre_def)
    qed
    let ?pos = "min_defined i \<and> info_min i > 0" and ?neg = "max_defined i \<and> info_max i < 0"
    consider (pos) ?pos | (neg) "\<not> ?pos" ?neg | (rem) "\<not> ?pos" "\<not> ?neg" "remainder (alignment i) \<noteq> 0"
      | (zero) "\<not> ?pos" "\<not> ?neg" "\<not> remainder (alignment i) \<noteq> 0"
      by blast
    then have "simp_ok ?D env l v ?ty bs s1 r"
    proof cases
      case pos
      show ?thesis
        by (rule false [OF delta(2) [unfolded if_P [OF pos]]]) (use pos in \<open>auto simp: info_ok_def\<close>)
    next
      case neg
      show ?thesis
        by (rule false [OF delta(2) [unfolded if_not_P [OF neg(1)] if_P [OF neg(2)]]]) (use neg in \<open>auto simp: info_ok_def\<close>)
    next
      case rem
      show ?thesis
        by (rule false [OF delta(2) [unfolded if_not_P [OF rem(1)] if_not_P [OF rem(2)] if_P [OF rem(3)]]])
          (auto simp: info_ok_def)
    next
      case zero
      show ?thesis
        by (rule simp_ok_mono [OF compare_zero_ok [OF delta(2) [unfolded if_not_P [OF zero(1)] if_not_P [OF zero(2)] if_not_P [OF zero(3)]]]])
          (use main in blast)
    qed
    then show ?thesis by (rule simp_ok_after [OF D(1) refl])
  qed
qed

end

end
