(* ===== verification/Interval.thy ===== *)
theory Interval
  imports IRCompare
begin

text \<open>
  \<open>Interval.h\<close> and \<open>Interval.cpp\<close>: ranges of expressions. The ends are expressions or one of
  two variables of a handle type that stand for the infinities. Minima and maxima are
  simplified as they are built. The meaning of an end is an extended integer, on which
  \<open>make_max\<close> and \<open>make_min\<close> are maximum and minimum; that of an interval is a set of integers.
\<close>

section \<open>Intervals\<close>

record interval =
  iv_min :: expr
  iv_max :: expr

definition pos_inf :: expr where
  "pos_inf = Variable (HandleT 1) ''pos_inf''"

definition neg_inf :: expr where
  "neg_inf = Variable (HandleT 1) ''neg_inf''"

definition everything :: interval where
  "everything = \<lparr>iv_min = neg_inf, iv_max = pos_inf\<rparr>"

definition nothing :: interval where
  "nothing = \<lparr>iv_min = pos_inf, iv_max = neg_inf\<rparr>"

definition single_point :: "expr \<Rightarrow> interval" where
  "single_point e = \<lparr>iv_min = e, iv_max = e\<rparr>"

text \<open>
  The infinities are the only variables of their type and name, so that the tests for them
  can compare nodes.
\<close>

definition iv_is_empty :: "interval \<Rightarrow> bool" where
  "iv_is_empty i \<longleftrightarrow> iv_min i = pos_inf \<or> iv_max i = neg_inf"

definition iv_is_everything :: "interval \<Rightarrow> bool" where
  "iv_is_everything i \<longleftrightarrow> iv_min i = neg_inf \<and> iv_max i = pos_inf"

definition has_upper_bound :: "interval \<Rightarrow> bool" where
  "has_upper_bound i \<longleftrightarrow> iv_max i \<noteq> pos_inf \<and> \<not> iv_is_empty i"

definition has_lower_bound :: "interval \<Rightarrow> bool" where
  "has_lower_bound i \<longleftrightarrow> iv_min i \<noteq> neg_inf \<and> \<not> iv_is_empty i"

definition iv_is_bounded :: "interval \<Rightarrow> bool" where
  "iv_is_bounded i \<longleftrightarrow> has_upper_bound i \<and> has_lower_bound i"

section \<open>Extrema\<close>

text \<open>
  \<open>make_max\<close> and \<open>make_min\<close> are the same function up to the operator and the infinities: \<open>hi\<close>
  absorbs and \<open>lo\<close> is neutral. Elsewhere nodes are compared by \<open>same_as\<close>, which depends on how
  they are shared: it is a parameter, of which only that it implies equality is used.
\<close>

definition const_greater :: "float_ops \<Rightarrow> expr \<Rightarrow> expr \<Rightarrow> bool option" where
  "const_greater F a b =
     (case (as_const_int a, as_const_int b) of (Some ia, Some ib) \<Rightarrow> Some (ia > ib)
      | _ \<Rightarrow> (case (as_const_uint a, as_const_uint b) of (Some ua, Some ub) \<Rightarrow> Some (ua > ub)
      | _ \<Rightarrow> (case (as_const_float a, as_const_float b) of (Some fa, Some fb) \<Rightarrow> Some (fl_lt F fb fa)
      | _ \<Rightarrow> None)))"

definition easy_extremum ::
  "bin_op \<Rightarrow> expr \<Rightarrow> expr \<Rightarrow> (expr \<Rightarrow> expr \<Rightarrow> bool) \<Rightarrow> float_ops \<Rightarrow> expr \<Rightarrow> expr \<Rightarrow> expr option" where
  "easy_extremum op hi lo same F a b =
     (if same a b then Some a
      else if a = hi then Some a
      else if b = hi then Some b
      else if a = lo then Some b
      else if b = lo then Some a
      else if deep_equal F a b then Some a
      else map_option (\<lambda>greater. if greater = (op = OpMax) then a else b) (const_greater F a b))"

fun operator_args :: "bin_op \<Rightarrow> expr \<Rightarrow> (expr \<times> expr) option" where
  "operator_args op (Bin op' x y) = (if op' = op then Some (x, y) else None)"
| "operator_args op _ = None"

text \<open>Trees are balanced to the left, with constants to the right.\<close>

definition balance :: "bin_op \<Rightarrow> expr \<Rightarrow> expr \<Rightarrow> expr \<times> expr" where
  "balance op a b =
     (case (operator_args op a, operator_args op b) of
        (None, Some (x, y)) \<Rightarrow> if is_const x \<and> is_const y then (a, b) else (b, a)
      | _ \<Rightarrow> (a, b))"

partial_function (option) make_extremum ::
  "bin_op \<Rightarrow> expr \<Rightarrow> expr \<Rightarrow> (expr \<Rightarrow> expr \<Rightarrow> bool) \<Rightarrow> float_ops \<Rightarrow> expr \<Rightarrow> expr \<Rightarrow> expr option" where
  "make_extremum op hi lo same F a b =
     (case easy_extremum op hi lo same F a b of
        Some e \<Rightarrow> Some e
      | None \<Rightarrow>
          (case balance op a b of (a, b) \<Rightarrow>
             (case operator_args op a of
                Some (x, y) \<Rightarrow>
                  if is_const y \<and> is_const b then
                    Option.bind (make_extremum op hi lo same F y b) (make_extremum op hi lo same F x)
                  else if same x b \<or> same y b then Some a
                  else Bin_make op a b
              | None \<Rightarrow> Bin_make op a b)))"

declare make_extremum.simps [code]

definition make_max :: "(expr \<Rightarrow> expr \<Rightarrow> bool) \<Rightarrow> float_ops \<Rightarrow> expr \<Rightarrow> expr \<Rightarrow> expr option" where
  "make_max same F = make_extremum OpMax pos_inf neg_inf same F"

definition make_min :: "(expr \<Rightarrow> expr \<Rightarrow> bool) \<Rightarrow> float_ops \<Rightarrow> expr \<Rightarrow> expr \<Rightarrow> expr option" where
  "make_min same F = make_extremum OpMin neg_inf pos_inf same F"

definition include_interval ::
  "(expr \<Rightarrow> expr \<Rightarrow> bool) \<Rightarrow> float_ops \<Rightarrow> interval \<Rightarrow> interval \<Rightarrow> interval option" where
  "include_interval same F i j = do {
     hi \<leftarrow> make_max same F (iv_max i) (iv_max j);
     lo \<leftarrow> make_min same F (iv_min i) (iv_min j);
     Some \<lparr>iv_min = lo, iv_max = hi\<rparr> }"

definition include_expr :: "(expr \<Rightarrow> expr \<Rightarrow> bool) \<Rightarrow> float_ops \<Rightarrow> interval \<Rightarrow> expr \<Rightarrow> interval option" where
  "include_expr same F i e = do {
     hi \<leftarrow> make_max same F (iv_max i) e;
     lo \<leftarrow> make_min same F (iv_min i) e;
     Some \<lparr>iv_min = lo, iv_max = hi\<rparr> }"

definition make_union :: "(expr \<Rightarrow> expr \<Rightarrow> bool) \<Rightarrow> float_ops \<Rightarrow> interval \<Rightarrow> interval \<Rightarrow> interval option" where
  "make_union same F a b = include_interval same F a b"

definition make_intersection ::
  "(expr \<Rightarrow> expr \<Rightarrow> bool) \<Rightarrow> float_ops \<Rightarrow> interval \<Rightarrow> interval \<Rightarrow> interval option" where
  "make_intersection same F a b = do {
     lo \<leftarrow> make_max same F (iv_min a) (iv_min b);
     hi \<leftarrow> make_min same F (iv_max a) (iv_max b);
     Some \<lparr>iv_min = lo, iv_max = hi\<rparr> }"

section \<open>Meaning\<close>

text \<open>The integers with both infinities.\<close>

datatype ext_int = NegInf | Fin int | PosInf

instantiation ext_int :: linorder
begin

fun less_eq_ext_int :: "ext_int \<Rightarrow> ext_int \<Rightarrow> bool" where
  "NegInf \<le> y \<longleftrightarrow> True"
| "x \<le> PosInf \<longleftrightarrow> True"
| "Fin a \<le> Fin b \<longleftrightarrow> a \<le> b"
| "(x :: ext_int) \<le> y \<longleftrightarrow> False"

definition less_ext_int :: "ext_int \<Rightarrow> ext_int \<Rightarrow> bool" where
  "less_ext_int x y \<longleftrightarrow> x \<le> y \<and> \<not> y \<le> x"

instance
proof
  fix x y z :: ext_int
  show "(x < y) = (x \<le> y \<and> \<not> y \<le> x)" by (rule less_ext_int_def)
  show "x \<le> x" by (cases x) auto
  show "x \<le> y \<Longrightarrow> y \<le> z \<Longrightarrow> x \<le> z" by (cases x; cases y; cases z) auto
  show "x \<le> y \<Longrightarrow> y \<le> x \<Longrightarrow> x = y" by (cases x; cases y) auto
  show "x \<le> y \<or> y \<le> x" by (cases x; cases y) auto
qed

end

definition end_val :: "eval_env \<Rightarrow> nat \<Rightarrow> expr \<Rightarrow> ext_int option" where
  "end_val env l e =
     (if e = pos_inf then Some PosInf else if e = neg_inf then Some NegInf else map_option Fin (eval env e l))"

definition end_ok :: "halide_type \<Rightarrow> expr \<Rightarrow> bool" where
  "end_ok t e \<longleftrightarrow> e = pos_inf \<or> e = neg_inf \<or> wf e \<and> etype e = t"

definition interval_ok :: "halide_type \<Rightarrow> interval \<Rightarrow> bool" where
  "interval_ok t i \<longleftrightarrow> end_ok t (iv_min i) \<and> end_ok t (iv_max i)"

text \<open>The values between the ends, where these are defined.\<close>

definition interval_has :: "eval_env \<Rightarrow> nat \<Rightarrow> interval \<Rightarrow> int \<Rightarrow> bool" where
  "interval_has env l i v \<longleftrightarrow>
     (\<exists>lo hi. end_val env l (iv_min i) = Some lo \<and> end_val env l (iv_max i) = Some hi \<and> lo \<le> Fin v \<and> Fin v \<le> hi)"

definition interval_defined :: "eval_env \<Rightarrow> nat \<Rightarrow> interval \<Rightarrow> bool" where
  "interval_defined env l i \<longleftrightarrow> end_val env l (iv_min i) \<noteq> None \<and> end_val env l (iv_max i) \<noteq> None"

definition extreme :: "bin_op \<Rightarrow> ext_int \<Rightarrow> ext_int \<Rightarrow> ext_int" where
  "extreme op x y = (if op = OpMax then max x y else min x y)"

lemma inf_neq [simp]: "pos_inf \<noteq> neg_inf" "neg_inf \<noteq> pos_inf"
  by (simp_all add: pos_inf_def neg_inf_def)

lemma end_val_const: "as_const_int e = Some c \<Longrightarrow> end_val env l e = Some (Fin c)"
  using as_const_int_eval [of e c env l] by (auto simp: end_val_def pos_inf_def neg_inf_def)

lemma operator_args_Some: "operator_args op e = Some (x, y) \<longleftrightarrow> e = Bin op x y"
  by (cases "(op, e)" rule: operator_args.cases) auto

lemma end_val_Bin [simp]: "end_val env l (Bin op x y) = map_option Fin (eval env (Bin op x y) l)"
  by (simp add: end_val_def pos_inf_def neg_inf_def)

lemma end_ok_Bin: "end_ok t (Bin op x y) \<longleftrightarrow> wf (Bin op x y) \<and> etype (Bin op x y) = t"
  by (simp add: end_ok_def pos_inf_def neg_inf_def)

lemma Fin_extreme:
  "op = OpMax \<or> op = OpMin \<Longrightarrow> bin_val op N x y = Some z \<Longrightarrow> Fin z = extreme op (Fin x) (Fin y)"
  by (auto simp: extreme_def max_def min_def)

lemma extreme_simps:
  "extreme op x x = x" "extreme op (extreme op x y) x = extreme op x y" "extreme op (extreme op x y) y = extreme op x y"
  "extreme op (extreme op x y) z = extreme op x (extreme op y z)" "extreme op y x = extreme op x y"
  by (simp_all add: extreme_def max.assoc max.commute max.left_commute min.assoc min.commute min.left_commute)

text \<open>The two operators with their infinities.\<close>

definition ext_op :: "bin_op \<Rightarrow> expr \<Rightarrow> expr \<Rightarrow> bool" where
  "ext_op op hi lo \<longleftrightarrow> op = OpMax \<and> hi = pos_inf \<and> lo = neg_inf \<or> op = OpMin \<and> hi = neg_inf \<and> lo = pos_inf"

lemma ext_op_cases: "ext_op op hi lo \<Longrightarrow> op = OpMax \<or> op = OpMin"
  by (auto simp: ext_op_def)

lemma extreme_inf:
  assumes "ext_op op hi lo"
  shows "end_val env l hi = Some x \<Longrightarrow> extreme op x y = x" "end_val env l lo = Some x \<Longrightarrow> extreme op x y = y"
proof -
  have "NegInf \<le> y" "y \<le> PosInf" by (cases y, simp_all)+
  then show "end_val env l hi = Some x \<Longrightarrow> extreme op x y = x" "end_val env l lo = Some x \<Longrightarrow> extreme op x y = y"
    using assms by (auto simp: ext_op_def extreme_def end_val_def max_def min_def)
qed

lemma const_greater_val:
  assumes "const_greater F a b = Some g" "eval env a l = Some x" "eval env b l = Some y"
  shows "g = (x > y)"
proof -
  have "as_const_float e = None \<or> eval env e l = None" for e
    by (induction e rule: as_const_float.induct) auto
  then show ?thesis
    using assms as_const_int_eval [of a _ env l] as_const_int_eval [of b _ env l]
      as_const_uint_eval [of a _ env l] as_const_uint_eval [of b _ env l]
    by (auto simp: const_greater_def split: option.splits) (metis option.distinct(1))+
qed

text \<open>What the construction of an extremum is to give.\<close>

definition extremum_of :: "halide_type \<Rightarrow> bin_op \<Rightarrow> expr \<Rightarrow> expr \<Rightarrow> expr \<Rightarrow> bool" where
  "extremum_of t op a b e \<longleftrightarrow> end_ok t e \<and>
     (\<forall>env l x y. end_val env l a = Some x \<and> end_val env l b = Some y \<longrightarrow> end_val env l e = Some (extreme op x y))"

lemma extremum_of_commute: "extremum_of t op a b e \<Longrightarrow> extremum_of t op b a e"
  unfolding extremum_of_def by (metis extreme_simps(5))

lemma easy_extremum_ok:
  assumes "easy_extremum op hi lo same F a b = Some e" "ext_op op hi lo" "\<And>a b. same a b \<Longrightarrow> a = b"
    and "end_ok t a" "end_ok t b"
  shows "(e = a \<or> e = b) \<and> extremum_of t op a b e"
proof -
  consider (same) "a = b" "e = a" | (hi) "a = hi" "e = a" | (hi') "b = hi" "e = b" | (lo) "a = lo" "e = b" | (lo') "b = lo" "e = a"
    | (equal) "deep_equal F a b" "e = a" "a \<noteq> hi" "b \<noteq> hi" "a \<noteq> lo" "b \<noteq> lo"
    | (const) g where "const_greater F a b = Some g" "e = (if g = (op = OpMax) then a else b)" "a \<noteq> hi" "b \<noteq> hi" "a \<noteq> lo" "b \<noteq> lo"
    using assms(1) assms(3) [of a b] unfolding easy_extremum_def
    by atomize_elim (simp split: if_split_asm; blast)
  then show ?thesis
  proof cases
    case const
    have "end_val env l e = Some (extreme op x y)"
      if ends: "end_val env l a = Some x" "end_val env l b = Some y" for env l x y
    proof -
      obtain i j where v: "eval env a l = Some i" "x = Fin i" "eval env b l = Some j" "y = Fin j"
        using ends const(3-6) assms(2) by (auto simp: end_val_def ext_op_def split: if_splits)
      then have "g = (i > j)" using const_greater_val [OF const(1)] by blast
      then show ?thesis
        using ends v const(2) ext_op_cases [OF assms(2)] by (auto simp: extreme_def max_def min_def)
    qed
    then show ?thesis using assms(4,5) const by (simp add: extremum_of_def)
  next
    case equal
    then show ?thesis
      using assms(2,4) deep_equal_eval [OF equal(1)] by (auto simp: extremum_of_def end_val_def extreme_simps ext_op_def)
  next
    case hi'
    then show ?thesis using assms(5) extreme_inf(1) [OF assms(2)] extreme_simps(5) by (metis extremum_of_def)
  next
    case lo'
    then show ?thesis using assms(4) extreme_inf(2) [OF assms(2)] extreme_simps(5) by (metis extremum_of_def)
  qed (use assms(4,5) extreme_inf [OF assms(2)] in \<open>auto simp: extremum_of_def extreme_simps\<close>)
qed

lemma Bin_extremum:
  assumes "ext_op op hi lo" "end_ok t a" "end_ok t b" "a \<noteq> hi" "b \<noteq> hi" "a \<noteq> lo" "b \<noteq> lo"
  shows "Bin_make op a b = Some (Bin op a b) \<and> extremum_of t op a b (Bin op a b)"
proof -
  have w: "wf a" "wf b" "etype a = t" "etype b = t" and op: "op = OpMax \<or> op = OpMin"
    using assms by (auto simp: ext_op_def end_ok_def)
  have "end_val env l (Bin op a b) = Some (extreme op x y)"
    if "end_val env l a = Some x" "end_val env l b = Some y" for env l x y
    using that assms(1,4-7) op Fin_extreme [OF op]
    by (auto simp: end_val_def ext_op_def bind_eq_Some_conv pos_inf_def neg_inf_def split: if_splits)
  then show ?thesis
    using w op by (auto simp: Bin_make_def extremum_of_def end_ok_Bin)
qed

lemma balance_cases:
  obtains (keep) "balance op a b = (a, b)" "\<And>x y. operator_args op b = Some (x, y) \<Longrightarrow> operator_args op a = None \<Longrightarrow> is_const x \<and> is_const y"
    | (swap) "balance op a b = (b, a)"
  by (cases "operator_args op a"; cases "operator_args op b"; cases "is_const (fst (the (operator_args op b))) \<and> is_const (snd (the (operator_args op b)))")
    (auto simp: balance_def)

lemma operands_ok:
  assumes "ext_op op hi lo" "end_ok t (Bin op x y)" "\<not> is_handle t"
  shows "end_ok t x" "end_ok t y" "x \<noteq> pos_inf" "x \<noteq> neg_inf" "y \<noteq> pos_inf" "y \<noteq> neg_inf"
proof -
  have "wf x" "wf y" "etype x = t" "etype y = t"
    using assms by (auto simp: end_ok_Bin ext_op_def)
  moreover have "is_handle (HandleT 1)" by (simp add: halide_defs)
  ultimately show "end_ok t x" "end_ok t y" "x \<noteq> pos_inf" "x \<noteq> neg_inf" "y \<noteq> pos_inf" "y \<noteq> neg_inf"
    using assms(3) by (auto simp: end_ok_def pos_inf_def neg_inf_def)
qed

lemma end_val_operands:
  assumes "ext_op op hi lo" "end_ok t (Bin op x y)" "\<not> is_handle t" "end_val env l (Bin op x y) = Some z"
  obtains u v where "end_val env l x = Some u" "end_val env l y = Some v" "z = extreme op u v"
proof -
  obtain i j k where v: "eval env x l = Some i" "eval env y l = Some j" "bin_val op (norm (etype x)) i j = Some k" "z = Fin k"
    using assms(4) by (auto simp: bind_eq_Some_conv)
  show ?thesis
    by (rule that [of "Fin i" "Fin j"])
      (use v operands_ok [OF assms(1-3)] Fin_extreme [OF ext_op_cases [OF assms(1)] v(3)] in \<open>simp_all add: end_val_def\<close>)
qed

text \<open>An operand of an extremum adds nothing to it.\<close>

lemma absorbed:
  assumes "ext_op op hi lo" "end_ok t (Bin op x y)" "\<not> is_handle t" "x = b \<or> y = b"
  shows "extremum_of t op (Bin op x y) b (Bin op x y)"
  unfolding extremum_of_def
  using assms(2,4) extreme_simps(2,3) end_val_operands [OF assms(1-3)] by (metis option.inject)

lemma regrouped:
  assumes "ext_op op hi lo" "end_ok t (Bin op x y)" "\<not> is_handle t"
    and "extremum_of t op y b m" "extremum_of t op x m e"
  shows "extremum_of t op (Bin op x y) b e"
  unfolding extremum_of_def
proof (intro conjI allI impI)
  show "end_ok t e" using assms(5) by (simp add: extremum_of_def)
  fix env l z w
  assume v: "end_val env l (Bin op x y) = Some z \<and> end_val env l b = Some w"
  then obtain u u' where u: "end_val env l x = Some u" "end_val env l y = Some u'" "z = extreme op u u'"
    using end_val_operands [OF assms(1-3), of env l z] by blast
  then have "end_val env l m = Some (extreme op u' w)" using assms(4) v by (auto simp: extremum_of_def)
  then show "end_val env l e = Some (extreme op z w)"
    using assms(5) u extreme_simps(4) by (auto simp: extremum_of_def)
qed

lemma make_extremum_step:
  assumes "easy_extremum op hi lo same F a b = None" "balance op a b = (a', b')"
  shows "make_extremum op hi lo same F a b =
    (case operator_args op a' of
       Some (x, y) \<Rightarrow>
         if is_const y \<and> is_const b' then
           Option.bind (make_extremum op hi lo same F y b') (make_extremum op hi lo same F x)
         else if same x b' \<or> same y b' then Some a'
         else Bin_make op a' b'
     | None \<Rightarrow> Bin_make op a' b')"
  using assms by (simp add: make_extremum.simps [of op hi lo same F a b])

lemma not_easy:
  "easy_extremum op hi lo same F a b = None \<Longrightarrow> a \<noteq> hi \<and> b \<noteq> hi \<and> a \<noteq> lo \<and> b \<noteq> lo"
  by (auto simp: easy_extremum_def split: if_splits)

lemma make_extremum_consts:
  assumes "ext_op op hi lo" "\<And>a b. same a b \<Longrightarrow> a = b" "\<not> is_handle t"
    and "end_ok t x" "end_ok t (Bin op c d)" "is_const c" "is_const d"
  shows "\<exists>e. make_extremum op hi lo same F x (Bin op c d) = Some e \<and> extremum_of t op x (Bin op c d) e"
proof (cases "easy_extremum op hi lo same F x (Bin op c d)")
  case (Some e)
  then show ?thesis
    using easy_extremum_ok [OF Some assms(1,2,4,5)] by (simp add: make_extremum.simps [of op hi lo same F x])
next
  case None
  have b: "balance op x (Bin op c d) = (x, Bin op c d)"
    using assms(6,7) by (simp add: balance_def split: option.splits)
  have f: "Bin_make op x (Bin op c d) = Some (Bin op x (Bin op c d)) \<and>
      extremum_of t op x (Bin op c d) (Bin op x (Bin op c d))"
    using Bin_extremum [OF assms(1,4,5)] not_easy [OF None] by blast
  show ?thesis
  proof (cases "operator_args op x")
    case None
    then show ?thesis using f b make_extremum_step [OF \<open>easy_extremum op hi lo same F x (Bin op c d) = None\<close> b] by simp
  next
    case (Some pq)
    then obtain p q where x: "x = Bin op p q" by (cases pq) (auto simp: operator_args_Some)
    have "extremum_of t op x (Bin op c d) x" if "same p (Bin op c d) \<or> same q (Bin op c d)"
      using absorbed [OF assms(1) assms(4) [unfolded x] assms(3), of "Bin op c d"] that assms(2) x by blast
    then show ?thesis
      using f b make_extremum_step [OF None b] by (auto simp: x)
  qed
qed

text \<open>
  Building an extremum of two typed ends always ends, with an end of the same type whose
  value is the extremum.
\<close>

lemma make_extremum_ok:
  assumes "ext_op op hi lo" "\<And>a b. same a b \<Longrightarrow> a = b" "\<not> is_handle t"
  shows "end_ok t a \<Longrightarrow> end_ok t b \<Longrightarrow>
    \<exists>e. make_extremum op hi lo same F a b = Some e \<and> extremum_of t op a b e \<and>
      (is_const a \<and> is_const b \<longrightarrow> e = a \<or> e = b \<or> e = Bin op a b)"
proof (induction "size a + size b" arbitrary: a b rule: less_induct)
  case less
  show ?case
  proof (cases "easy_extremum op hi lo same F a b")
    case (Some e)
    then show ?thesis
      using easy_extremum_ok [OF Some assms(1,2) less.prems] by (auto simp: make_extremum.simps [of op hi lo same F a b])
  next
    case None
    obtain a' b' where ab: "balance op a b = (a', b')" by fastforce
    note step = make_extremum_step [OF None ab]
    have swap: "a' = a \<and> b' = b \<or> a' = b \<and> b' = a" using ab by (auto simp: balance_def split: option.splits if_splits)
    have ok: "end_ok t a'" "end_ok t b'" using swap less.prems by auto
    have f: "Bin_make op a' b' = Some (Bin op a' b') \<and> extremum_of t op a' b' (Bin op a' b')"
      using Bin_extremum [OF assms(1) ok] not_easy [OF None] swap by auto
    have c: "operator_args op a' = None \<and> a' = a" if "is_const a" "is_const b"
    proof -
      have "operator_args op e = None" if "is_const e" for e using that by (cases e) auto
      then show ?thesis using that ab by (auto simp: balance_def)
    qed
    have "\<exists>e. make_extremum op hi lo same F a b = Some e \<and> extremum_of t op a' b' e \<and>
      (is_const a \<and> is_const b \<longrightarrow> e = Bin op a b)"
    proof (cases "operator_args op a'")
      case None
      then show ?thesis using step f c swap by auto
    next
      case (Some xy)
      then obtain x y where x: "a' = Bin op x y" by (cases xy) (auto simp: operator_args_Some)
      note o = operands_ok [OF assms(1) ok(1) [unfolded x] assms(3)]
      consider (literal) "is_const y" "is_const b'" | (shared) "\<not> (is_const y \<and> is_const b')" "same x b' \<or> same y b'"
        | (new) "\<not> (is_const y \<and> is_const b')" "\<not> (same x b' \<or> same y b')" by blast
      then show ?thesis
      proof cases
        case literal
        have less1: "size y + size b' < size a + size b" using swap x by auto
        obtain m where m: "make_extremum op hi lo same F y b' = Some m" "extremum_of t op y b' m"
          "m = y \<or> m = b' \<or> m = Bin op y b'"
          using less.hyps [OF less1 o(2) ok(2)] literal by blast
        have mok: "end_ok t m" using m(2) by (simp add: extremum_of_def)
        have "\<exists>e. make_extremum op hi lo same F x m = Some e \<and> extremum_of t op x m e"
        proof (cases "m = Bin op y b'")
          case True
          then show ?thesis using make_extremum_consts [OF assms o(1) mok [unfolded True]] literal True by simp
        next
          case False
          then have "size x + size m < size a + size b" using m(3) swap x by auto
          then show ?thesis using less.hyps [OF _ o(1) mok] by blast
        qed
        then obtain e where e: "make_extremum op hi lo same F x m = Some e" "extremum_of t op x m e" by blast
        have "extremum_of t op a' b' e"
          using regrouped [OF assms(1) ok(1) [unfolded x] assms(3) m(2) e(2)] by (simp add: x)
        then show ?thesis using step literal m(1) e(1) c x by auto
      next
        case shared
        then have "extremum_of t op a' b' a'"
          using absorbed [OF assms(1) ok(1) [unfolded x] assms(3), of b'] assms(2) x by blast
        then show ?thesis using step shared c x by auto
      next
        case new
        then show ?thesis using step f c x by auto
      qed
    qed
    then show ?thesis using swap extremum_of_commute by blast
  qed
qed

lemma ext_op_infs [simp]: "ext_op OpMax pos_inf neg_inf" "ext_op OpMin neg_inf pos_inf"
  by (simp_all add: ext_op_def)

definition sharing :: "(expr \<Rightarrow> expr \<Rightarrow> bool) \<Rightarrow> bool" where
  "sharing same \<longleftrightarrow> (\<forall>a b. same a b \<longrightarrow> a = b)"

lemma make_max_ok:
  assumes "sharing same" "\<not> is_handle t" "end_ok t a" "end_ok t b"
  shows "\<exists>e. make_max same F a b = Some e \<and> end_ok t e \<and>
    (\<forall>env l x y. end_val env l a = Some x \<and> end_val env l b = Some y \<longrightarrow> end_val env l e = Some (max x y))"
proof -
  have "\<exists>e. make_extremum OpMax pos_inf neg_inf same F a b = Some e \<and> extremum_of t OpMax a b e \<and>
      (is_const a \<and> is_const b \<longrightarrow> e = a \<or> e = b \<or> e = Bin OpMax a b)"
    by (rule make_extremum_ok) (use assms in \<open>simp_all add: sharing_def\<close>)
  then show ?thesis by (auto simp: make_max_def extremum_of_def extreme_def)
qed

lemma make_min_ok:
  assumes "sharing same" "\<not> is_handle t" "end_ok t a" "end_ok t b"
  shows "\<exists>e. make_min same F a b = Some e \<and> end_ok t e \<and>
    (\<forall>env l x y. end_val env l a = Some x \<and> end_val env l b = Some y \<longrightarrow> end_val env l e = Some (min x y))"
proof -
  have "\<exists>e. make_extremum OpMin neg_inf pos_inf same F a b = Some e \<and> extremum_of t OpMin a b e \<and>
      (is_const a \<and> is_const b \<longrightarrow> e = a \<or> e = b \<or> e = Bin OpMin a b)"
    by (rule make_extremum_ok) (use assms in \<open>simp_all add: sharing_def\<close>)
  then show ?thesis by (auto simp: make_min_def extremum_of_def extreme_def)
qed

text \<open>
  The union is the convex hull of two intervals that are not empty, and the intersection is
  exact.
\<close>

definition ends_between :: "ext_int \<Rightarrow> ext_int \<Rightarrow> int \<Rightarrow> bool" where
  "ends_between lo hi v \<longleftrightarrow> lo \<le> Fin v \<and> Fin v \<le> hi"

lemma interval_hasD:
  assumes "end_val env l (iv_min i) = Some lo" "end_val env l (iv_max i) = Some hi"
  shows "interval_has env l i v \<longleftrightarrow> ends_between lo hi v"
  using assms by (simp add: interval_has_def ends_between_def)

lemma make_union_ok:
  assumes "sharing same" "\<not> is_handle t" "interval_ok t a" "interval_ok t b"
  shows "\<exists>i. make_union same F a b = Some i \<and> interval_ok t i \<and>
    (\<forall>env l v. interval_defined env l a \<and> interval_defined env l b \<and> (interval_has env l a v \<or> interval_has env l b v) \<longrightarrow>
       interval_has env l i v)"
proof -
  have e: "end_ok t (iv_min a)" "end_ok t (iv_max a)" "end_ok t (iv_min b)" "end_ok t (iv_max b)"
    using assms(3,4) by (simp_all add: interval_ok_def)
  obtain hi where hi: "make_max same F (iv_max a) (iv_max b) = Some hi" "end_ok t hi"
    "\<And>env l x y. end_val env l (iv_max a) = Some x \<Longrightarrow> end_val env l (iv_max b) = Some y \<Longrightarrow> end_val env l hi = Some (max x y)"
    using make_max_ok [OF assms(1,2) e(2,4), of F] by blast
  obtain lo where lo: "make_min same F (iv_min a) (iv_min b) = Some lo" "end_ok t lo"
    "\<And>env l x y. end_val env l (iv_min a) = Some x \<Longrightarrow> end_val env l (iv_min b) = Some y \<Longrightarrow> end_val env l lo = Some (min x y)"
    using make_min_ok [OF assms(1,2) e(1,3), of F] by blast
  have "interval_has env l \<lparr>iv_min = lo, iv_max = hi\<rparr> v"
    if d: "interval_defined env l a" "interval_defined env l b" "interval_has env l a v \<or> interval_has env l b v" for env l v
  proof -
    obtain la ha lb hb where v: "end_val env l (iv_min a) = Some la" "end_val env l (iv_max a) = Some ha"
      "end_val env l (iv_min b) = Some lb" "end_val env l (iv_max b) = Some hb"
      using d(1,2) by (auto simp: interval_defined_def)
    then show ?thesis
      using d(3) lo(3) [OF v(1,3)] hi(3) [OF v(2,4)]
      by (auto simp: interval_hasD [OF v(1,2)] interval_hasD [OF v(3,4)] interval_has_def ends_between_def min_le_iff_disj
          le_max_iff_disj)
  qed
  then show ?thesis using hi lo by (simp add: make_union_def include_interval_def interval_ok_def)
qed

lemma make_intersection_ok:
  assumes "sharing same" "\<not> is_handle t" "interval_ok t a" "interval_ok t b"
  shows "\<exists>i. make_intersection same F a b = Some i \<and> interval_ok t i \<and>
    (\<forall>env l v. interval_defined env l a \<and> interval_defined env l b \<longrightarrow>
       interval_has env l i v = (interval_has env l a v \<and> interval_has env l b v))"
proof -
  have e: "end_ok t (iv_min a)" "end_ok t (iv_max a)" "end_ok t (iv_min b)" "end_ok t (iv_max b)"
    using assms(3,4) by (simp_all add: interval_ok_def)
  obtain lo where lo: "make_max same F (iv_min a) (iv_min b) = Some lo" "end_ok t lo"
    "\<And>env l x y. end_val env l (iv_min a) = Some x \<Longrightarrow> end_val env l (iv_min b) = Some y \<Longrightarrow> end_val env l lo = Some (max x y)"
    using make_max_ok [OF assms(1,2) e(1,3), of F] by blast
  obtain hi where hi: "make_min same F (iv_max a) (iv_max b) = Some hi" "end_ok t hi"
    "\<And>env l x y. end_val env l (iv_max a) = Some x \<Longrightarrow> end_val env l (iv_max b) = Some y \<Longrightarrow> end_val env l hi = Some (min x y)"
    using make_min_ok [OF assms(1,2) e(2,4), of F] by blast
  have "interval_has env l \<lparr>iv_min = lo, iv_max = hi\<rparr> v = (interval_has env l a v \<and> interval_has env l b v)"
    if d: "interval_defined env l a" "interval_defined env l b" for env l v
  proof -
    obtain la ha lb hb where v: "end_val env l (iv_min a) = Some la" "end_val env l (iv_max a) = Some ha"
      "end_val env l (iv_min b) = Some lb" "end_val env l (iv_max b) = Some hb"
      using d by (auto simp: interval_defined_def)
    then show ?thesis
      using lo(3) [OF v(1,3)] hi(3) [OF v(2,4)]
      by (auto simp: interval_hasD [OF v(1,2)] interval_hasD [OF v(3,4)] interval_has_def ends_between_def)
  qed
  then show ?thesis using hi lo by (simp add: make_intersection_def interval_ok_def)
qed

end
