(* ===== verification/Simplify.thy ===== *)
theory Simplify
  imports SimpCompare Interval
begin

text \<open>
  The simplifier on expressions: the dispatch to the visitors, \<open>mutate\<close> (Simplify_Internal.h)
  and \<open>simplify\<close> (Simplify.cpp). \<open>mutate\<close> recurs on a budget, since the code has no
  argument that its rewriting ends. Lets, shuffles and calls are left out: they have no result.
\<close>

section \<open>Dispatch\<close>

fun visit_Bin :: "float_ops \<Rightarrow> mutator \<Rightarrow> bin_op \<Rightarrow> expr \<Rightarrow> expr \<Rightarrow> expr_info option \<Rightarrow> simp_state \<Rightarrow> simp_result" where
  "visit_Bin F mu OpAdd a b = visit_Add F mu a b"
| "visit_Bin F mu OpSub a b = visit_Sub F mu a b"
| "visit_Bin F mu OpMul a b = visit_Mul F mu a b"
| "visit_Bin F mu OpDiv a b = visit_Div F mu a b"
| "visit_Bin F mu OpMod a b = visit_Mod F mu a b"
| "visit_Bin F mu OpMin a b = visit_Min F mu a b"
| "visit_Bin F mu OpMax a b = visit_Max F mu a b"
| "visit_Bin F mu OpAnd a b = visit_And F mu a b"
| "visit_Bin F mu OpOr a b = visit_Or F mu a b"

fun visit_Cmp :: "float_ops \<Rightarrow> mutator \<Rightarrow> cmp_op \<Rightarrow> expr \<Rightarrow> expr \<Rightarrow> expr_info option \<Rightarrow> simp_state \<Rightarrow> simp_result" where
  "visit_Cmp F mu OpEQ a b = visit_EQ F mu a b"
| "visit_Cmp F mu OpNE a b = visit_NE mu a b"
| "visit_Cmp F mu OpLT a b = visit_LT F mu a b"
| "visit_Cmp F mu OpLE a b = visit_LE mu a b"
| "visit_Cmp F mu OpGT a b = visit_GT mu a b"
| "visit_Cmp F mu OpGE a b = visit_GE mu a b"

fun dispatch :: "float_ops \<Rightarrow> mutator \<Rightarrow> expr \<Rightarrow> expr_info option \<Rightarrow> simp_state \<Rightarrow> simp_result" where
  "dispatch F mu (IntImm t v) bounds s = visit_IntImm t v bounds s"
| "dispatch F mu (UIntImm t v) bounds s = visit_UIntImm t v bounds s"
| "dispatch F mu (FloatImm t v) bounds s = Some (FloatImm t v, bounds, s)"
| "dispatch F mu (StringImm v) bounds s = Some (StringImm v, bounds, s)"
| "dispatch F mu (Broadcast a n) bounds s = visit_Broadcast mu a n bounds s"
| "dispatch F mu (Cast t a) bounds s = visit_Cast F mu t a bounds s"
| "dispatch F mu (Variable t n) bounds s = visit_Variable F mu t n bounds s"
| "dispatch F mu (Bin op a b) bounds s = visit_Bin F mu op a b bounds s"
| "dispatch F mu (Cmp op a b) bounds s = visit_Cmp F mu op a b bounds s"
| "dispatch F mu (NotE a) bounds s = visit_Not F mu a bounds s"
| "dispatch F mu (Select c a b) bounds s = visit_Select F mu c a b bounds s"
| "dispatch F mu (Load t n p i im pa al) bounds s = visit_Load F mu t n p i im pa al bounds s"
| "dispatch F mu (Ramp a b n) bounds s = visit_Ramp F mu a b n bounds s"
| "dispatch F mu (Call t n as ct vi) bounds s = None"
| "dispatch F mu (LetE n v b) bounds s = None"
| "dispatch F mu (Shuffle vs is) bounds s = None"

primrec mutate :: "float_ops \<Rightarrow> nat \<Rightarrow> mutator" where
  "mutate F 0 = (\<lambda>e bounds s. None)"
| "mutate F (Suc n) = (\<lambda>e bounds s. do {
     (new_e, bounds, s) \<leftarrow> dispatch F (mutate F n) e bounds s;
     if etype new_e = etype e then Some (new_e, bounds, s) else None })"

text \<open>
  The constructor takes the constant bounds and the alignments from two scopes, which it goes
  through in the order of the names. Here they are given as the lists of their bindings.
\<close>

definition scope_bounds :: "(string \<times> modulus_remainder) list \<Rightarrow> string \<times> interval \<Rightarrow> expr_info" where
  "scope_bounds ai b =
     \<lparr>info_min = (case as_const_int (iv_min (snd b)) of Some v \<Rightarrow> v | None \<Rightarrow> 0),
      info_max = (case as_const_int (iv_max (snd b)) of Some v \<Rightarrow> v | None \<Rightarrow> 0),
      min_defined = (as_const_int (iv_min (snd b)) \<noteq> None),
      max_defined = (as_const_int (iv_max (snd b)) \<noteq> None),
      alignment = (case map_of ai (fst b) of Some al \<Rightarrow> al | None \<Rightarrow> alignment no_info)\<rparr>"

definition add_bounds ::
  "(string \<times> modulus_remainder) list \<Rightarrow> string \<times> interval \<Rightarrow> expr_info scope \<Rightarrow> expr_info scope" where
  "add_bounds ai b sc =
     (let i = scope_bounds ai b
      in if min_defined i \<or> max_defined i \<or> modulus (alignment i) \<noteq> 1 then scope_push (fst b) i sc else sc)"

definition add_alignment :: "string \<times> modulus_remainder \<Rightarrow> expr_info scope \<Rightarrow> expr_info scope" where
  "add_alignment a sc =
     (if scope_contains sc (fst a) then sc else scope_push (fst a) (no_info\<lparr>alignment := snd a\<rparr>) sc)"

text \<open>
  The counters of special values are static: a run goes on from those of the process, \<open>g\<close>.
\<close>

definition new_simplify :: "mach \<Rightarrow> bool \<Rightarrow> (string \<times> interval) list \<Rightarrow> (string \<times> modulus_remainder) list \<Rightarrow> simp_state" where
  "new_simplify g r bi ai =
     \<lparr>indeterminates = indeterminates g, overflows = overflows g, tainted = False, var_infos = empty_scope,
      bounds_and_alignment_info = fold add_alignment ai (fold (add_bounds ai) bi empty_scope),
      truths = [], falsehoods = [], remove_dead_lets = r, no_float_simplify = False\<rparr>"

definition simplify ::
  "float_ops \<Rightarrow> nat \<Rightarrow> expr \<Rightarrow> mach \<Rightarrow> bool \<Rightarrow> (string \<times> interval) list \<Rightarrow> (string \<times> modulus_remainder) list \<Rightarrow>
   (expr \<times> simp_state) option" where
  "simplify F n e g r bi ai = mutate_plain (mutate F n) e (new_simplify g r bi ai)"

section \<open>Soundness\<close>

context sound_mutator
begin

lemma visit_Bin_ok:
  "visit_Bin F mu op a b bs s = Some r \<Longrightarrow>
    simp_ok (visit_pre env l (Bin op a b) v bs s) env l v (etype (Bin op a b)) bs s r"
  using visit_Add_ok visit_Sub_ok visit_Mul_ok visit_Div_ok visit_Mod_ok visit_Min_ok visit_Max_ok visit_And_ok visit_Or_ok
  by (cases op) simp_all

lemma visit_Cmp_ok:
  "visit_Cmp F mu op a b bs s = Some r \<Longrightarrow>
    simp_ok (visit_pre env l (Cmp op a b) v bs s) env l v (etype (Cmp op a b)) bs s r"
  using visit_EQ_ok visit_NE_ok visit_LT_ok visit_LE_ok visit_GT_ok visit_GE_ok
  by (cases op) simp_all

lemma dispatch_ok:
  assumes "dispatch F mu e bs s = Some r"
  shows "simp_ok (visit_pre env l e v bs s) env l v (etype e) bs s r"
  using assms
proof (cases e)
  case (FloatImm t c)
  then show ?thesis using assms by (auto simp: visit_pre_def intro: simp_ok_done)
next
  case (StringImm c)
  then show ?thesis using assms by (auto simp: visit_pre_def intro: simp_ok_done)
qed (use visit_IntImm_ok visit_UIntImm_ok visit_Broadcast_ok visit_Cast_ok visit_Variable_ok visit_Bin_ok visit_Cmp_ok
      visit_Not_ok visit_Select_ok visit_Load_ok visit_Ramp_ok in simp_all)

text \<open>The lane of a scalar does not matter.\<close>

lemma dispatch_lane_ok:
  assumes "dispatch F mu e bs s = Some r"
  shows "simp_ok (simp_pre env l e v bs s) env l v (etype e) bs s r"
proof (cases "l < lanes (etype e)")
  case True
  then show ?thesis
    using simp_ok_mono [OF dispatch_ok [OF assms]] by (simp add: simp_pre_def visit_pre_def)
next
  case False
  obtain e' b' s' where r: "r = (e', b', s')" by (cases r)
  have "wf e' \<and> eval env e' l = Some v \<and> opt_ok b' v"
    if C: "simp_pre env l e v bs s \<and> \<not> tainted s' \<and> etype e' = etype e"
  proof -
    have one: "lanes (etype e) = 1" and w: "wf e" using C False by (auto simp: simp_pre_def lane_okt_def)
    have "visit_pre env 0 e v bs s"
      using C one eval_scalar [OF w one, of env l 0] by (simp add: simp_pre_def visit_pre_def)
    then have "wf e' \<and> eval env e' 0 = Some v \<and> opt_ok b' v"
      using dispatch_ok [OF assms, of env 0 v] C by (simp add: simp_ok_def r)
    then show ?thesis using eval_scalar [of e' env l 0] one C by simp
  qed
  then show ?thesis using dispatch_ok [OF assms, of env l v] by (auto simp: simp_ok_def r)
qed

lemma mutate_step:
  "sound_mutator (\<lambda>e bounds s. do {
     (new_e, bounds, s) \<leftarrow> dispatch F mu e bounds s;
     if etype new_e = etype e then Some (new_e, bounds, s) else None })"
proof
  fix e b s and e' b' s'
  assume "do { (new_e, b, s) \<leftarrow> dispatch F mu e b s;
    if etype new_e = etype e then Some (new_e, b, s) else None } = Some (e', b', s')"
  then show "etype e' = etype e" by (auto simp: bind_eq_Some_conv split: if_splits)
next
  fix e b s r env l v
  assume "do { (new_e, b, s) \<leftarrow> dispatch F mu e b s;
    if etype new_e = etype e then Some (new_e, b, s) else None } = Some r"
  then have "dispatch F mu e b s = Some r" by (auto simp: bind_eq_Some_conv split: if_splits)
  then show "simp_ok (simp_pre env l e v b s) env l v (etype e) b s r" by (rule dispatch_lane_ok)
qed

end

theorem mutate_sound: "sound_mutator (mutate F n)"
proof (induction n)
  case 0
  show ?case by unfold_locales simp_all
next
  case (Suc n)
  then show ?case by (simp add: sound_mutator.mutate_step)
qed

interpretation simp: sound_mutator "mutate F n" for F n
  by (rule mutate_sound)

text \<open>The facts that the constructor is given.\<close>

definition given_ok :: "eval_env \<Rightarrow> (string \<times> interval) list \<Rightarrow> (string \<times> modulus_remainder) list \<Rightarrow> bool" where
  "given_ok env bi ai \<longleftrightarrow>
     (\<forall>(n, al) \<in> set ai. mr_int64 al \<and> (\<forall>l v. vars env n l = Some v \<longrightarrow> mr_has al v)) \<and>
     (\<forall>(n, iv) \<in> set bi. wf (iv_min iv) \<and> wf (iv_max iv) \<and>
        (\<forall>l v. vars env n l = Some v \<longrightarrow> interval_has env l iv v))"

text \<open>What a scope of bounds says of the variables.\<close>

definition scope_sound :: "eval_env \<Rightarrow> expr_info scope \<Rightarrow> bool" where
  "scope_sound env sc \<longleftrightarrow> scope_ok sc \<and> containing_scope sc = None \<and>
     (\<forall>n i l v. scope_get sc n = Some i \<and> vars env n l = Some v \<longrightarrow> info_ok i v)"

lemma scope_sound_empty [simp]: "scope_sound env empty_scope"
  by (simp add: scope_sound_def empty_scope_def scope_ok_def)

lemma scope_sound_push:
  assumes "scope_sound env sc" "\<And>l v. vars env n l = Some v \<Longrightarrow> info_ok i v"
  shows "scope_sound env (scope_push n i sc)"
  using assms scope_push_get [of sc n i] by (auto simp: scope_sound_def)

lemma scope_sound_fold:
  assumes "scope_sound env sc" "\<And>x sc. x \<in> set xs \<Longrightarrow> scope_sound env sc \<Longrightarrow> scope_sound env (f x sc)"
  shows "scope_sound env (fold f xs sc)"
  using assms by (induction xs arbitrary: sc) auto

lemma wf_const_int64: "wf e \<Longrightarrow> as_const_int e = Some c \<Longrightarrow> int64 c"
  by (induction e rule: as_const_int.induct) (auto intro!: fits_int64 dest: legal_bits)

lemma scope_bounds_ok:
  assumes "given_ok env bi ai" "b \<in> set bi" "vars env (fst b) l = Some v"
  shows "info_ok (scope_bounds ai b) v"
proof -
  obtain n iv where b: "b = (n, iv)" by (cases b)
  have w: "wf (iv_min iv)" "wf (iv_max iv)" "interval_has env l iv v"
    using assms by (auto simp: given_ok_def b)
  have lo: "c \<le> v \<and> int64 c" if "as_const_int (iv_min iv) = Some c" for c
    using that w end_val_const [OF that, of env l] wf_const_int64 [OF _ that]
    by (auto simp: interval_has_def)
  have hi: "v \<le> c \<and> int64 c" if "as_const_int (iv_max iv) = Some c" for c
    using that w end_val_const [OF that, of env l] wf_const_int64 [OF _ that]
    by (auto simp: interval_has_def)
  have al: "mr_has al v \<and> mr_int64 al" if "map_of ai n = Some al" for al
    using map_of_SomeD [OF that] assms(1,3) by (auto simp: given_ok_def b)
  show ?thesis
    using lo hi al info_ok_no_info [of v]
    by (auto simp: scope_bounds_def info_ok_def info_int64_def b int64_def split: option.splits)
qed

lemma add_alignment_sound:
  assumes "given_ok env bi ai" "a \<in> set ai" "scope_sound env sc"
  shows "scope_sound env (add_alignment a sc)"
proof -
  have "info_ok (no_info\<lparr>alignment := snd a\<rparr>) v" if "vars env (fst a) l = Some v" for l v
    using that assms(1,2) info_ok_no_info [of v]
    by (auto simp: given_ok_def info_ok_def info_int64_def no_info_def)
  then show ?thesis using assms(3) by (auto simp: add_alignment_def intro!: scope_sound_push)
qed

lemma new_simplify_facts:
  assumes "given_ok env bi ai"
  shows "facts_ok env (new_simplify g r bi ai)"
proof -
  have "scope_sound env (fold (add_bounds ai) bi empty_scope)"
    by (rule scope_sound_fold)
      (auto simp: add_bounds_def Let_def intro!: scope_sound_push scope_bounds_ok [OF assms])
  then have "scope_sound env (fold add_alignment ai (fold (add_bounds ai) bi empty_scope))"
    by (rule scope_sound_fold) (rule add_alignment_sound [OF assms])
  then show ?thesis
    by (simp add: facts_ok_def new_simplify_def scope_sound_def state_ok_def replacements_def) (simp add: empty_scope_def)
qed

section \<open>Running the simplifier\<close>

lemma mutate_numeral:
  "mutate F (numeral k) = (\<lambda>e bounds s. do {
     (new_e, bounds, s) \<leftarrow> dispatch F (mutate F (pred_numeral k)) e bounds s;
     if etype new_e = etype e then Some (new_e, bounds, s) else None })"
  by (simp add: numeral_eq_Suc)

lemmas run_visitors =
  visit_IntImm_def visit_UIntImm_def literal_info_def visit_Broadcast_def visit_Variable_def known_info_def
  replace_variable_def set_var_info_def visit_Add_def visit_Sub_def visit_Mul_def visit_Div_def visit_Mod_def
  visit_Min_def visit_Max_def visit_Ramp_def visit_Load_def visit_Not_def visit_And_def visit_Or_def visit_Select_def
  visit_EQ_def visit_NE_def visit_LT_def visit_LE_def visit_GT_def visit_GE_def visit_Cast_def

lemmas run_simplifier =
  mutate_numeral simplify_def new_simplify_def add_bounds_def scope_bounds_def mutate_plain_def mutate_info_def
  no_info_def on_bounds_def may_simplify_def commuted_def table_def rewrite_node_def should_commute_def

end
