(* ===== verification/Budget.thy ===== *)
theory Budget
  imports Simplify
begin

text \<open>
  The budget of \<open>mutate\<close>: a result does not depend on it. What a visitor does with one callback
  it does with another one that gives the same results and maybe more. The rules of
  \<open>run_mono\<close> follow the structure of a definition.
\<close>

definition run_le :: "'a option \<Rightarrow> 'a option \<Rightarrow> bool" where
  "run_le m m' \<longleftrightarrow> (\<forall>r. m = Some r \<longrightarrow> m' = Some r)"

named_theorems run_mono

lemma run_le_refl [run_mono]: "run_le m m"
  by (simp add: run_le_def)

lemma run_le_bind [run_mono]:
  "run_le m m' \<Longrightarrow> (\<And>x. run_le (f x) (f' x)) \<Longrightarrow> run_le (Option.bind m f) (Option.bind m' f')"
  by (cases m) (auto simp: run_le_def)

lemma run_le_if [run_mono]: "run_le a a' \<Longrightarrow> run_le b b' \<Longrightarrow> run_le (if c then a else b) (if c then a' else b')"
  by simp

lemma run_le_option [run_mono]:
  "run_le a a' \<Longrightarrow> (\<And>x. run_le (f x) (f' x)) \<Longrightarrow> run_le (case_option a f m) (case_option a' f' m)"
  by (cases m) auto

lemma run_le_prod [run_mono]: "(\<And>x y. run_le (f x y) (f' x y)) \<Longrightarrow> run_le (case_prod f p) (case_prod f' p)"
  by (cases p) auto

lemma run_le_Let [run_mono]: "(\<And>x. run_le (f x) (f' x)) \<Longrightarrow> run_le (Let v f) (Let v f')"
  by simp

locale extended_mutator =
  fixes mu mu' :: mutator
  assumes mu_le [run_mono]: "run_le (mu e b s) (mu' e b s)"
begin

lemma plain_le [run_mono]: "run_le (mutate_plain mu e s) (mutate_plain mu' e s)"
  unfolding mutate_plain_def by (intro run_mono)

lemma info_le [run_mono]: "run_le (mutate_info mu e s) (mutate_info mu' e s)"
  unfolding mutate_info_def by (intro run_mono)

lemma predicate_le:
  "run_le (evaluate_predicate F (mutate_plain mu) p \<sigma> s) (evaluate_predicate F (mutate_plain mu') p \<sigma> s)"
proof (cases "\<exists>a. p = Some (CanProve a)")
  case True
  then obtain a where a: "p = Some (CanProve a)" ..
  show ?thesis by (simp add: evaluate_predicate_def a) (intro run_mono)
qed (auto simp: evaluate_predicate_def run_le_def split: option.splits pat.splits)

lemma rule_le [run_mono]:
  "run_le (apply_rule F (mutate_plain mu) r e ty s) (apply_rule F (mutate_plain mu') r e ty s)"
  by (cases r) (auto simp: apply_rule_def intro!: run_mono predicate_le)

lemma rules_le [run_mono]:
  "run_le (apply_rules F (mutate_plain mu) rs e ty s) (apply_rules F (mutate_plain mu') rs e ty s)"
  by (induction rs arbitrary: s) (auto intro!: run_mono)

lemma groups_le [run_mono]: "run_le (try_groups F mu gs e ty s) (try_groups F mu' gs e ty s)"
proof (induction gs arbitrary: s)
  case (Cons g gs)
  obtain bad rs where "g = (bad, rs)" by (cases g)
  then show ?case by (auto intro!: run_mono Cons)
qed (simp add: run_mono)

lemma node_le [run_mono]:
  "run_le (rewrite_node F mu direct chain e ty rest b s) (rewrite_node F mu' direct chain e ty rest b s)"
  unfolding rewrite_node_def by (intro run_mono)

lemma cast_le [run_mono]: "run_le (remutate_cast mu t e b s) (remutate_cast mu' t e b s)"
  unfolding remutate_cast_def by (intro run_mono)

lemma simplify_cast_le [run_mono]: "run_le (simplify_cast F mu t e b s) (simplify_cast F mu' t e b s)"
  unfolding simplify_cast_def by (intro run_mono)

lemma replace_le [run_mono]: "run_le (replace_variable mu t n b s) (replace_variable mu' t n b s)"
  unfolding replace_variable_def by (intro run_mono)

lemma visit_Load_le: "run_le (visit_Load F mu t n p i im pa al b s) (visit_Load F mu' t n p i im pa al b s)"
proof -
  have "run_le
      (case e of Ramp a st k \<Rightarrow> do { (a, base_info, s) \<leftarrow> mutate_info mu a s; Some (alignment base_info, s) }
       | _ \<Rightarrow> Some (alignment no_info, s))
      (case e of Ramp a st k \<Rightarrow> do { (a, base_info, s) \<leftarrow> mutate_info mu' a s; Some (alignment base_info, s) }
       | _ \<Rightarrow> Some (alignment no_info, s))" for e s
    by (cases e) (auto intro!: run_mono)
  then show ?thesis unfolding visit_Load_def by (intro run_mono)
qed

lemma compare_zero_le [run_mono]: "run_le (compare_zero F mu t e b s) (compare_zero F mu' t e b s)"
  unfolding compare_zero_def by (intro run_mono)

lemma unsimplified_le [run_mono]: "run_le (unsimplified_cmp mu op x y b s) (unsimplified_cmp mu' op x y b s)"
  unfolding unsimplified_cmp_def by (intro run_mono)

lemma visit_Bin_le: "run_le (visit_Bin F mu op x y b s) (visit_Bin F mu' op x y b s)"
  by (cases op; simp add: visit_Add_def visit_Sub_def visit_Mul_def visit_Div_def visit_Mod_def visit_Min_def visit_Max_def
      visit_And_def visit_Or_def; intro run_mono)

lemma visit_Cmp_le: "run_le (visit_Cmp F mu op x y b s) (visit_Cmp F mu' op x y b s)"
  by (cases op; simp only: visit_Cmp.simps visit_EQ_def visit_NE_def visit_LT_def visit_LE_def visit_GT_def visit_GE_def;
      intro run_mono)

lemma dispatch_le: "run_le (dispatch F mu e b s) (dispatch F mu' e b s)"
  by (cases e; simp only: dispatch.simps visit_Broadcast_def visit_Cast_def visit_Variable_def visit_Not_def visit_Select_def
      visit_Ramp_def; intro run_mono visit_Bin_le visit_Cmp_le visit_Load_le)

lemma mutate_step_le:
  "extended_mutator
     (\<lambda>e bounds s. do {
        (new_e, bounds, s) \<leftarrow> dispatch F mu e bounds s;
        if etype new_e = etype e then Some (new_e, bounds, s) else None })
     (\<lambda>e bounds s. do {
        (new_e, bounds, s) \<leftarrow> dispatch F mu' e bounds s;
        if etype new_e = etype e then Some (new_e, bounds, s) else None })"
  by unfold_locales (intro run_mono dispatch_le)

end

lemma mutate_extended: "extended_mutator (mutate F n) (mutate F (n + k))"
proof (induction n)
  case 0
  show ?case by unfold_locales (simp add: run_le_def)
next
  case (Suc n)
  then show ?case by (simp add: extended_mutator.mutate_step_le)
qed

interpretation budget: extended_mutator "mutate F n" "mutate F (n + k)" for F n k
  by (rule mutate_extended)

lemma simplify_more:
  assumes "simplify F n e g r bi ai = Some res" "n \<le> m"
  shows "simplify F m e g r bi ai = Some res"
  using budget.plain_le [of F n e "new_simplify g r bi ai" "m - n"] assms by (cases res) (simp add: simplify_def run_le_def)

lemma simplify_deterministic:
  assumes "simplify F n e g r bi ai = Some res" "simplify F m e g r bi ai = Some res'"
  shows "res' = res"
  using simplify_more [OF assms(1), of "max n m"] simplify_more [OF assms(2), of "max n m"] by simp

end
