(* ===== verification/ConstFold.thy ===== *)
theory ConstFold
  imports Budget
begin

text \<open>
  That the simplifier does its work: an expression of literals whose intermediate values fit
  32 bits becomes one literal, for every budget above its size. The rules for constants
  apply first, and the bounds of the operands are exact.
\<close>

section \<open>Folding two literals\<close>

definition int32 :: "int \<Rightarrow> bool" where
  "int32 v \<longleftrightarrow> - 2147483648 \<le> v \<and> v < 2147483648"

lemma int32_word:
  fixes v :: int
  assumes "- 2147483648 \<le> v" "v < 2147483648"
  shows "sint (word_of_int v :: 64 word) = v"
    "sint (signed_drop_bit 32 (push_bit 32 (word_of_int v :: 64 word))) = v"
    "drop_bit 32 (signed_take_bit 63 (push_bit 32 v)) = v"
proof -
  have t: "signed_take_bit 31 v = v" using assms by (simp add: signed_take_bit_int_eq_self)
  show "sint (word_of_int v :: 64 word) = v" using assms by (simp add: sint_word_of_int int64_def)
  show "drop_bit 32 (signed_take_bit 63 (push_bit 32 v)) = v"
    using sext_eq [of 32 v] t by (simp add: sext_def wrap64_def)
  show "sint (signed_drop_bit 32 (push_bit 32 (word_of_int v :: 64 word))) = v"
    using sint_sign_bits [of i32 v] t by (simp add: sign_bits_def)
qed

lemmas run_fold = int32_word

lemma fold_rules:
  assumes "int32 x" "int32 y"
  shows "int32 (x + y) \<Longrightarrow> apply_rules F p (add_direct (num x) (num y)) (Add (num x) (num y)) i32 s = Some (Some (num (x + y)), s)"
    and "int32 (x - y) \<Longrightarrow> apply_rules F p (sub_direct (num x) (num y)) (Sub (num x) (num y)) i32 s = Some (Some (num (x - y)), s)"
    and "int32 (x * y) \<Longrightarrow> apply_rules F p (mul_direct (num x) (num y)) (Mul (num x) (num y)) i32 s = Some (Some (num (x * y)), s)"
proof -
  show "apply_rules F p (add_direct (num x) (num y)) (Add (num x) (num y)) i32 s = Some (Some (num (x + y)), s)" if "int32 (x + y)"
    using assms that int32_word [of "x + y"] unfolding int32_def
    by (simp add: add_direct_def) (simp add: run_fold run_rules)
  show "apply_rules F p (sub_direct (num x) (num y)) (Sub (num x) (num y)) i32 s = Some (Some (num (x - y)), s)" if "int32 (x - y)"
    using assms that int32_word [of "x - y"] unfolding int32_def
    by (simp add: sub_direct_def) (simp add: run_fold run_rules)
  show "apply_rules F p (mul_direct (num x) (num y)) (Mul (num x) (num y)) i32 s = Some (Some (num (x * y)), s)" if "int32 (x * y)"
    using assms that int32_word [of "x * y"] unfolding int32_def
    by (simp add: mul_direct_def) (simp add: run_fold run_rules mul_would_overflow_iff del: mul_would_overflow_def)
qed

text \<open>Bounds that leave one value are its literal after trimming.\<close>

lemma trim_pinned:
  assumes "mr_canonical al" "mr_has al v" "int32 v" "int64 (v - remainder al)"
  shows "trim_bounds \<lparr>info_min = v, info_max = v, min_defined = True, max_defined = True, alignment = al\<rparr> s =
    Some (literal_info v, s)"
proof -
  have t: "trim_exact al" using assms(1) by (rule canonical_trim_exact)
  have "trim_min v al = Some v \<and> trim_max v al = Some v" if m: "1 < modulus al"
  proof -
    have i: "int64 (modulus al)" using mr_canonicalD [OF assms(1)] by blast
    have r: "emod v (modulus al) = remainder al"
      using assms(1,2) m mod_eq_dvd_iff [of v "modulus al" "remainder al"] mod_pos_pos_trivial [of "remainder al" "modulus al"]
      by (auto simp: mr_canonical_def mr_has_def emod_pos)
    have v: "int64 v" using assms(3) by (simp add: int32_def int64_def)
    have "mod_imp v (modulus al) = Some (remainder al)"
      using mod_imp_euclid [of v "modulus al"] i v m r by (auto simp: int64_def)
    then show ?thesis using v assms(4) by (simp add: trim_min_def trim_max_def chk64_int64)
  qed
  moreover have "remainder al = v" if "modulus al = 0" using assms(2) that by (simp add: mr_has_def)
  ultimately show ?thesis
    using t assms(1) by (auto simp: trim_bounds_def trim_bounds_using_alignment_def taint_if_def literal_info_def)
qed

lemma const_canonical: "int32 z \<Longrightarrow> mr_canonical (MR 0 z)"
  by (auto simp: mr_canonical_def mr_int64_def int32_def int64_def)

lemma const_alignments:
  assumes "int32 x" "int32 y"
  shows "int32 (x + y) \<Longrightarrow> mr_add (MR 0 x) (MR 0 y) = Some (MR 0 (x + y))"
    and "int32 (x - y) \<Longrightarrow> mr_sub (MR 0 x) (MR 0 y) = Some (MR 0 (x - y))"
    and "int32 (x * y) \<Longrightarrow> mr_mul (MR 0 x) (MR 0 y) = Some (MR 0 (x * y))"
proof -
  have g: "gcd_imp 0 0 = Some 0" using gcd_imp_total [of 0 0] by simp
  have f: "fits 64 z" if "int32 z" for z using that by (simp add: int32_def fits_def)
  show "int32 (x + y) \<Longrightarrow> mr_add (MR 0 x) (MR 0 y) = Some (MR 0 (x + y))"
    and "int32 (x - y) \<Longrightarrow> mr_sub (MR 0 x) (MR 0 y) = Some (MR 0 (x - y))"
    and "int32 (x * y) \<Longrightarrow> mr_mul (MR 0 x) (MR 0 y) = Some (MR 0 (x * y))"
    using assms f
    by (simp_all add: mr_add_def mr_sub_def mr_mul_def mr_mod_def g add_would_overflow_iff sub_would_overflow_iff
        mul_would_overflow_iff fits_def)
qed

lemma fold_bounds:
  assumes "int32 x" "int32 y"
  shows "int32 (x + y) \<Longrightarrow> Add_bounds i32 (literal_info x) (literal_info y) i s = Some (literal_info (x + y), s)"
    and "int32 (x - y) \<Longrightarrow> Sub_bounds i32 (literal_info x) (literal_info y) i s = Some (literal_info (x - y), s)"
    and "int32 (x * y) \<Longrightarrow> Mul_bounds i32 (literal_info x) (literal_info y) i s = Some (literal_info (x * y), s)"
proof -
  have c: "int64 z" if "int32 z" for z using that by (simp add: int32_def int64_def)
  have w: "no_overflow_int i32" by (simp add: no_overflow_int_def halide_defs)
  have t: "trim_bounds \<lparr>info_min = z, info_max = z, min_defined = True, max_defined = True, alignment = MR 0 z\<rparr> s =
      Some (literal_info z, s)" if "int32 z" for z
    using trim_pinned [OF const_canonical [OF that] _ that] by simp
  show "int32 (x + y) \<Longrightarrow> Add_bounds i32 (literal_info x) (literal_info y) i s = Some (literal_info (x + y), s)"
    and "int32 (x - y) \<Longrightarrow> Sub_bounds i32 (literal_info x) (literal_info y) i s = Some (literal_info (x - y), s)"
    and "int32 (x * y) \<Longrightarrow> Mul_bounds i32 (literal_info x) (literal_info y) i s = Some (literal_info (x * y), s)"
    using const_alignments [OF assms] c t w
    by (cases i; simp add: Add_bounds_def Sub_bounds_def Mul_bounds_def Mul_extent_def bounded_def literal_info_def chk64_int64)+
qed

lemma fold_extrema_bounds:
  assumes "int32 x" "int32 y"
  shows "Min_bounds (literal_info x) (literal_info y) s = Some (literal_info (min x y), s)"
    and "Max_bounds (literal_info x) (literal_info y) s = Some (literal_info (max x y), s)"
proof -
  have "int64 (x - y)" "int64 (y - x)" using assms by (auto simp: int32_def int64_def)
  then obtain al where al: "mr_unify (MR 0 x) (MR 0 y) = Some al" "mr_canonical al"
    using mr_unify_canonical [of "MR 0 x" "MR 0 y"] const_canonical assms by auto
  have "mr_has al x" "mr_has al y" using mr_unify_sound [OF al(1)] by simp_all
  then have "mr_has al (min x y)" "mr_has al (max x y)" "int32 (min x y)" "int32 (max x y)"
    using assms by (auto simp: min_def max_def)
  moreover have "int64 (z - remainder al)" if z: "int32 z" for z
  proof (cases "x = y")
    case True
    have "gcd_imp 0 0 = Some 0" using gcd_imp_total [of 0 0] by simp
    then have "al = MR 0 x" using al(1) True by (simp add: mr_unify_def mr_mod_def chk64_int64)
    then show ?thesis using z assms by (simp add: int32_def int64_def)
  next
    case False
    have "modulus al dvd x - y" using \<open>mr_has al x\<close> \<open>mr_has al y\<close> dvd_diff [of "modulus al" "x - remainder al" "y - remainder al"]
      by (simp add: mr_has_def)
    then have "modulus al \<le> \<bar>x - y\<bar>" "modulus al \<noteq> 0" using False dvd_imp_le_int [of "x - y" "modulus al"] by auto
    then show ?thesis using z assms al(2) by (auto simp: mr_canonical_def int32_def int64_def)
  qed
  ultimately have t: "trim_bounds \<lparr>info_min = z, info_max = z, min_defined = True, max_defined = True, alignment = al\<rparr> s =
      Some (literal_info z, s)" if "z = min x y \<or> z = max x y" for z
    using that trim_pinned [OF al(2)] by blast
  show "Min_bounds (literal_info x) (literal_info y) s = Some (literal_info (min x y), s)"
    and "Max_bounds (literal_info x) (literal_info y) s = Some (literal_info (max x y), s)"
    using al(1) t by (simp_all add: Min_bounds_def Max_bounds_def literal_info_def)
qed

section \<open>Closed expressions\<close>

fun literal_op :: "bin_op \<Rightarrow> int \<Rightarrow> int \<Rightarrow> int option" where
  "literal_op OpAdd x y = Some (x + y)"
| "literal_op OpSub x y = Some (x - y)"
| "literal_op OpMul x y = Some (x * y)"
| "literal_op OpMin x y = Some (min x y)"
| "literal_op OpMax x y = Some (max x y)"
| "literal_op _ x y = None"

fun literal_value :: "expr \<Rightarrow> int option" where
  "literal_value (IntImm t v) = (if t = i32 \<and> int32 v then Some v else None)"
| "literal_value (Bin op a b) = do {
     x \<leftarrow> literal_value a;
     y \<leftarrow> literal_value b;
     z \<leftarrow> literal_op op x y;
     if int32 z then Some z else None }"
| "literal_value _ = None"

definition folds :: "mutator \<Rightarrow> expr \<Rightarrow> int \<Rightarrow> bool" where
  "folds mu e v \<longleftrightarrow> (\<forall>b s. mu e b s = Some (num v, map_option (\<lambda>i. literal_info v) b, s))"

lemma literal_value_int32: "literal_value e = Some v \<Longrightarrow> int32 v \<and> etype e = i32"
  by (induction e arbitrary: v rule: literal_value.induct)
    (auto simp: bind_eq_Some_conv elim!: literal_op.elims split: if_splits)

lemma folds_info: "folds mu e v \<Longrightarrow> mutate_info mu e s = Some (num v, literal_info v, s)"
  by (simp add: folds_def mutate_info_def)

lemma literal_node: "rewrite_node F mu (table rs) gs e ty rest b s = Some (e', b, s)"
  if "apply_rules F (mutate_plain mu) rs e ty s = Some (Some e', s)"
  using that by (simp add: rewrite_node_def table_def taint_if_def)

lemma fold_node:
  assumes "folds mu a x" "folds mu b y" "int32 x" "int32 y" "etype a = i32" "literal_op op x y = Some z" "int32 z"
  shows "visit_Bin F mu op a b bs s = Some (num z, map_option (\<lambda>i. literal_info z) bs, s)"
proof -
  note info = folds_info [OF assms(1)] folds_info [OF assms(2)]
  have c: "commuted (num x) (num y) = (num x, num y)" by (simp add: commuted_def should_commute_def)
  have m: "may_simplify s i32" for s by (simp add: may_simplify_def halide_defs)
  have l: "info_min (literal_info v) = v" "info_max (literal_info v) = v" "min_defined (literal_info v)"
    "max_defined (literal_info v)" for v by (simp_all add: literal_info_def)
  note fold = fold_bounds [OF assms(3,4)] fold_extrema_bounds [OF assms(3,4)]
    literal_node [OF fold_rules(1) [OF assms(3,4)]] literal_node [OF fold_rules(2) [OF assms(3,4)]]
    literal_node [OF fold_rules(3) [OF assms(3,4)]]
  show ?thesis
    using assms(5-7)
    by (cases op; cases bs)
      (simp_all add: visit_Add_def visit_Sub_def visit_Mul_def visit_Min_def visit_Max_def info c m l fold on_bounds_def
        min_def max_def Let_def split: if_splits del: One_nat_def)
qed

lemma literals_fold: "literal_value e = Some v \<Longrightarrow> size e < n \<Longrightarrow> folds (mutate F n) e v"
proof (induction e arbitrary: v n rule: literal_value.induct)
  case (1 t v)
  then show ?case
    by (cases n) (auto simp: folds_def visit_IntImm_def halide_defs no_overflow_int_def fun_eq_iff split: if_splits option.splits)
next
  case (2 op a b)
  obtain m where n: "n = Suc m" using 2(4) by (cases n) auto
  obtain x y z where v: "literal_value a = Some x" "literal_value b = Some y" "literal_op op x y = Some z" "int32 z" "v = z"
    using 2(3) by (auto simp: bind_eq_Some_conv split: if_splits)
  have f: "folds (mutate F m) a x" "folds (mutate F m) b y"
    using 2(1) [OF v(1)] 2(2) [OF v(1,2)] 2(4) n by auto
  have t: "int32 x" "int32 y" "etype a = i32" using literal_value_int32 v(1,2) by blast+
  have "etype (Bin op a b) = i32" using literal_value_int32 [OF 2(3)] by blast
  then show ?case
    using fold_node [OF f t(1-3) v(3,4)] by (simp add: folds_def n v(5))
qed simp_all

lemma simplify_literals:
  assumes "literal_value e = Some v" "size e < n"
  shows "simplify F n e g r bi ai = Some (num v, new_simplify g r bi ai)"
  using literals_fold [OF assms, of F] by (simp add: folds_def simplify_def mutate_plain_def)

section \<open>Errors\<close>

text \<open>
  What a constant operation cannot compute is reported by a call in the expression, which
  takes the next number of its kind.
\<close>

definition poison :: "string \<Rightarrow> nat \<Rightarrow> expr" where
  "poison n k = Call i32 n [num (sext 32 (int k))] Intrinsic 0"

definition overflowed :: "simp_state \<Rightarrow> simp_state" where
  "overflowed s = s\<lparr>overflows := overflows s + 1, tainted := True\<rparr>"

definition undetermined :: "simp_state \<Rightarrow> simp_state" where
  "undetermined s = s\<lparr>indeterminates := indeterminates s + 1, tainted := True\<rparr>"

lemma overflow_rules:
  assumes "int32 x" "int32 y"
  shows "\<not> int32 (x + y) \<Longrightarrow> apply_rules F p (add_direct (num x) (num y)) (Add (num x) (num y)) i32 s =
      Some (Some (poison ''signed_integer_overflow'' (overflows s)), overflowed s)"
    and "\<not> int32 (x - y) \<Longrightarrow> apply_rules F p (sub_direct (num x) (num y)) (Sub (num x) (num y)) i32 s =
      Some (Some (poison ''signed_integer_overflow'' (overflows s)), overflowed s)"
    and "apply_rules F p (div_direct i32 (num x) (num 0)) (Div (num x) (num 0)) i32 s =
      Some (Some (poison ''indeterminate_expression'' (indeterminates s)), undetermined s)"
proof -
  show "apply_rules F p (add_direct (num x) (num y)) (Add (num x) (num y)) i32 s =
      Some (Some (poison ''signed_integer_overflow'' (overflows s)), overflowed s)" if "\<not> int32 (x + y)"
    using assms that int32_word [of x] int32_word [of y] unfolding int32_def
    by (simp add: add_direct_def)
      (simp add: run_rules poison_def overflowed_def undetermined_def add_would_overflow_iff del: add_would_overflow_def)
  show "apply_rules F p (sub_direct (num x) (num y)) (Sub (num x) (num y)) i32 s =
      Some (Some (poison ''signed_integer_overflow'' (overflows s)), overflowed s)" if "\<not> int32 (x - y)"
    using assms that int32_word [of x] int32_word [of y] unfolding int32_def
    by (simp add: sub_direct_def)
      (simp add: run_rules poison_def overflowed_def undetermined_def sub_would_overflow_iff del: sub_would_overflow_def)
  show "apply_rules F p (div_direct i32 (num x) (num 0)) (Div (num x) (num 0)) i32 s =
      Some (Some (poison ''indeterminate_expression'' (indeterminates s)), undetermined s)"
    using assms int32_word [of x] unfolding int32_def
    by (simp add: div_direct_def div_direct_1_def) (simp add: div_by_zero_def run_rules poison_def overflowed_def undetermined_def)
qed

lemma poison_node: "rewrite_node F mu (table rs) gs e ty rest b s = Some (e', b, s')"
  if "apply_rules F (mutate_plain mu) rs e ty s = Some (Some e', s')"
  using that by (simp add: rewrite_node_def table_def taint_if_def)

lemma poisons:
  assumes "literal_value a = Some x" "literal_value b = Some y" "size a + size b < n"
  shows "op = OpAdd \<and> \<not> int32 (x + y) \<or> op = OpSub \<and> \<not> int32 (x - y) \<Longrightarrow>
      mutate F (Suc n) (Bin op a b) None s = Some (poison ''signed_integer_overflow'' (overflows s), None, overflowed s)"
    and "y = 0 \<Longrightarrow>
      mutate F (Suc n) (Div a b) None s = Some (poison ''indeterminate_expression'' (indeterminates s), None, undetermined s)"
proof -
  have f: "folds (mutate F n) a x" "folds (mutate F n) b y"
    using literals_fold [OF assms(1)] literals_fold [OF assms(2)] assms(3) by auto
  have t: "int32 x" "int32 y" "etype a = i32" "etype b = i32" using literal_value_int32 assms(1,2) by blast+
  have c: "commuted (num x) (num y) = (num x, num y)" by (simp add: commuted_def should_commute_def)
  have m: "may_simplify s i32" for s by (simp add: may_simplify_def halide_defs)
  have p: "etype (poison w k) = i32" for w k by (simp add: poison_def)
  note rules = overflow_rules [OF t(1,2)] folds_info [OF f(1)] folds_info [OF f(2)] c m p t(3,4)
  show "op = OpAdd \<and> \<not> int32 (x + y) \<or> op = OpSub \<and> \<not> int32 (x - y) \<Longrightarrow>
      mutate F (Suc n) (Bin op a b) None s = Some (poison ''signed_integer_overflow'' (overflows s), None, overflowed s)"
    by (auto simp: visit_Add_def visit_Sub_def on_bounds_def Let_def rules poison_node simp del: One_nat_def)
  show "y = 0 \<Longrightarrow>
      mutate F (Suc n) (Div a b) None s = Some (poison ''indeterminate_expression'' (indeterminates s), None, undetermined s)"
    by (simp add: visit_Div_def Let_def rules poison_node del: One_nat_def)
qed

end
