(* ===== verification/Cascades.thy ===== *)
theory Cascades
  imports SimpCompare
begin

text \<open>
  The whole cascades of minima, maxima and comparisons, in the order in which the code tries
  their rules. Besides the tables that hold for every type they have rules on the bounds of the
  type, which are right for values in its range, and rules that are wrong where arithmetic
  wraps: rounding down in a narrow signed type and taking a constant out of a clamp in any type
  with overflow. A rewrite keeps the value unless one of these fires there.
\<close>

section \<open>Cascades\<close>

text \<open>Rules that do not apply, in any state.\<close>

definition silent :: "float_ops \<Rightarrow> 'a mach_scheme prover \<Rightarrow> rule list \<Rightarrow> expr \<Rightarrow> halide_type \<Rightarrow> bool" where
  "silent F prover rs e ty \<longleftrightarrow> (\<forall>r \<in> set rs. \<forall>s. apply_rule F prover r e ty s = Some (None, s))"

text \<open>Where signed overflow is undefined, values are those of the machine all the same.\<close>

definition machine_value :: "eval_env \<Rightarrow> nat \<Rightarrow> expr \<Rightarrow> bool" where
  "machine_value env l e \<longleftrightarrow>
     (no_overflow_int (etype e) \<longrightarrow> (\<forall>x. eval env e l = Some x \<longrightarrow> in_ety (ety (etype e)) x))"

definition cascade_rule :: "float_ops \<Rightarrow> 'a mach_scheme prover \<Rightarrow> eval_env \<Rightarrow> nat \<Rightarrow> expr \<Rightarrow> halide_type \<Rightarrow> rule \<Rightarrow> bool" where
  "cascade_rule F prover env l e ty r \<longleftrightarrow>
     silent F prover [r] e ty \<or> (\<exists>P. valid_rule P (operands e) r \<and> restricted P F env l r e)"

lemma silent_rules: "silent F prover rs e ty \<Longrightarrow> r \<in> set rs \<Longrightarrow> cascade_rule F prover env l e ty r"
  by (simp add: cascade_rule_def silent_def)

lemma table_rules:
  assumes "list_all (valid_rule (in_lanes t) (operands e)) rs" "l < lanes t" "r \<in> set rs"
  shows "cascade_rule F prover env l e ty r"
proof -
  have "restricted (in_lanes t) F env l r e"
    using assms(2) by (auto simp: restricted_def in_lanes_def vctx_of_def split: rule.splits)
  then show ?thesis using assms(1,3) by (auto simp: cascade_rule_def list_all_iff)
qed

lemma group_rules:
  "group_ok F env l e (False, Some rs) \<Longrightarrow> r \<in> set rs \<Longrightarrow> cascade_rule F prover env l e ty r"
  by (auto simp: group_ok_def cascade_rule_def list_all_iff)

lemma cascade_sound:
  assumes "wf e" "eval env e l = Some v" "etype e = ty" "l < lanes ty" "sound_prover I env l prover"
  shows "apply_rules F prover rs e ty s = Some (Some e', s') \<Longrightarrow> I s \<Longrightarrow> \<not> tainted s' \<Longrightarrow>
    (\<And>r. r \<in> set rs \<Longrightarrow> cascade_rule F prover env l e ty r) \<Longrightarrow>
    wf e' \<and> ety (etype e') = ety (etype e) \<and> eval env e' l = Some v"
proof (induction rs arbitrary: s)
  case (Cons r rs)
  obtain res s1 where r: "apply_rule F prover r e ty s = Some (res, s1)"
    using Cons.prems(1) by (auto simp: bind_eq_Some_conv)
  show ?case
  proof (cases res)
    case None
    then show ?thesis using Cons r apply_rule_keeps [OF r sound_keeping [OF assms(5)] Cons.prems(2)] by simp
  next
    case (Some e'')
    then have a: "apply_rule F prover r e ty s = Some (Some e', s')" using Cons.prems(1) r by simp
    then obtain P where v: "valid_rule P (operands e) r" "restricted P F env l r e"
      using Cons.prems(4) [of r] by (auto simp: cascade_rule_def silent_def)
    have "num_ety (ety (etype e))" using eval_ety [OF assms(1,2)] by simp
    then have h: "hint_ok ty" "lane_ok l e" using assms(1,3,4) wf_legal num_ety_num [of ty] by (auto simp: hint_ok_def lane_okt_def)
    show ?thesis
      using apply_rule_sound [OF a v assms(1,2) Cons.prems(3) h(1) _ assms(5) Cons.prems(2) h(2)] assms(3) by simp
  qed
qed simp

section \<open>Rules on the bounds of a type\<close>

lemma restricted_runI:
  assumes "wf e" "eval env e l = Some v" "typed lhs" "node_pat lhs"
    and "\<And>M. ctx_ok M \<Longrightarrow> wtd M (ety (etype e)) lhs \<Longrightarrow> knows M (ety (etype e)) (operands e) lhs \<Longrightarrow>
      (\<And>x w. eval env x l = Some w \<Longrightarrow> sval M x = w) \<Longrightarrow> P M"
  shows "restricted P F env l (Rewrite lhs aft p) e"
  unfolding restricted_def
proof (simp, intro allI impI)
  fix \<sigma>
  assume m: "pmatch F lhs e empty_state = Some \<sigma>"
  have M: "matches env l lhs e v empty_state \<sigma>"
    by (rule pmatch_sound [OF m assms(3,1,2) good_empty])
  then have g: "good env l \<sigma>" by (simp add: matches_def)
  have l: "lane (vctx_of env l \<sigma>) = l" "\<And>x w. eval env x l = Some w \<Longrightarrow> sval (vctx_of env l \<sigma>) x = w"
    by (simp_all add: vctx_of_def)
  show "P (vctx_of env l \<sigma>)"
    using assms(5) [OF vctx_of_ok [OF g] _ _ l(2)] M vctx_of_agrees [OF g] l(1)
      match_knows [OF m assms(3,1,2) vctx_of_agrees [OF g] l(1) assms(4)]
    unfolding matches_def by blast
qed

lemma machine_range:
  assumes "machine_value env l e" "wf e" "eval env e l = Some x"
  shows "in_ety (ety (etype e)) x"
proof (cases "no_overflow_int (etype e)")
  case True
  then show ?thesis using assms(1,3) by (simp add: machine_value_def)
next
  case False
  then show ?thesis using eval_ety [OF assms(2,3)] no_overflow_int_wide [of "etype e"] by (auto intro: in_ety_narrow)
qed

text \<open>The operand that a rule compares with a bound is in the range of its type.\<close>

lemma limit_rule:
  assumes "valid_rule in_bounds (operands e) r" "r = Rewrite lhs aft p" "wf e" "eval env e l = Some v"
    and "\<And>x. x \<in> set (operands e) \<Longrightarrow> machine_value env l x \<and> wf x \<and> (\<exists>w. eval env x l = Some w)"
    and "\<And>M. wtd M (ety (etype e)) lhs \<Longrightarrow> knows M (ety (etype e)) (operands e) lhs \<Longrightarrow>
      \<exists>x \<in> set (operands e). ety (etype x) = wty M 0 \<and> sval M x = wval M 0"
  shows "cascade_rule F prover env l e ty r"
proof -
  have t: "typed lhs" "node_pat lhs" using assms(1,2) by (auto simp: valid_rule_def)
  have "restricted in_bounds F env l r e"
    unfolding assms(2)
  proof (rule restricted_runI [OF assms(3,4) t])
    fix M
    assume k: "wtd M (ety (etype e)) lhs" "knows M (ety (etype e)) (operands e) lhs" and s: "\<And>x w. eval env x l = Some w \<Longrightarrow> sval M x = w"
    obtain x where x: "x \<in> set (operands e)" "ety (etype x) = wty M 0" "sval M x = wval M 0"
      using assms(6) [OF k] by blast
    obtain w where w: "machine_value env l x" "wf x" "eval env x l = Some w" using assms(5) [OF x(1)] by blast
    then show "in_bounds M" using machine_range [OF w] s [OF w(3)] x(2,3) by (simp add: in_bounds_def)
  qed
  then show ?thesis using assms(1) by (auto simp: cascade_rule_def)
qed

lemma limit_cascade:
  assumes "type_min F t = Some tmin" "type_max F t = Some tmax" "wf e" "eval env e l = Some v" "etype a = t"
    and "e = Bin op a b \<and> (op = OpMin \<and> rs = min_direct_limits tmin tmax a b \<or> op = OpMax \<and> rs = max_direct_limits tmin tmax a b)
      \<or> e = LT a b \<and> rs = lt_direct_limits tmin tmax"
    and "machine_value env l a" "machine_value env l b" "r \<in> set rs"
  shows "cascade_rule F prover env l e ty r"
proof -
  obtain x y where ab: "wf a" "wf b" "eval env a l = Some x" "eval env b l = Some y"
    using assms(3,4,6) by (auto simp: bind_eq_Some_conv split: if_splits)
  have "is_num t" "legal_type t"
    using eval_ety [OF ab(1,3)] num_ety_num [of t] wf_legal [OF ab(1)] assms(5) by auto
  note lim = type_limit_is_limit(2) [OF this(2,1) assms(1)] type_limit_is_limit(1) [OF this(2,1) assms(2)]
  obtain lhs aft p where r: "r = Rewrite lhs aft p" by (cases r)
  have ops: "operands e = [a, b]" using assms(6) by auto
  have v: "valid_rule in_bounds (operands e) r"
    using assms(6,9) limit_rules_valid [OF lim, of a b] lt_limit_rules_valid [OF lim, of a b] ops by (auto simp: list_all_iff)
  show ?thesis
  proof (rule limit_rule [OF v r assms(3,4)])
    show "machine_value env l x \<and> wf x \<and> (\<exists>w. eval env x l = Some w)" if "x \<in> set (operands e)" for x
      using that ab assms(7,8) ops by auto
    show "\<exists>x \<in> set (operands e). ety (etype x) = wty M 0 \<and> sval M x = wval M 0"
      if "wtd M (ety (etype e)) lhs" "knows M (ety (etype e)) (operands e) lhs" for M
      using that assms(6,9) r
      by (auto simp: knows_def min_direct_limits_def max_direct_limits_def lt_direct_limits_def pat_ops chint_def split: if_splits)
  qed
qed

section \<open>Minima and maxima\<close>

lemma stair_cascade:
  assumes "op \<in> {OpMin, OpMax}" "wf (Bin op a b)" "eval env (Bin op a b) l = Some v"
    and "rs = (if op = OpMin then min_direct_stair a b else max_direct_stair a b)"
    and "is_int (etype a) \<and> bits (etype a) < 32 \<Longrightarrow> silent F prover rs (Bin op a b) (etype a)" "r \<in> set rs"
  shows "cascade_rule F prover env l (Bin op a b) (etype a) r"
proof (cases "is_int (etype a) \<and> bits (etype a) < 32")
  case True
  show ?thesis by (rule silent_rules [OF assms(5) [OF True] assms(6)])
next
  case False
  have "stair_group (etype a) rs = (False, Some rs)" using False by (auto simp: stair_group_def)
  then show ?thesis
    using group_rules [OF _ assms(6)] extremum_stair_group [OF assms(1-3) refl assms(4)] by metis
qed

lemma limit_run: "type_min no_floats i32 = Some (num (- 2147483648))" "type_max no_floats i32 = Some (num 2147483647)"
  by (simp_all add: type_min_def type_max_def min_int_eq max_int_eq samples run_rules)

text \<open>C7: The whole cascade of Simplify_Min.cpp, in its order, with the rules on the bounds of the
  type and on rounding: a rewrite of a minimum keeps well-formedness, the element type and the
  value in every lane in which the node has one. The values of the operands are in the range of
  their type; in a narrow signed type no rounding rule fires, for these are wrong there. The
  prover asked for side conditions is sound and no folded constant overflowed.\<close>

theorem min_rewrites_sound:
  assumes "type_min F (etype a) = Some tmin" "type_max F (etype a) = Some tmax"
    and "apply_rules F prover (min_direct_1 a b @ min_direct_limits tmin tmax a b @ min_direct_stair a b @
      min_direct_rest (etype a) a b @ min_chain (etype a) a b) (MinE a b) (etype a) s = Some (Some e, s')"
    and "\<not> tainted s'" "wf (MinE a b)" "l < lanes (etype a)" "eval env (MinE a b) l = Some v"
    and "machine_value env l a" "machine_value env l b" "sound_prover I env l prover" "I s"
    and "is_int (etype a) \<and> bits (etype a) < 32 \<Longrightarrow> silent F prover (min_direct_stair a b) (MinE a b) (etype a)"
  shows "wf e \<and> ety (etype e) = ety (etype a) \<and> eval env e l = Some v"
proof -
  have t: "list_all (valid_rule (in_lanes (etype a)) (operands (MinE a b)))
      (min_direct_1 a b @ min_direct_rest (etype a) a b @ min_chain (etype a) a b)"
    using min_table_valid [of "etype a" a b] wf_legal [of a] assms(5) by simp
  have "cascade_rule F prover env l (MinE a b) (etype a) r"
    if "r \<in> set (min_direct_1 a b @ min_direct_limits tmin tmax a b @ min_direct_stair a b @
      min_direct_rest (etype a) a b @ min_chain (etype a) a b)" for r
    using that table_rules [OF t assms(6), where r = r and F = F and prover = prover and env = env and ty = "etype a"]
      stair_cascade [where op = OpMin and rs = "min_direct_stair a b" and r = r, OF _ assms(5,7) _ assms(12)]
      limit_cascade [OF assms(1,2,5,7) refl _ assms(8,9),
        where op = OpMin and rs = "min_direct_limits tmin tmax a b" and r = r and prover = prover and ty = "etype a"]
    by (simp, elim disjE) simp_all
  then have "wf e \<and> ety (etype e) = ety (etype (MinE a b)) \<and> eval env e l = Some v"
    using cascade_sound [OF assms(5,7) _ assms(6,10,3,11,4)] by simp
  then show ?thesis by simp
qed

theorem min_rewrites_sound_witness:
  "apply_rules no_floats ask (min_direct_1 (var_x) (num 2147483647) @ min_direct_limits (num (- 2147483648)) (num 2147483647) (var_x) (num 2147483647) @ min_direct_stair (var_x) (num 2147483647) @
      min_direct_rest i32 (var_x) (num 2147483647) @ min_chain i32 (var_x) (num 2147483647))
      (MinE (var_x) (num 2147483647)) i32 idle = Some (Some (var_x), idle) \<and>
   eval sample (var_x) 0 = Some 5"
proof (rule conjI)
  show r: "apply_rules no_floats ask (min_direct_1 (var_x) (num 2147483647) @ min_direct_limits (num (- 2147483648)) (num 2147483647) (var_x) (num 2147483647) @ min_direct_stair (var_x) (num 2147483647) @
      min_direct_rest i32 (var_x) (num 2147483647) @ min_chain i32 (var_x) (num 2147483647))
      (MinE (var_x) (num 2147483647)) i32 idle = Some (Some (var_x), idle)"
    by (simp add: min_direct_1_def min_direct_limits_def samples run_rules)
  show "eval sample (var_x) 0 = Some 5"
    using min_rewrites_sound [of no_floats "var_x" "num (- 2147483648)" "num 2147483647" ask "num 2147483647" idle "var_x" idle 0 sample 5 "\<lambda>s. True"] r ask_sound
    by (simp add: machine_value_def in_ety_def fits_def ety_def limit_run samples run_eval)
qed

text \<open>C11: The whole cascade of Simplify_Max.cpp, in its order, with the rules on the bounds of the
  type and on rounding: a rewrite of a maximum keeps well-formedness, the element type and the
  value in every lane in which the node has one. The values of the operands are in the range of
  their type; in a narrow signed type no rounding rule fires, for these are wrong there. The
  prover asked for side conditions is sound and no folded constant overflowed.\<close>

theorem max_rewrites_sound:
  assumes "type_min F (etype a) = Some tmin" "type_max F (etype a) = Some tmax"
    and "apply_rules F prover (max_direct_1 a b @ max_direct_limits tmin tmax a b @ max_direct_stair a b @
      max_direct_rest (etype a) a b @ max_chain (etype a) a b) (MaxE a b) (etype a) s = Some (Some e, s')"
    and "\<not> tainted s'" "wf (MaxE a b)" "l < lanes (etype a)" "eval env (MaxE a b) l = Some v"
    and "machine_value env l a" "machine_value env l b" "sound_prover I env l prover" "I s"
    and "is_int (etype a) \<and> bits (etype a) < 32 \<Longrightarrow> silent F prover (max_direct_stair a b) (MaxE a b) (etype a)"
  shows "wf e \<and> ety (etype e) = ety (etype a) \<and> eval env e l = Some v"
proof -
  have t: "list_all (valid_rule (in_lanes (etype a)) (operands (MaxE a b)))
      (max_direct_1 a b @ max_direct_rest (etype a) a b @ max_chain (etype a) a b)"
    using max_table_valid [of "etype a" a b] wf_legal [of a] assms(5) by simp
  have "cascade_rule F prover env l (MaxE a b) (etype a) r"
    if "r \<in> set (max_direct_1 a b @ max_direct_limits tmin tmax a b @ max_direct_stair a b @
      max_direct_rest (etype a) a b @ max_chain (etype a) a b)" for r
    using that table_rules [OF t assms(6), where r = r and F = F and prover = prover and env = env and ty = "etype a"]
      stair_cascade [where op = OpMax and rs = "max_direct_stair a b" and r = r, OF _ assms(5,7) _ assms(12)]
      limit_cascade [OF assms(1,2,5,7) refl _ assms(8,9),
        where op = OpMax and rs = "max_direct_limits tmin tmax a b" and r = r and prover = prover and ty = "etype a"]
    by (simp, elim disjE) simp_all
  then have "wf e \<and> ety (etype e) = ety (etype (MaxE a b)) \<and> eval env e l = Some v"
    using cascade_sound [OF assms(5,7) _ assms(6,10,3,11,4)] by simp
  then show ?thesis by simp
qed

theorem max_rewrites_sound_witness:
  "apply_rules no_floats ask (max_direct_1 (var_x) (num (- 2147483648)) @ max_direct_limits (num (- 2147483648)) (num 2147483647) (var_x) (num (- 2147483648)) @ max_direct_stair (var_x) (num (- 2147483648)) @
      max_direct_rest i32 (var_x) (num (- 2147483648)) @ max_chain i32 (var_x) (num (- 2147483648)))
      (MaxE (var_x) (num (- 2147483648))) i32 idle = Some (Some (var_x), idle) \<and>
   eval sample (var_x) 0 = Some 5"
proof (rule conjI)
  show r: "apply_rules no_floats ask (max_direct_1 (var_x) (num (- 2147483648)) @ max_direct_limits (num (- 2147483648)) (num 2147483647) (var_x) (num (- 2147483648)) @ max_direct_stair (var_x) (num (- 2147483648)) @
      max_direct_rest i32 (var_x) (num (- 2147483648)) @ max_chain i32 (var_x) (num (- 2147483648)))
      (MaxE (var_x) (num (- 2147483648))) i32 idle = Some (Some (var_x), idle)"
    by (simp add: max_direct_1_def max_direct_limits_def samples run_rules)
  show "eval sample (var_x) 0 = Some 5"
    using max_rewrites_sound [of no_floats "var_x" "num (- 2147483648)" "num 2147483647" ask "num (- 2147483648)" idle "var_x" idle 0 sample 5 "\<lambda>s. True"] r ask_sound
    by (simp add: machine_value_def in_ety_def fits_def ety_def limit_run samples run_eval)
qed

section \<open>Comparisons\<close>

text \<open>C6: The whole cascade of Simplify_LT.cpp, in its order, with the rules on the bounds of the type:
  a rewrite of an order comparison keeps well-formedness, the element type and the value in
  every lane in which the node has one. The values of the operands are in the range of their
  type, the prover asked for side conditions is sound and no folded constant overflowed.\<close>

theorem lt_rewrites_sound:
  assumes "type_min F (etype a) = Some tmin" "type_max F (etype a) = Some tmax" "ty = BoolT (lanes (etype a))"
    and "apply_rules F prover (lt_direct_1 @ lt_direct_limits tmin tmax @ lt_direct_rest ty @ lt_chain ty (etype a))
      (LT a b) ty s = Some (Some e, s')"
    and "\<not> tainted s'" "wf (LT a b)" "l < lanes ty" "eval env (LT a b) l = Some v"
    and "machine_value env l a" "machine_value env l b" "sound_prover I env l prover" "I s"
  shows "wf e \<and> ety (etype e) = ety ty \<and> eval env e l = Some v"
proof -
  have ty: "etype (LT a b) = ty" using assms(3) by simp
  have t: "list_all (valid_rule (in_lanes ty) (operands (LT a b))) (lt_direct_1 @ lt_direct_rest ty @ lt_chain ty (etype a))"
    using lt_table_valid [of ty a "etype a" b] wf_legal [OF assms(6)] compared_num [OF assms(6,8)] assms(3) by simp
  have "cascade_rule F prover env l (LT a b) ty r"
    if "r \<in> set (lt_direct_1 @ lt_direct_limits tmin tmax @ lt_direct_rest ty @ lt_chain ty (etype a))" for r
    using that table_rules [OF t assms(7), where r = r and F = F and prover = prover and env = env and ty = ty]
      limit_cascade [OF assms(1,2,6,8) refl _ assms(9,10),
        where rs = "lt_direct_limits tmin tmax" and r = r and prover = prover and ty = ty]
    by (simp, elim disjE) simp_all
  from cascade_sound [OF assms(6,8) ty assms(7,11,4,12,5) this] show ?thesis unfolding ty .
qed

theorem lt_rewrites_sound_witness:
  "apply_rules no_floats ask (lt_direct_1 @ lt_direct_limits (num (- 2147483648)) (num 2147483647) @ lt_direct_rest u1 @ lt_chain u1 i32)
      (LT (Add var_x (num 3)) var_y) u1 idle = Some (Some (LT var_x (Add var_y (num (- 3)))), idle) \<and>
   eval sample (LT var_x (Add var_y (num (- 3)))) 0 = Some 1"
proof (rule conjI)
  show r: "apply_rules no_floats ask (lt_direct_1 @ lt_direct_limits (num (- 2147483648)) (num 2147483647) @ lt_direct_rest u1 @ lt_chain u1 i32)
      (LT (Add var_x (num 3)) var_y) u1 idle = Some (Some (LT var_x (Add var_y (num (- 3)))), idle)"
    by (simp add: lt_direct_1_def lt_direct_limits_def lt_direct_rest_def lt_direct_2_def lt_chain_def lt_chain_broadcast_def
        lt_chain_wide_1_def samples run_rules)
  show "eval sample (LT var_x (Add var_y (num (- 3)))) 0 = Some 1"
    using lt_rewrites_sound [of no_floats "Add var_x (num 3)" "num (- 2147483648)" "num 2147483647" u1 ask "var_y" idle
        "(LT var_x (Add var_y (num (- 3))))" idle 0 sample 1 "\<lambda>s. True"] r ask_sound
    by (simp add: machine_value_def in_ety_def fits_def ety_def limit_run samples run_eval)
qed

text \<open>C12: The whole cascades of Simplify_EQ.cpp, in their order, those of Booleans and those of
  differences with the rules that take a constant out of a clamp: a rewrite keeps
  well-formedness, the element type and the value in every lane in which the node has one. In
  a type with overflow no clamp rule fires, for these are wrong there. The prover asked for
  side conditions is sound and no folded constant overflowed.\<close>

theorem eq_rewrites_sound:
  assumes "ty = BoolT (lanes (etype a))"
    and "apply_rules F prover (if is_bool (etype a) then eq_bool_one @ eq_bool_zero
      else eq_chain ty (etype a) @ eq_chain_clamp @ eq_chain_bound @ eq_direct) (EQ a b) ty s = Some (Some e, s')"
    and "\<not> tainted s'" "wf (EQ a b)" "l < lanes ty" "eval env (EQ a b) l = Some v"
    and "sound_prover I env l prover" "I s"
    and "\<not> no_overflow (etype a) \<Longrightarrow> silent F prover eq_chain_clamp (EQ a b) ty"
  shows "wf e \<and> ety (etype e) = ety ty \<and> eval env e l = Some v"
proof -
  have ty: "etype (EQ a b) = ty" using assms(1) by simp
  have l: "legal_type ty" using wf_legal [OF assms(4)] ty by simp
  have b: "list_all (valid_rule (in_lanes ty) (operands (EQ a b))) (eq_bool_one @ eq_bool_zero)" if "is_bool (etype a)"
    using that eq_rules_valid(1,2) [of a "in_lanes ty" b] by (simp add: is_bool_def is_uint_def ety_def)
  have t: "list_all (valid_rule (in_lanes ty) (operands (EQ a b))) (eq_chain ty (etype a) @ eq_chain_bound @ eq_direct)"
    using eq_table_valid [OF l refl, of a b] by simp
  have c: "cascade_rule F prover env l (EQ a b) ty r" if "r \<in> set eq_chain_clamp" for r
  proof (cases "no_overflow (etype a)")
    case True
    then have "list_all (valid_rule (in_lanes ty) (operands (EQ a b))) eq_chain_clamp" using eq_rules_valid(6) by simp
    then show ?thesis using assms(5) that by (rule table_rules)
  next
    case False
    show ?thesis by (rule silent_rules [OF assms(9) [OF False] that])
  qed
  have "cascade_rule F prover env l (EQ a b) ty r"
    if "r \<in> set (if is_bool (etype a) then eq_bool_one @ eq_bool_zero
      else eq_chain ty (etype a) @ eq_chain_clamp @ eq_chain_bound @ eq_direct)" for r
    using that table_rules [OF b assms(5), where r = r and F = F and prover = prover and env = env and ty = ty] c
      table_rules [OF t assms(5), where r = r and F = F and prover = prover and env = env and ty = ty]
    by (auto split: if_splits)
  from cascade_sound [OF assms(4,6) ty assms(5,7,2,8,3) this] show ?thesis unfolding ty .
qed

theorem eq_rewrites_sound_witness:
  "apply_rules no_floats ask (eq_chain u1 i32 @ eq_chain_clamp @ eq_chain_bound @ eq_direct)
      (EQ (Add (MinE var_x (num 7)) (num (- 2))) (num 0)) u1 idle = Some (Some (EQ var_x (num 2)), idle) \<and>
   eval sample (EQ var_x (num 2)) 0 = Some 0"
proof (rule conjI)
  show r: "apply_rules no_floats ask (eq_chain u1 i32 @ eq_chain_clamp @ eq_chain_bound @ eq_direct)
      (EQ (Add (MinE var_x (num 7)) (num (- 2))) (num 0)) u1 idle = Some (Some (EQ var_x (num 2)), idle)"
    by (simp add: eq_chain_def eq_chain_broadcast_def eq_chain_wide_def eq_chain_any_def eq_chain_clamp_def samples run_rules)
  show "eval sample (EQ var_x (num 2)) 0 = Some 0"
    using eq_rewrites_sound [of u1 "Add (MinE var_x (num 7)) (num (- 2))" no_floats ask "num 0" idle "EQ var_x (num 2)" idle 0 sample 0
        "\<lambda>s. True"] r ask_sound
    by (simp add: samples run_eval)
qed

end
