(* ===== verification/Alignment.thy ===== *)
theory Alignment
  imports ExprInfo Scope
begin

text \<open>
  The analysis of ModulusRemainder.cpp: \<open>ComputeModulusRemainder\<close> computes an alignment of an
  integer expression from the alignments of variables in a scope, and \<open>reduce_expr_modulo\<close>
  reads the remainder by a constant off it. Expressions that are not integer scalars fail
  an assertion. The analysis takes every operation to be exact; it is wrong for types that
  wrap, and for a let that hides a variable of the scope by a value that is not an integer.
\<close>

section \<open>The analysis\<close>

fun mr_operator :: "bin_op \<Rightarrow> modulus_remainder \<Rightarrow> modulus_remainder \<Rightarrow> modulus_remainder option" where
  "mr_operator OpAdd x y = mr_add x y"
| "mr_operator OpSub x y = mr_sub x y"
| "mr_operator OpMul x y = mr_mul x y"
| "mr_operator OpDiv x y = mr_div x y"
| "mr_operator OpMod x y = mr_modulo x y"
| "mr_operator OpMin x y = mr_unify x y"
| "mr_operator OpMax x y = mr_unify x y"
| "mr_operator OpAnd x y = None"
| "mr_operator OpOr x y = None"

text \<open>A binding for the time of a computation that keeps the scope is gone after it.\<close>

lemma scoped_binding_restores:
  assumes "scope_ok s" "body (if cond then scope_push n x s else s) = Some (r, if cond then scope_push n x s else s)"
  shows "scoped_binding cond n x body s = Some (r, s)"
  using assms scope_pop_push [OF assms(1)] by (simp add: scoped_binding_def)

text \<open>
  The scope is left as it was found (\<open>scoped_binding_restores\<close>), so the analysis only reads
  it; a let analyses its body in the scope with the binding on top.
\<close>

fun analyze :: "expr \<Rightarrow> modulus_remainder scope \<Rightarrow> modulus_remainder option" where
  "analyze (IntImm t v) sc = Some (MR 0 v)"
| "analyze (UIntImm t v) sc = None"
| "analyze (FloatImm t v) sc = None"
| "analyze (StringImm v) sc = None"
| "analyze (Cast t a) sc = Some mr_top"
| "analyze (Variable t n) sc = (if scope_contains sc n then scope_get sc n else Some mr_top)"
| "analyze (Bin op a b) sc = do { x \<leftarrow> analyze a sc; y \<leftarrow> analyze b sc; mr_operator op x y }"
| "analyze (Cmp op a b) sc = None"
| "analyze (NotE a) sc = None"
| "analyze (Select c a b) sc = do { x \<leftarrow> analyze a sc; y \<leftarrow> analyze b sc; mr_unify x y }"
| "analyze (Load t n p i im pa al) sc = Some mr_top"
| "analyze (Ramp a b n) sc = None"
| "analyze (Broadcast a n) sc = None"
| "analyze (Call t n as ct vi) sc = Some mr_top"
| "analyze (LetE n v b) sc =
     (if is_int (etype v) then do { m \<leftarrow> analyze v sc; analyze b (scope_push n m sc) } else analyze b sc)"
| "analyze (Shuffle vs is) sc = (if length is = 1 then Some mr_top else None)"

definition modulus_remainder_of :: "expr \<Rightarrow> modulus_remainder option" where
  "modulus_remainder_of e = analyze e empty_scope"

definition modulus_remainder_in :: "expr \<Rightarrow> modulus_remainder scope \<Rightarrow> modulus_remainder option" where
  "modulus_remainder_in e s = analyze e (set_containing_scope (Some s) empty_scope)"

definition reduce_expr_modulo :: "expr \<Rightarrow> int \<Rightarrow> int option option" where
  "reduce_expr_modulo e m = do { a \<leftarrow> modulus_remainder_of e; mr_reduce a m }"

definition reduce_expr_modulo_in :: "expr \<Rightarrow> int \<Rightarrow> modulus_remainder scope \<Rightarrow> int option option" where
  "reduce_expr_modulo_in e m s = do { a \<leftarrow> modulus_remainder_in e s; mr_reduce a m }"

section \<open>Soundness\<close>

text \<open>
  The expressions for which the analysis is right: arithmetic is done in types without
  overflow, and a let of another type than integer binds no name known to the scope.
\<close>

fun exact_arith :: "string set \<Rightarrow> expr \<Rightarrow> bool" where
  "exact_arith known (Bin op a b) \<longleftrightarrow> no_overflow_int (etype a) \<and> exact_arith known a \<and> exact_arith known b"
| "exact_arith known (Select c a b) \<longleftrightarrow> exact_arith known a \<and> exact_arith known b"
| "exact_arith known (LetE n v b) \<longleftrightarrow>
     (if is_int (etype v) then exact_arith known v \<and> exact_arith (insert n known) b
      else n \<notin> known \<and> exact_arith known b)"
| "exact_arith known _ \<longleftrightarrow> True"

definition aligned :: "eval_env \<Rightarrow> string set \<Rightarrow> modulus_remainder scope \<Rightarrow> bool" where
  "aligned env known sc \<longleftrightarrow> scope_ok sc \<and>
     (\<forall>n m. scope_get sc n = Some m \<longrightarrow> n \<in> known \<and> mr_int64 m \<and> (\<forall>l v. vars env n l = Some v \<longrightarrow> mr_has m v))"

lemma aligned_push:
  assumes "aligned env known sc" "mr_int64 m" "\<And>l v. value l = Some v \<Longrightarrow> mr_has m v"
  shows "aligned (env\<lparr>vars := (vars env)(n := value)\<rparr>) (insert n known) (scope_push n m sc)"
  using assms scope_push_get [of sc n m] by (auto simp: aligned_def)

lemma mr_operator_int64: "mr_operator op x y = Some m \<Longrightarrow> mr_int64 x \<Longrightarrow> mr_int64 y \<Longrightarrow> mr_int64 m"
  by (cases op) (auto intro: mr_ops_int64)

lemma mr_operator_sound:
  assumes "mr_operator op x y = Some m" "mr_has x v" "mr_has y w" "mr_int64 x" "mr_int64 y"
    and "bin_val op (\<lambda>z. z) v w = Some z"
  shows "mr_has m z"
  using assms mr.add_sound mr.sub_sound mr.mul_sound mr.quot_sound mr.modulo_sound mr.join_min mr.join_max
  by (cases op) (auto split: if_splits)

lemma wf_exact_norm: "no_overflow_int t \<Longrightarrow> norm t = (\<lambda>z. z)"
  by (rule ext) (simp add: norm_def wrap_ty_def no_overflow_int_def is_int_def)

lemma analyze_sound:
  "analyze e sc = Some m \<Longrightarrow> wf e \<Longrightarrow> exact_arith known e \<Longrightarrow> aligned env known sc \<Longrightarrow>
    mr_int64 m \<and> (\<forall>l v. eval env e l = Some v \<longrightarrow> mr_has m v)"
proof (induction e sc arbitrary: m known env rule: analyze.induct)
  case (1 t v sc)
  then show ?case using legal_bits [of t] fits_int64 [of "bits t" v] by (auto simp: mr_int64_def)
next
  case (6 t n sc)
  then show ?case by (auto simp: aligned_def mr_int64_top bind_eq_Some_conv split: if_splits)
next
  case (7 op a b sc)
  obtain x y where xy: "analyze a sc = Some x" "analyze b sc = Some y" "mr_operator op x y = Some m"
    using 7(3) by (auto simp: bind_eq_Some_conv)
  have w: "wf a" "wf b" "norm (etype a) = (\<lambda>z. z)" using 7(4,5) wf_exact_norm by auto
  note IH = 7(1) [OF xy(1) w(1) _ 7(6)] 7(2) [OF xy(1,2) w(2) _ 7(6)]
  have ab: "mr_int64 x \<and> (\<forall>l v. eval env a l = Some v \<longrightarrow> mr_has x v)" "mr_int64 y \<and> (\<forall>l v. eval env b l = Some v \<longrightarrow> mr_has y v)"
    using IH 7(5) by auto
  have "mr_has m z" if "eval env a l = Some p" "eval env b l = Some q" "bin_val op (\<lambda>z. z) p q = Some z" for l p q z
    using mr_operator_sound [OF xy(3) _ _ _ _ that(3)] ab that(1,2) by blast
  then show ?case using mr_operator_int64 [OF xy(3)] ab w(3) by (auto simp: bind_eq_Some_conv)
next
  case (10 c a b sc)
  obtain x y where xy: "analyze a sc = Some x" "analyze b sc = Some y" "mr_unify x y = Some m"
    using 10(3) by (auto simp: bind_eq_Some_conv)
  have w: "wf a" "wf b" using 10(4) by auto
  note IH = 10(1) [OF xy(1) w(1) _ 10(6)] 10(2) [OF xy(1,2) w(2) _ 10(6)]
  show ?case
    using IH 10(5) mr_unify_int64 [OF xy(3)] mr.join_sound [OF xy(3)] by (auto simp: bind_eq_Some_conv)
next
  case (15 n v b sc)
  show ?case
  proof (cases "is_int (etype v)")
    case True
    obtain x where x: "analyze v sc = Some x" "analyze b (scope_push n x sc) = Some m"
      using 15(4) True by (auto simp: bind_eq_Some_conv)
    have v: "mr_int64 x \<and> (\<forall>l u. eval env v l = Some u \<longrightarrow> mr_has x u)"
      using 15(1) [OF True x(1) _ _ 15(7)] 15(5,6) True by simp
    show ?thesis
      using 15(2) [OF True x(1) x(2) _ _ aligned_push [OF 15(7), of x "\<lambda>l. eval env v l"]] 15(5,6) True v by simp
  next
    case False
    have "aligned (env\<lparr>vars := (vars env)(n := (\<lambda>l. eval env v l))\<rparr>) known sc"
      using 15(6,7) False by (auto simp: aligned_def)
    then show ?thesis using 15(3) [OF False] 15(4-6) False by auto
  qed
qed (auto simp: mr_int64_top split: if_splits)

lemma aligned_empty: "aligned env known empty_scope"
  by (simp add: aligned_def) (simp add: empty_scope_def)

lemma aligned_containing:
  assumes "aligned env known s"
  shows "aligned env known (set_containing_scope (Some s) empty_scope)"
  using assms by (simp add: aligned_def set_containing_scope_def empty_scope_def scope_ok_def)

lemma modulus_remainder_in_sound:
  assumes "modulus_remainder_in e s = Some m" "wf e" "exact_arith known e" "aligned env known s" "eval env e l = Some v"
  shows "mr_has m v"
  using analyze_sound [OF assms(1) [unfolded modulus_remainder_in_def] assms(2,3) aligned_containing [OF assms(4)]] assms(5)
  by blast

lemma reduce_expr_modulo_in_sound:
  assumes "reduce_expr_modulo_in e k s = Some (Some r)" "wf e" "exact_arith known e" "aligned env known s" "eval env e l = Some v"
  shows "r = emod v k"
  using assms(1) modulus_remainder_in_sound [OF _ assms(2-5)] mr_reduce_sound
  by (auto simp: reduce_expr_modulo_in_def bind_eq_Some_conv)

end
