(* ===== verification/Monotonic.thy ===== *)
theory Monotonic
  imports Scope Lanes SemanticsFacts
begin

text \<open>
  \<open>Monotonic.cpp\<close>: whether an expression rises or falls with a variable. The analysis takes
  arithmetic to be exact, names of lets to differ from the variable, and asks a prover about
  the branches of a select, which is a parameter.
\<close>

section \<open>The analysis\<close>

datatype monotonic = Constant | Increasing | Decreasing | Unknown

fun mono_flip :: "monotonic \<Rightarrow> monotonic" where
  "mono_flip Increasing = Decreasing"
| "mono_flip Decreasing = Increasing"
| "mono_flip r = r"

definition mono_unify :: "monotonic \<Rightarrow> monotonic \<Rightarrow> monotonic" where
  "mono_unify a b =
     (if a = b then a
      else if a = Unknown \<or> b = Unknown then Unknown
      else if a = Constant then b
      else if b = Constant then a
      else Unknown)"

text \<open>The sign of a literal under casts, broadcasts and ramps.\<close>

fun is_positive_const :: "float_ops \<Rightarrow> expr \<Rightarrow> bool" where
  "is_positive_const F (IntImm t v) \<longleftrightarrow> v > 0"
| "is_positive_const F (UIntImm t v) \<longleftrightarrow> v > 0"
| "is_positive_const F (FloatImm t v) \<longleftrightarrow> fl_lt F (fl_of_int F 0) v"
| "is_positive_const F (Cast t a) \<longleftrightarrow> is_positive_const F a"
| "is_positive_const F (Ramp a b n) \<longleftrightarrow> is_positive_const F a \<and> is_positive_const F b"
| "is_positive_const F (Broadcast a n) \<longleftrightarrow> is_positive_const F a"
| "is_positive_const F _ \<longleftrightarrow> False"

fun is_negative_const :: "float_ops \<Rightarrow> expr \<Rightarrow> bool" where
  "is_negative_const F (IntImm t v) \<longleftrightarrow> v < 0"
| "is_negative_const F (FloatImm t v) \<longleftrightarrow> fl_lt F v (fl_of_int F 0)"
| "is_negative_const F (Cast t a) \<longleftrightarrow> is_negative_const F a"
| "is_negative_const F (Ramp a b n) \<longleftrightarrow> is_negative_const F a \<and> is_negative_const F b"
| "is_negative_const F (Broadcast a n) \<longleftrightarrow> is_negative_const F a"
| "is_negative_const F _ \<longleftrightarrow> False"

definition mono_mul :: "float_ops \<Rightarrow> expr \<Rightarrow> expr \<Rightarrow> monotonic \<Rightarrow> monotonic \<Rightarrow> monotonic" where
  "mono_mul F a b ra rb =
     (if ra = Constant \<and> rb = Constant then Constant
      else if is_positive_const F a then rb
      else if is_positive_const F b then ra
      else if is_negative_const F a then mono_flip rb
      else if is_negative_const F b then mono_flip ra
      else Unknown)"

definition mono_div :: "float_ops \<Rightarrow> expr \<Rightarrow> monotonic \<Rightarrow> monotonic \<Rightarrow> monotonic" where
  "mono_div F b ra rb =
     (if ra = Constant \<and> rb = Constant then Constant
      else if is_positive_const F b then ra
      else if is_negative_const F b then mono_flip ra
      else Unknown)"

definition mono_cast :: "halide_type \<Rightarrow> expr \<Rightarrow> monotonic \<Rightarrow> monotonic" where
  "mono_cast t a r =
     (if can_represent t (etype a) then r
      else if 32 \<le> bits (etype a) \<and> 32 \<le> bits t then r
      else if r \<noteq> Constant then Unknown else r)"

text \<open>What the operators do with the results for their operands, in the order of the switch.\<close>

definition mono_select :: "bool \<Rightarrow> bool \<Rightarrow> monotonic \<Rightarrow> monotonic \<Rightarrow> monotonic \<Rightarrow> monotonic" where
  "mono_select true_ge true_le rcond ra rb =
     (let unified = mono_unify ra rb in
      if rcond = Constant then unified
      else if true_ge \<and> true_le then ra
      else if (unified = Increasing \<or> unified = Constant) \<and>
              (rcond = Increasing \<and> true_ge \<or> rcond = Decreasing \<and> true_le) then Increasing
      else if (unified = Decreasing \<or> unified = Constant) \<and>
              (rcond = Increasing \<and> true_le \<or> rcond = Decreasing \<and> true_ge) then Decreasing
      else Unknown)"

definition mono_bin :: "float_ops \<Rightarrow> bin_op \<Rightarrow> expr \<Rightarrow> expr \<Rightarrow> monotonic \<Rightarrow> monotonic \<Rightarrow> monotonic" where
  "mono_bin F op a b ra rb =
     (case op of
        OpSub \<Rightarrow> mono_unify ra (mono_flip rb)
      | OpMul \<Rightarrow> mono_mul F a b ra rb
      | OpDiv \<Rightarrow> mono_div F b ra rb
      | OpMod \<Rightarrow> Unknown
      | _ \<Rightarrow> mono_unify ra rb)"

text \<open>\<open>>\<close> and \<open>>=\<close> visit their operands the other way around.\<close>

definition mono_cmp :: "cmp_op \<Rightarrow> monotonic \<Rightarrow> monotonic \<Rightarrow> monotonic" where
  "mono_cmp op ra rb =
     (case op of
        OpEQ \<Rightarrow> if ra = Constant \<and> rb = Constant then Constant else Unknown
      | OpNE \<Rightarrow> if ra = Constant \<and> rb = Constant then Constant else Unknown
      | OpLT \<Rightarrow> mono_unify (mono_flip ra) rb
      | OpLE \<Rightarrow> mono_unify (mono_flip ra) rb
      | OpGT \<Rightarrow> mono_unify (mono_flip rb) ra
      | OpGE \<Rightarrow> mono_unify (mono_flip rb) ra)"

text \<open>The arguments of a call, and the vectors of a shuffle: the first that is not constant decides.\<close>

fun mono_all :: "(expr \<Rightarrow> monotonic option) \<Rightarrow> expr list \<Rightarrow> monotonic option" where
  "mono_all f [] = Some Constant"
| "mono_all f (e # es) = do { r \<leftarrow> f e; if r \<noteq> Constant then Some Unknown else mono_all f es }"

lemma mono_all_cong [fundef_cong]:
  "es = es' \<Longrightarrow> (\<And>e. e \<in> set es' \<Longrightarrow> f e = g e) \<Longrightarrow> mono_all f es = mono_all g es'"
proof (induction es arbitrary: es')
  case (Cons e es)
  then have "f e = g e" "mono_all f es = mono_all g es" by auto
  then show ?case using Cons.prems(1) by (auto cong: if_cong)
qed auto

lemma last_size [termination_simp]: "as \<noteq> [] \<Longrightarrow> size (last as) < Suc (size_list size as)"
  using size_list_estimation' [OF last_in_set, of as "size (last as)" size] by simp

text \<open>
  \<open>prove\<close> is \<open>can_prove\<close>. A let whose value is not constant is analysed with its name bound in the
  scope, which has the name popped again at the end. Vectors and strings fail an assertion.
\<close>

fun monotonic_in :: "float_ops \<Rightarrow> (expr \<Rightarrow> bool) \<Rightarrow> string \<Rightarrow> monotonic scope \<Rightarrow> expr \<Rightarrow> monotonic option" where
  "monotonic_in F prove var sc (IntImm t v) = Some Constant"
| "monotonic_in F prove var sc (UIntImm t v) = Some Constant"
| "monotonic_in F prove var sc (FloatImm t v) = Some Constant"
| "monotonic_in F prove var sc (StringImm v) = None"
| "monotonic_in F prove var sc (Cast t a) = do { r \<leftarrow> monotonic_in F prove var sc a; Some (mono_cast t a r) }"
| "monotonic_in F prove var sc (Variable t n) =
     (if n = var then Some Increasing else if scope_contains sc n then scope_get sc n else Some Constant)"
| "monotonic_in F prove var sc (Bin op a b) =
     (if op = OpMod then Some Unknown
      else do { ra \<leftarrow> monotonic_in F prove var sc a; rb \<leftarrow> monotonic_in F prove var sc b; Some (mono_bin F op a b ra rb) })"
| "monotonic_in F prove var sc (Cmp op a b) = do {
     ra \<leftarrow> monotonic_in F prove var sc a; rb \<leftarrow> monotonic_in F prove var sc b; Some (mono_cmp op ra rb) }"
| "monotonic_in F prove var sc (NotE a) = do { r \<leftarrow> monotonic_in F prove var sc a; Some (mono_flip r) }"
| "monotonic_in F prove var sc (Select c a b) = do {
     rcond \<leftarrow> monotonic_in F prove var sc c;
     ra \<leftarrow> monotonic_in F prove var sc a;
     rb \<leftarrow> monotonic_in F prove var sc b;
     if rcond = Constant then Some (mono_unify ra rb)
     else do {
       true_ge \<leftarrow> Cmp_make OpGE a b;
       true_le \<leftarrow> Cmp_make OpLE a b;
       Some (mono_select (prove true_ge) (prove true_le) rcond ra rb) } }"
| "monotonic_in F prove var sc (Load t n p i im pa al) = do {
     r \<leftarrow> monotonic_in F prove var sc i; Some (if r \<noteq> Constant then Unknown else r) }"
| "monotonic_in F prove var sc (Ramp a b n) = None"
| "monotonic_in F prove var sc (Broadcast a n) = None"
| "monotonic_in F prove var sc (Call t n as ct vi) =
     (if is_intrinsic n ct ''likely'' \<or> is_intrinsic n ct ''likely_if_innermost'' \<or> is_intrinsic n ct ''return_second''
      then (if as = [] then None else monotonic_in F prove var sc (last as))
      else mono_all (monotonic_in F prove var sc) as)"
| "monotonic_in F prove var sc (LetE n v b) = do {
     r \<leftarrow> monotonic_in F prove var sc v;
     monotonic_in F prove var (if r = Constant then sc else scope_push n r sc) b }"
| "monotonic_in F prove var sc (Shuffle vs is) = mono_all (monotonic_in F prove var sc) vs"

definition is_monotonic :: "float_ops \<Rightarrow> (expr \<Rightarrow> bool) \<Rightarrow> expr \<Rightarrow> string \<Rightarrow> monotonic option" where
  "is_monotonic F prove e var = monotonic_in F prove var empty_scope e"

section \<open>What a result means\<close>

fun moves :: "monotonic \<Rightarrow> int \<Rightarrow> int \<Rightarrow> bool" where
  "moves Constant v w \<longleftrightarrow> v = w"
| "moves Increasing v w \<longleftrightarrow> v \<le> w"
| "moves Decreasing v w \<longleftrightarrow> w \<le> v"
| "moves Unknown v w \<longleftrightarrow> True"

lemma moves_const: "moves Constant v w \<Longrightarrow> moves r v w" "moves r v v"
  by (cases r; simp)+

lemma moves_flip: "moves (mono_flip r) v w \<longleftrightarrow> moves r w v"
  by (cases r) auto

lemma moves_unify: "moves a v w \<Longrightarrow> moves (mono_unify a b) v w" "moves b v w \<Longrightarrow> moves (mono_unify a b) v w"
  by (cases a; cases b; simp add: mono_unify_def)+

lemma moves_unify2:
  assumes "moves ra v w" "moves rb x y" "v \<le> w \<and> x \<le> y \<Longrightarrow> s \<le> t" "w \<le> v \<and> y \<le> x \<Longrightarrow> t \<le> (s :: int)"
  shows "moves (mono_unify ra rb) s t"
  using assms by (cases ra; cases rb) (auto simp: mono_unify_def)

lemma moves_same: "moves r v w \<Longrightarrow> r = Constant \<Longrightarrow> v = w"
  by simp

section \<open>Where the analysis is right\<close>

text \<open>
  \<open>exact_in\<close>: in an environment, sums, differences, products and quotients do not wrap, casts between
  types of 32 bits or more keep their value, as do casts of literals, no let binds the
  variable, and \<open>return_second\<close> returns its last argument.
\<close>

fun exact_in :: "float_ops \<Rightarrow> string \<Rightarrow> eval_env \<Rightarrow> expr \<Rightarrow> bool" where
  "exact_in F var E (Cast t a) \<longleftrightarrow> exact_in F var E a \<and>
     (32 \<le> bits (etype a) \<and> 32 \<le> bits t \<or> is_positive_const F a \<or> is_negative_const F a \<longrightarrow>
       (\<forall>l x. eval E a l = Some x \<longrightarrow> cast_val (etype a) t x = x))"
| "exact_in F var E (Bin op a b) \<longleftrightarrow> op = OpMod \<or> exact_in F var E a \<and> exact_in F var E b \<and>
     (\<forall>l x y. eval E a l = Some x \<longrightarrow> eval E b l = Some y \<longrightarrow>
       bin_val op (norm (etype a)) x y = bin_val op (\<lambda>v. v) x y)"
| "exact_in F var E (Cmp op a b) \<longleftrightarrow> exact_in F var E a \<and> exact_in F var E b"
| "exact_in F var E (NotE a) \<longleftrightarrow> exact_in F var E a"
| "exact_in F var E (Select c a b) \<longleftrightarrow> exact_in F var E c \<and> exact_in F var E a \<and> exact_in F var E b"
| "exact_in F var E (Load t n p i im pa al) \<longleftrightarrow> exact_in F var E i"
| "exact_in F var E (Call t n as ct vi) \<longleftrightarrow> list_all (exact_in F var E) as \<and>
     (is_intrinsic n ct ''return_second'' \<longrightarrow>
       (\<forall>xs v. call_val (fns E) t n ct vi xs = Some v \<longrightarrow> v = last xs))"
| "exact_in F var E (LetE n v b) \<longleftrightarrow> n \<noteq> var \<and> exact_in F var E v \<and>
     exact_in F var (E\<lparr>vars := (vars E)(n := eval E v)\<rparr>) b"
| "exact_in F var E (Shuffle vs is) \<longleftrightarrow> list_all (exact_in F var E) vs"
| "exact_in F var E _ \<longleftrightarrow> True"

text \<open>What a prover promises: an expression it accepts is true wherever it has a value.\<close>

definition proves_true :: "(expr \<Rightarrow> bool) \<Rightarrow> bool" where
  "proves_true prove \<longleftrightarrow> (\<forall>c env l v. prove c \<longrightarrow> eval env c l = Some v \<longrightarrow> v \<noteq> 0)"

text \<open>Two environments between which the variable rises and the others move as the scope says.\<close>

definition motion :: "string \<Rightarrow> monotonic scope \<Rightarrow> string \<Rightarrow> monotonic option" where
  "motion var sc n = (if n = var then Some Increasing else if scope_contains sc n then scope_get sc n else Some Constant)"

definition moved :: "string \<Rightarrow> monotonic scope \<Rightarrow> eval_env \<Rightarrow> eval_env \<Rightarrow> bool" where
  "moved var sc E E' \<longleftrightarrow> scope_ok sc \<and> mem E = mem E' \<and> fns E = fns E' \<and>
     (\<forall>n r l x y. motion var sc n = Some r \<longrightarrow> vars E n l = Some x \<longrightarrow> vars E' n l = Some y \<longrightarrow> moves r x y)"

lemma moved_let:
  assumes "moved var sc E E'" "n \<noteq> var"
    and "\<And>l x y. d l = Some x \<Longrightarrow> d' l = Some y \<Longrightarrow> moves r x y"
  shows "moved var (if r = Constant then sc else scope_push n r sc)
    (E\<lparr>vars := (vars E)(n := d)\<rparr>) (E'\<lparr>vars := (vars E')(n := d')\<rparr>)"
proof (cases "r = Constant")
  case True
  then have "moves s x y" if "d l = Some x" "d' l = Some y" for l x y s
    using assms(3) [OF that] moves_const(1) by blast
  then show ?thesis using assms(1) True by (auto simp: moved_def)
next
  case False
  have sc: "scope_ok sc" using assms(1) by (simp add: moved_def)
  have "motion var (scope_push n r sc) k = (if k = n then Some r else motion var sc k)" for k
    using assms(2) by (simp add: motion_def scope_push_get [OF sc])
  then show ?thesis using assms False sc by (auto simp: moved_def)
qed

section \<open>Operators\<close>

lemma mono_all_cases:
  "mono_all f es = Some r \<Longrightarrow> r = Unknown \<or> r = Constant \<and> (\<forall>e \<in> set es. f e = Some Constant)"
  by (induction es) (auto simp: bind_eq_Some_conv split: if_splits)

lemma const_sign:
  assumes "monotonic_in F prove var sc a = Some r" "exact_in F var E a" "eval E a l = Some v"
  shows "is_positive_const F a \<Longrightarrow> 0 < v" "is_negative_const F a \<Longrightarrow> v < 0"
    "is_positive_const F a \<or> is_negative_const F a \<Longrightarrow> r = Constant"
proof -
  have "(is_positive_const F a \<longrightarrow> 0 < v) \<and> (is_negative_const F a \<longrightarrow> v < 0) \<and>
      (is_positive_const F a \<or> is_negative_const F a \<longrightarrow> r = Constant)"
    using assms
  proof (induction a arbitrary: r v)
    case (Cast t a)
    then obtain s x where "monotonic_in F prove var sc a = Some s" "r = mono_cast t a s" "eval E a l = Some x"
      "v = cast_val (etype a) t x"
      by (auto simp: bind_eq_Some_conv split: if_splits)
    then show ?case using Cast.IH [of s x] Cast.prems(2) by (auto simp: mono_cast_def)
  qed (auto simp: bind_eq_Some_conv)
  then show "is_positive_const F a \<Longrightarrow> 0 < v" "is_negative_const F a \<Longrightarrow> v < 0"
    "is_positive_const F a \<or> is_negative_const F a \<Longrightarrow> r = Constant" by blast+
qed

lemma cast_kept:
  assumes "can_represent t s" "legal_type t" "legal_type s" "is_num t" "is_num s" "norm s v = v"
  shows "cast_val s t v = v"
proof -
  have b: "0 < bits t" "0 < bits s" using legal_bits assms(2,3) by blast+
  consider (int) "is_int t" "is_int s" "bits s \<le> bits t" | (widen) "is_int t" "is_uint s" "bits s < bits t"
    | (uint) "is_uint t" "is_uint s" "bits s \<le> bits t"
    using assms(1,4,5) by (auto simp: can_represent_def is_num_def is_int_def is_uint_def split: if_splits)
  then show ?thesis
  proof cases
    case int
    then show ?thesis by (simp add: cast_val_def)
  next
    case widen
    then have v: "0 \<le> v" "v < 2 ^ bits s"
      using assms(6) take_bit_nonnegative [of "bits s" v] take_bit_int_less_exp [of "bits s" v]
      by (simp_all add: norm_def wrap_ty_def is_uint_def)
    have "(2 :: int) ^ bits s \<le> 2 ^ (bits t - 1)" using widen(3) by simp
    from less_le_trans [OF v(2) this] have u: "v < 2 ^ (bits t - 1)" .
    have "- (2 ^ (bits t - 1)) \<le> (0 :: int)" by simp
    from order_trans [OF this v(1)] have "signed_take_bit (bits t - 1) v = v"
      using u by (rule signed_take_bit_int_eq_self)
    then show ?thesis using widen by (simp add: cast_val_def is_int_def is_uint_def)
  next
    case uint
    then have v: "0 \<le> v" "v < 2 ^ bits s"
      using assms(6) take_bit_nonnegative [of "bits s" v] take_bit_int_less_exp [of "bits s" v]
      by (simp_all add: norm_def wrap_ty_def is_uint_def)
    have "(2 :: int) ^ bits s \<le> 2 ^ bits t" using uint(3) by simp
    from less_le_trans [OF v(2) this] have "take_bit (bits t) v = v" using v(1) by (simp add: take_bit_int_eq_self)
    then show ?thesis using uint by (simp add: cast_val_def is_int_def is_uint_def)
  qed
qed

lemma ediv_monotone: "x \<le> y \<Longrightarrow> 0 < c \<Longrightarrow> ediv x c \<le> ediv y c" "x \<le> y \<Longrightarrow> c < 0 \<Longrightarrow> ediv y c \<le> ediv x c"
  by (simp_all add: ediv_def zdiv_mono1)

lemma mono_mul_ok:
  assumes "moves ra x x'" "moves rb y y'"
    and a: "is_positive_const F a \<Longrightarrow> 0 < x \<and> ra = Constant" "is_negative_const F a \<Longrightarrow> x < 0 \<and> ra = Constant"
    and b: "is_positive_const F b \<Longrightarrow> 0 < y \<and> rb = Constant" "is_negative_const F b \<Longrightarrow> y < 0 \<and> rb = Constant"
  shows "moves (mono_mul F a b ra rb) (x * y) (x' * y')"
proof -
  have p: "moves rb (x * y) (x * y')" if "0 < x" using that assms(2) by (cases rb) auto
  have n: "moves (mono_flip rb) (x * y) (x * y')" if "x < 0" using that assms(2) by (cases rb) auto
  have p': "moves ra (x * y) (x' * y)" if "0 < y" using that assms(1) by (cases ra) auto
  have n': "moves (mono_flip ra) (x * y) (x' * y)" if "y < 0" using that assms(1) by (cases ra) auto
  show ?thesis unfolding mono_mul_def using assms(1,2) a b p n p' n' by auto
qed

lemma mono_div_ok:
  assumes "moves ra x x'" "moves rb y y'" "y \<noteq> 0"
    and b: "is_positive_const F b \<Longrightarrow> 0 < y \<and> rb = Constant" "is_negative_const F b \<Longrightarrow> y < 0 \<and> rb = Constant"
  shows "moves (mono_div F b ra rb) (ediv x y) (ediv x' y')"
proof -
  have p: "moves ra (ediv x y) (ediv x' y)" if "0 < y" using that assms(1) ediv_monotone(1) by (cases ra) auto
  have n: "moves (mono_flip ra) (ediv x y) (ediv x' y)" if "y < 0" using that assms(1) ediv_monotone(2) by (cases ra) auto
  show ?thesis unfolding mono_div_def using assms(1,2) b p n by auto
qed

lemma mono_cmp_ok:
  assumes "moves ra x x'" "moves rb y y'"
  shows "moves (mono_cmp op ra rb) (cmp_val op x y) (cmp_val op x' y')"
proof -
  have f: "moves (mono_flip ra) (- x) (- x')" "moves (mono_flip rb) (- y) (- y')"
    using assms by (cases ra; cases rb; simp)+
  have "moves (mono_unify (mono_flip ra) rb) (cmp_val op x y) (cmp_val op x' y')" if "op = OpLT \<or> op = OpLE"
    using that by (intro moves_unify2 [OF f(1) assms(2)]) (auto simp: cmp_val_def)
  moreover have "moves (mono_unify (mono_flip rb) ra) (cmp_val op x y) (cmp_val op x' y')" if "op = OpGT \<or> op = OpGE"
    using that by (intro moves_unify2 [OF f(2) assms(1)]) (auto simp: cmp_val_def)
  moreover have "moves (mono_cmp op ra rb) (cmp_val op x y) (cmp_val op x' y')" if "op = OpEQ \<or> op = OpNE"
    using that assms by (auto simp: mono_cmp_def)
  ultimately show ?thesis by (cases op) (auto simp: mono_cmp_def)
qed

lemma mono_select_ok:
  assumes "moves rc p p'" "moves ra x x'" "moves rb y y'" "p \<in> {0, 1}" "p' \<in> {0, 1}"
    and "ge' \<Longrightarrow> y \<le> x \<and> y' \<le> x'" "le' \<Longrightarrow> x \<le> y \<and> x' \<le> y'"
  shows "moves (mono_select ge' le' rc ra rb) (if p \<noteq> 0 then x else y) (if p' \<noteq> 0 then x' else y')"
proof -
  have u: "moves (mono_unify ra rb) x x'" "moves (mono_unify ra rb) y y'"
    using assms(2,3) by (simp_all add: moves_unify)
  have "moves ra (if p \<noteq> 0 then x else y) (if p' \<noteq> 0 then x' else y')" if "ge'" "le'"
  proof -
    have "x = y" "x' = y'" using that assms(6,7) by auto
    then show ?thesis using assms(2) by simp
  qed
  then show ?thesis
    using assms(1,4-) u unfolding mono_select_def Let_def by (auto split: if_splits)
qed

lemma call_last:
  assumes "call_val fs t n ct vi xs = Some v" "is_likely n ct \<or> is_intrinsic n ct ''return_second''"
    and "is_intrinsic n ct ''return_second'' \<longrightarrow> (\<forall>xs v. call_val fs t n ct vi xs = Some v \<longrightarrow> v = last xs)"
  shows "v = last xs"
  using assms by (auto simp: call_val_def split: if_splits list.splits)

lemma same_results:
  assumes "\<forall>a \<in> set as. \<forall>x y. f a = Some x \<longrightarrow> g a = Some y \<longrightarrow> x = y"
    and "list_all2 (\<lambda>a x. f a = Some x) as xs" "list_all2 (\<lambda>a y. g a = Some y) as ys"
  shows "xs = ys"
  using assms by (induction as arbitrary: xs ys) (auto simp: list_all2_Cons1)

section \<open>Soundness\<close>

lemma monotonic_in_sound:
  "monotonic_in F prove var sc e = Some r \<Longrightarrow> proves_true prove \<Longrightarrow> wf e \<Longrightarrow> exact_in F var E e \<Longrightarrow> exact_in F var E' e \<Longrightarrow>
    moved var sc E E' \<Longrightarrow> eval E e l = Some v \<Longrightarrow> eval E' e l = Some w \<Longrightarrow> moves r v w"
proof (induction e arbitrary: sc E E' r l v w)
  case (Variable t n)
  have "motion var sc n = Some r" using Variable.prems(1) by (simp add: motion_def)
  then show ?case
    using Variable.prems(6-8) unfolding moved_def by (auto simp: bind_eq_Some_conv split: if_splits)
next
  case (Cast t a)
  obtain s where s: "monotonic_in F prove var sc a = Some s" "r = mono_cast t a s"
    using Cast.prems(1) by (auto simp: bind_eq_Some_conv)
  obtain x y where xy: "eval E a l = Some x" "v = cast_val (etype a) t x" "eval E' a l = Some y"
    "w = cast_val (etype a) t y" and t: "is_num t"
    using Cast.prems(7,8) by (auto split: if_splits)
  have m: "moves s x y" using Cast.IH [OF s(1) Cast.prems(2) _ _ _ Cast.prems(6) xy(1,3)] Cast.prems(3-5) by auto
  have ty: "wf a" "legal_type t" "legal_type (etype a)" using Cast.prems(3) wf_legal by auto
  have ra: "ranged (etype a) x" "ranged (etype a) y" using eval_range [OF ty(1)] xy(1,3) by blast+
  have "v = x \<and> w = y" if "can_represent t (etype a)"
    using cast_kept [OF that ty(2,3) t] ra xy(2,4) by (simp add: ranged_def)
  moreover have "v = x \<and> w = y" if "32 \<le> bits (etype a) \<and> 32 \<le> bits t"
    using Cast.prems(4,5) that xy by auto
  ultimately show ?case using m xy(2,4) s(2) by (auto simp: mono_cast_def)
next
  case (Bin op a b)
  show ?case
  proof (cases "op = OpMod")
    case True
    then show ?thesis using Bin.prems(1) by simp
  next
    case False
    obtain ra rb where r: "monotonic_in F prove var sc a = Some ra" "monotonic_in F prove var sc b = Some rb"
      "r = mono_bin F op a b ra rb"
      using Bin.prems(1) False by (auto simp: bind_eq_Some_conv)
    obtain x y where xy: "eval E a l = Some x" "eval E b l = Some y" "bin_val op (\<lambda>v. v) x y = Some v"
      using Bin.prems(4,7) False by (auto simp: bind_eq_Some_conv)
    obtain x' y' where xy': "eval E' a l = Some x'" "eval E' b l = Some y'" "bin_val op (\<lambda>v. v) x' y' = Some w"
      using Bin.prems(5,8) False by (auto simp: bind_eq_Some_conv)
    have ex: "wf a" "wf b" "exact_in F var E a" "exact_in F var E b" "exact_in F var E' a" "exact_in F var E' b"
      using Bin.prems(3-5) False by auto
    have a: "moves ra x x'" using Bin.IH(1) [OF r(1) Bin.prems(2) ex(1,3,5) Bin.prems(6) xy(1) xy'(1)] .
    have b: "moves rb y y'" using Bin.IH(2) [OF r(2) Bin.prems(2) ex(2,4,6) Bin.prems(6) xy(2) xy'(2)] .
    note sa = const_sign [OF r(1) ex(3) xy(1)] and sb = const_sign [OF r(2) ex(4) xy(2)]
    show ?thesis
    proof (cases op)
      case OpSub
      have "moves (mono_flip rb) (- y) (- y')" using b by (cases rb) auto
      then show ?thesis using xy(3) xy'(3) by (auto simp: r(3) OpSub mono_bin_def intro!: moves_unify2 [OF a])
    next
      case OpMul
      then show ?thesis using xy(3) xy'(3) mono_mul_ok [OF a b, of F a b] sa sb by (simp add: r(3) mono_bin_def)
    next
      case OpDiv
      then show ?thesis
        using xy(3) xy'(3) mono_div_ok [OF a b, of F b] sb by (auto simp: r(3) mono_bin_def split: if_splits)
    next
      case OpAnd
      have ty: "is_bool (etype a)" "is_bool (etype b)" using Bin.prems(3) OpAnd by auto
      have "x \<in> {0, 1}" "y \<in> {0, 1}" "x' \<in> {0, 1}" "y' \<in> {0, 1}"
        using bool_value ex(1,2) ty xy(1,2) xy'(1,2) by blast+
      then show ?thesis using xy(3) xy'(3) by (auto simp: r(3) OpAnd mono_bin_def intro!: moves_unify2 [OF a b])
    next
      case OpOr
      have ty: "is_bool (etype a)" "is_bool (etype b)" using Bin.prems(3) OpOr by auto
      have "x \<in> {0, 1}" "y \<in> {0, 1}" "x' \<in> {0, 1}" "y' \<in> {0, 1}"
        using bool_value ex(1,2) ty xy(1,2) xy'(1,2) by blast+
      then show ?thesis using xy(3) xy'(3) by (auto simp: r(3) OpOr mono_bin_def intro!: moves_unify2 [OF a b])
    qed (use False xy(3) xy'(3) in \<open>auto simp: r(3) mono_bin_def intro!: moves_unify2 [OF a b]\<close>)
  qed
next
  case (Cmp op a b)
  obtain ra rb where r: "monotonic_in F prove var sc a = Some ra" "monotonic_in F prove var sc b = Some rb" "r = mono_cmp op ra rb"
    using Cmp.prems(1) by (auto simp: bind_eq_Some_conv)
  obtain x y x' y' where xy: "eval E a l = Some x" "eval E b l = Some y" "v = cmp_val op x y"
    "eval E' a l = Some x'" "eval E' b l = Some y'" "w = cmp_val op x' y'"
    using Cmp.prems(7,8) by (auto simp: bind_eq_Some_conv)
  have "moves ra x x'" using Cmp.IH(1) [OF r(1) Cmp.prems(2) _ _ _ Cmp.prems(6) xy(1,4)] Cmp.prems(3-5) by auto
  moreover have "moves rb y y'" using Cmp.IH(2) [OF r(2) Cmp.prems(2) _ _ _ Cmp.prems(6) xy(2,5)] Cmp.prems(3-5) by auto
  ultimately show ?case using mono_cmp_ok by (simp add: r(3) xy(3,6))
next
  case (NotE a)
  obtain s where s: "monotonic_in F prove var sc a = Some s" "r = mono_flip s"
    using NotE.prems(1) by (auto simp: bind_eq_Some_conv)
  obtain x y where xy: "eval E a l = Some x" "eval E' a l = Some y" "v = (if x = 0 then 1 else 0)" "w = (if y = 0 then 1 else 0)"
    using NotE.prems(7,8) by (auto simp: bind_eq_Some_conv)
  have m: "moves s x y" using NotE.IH [OF s(1) NotE.prems(2) _ _ _ NotE.prems(6) xy(1,2)] NotE.prems(3-5) by auto
  have "x \<in> {0, 1}" "y \<in> {0, 1}" using bool_value [of a] NotE.prems(3) xy(1,2) by auto
  then show ?case using m xy(3,4) by (cases s) (auto simp: s(2))
next
  case (Select c a b)
  obtain rc ra rb where r: "monotonic_in F prove var sc c = Some rc" "monotonic_in F prove var sc a = Some ra"
    "monotonic_in F prove var sc b = Some rb"
    "r = mono_select (prove (Cmp OpGE a b)) (prove (Cmp OpLE a b)) rc ra rb"
    using Select.prems(1,3)
    by (auto simp: bind_eq_Some_conv Cmp_make_def mono_select_def Let_def split: if_splits)
  obtain p x y where v: "eval E c l = Some p" "eval E a l = Some x" "eval E b l = Some y" "v = (if p \<noteq> 0 then x else y)"
    using Select.prems(7) by (auto simp: bind_eq_Some_conv)
  obtain p' x' y' where w: "eval E' c l = Some p'" "eval E' a l = Some x'" "eval E' b l = Some y'" "w = (if p' \<noteq> 0 then x' else y')"
    using Select.prems(8) by (auto simp: bind_eq_Some_conv)
  have m: "moves rc p p'" "moves ra x x'" "moves rb y y'"
    using Select.IH(1) [OF r(1) Select.prems(2) _ _ _ Select.prems(6) v(1) w(1)]
      Select.IH(2) [OF r(2) Select.prems(2) _ _ _ Select.prems(6) v(2) w(2)]
      Select.IH(3) [OF r(3) Select.prems(2) _ _ _ Select.prems(6) v(3) w(3)] Select.prems(3-5) by auto
  have p: "p \<in> {0, 1}" "p' \<in> {0, 1}" using bool_value [of c] Select.prems(3) v(1) w(1) by auto
  have pr: "cmp_val op x y \<noteq> 0 \<and> cmp_val op x' y' \<noteq> 0" if "prove (Cmp op a b)" for op
  proof -
    have "eval E (Cmp op a b) l = Some (cmp_val op x y)" "eval E' (Cmp op a b) l = Some (cmp_val op x' y')"
      using v w by simp_all
    then show ?thesis using Select.prems(2) that unfolding proves_true_def by blast
  qed
  show ?case
    unfolding r(4) v(4) w(4) using pr [of OpGE] pr [of OpLE]
    by (intro mono_select_ok [OF m p]) (auto simp: cmp_val_def)
next
  case (Load t n p i im pa al)
  obtain s where s: "monotonic_in F prove var sc i = Some s" "r = (if s \<noteq> Constant then Unknown else s)"
    using Load.prems(1) by (auto simp: bind_eq_Some_conv)
  obtain x y where xy: "eval E i l = Some x" "eval E' i l = Some y" "map_option (norm t) (mem E n x) = Some v"
    "map_option (norm t) (mem E' n y) = Some w"
    using Load.prems(7,8) by (auto simp: bind_eq_Some_conv split: if_splits)
  have "moves s x y" using Load.IH(2) [OF s(1) Load.prems(2) _ _ _ Load.prems(6) xy(1,2)] Load.prems(3-5) by auto
  moreover have "mem E = mem E'" using Load.prems(6) by (simp add: moved_def)
  ultimately show ?case using s(2) xy(3,4) by (cases "s = Constant") auto
next
  case (LetE n a b)
  obtain s where s: "monotonic_in F prove var sc a = Some s"
    "monotonic_in F prove var (if s = Constant then sc else scope_push n s sc) b = Some r"
    using LetE.prems(1) by (auto simp: bind_eq_Some_conv)
  have "moves s x y" if "eval E a k = Some x" "eval E' a k = Some y" for k x y
    using LetE.IH(1) [OF s(1) LetE.prems(2) _ _ _ LetE.prems(6) that] LetE.prems(3-5) by auto
  then have "moved var (if s = Constant then sc else scope_push n s sc)
      (E\<lparr>vars := (vars E)(n := eval E a)\<rparr>) (E'\<lparr>vars := (vars E')(n := eval E' a)\<rparr>)"
    using LetE.prems(4) by (intro moved_let [OF LetE.prems(6)]) auto
  from LetE.IH(2) [OF s(2) LetE.prems(2) _ _ _ this] show ?case using LetE.prems(3-5,7,8) by auto
next
  case (Call t n as ct vi)
  have fns: "fns E = fns E'" using Call.prems(6) by (simp add: moved_def)
  let ?k = "if is_likely n ct then l else lane_in t l"
  obtain xs where xs: "list_all2 (\<lambda>a x. eval E a ?k = Some x) as xs" "call_val (fns E) t n ct vi xs = Some v"
    using Call.prems(7) by (auto simp: those_map_iff split: if_splits option.splits)
  obtain ys where ys: "list_all2 (\<lambda>a x. eval E' a ?k = Some x) as ys" "call_val (fns E) t n ct vi ys = Some w"
    using Call.prems(8) fns by (auto simp: those_map_iff split: if_splits option.splits)
  have ih: "moves s x y" if "a \<in> set as" "monotonic_in F prove var sc a = Some s" "eval E a ?k = Some x" "eval E' a ?k = Some y" for a s x y
    using Call.IH [OF that(1,2) Call.prems(2) _ _ _ Call.prems(6) that(3,4)] Call.prems(3-5) that(1) by (auto simp: list_all_iff)
  consider (last) "is_likely n ct \<or> is_intrinsic n ct ''return_second''" "as \<noteq> []" "monotonic_in F prove var sc (last as) = Some r"
    | (all) "mono_all (monotonic_in F prove var sc) as = Some r"
    using Call.prems(1) by (auto simp: is_likely_def split: if_splits)
  then show ?case
  proof cases
    case last
    have l: "xs \<noteq> []" "ys \<noteq> []" "length xs = length as" "length ys = length as"
      using xs(1) ys(1) last(2) by (auto dest: list_all2_lengthD)
    have "eval E (last as) ?k = Some (last xs)" "eval E' (last as) ?k = Some (last ys)"
      using list_all2_nthD [OF xs(1), of "length as - 1"] list_all2_nthD [OF ys(1), of "length as - 1"] l last(2)
      by (simp_all add: last_conv_nth)
    then have "moves r (last xs) (last ys)" using ih [OF last_in_set [OF last(2)] last(3)] by blast
    moreover have "v = last xs \<and> w = last ys"
      using call_last [OF xs(2)] call_last [OF ys(2)] last(1) Call.prems(4) by auto
    ultimately show ?thesis by simp
  next
    case all
    show ?thesis
    proof (cases "r = Constant")
      case True
      then have "\<forall>a \<in> set as. monotonic_in F prove var sc a = Some Constant" using mono_all_cases [OF all] by auto
      then have "\<forall>a \<in> set as. \<forall>x y. eval E a ?k = Some x \<longrightarrow> eval E' a ?k = Some y \<longrightarrow> x = y"
        using ih [where s = Constant] by auto
      then have "xs = ys" using xs(1) ys(1) by (rule same_results)
      then show ?thesis using xs(2) ys(2) by (simp add: moves_const(2))
    next
      case False
      then show ?thesis using mono_all_cases [OF all] by auto
    qed
  qed
next
  case (Shuffle vs "is")
  have all: "mono_all (monotonic_in F prove var sc) vs = Some r" using Shuffle.prems(1) by simp
  obtain k j where kj: "k < length vs" "eval E (vs ! k) j = Some v" "eval E' (vs ! k) j = Some w"
    using Shuffle.prems(7,8) by (auto simp: Let_def split: if_splits prod.splits)
  show ?case
  proof (cases "r = Constant")
    case True
    have m: "vs ! k \<in> set vs" using kj(1) by simp
    then have "monotonic_in F prove var sc (vs ! k) = Some Constant" using True mono_all_cases [OF all] by auto
    from Shuffle.IH [OF m this Shuffle.prems(2) _ _ _ Shuffle.prems(6) kj(2,3)] m
    show ?thesis using Shuffle.prems(3-5) True by (auto simp: list_all_iff)
  next
    case False
    then show ?thesis using mono_all_cases [OF all] by auto
  qed
qed auto

theorem is_monotonic_sound:
  assumes "is_monotonic F prove e var = Some r" "proves_true prove" "wf e"
    and "mem E = mem E'" "fns E = fns E'" "\<And>n l. n \<noteq> var \<Longrightarrow> vars E n l = vars E' n l"
    and "\<And>l x y. vars E var l = Some x \<Longrightarrow> vars E' var l = Some y \<Longrightarrow> x \<le> y"
    and "exact_in F var E e" "exact_in F var E' e" "eval E e l = Some v" "eval E' e l = Some w"
  shows "moves r v w"
proof -
  have c: "scope_contains (empty_scope :: monotonic scope) n = False" for n by (simp add: empty_scope_def)
  have "moved var empty_scope E E'" using assms(4-7) by (auto simp: moved_def motion_def c)
  then show ?thesis
    using monotonic_in_sound [OF assms(1) [unfolded is_monotonic_def] assms(2,3,8,9) _ assms(10,11)] by blast
qed

end
