(* ===== verification/Findings.thy ===== *)
theory Findings
  imports Simplify Alignment Monotonic
begin

text \<open>
  Where the code is wrong, on concrete inputs: rules and bounds that hold only under a
  condition that the code does not check.
\<close>

abbreviation u8 :: halide_type where "u8 \<equiv> \<lparr>code = Halide_UInt, bits = 8, lanes = 1\<rparr>"
abbreviation i8 :: halide_type where "i8 \<equiv> \<lparr>code = Halide_Int, bits = 8, lanes = 1\<rparr>"

definition at_x :: "int \<Rightarrow> eval_env" where
  "at_x v = \<lparr>vars = (\<lambda>n l. if n = ''x'' then Some v else None), mem = (\<lambda>n i. None), fns = (\<lambda>n ct vi xs. None)\<rparr>"

text \<open>
  A sum that clamps is compared with zero after subtracting the constant, although the sum
  wraps: \<open>min(x, 5) + 3 == 0\<close> becomes \<open>x == 253\<close> for an unsigned byte.
\<close>

lemma clamp_rule_wrong:
  fixes e :: expr
  defines "e \<equiv> EQ (Add (MinE (Variable u8 ''x'') (UIntImm u8 5)) (UIntImm u8 3)) (UIntImm u8 0)"
  shows "apply_rules no_floats ask eq_chain_clamp e u1 idle = Some (Some (EQ (Variable u8 ''x'') (UIntImm u8 253)), idle)"
    and "eval (at_x 253) e 0 = Some 0" "eval (at_x 253) (EQ (Variable u8 ''x'') (UIntImm u8 253)) 0 = Some 1"
  unfolding e_def
  by (simp add: eq_chain_clamp_def samples run_rules mask_eq_exp_minus_1) (simp_all add: at_x_def run_eval cmp_val_def)

text \<open>Rounding down to a multiple of three wraps for the least signed byte.\<close>

lemma stair_rule_wrong:
  fixes x e :: expr
  defines "x \<equiv> Variable i8 ''x''"
  defines "e \<equiv> Mul (Div x (IntImm i8 3)) (IntImm i8 3)"
  shows "apply_rules no_floats ask (min_direct_stair e x) (MinE e x) i8 idle = Some (Some e, idle)"
    and "eval (at_x (- 128)) (MinE e x) 0 = Some (- 128)" "eval (at_x (- 128)) e 0 = Some 127"
  unfolding e_def x_def
  by (simp add: min_direct_stair_def samples run_rules) (simp_all add: at_x_def run_eval)

text \<open>
  The upper bound of a product of a factor that is only bounded above and a bounded positive
  one: for \<open>x \<le> -3\<close> and \<open>1 \<le> y \<le> 5\<close> the code has \<open>-15\<close>, but \<open>-3 * 1\<close> is larger.
\<close>

lemma product_bound_wrong:
  fixes a b :: expr_info
  defines "a \<equiv> no_info\<lparr>info_max := - 3, max_defined := True\<rparr>"
  defines "b \<equiv> no_info\<lparr>info_min := 1, info_max := 5, min_defined := True, max_defined := True\<rparr>"
  shows "\<exists>i s'. Mul_extent a b no_info s = Some (i, s') \<and> max_defined i \<and> info_max i = - 15"
    and "info_ok a (- 3)" "info_ok b 1"
  unfolding a_def b_def
  by (simp add: Mul_extent_def bounded_def positive_def no_info_def chk64_def int64_def)
    (simp_all add: info_ok_def info_int64_def no_info_def mr_int64_def mr_top_def int64_def)

text \<open>
  An upper bound is rounded down to the alignment as if its remainder were not negative. The
  product of alignments makes such remainders: here seven becomes two, although six is in
  the set.
\<close>

lemma trim_wrong:
  "mr_add (MR (- 4) (- 2)) (MR (- 8) 0) = Some (MR (- 4) 2)"
  "mr_mul (MR 0 (- 1)) (MR (- 4) 2) = Some (MR 4 (- 2))"
  "trim_max 7 (MR 4 (- 2)) = Some 2" "mr_has (MR 4 (- 2)) 6"
  by (simp_all add: mr_add_def mr_mul_def trim_max_def mr_mod_def mr_has_def gcd_imp_def gcd_loop.simps run_rules)

text \<open>
  The alignment analysis takes the product of signed bytes to be exact: three times fifty
  wraps to a number that is not a multiple of three.
\<close>

lemma narrow_alignment_wrong:
  fixes e :: expr
  defines "e \<equiv> Mul (Variable i8 ''x'') (IntImm i8 3)"
  shows "modulus_remainder_of e = Some (MR 3 0)" "eval (at_x 50) e 0 = Some (- 106)" "\<not> mr_has (MR 3 0) (- 106)"
  unfolding e_def
  by (simp_all add: modulus_remainder_of_def empty_scope_def mr_top_def mr_mul_def run_rules mr_has_def)
    (simp add: at_x_def run_eval)

text \<open>The rules on ramps are guarded by the type of the comparison, which is Boolean.\<close>

lemma ramp_rules_dead: "lt_direct_rest (etype (LT a b)) = lt_direct_2"
  by (simp add: lt_direct_rest_def no_overflow_def no_overflow_int_def halide_defs)

text \<open>
  The analysis of monotonicity looks at the name of the variable before the scope: a let that
  hides it counts as the variable itself. It also takes narrow sums to be exact, and the sign
  of a cast literal to be the one of the literal.
\<close>

lemma hidden_variable_wrong:
  "is_monotonic no_floats (\<lambda>c. False) (LetE ''x'' (Sub (num 0) var_x) var_x) ''x'' = Some Increasing"
  "eval (at_x 1) (LetE ''x'' (Sub (num 0) var_x) var_x) 0 = Some (- 1)"
  "eval (at_x 2) (LetE ''x'' (Sub (num 0) var_x) var_x) 0 = Some (- 2)"
  by (simp_all add: is_monotonic_def empty_scope_def mono_bin_def mono_unify_def at_x_def run_eval lane_in_def)

lemma narrow_motion_wrong:
  "is_monotonic no_floats (\<lambda>c. False) (Add (Variable u8 ''x'') (UIntImm u8 1)) ''x'' = Some Increasing"
  "eval (at_x 254) (Add (Variable u8 ''x'') (UIntImm u8 1)) 0 = Some 255"
  "eval (at_x 255) (Add (Variable u8 ''x'') (UIntImm u8 1)) 0 = Some 0"
  by (simp_all add: is_monotonic_def empty_scope_def mono_bin_def mono_unify_def at_x_def run_eval lane_in_def)

lemma cast_sign_wrong:
  "is_monotonic no_floats (\<lambda>c. False) (Mul (Cast i32 (Variable i8 ''x'')) (Cast i32 (Cast i8 (num 200)))) ''x'' = Some Increasing"
  "eval (at_x 0) (Mul (Cast i32 (Variable i8 ''x'')) (Cast i32 (Cast i8 (num 200)))) 0 = Some 0"
  "eval (at_x 1) (Mul (Cast i32 (Variable i8 ''x'')) (Cast i32 (Cast i8 (num 200)))) 0 = Some (- 56)"
  by (simp_all add: is_monotonic_def empty_scope_def mono_bin_def mono_mul_def mono_cast_def can_represent_def
      at_x_def run_eval lane_in_def cast_val_def)

end
