(* ===== verification/Substitute.thy ===== *)
theory Substitute
  imports Scope Lanes IRCompare
begin

text \<open>
  \<open>IRMutator.cpp\<close> and \<open>Substitute.cpp\<close>: the default visitors of a mutator, which rebuild a node
  from its mutated operands, and the substitutions built on them. Substituting for variables
  is evaluating in an environment that binds them to the values of the replacements, as long
  as no let captures a variable of a replacement.
\<close>

section \<open>Mutators\<close>

fun operand_list :: "expr \<Rightarrow> expr list" where
  "operand_list (Broadcast a n) = [a]"
| "operand_list (Cast t a) = [a]"
| "operand_list (Bin op a b) = [a, b]"
| "operand_list (Cmp op a b) = [a, b]"
| "operand_list (NotE a) = [a]"
| "operand_list (Select c a b) = [c, a, b]"
| "operand_list (Load t n p i im pa al) = [p, i]"
| "operand_list (Ramp a b n) = [a, b]"
| "operand_list (Call t n as ct vi) = as"
| "operand_list (LetE n v b) = [v, b]"
| "operand_list (Shuffle vs is) = vs"
| "operand_list _ = []"

text \<open>
  A visitor returns its node where no operand has changed and builds a new one otherwise.
  For a node that its constructor accepts, building it again gives the same. Calls keep
  their image and parameter.
\<close>

fun mutate_node :: "(expr \<Rightarrow> expr option) \<Rightarrow> expr \<Rightarrow> expr option" where
  "mutate_node f (Cast t a) = do { a \<leftarrow> f a; Cast_make t a }"
| "mutate_node f (Bin op a b) = do { a \<leftarrow> f a; b \<leftarrow> f b; Bin_make op a b }"
| "mutate_node f (Cmp op a b) = do { a \<leftarrow> f a; b \<leftarrow> f b; Cmp_make op a b }"
| "mutate_node f (NotE a) = do { a \<leftarrow> f a; Not_make a }"
| "mutate_node f (Select c a b) = do { c \<leftarrow> f c; a \<leftarrow> f a; b \<leftarrow> f b; Select_make c a b }"
| "mutate_node f (Load t n p i im pa al) = do { p \<leftarrow> f p; i \<leftarrow> f i; Load_make t n i im pa p al }"
| "mutate_node f (Ramp a b n) = do { a \<leftarrow> f a; b \<leftarrow> f b; Ramp_make a b n }"
| "mutate_node f (Broadcast a n) = do { a \<leftarrow> f a; Broadcast_make a n }"
| "mutate_node f (Call t n as ct vi) = do { as \<leftarrow> those (map f as); Call_make t n as ct vi True }"
| "mutate_node f (LetE n v b) = do { v \<leftarrow> f v; b \<leftarrow> f b; Let_make n v b }"
| "mutate_node f (Shuffle vs is) = do { vs \<leftarrow> those (map f vs); Shuffle_make vs is }"
| "mutate_node f e = Some e"

lemma mutate_node_cong [fundef_cong]:
  "e = e' \<Longrightarrow> (\<And>x. x \<in> set (operand_list e') \<Longrightarrow> f x = g x) \<Longrightarrow> mutate_node f e = mutate_node g e'"
proof -
  have m: "map f as = map g as" if "\<And>x. x \<in> set as \<Longrightarrow> f x = g x" for as using that by simp
  show "e = e' \<Longrightarrow> (\<And>x. x \<in> set (operand_list e') \<Longrightarrow> f x = g x) \<Longrightarrow> mutate_node f e = mutate_node g e'"
    using m by (cases e) (auto cong: option.case_cong simp: m)
qed

lemma operand_size [termination_simp]: "x \<in> set (operand_list e) \<Longrightarrow> size x < size e"
  by (cases e) (auto dest: size_list_estimation' [of _ _ "size _" size])

lemma size_in_list: "x \<in> set xs \<Longrightarrow> size (x :: expr) < Suc (size_list size xs)"
  by (simp add: size_list_estimation' less_Suc_eq_le)

section \<open>Substitution\<close>

text \<open>
  \<open>hidden\<close> has the names bound by the lets around. The lets restore it, so it is only read.
\<close>

definition find_replacement :: "(string \<Rightarrow> expr option) \<Rightarrow> unit scope \<Rightarrow> string \<Rightarrow> expr option" where
  "find_replacement replace hidden n =
     (case replace n of Some r \<Rightarrow> if scope_contains hidden n then None else Some r | None \<Rightarrow> None)"

function substitute_vars :: "(string \<Rightarrow> expr option) \<Rightarrow> unit scope \<Rightarrow> expr \<Rightarrow> expr option" where
  "substitute_vars replace hidden e =
     (case e of
        Variable t n \<Rightarrow> Some (case find_replacement replace hidden n of Some r \<Rightarrow> r | None \<Rightarrow> e)
      | LetE n v b \<Rightarrow> do {
          v \<leftarrow> substitute_vars replace hidden v;
          b \<leftarrow> substitute_vars replace (scope_push n () hidden) b;
          Let_make n v b }
      | _ \<Rightarrow> mutate_node (substitute_vars replace hidden) e)"
  by pat_completeness auto
termination
  by (relation "measure (\<lambda>(r, h, e). size e)") (auto dest: operand_size size_in_list)

declare substitute_vars.simps [simp del]

definition substitute :: "string \<Rightarrow> expr \<Rightarrow> expr \<Rightarrow> expr option" where
  "substitute name replacement e = substitute_vars [name \<mapsto> replacement] empty_scope e"

definition substitute_map :: "(string \<Rightarrow> expr option) \<Rightarrow> expr \<Rightarrow> expr option" where
  "substitute_map m e = substitute_vars m empty_scope e"

function substitute_expr :: "float_ops \<Rightarrow> expr \<Rightarrow> expr \<Rightarrow> expr \<Rightarrow> expr option" where
  "substitute_expr F target replacement e =
     (if deep_equal F e target then Some replacement
      else mutate_node (substitute_expr F target replacement) e)"
  by pat_completeness auto
termination
  by (relation "measure (\<lambda>(F, a, b, e). size e)") (auto dest: operand_size size_in_list)

declare substitute_expr.simps [simp del]

text \<open>Substituting in a graph does not look at lets; the cache of the visitor is left out.\<close>

function graph_substitute :: "string \<Rightarrow> expr \<Rightarrow> expr \<Rightarrow> expr option" where
  "graph_substitute var value e =
     (case e of
        Variable t n \<Rightarrow> Some (if n = var then value else e)
      | _ \<Rightarrow> mutate_node (graph_substitute var value) e)"
  by pat_completeness auto
termination
  by (relation "measure (\<lambda>(a, b, e). size e)") (auto dest: operand_size size_in_list)

declare graph_substitute.simps [simp del]

function substitute_in_all_lets :: "expr \<Rightarrow> expr option" where
  "substitute_in_all_lets e =
     (case e of
        LetE n v b \<Rightarrow> do {
          v \<leftarrow> substitute_in_all_lets v;
          b \<leftarrow> substitute_in_all_lets b;
          graph_substitute n v b }
      | _ \<Rightarrow> mutate_node substitute_in_all_lets e)"
  by pat_completeness auto
termination
  by (relation "measure size") (auto dest: operand_size size_in_list)

declare substitute_in_all_lets.simps [simp del]

section \<open>Which variables an expression uses\<close>

text \<open>
  \<open>ExprUsesVar.h\<close>, for expressions and without a scope of defined variables: the names of loads,
  calls and lets count as uses. The visitor stops at the first use and never visits a node
  twice, which does not change its answer.
\<close>

fun visit_name :: "'a scope \<Rightarrow> expr \<Rightarrow> bool" where
  "visit_name names (Variable t n) = scope_contains names n"
| "visit_name names (Load t n p i im pa al) = scope_contains names n"
| "visit_name names (Call t n as ct vi) = scope_contains names n"
| "visit_name names (LetE n v b) = scope_contains names n"
| "visit_name names _ = False"

function expr_uses_vars :: "'a scope \<Rightarrow> expr \<Rightarrow> bool" where
  "expr_uses_vars names e =
     (visit_name names e \<or> list_ex (expr_uses_vars names) (operand_list e))"
  by pat_completeness auto
termination
  by (relation "measure (\<lambda>(s, e). size e)") (auto dest: operand_size simp del: operand_list.simps)

declare expr_uses_vars.simps [simp del]

definition expr_uses_var :: "expr \<Rightarrow> string \<Rightarrow> bool" where
  "expr_uses_var e n = expr_uses_vars (scope_push n () empty_scope) e"

lemma contains_single [simp]: "scope_contains (scope_push n () empty_scope) k \<longleftrightarrow> k = n"
proof -
  have "scope_contains empty_scope k = False" by (simp add: empty_scope_def)
  then show ?thesis using scope_push_get [OF scope_ok_empty, of n "()" k] by blast
qed

lemma expr_uses_var_step:
  "expr_uses_var e n \<longleftrightarrow> visit_name (scope_push n () empty_scope) e \<or> list_ex (\<lambda>x. expr_uses_var x n) (operand_list e)"
  by (simp add: expr_uses_var_def expr_uses_vars.simps [of _ e] list_ex_iff)

lemma expr_uses_var_LetE:
  "expr_uses_var (LetE m v b) n \<longleftrightarrow> m = n \<or> expr_uses_var v n \<or> expr_uses_var b n"
  by (simp add: expr_uses_var_step [of "LetE m v b"])

text \<open>An expression that does not use a variable does not depend on it.\<close>

lemma map_those_cong: "(\<And>x. x \<in> set xs \<Longrightarrow> f x = g x) \<Longrightarrow> those (map f xs) = those (map g xs)"
  by (metis map_cong)

lemma eval_operands:
  assumes "\<And>x l. x \<in> set (operand_list e) \<Longrightarrow> eval E x l = eval E' x l"
    and "mem E = mem E'" "fns E = fns E'" and "\<not> (\<exists>t n. e = Variable t n)" "\<not> (\<exists>n v b. e = LetE n v b)"
  shows "eval E e l = eval E' e l"
proof (cases e)
  case (Call t n as ct vi)
  have "map (\<lambda>a. eval E a k) as = map (\<lambda>a. eval E' a k) as" for k using assms(1) Call by simp
  then have "those (map (\<lambda>a. eval E a k) as) = those (map (\<lambda>a. eval E' a k) as)" for k
    by (rule arg_cong)
  then show ?thesis by (simp only: Call eval.simps assms(3))
next
  case (Shuffle vs "is")
  have "map (\<lambda>a. eval E a k) vs = map (\<lambda>a. eval E' a k) vs" for k using assms(1) Shuffle by simp
  then show ?thesis by (simp only: Shuffle eval.simps)
qed (use assms in \<open>simp_all cong: if_cong\<close>)

lemma eval_unused:
  "\<not> expr_uses_var e n \<Longrightarrow> eval (E\<lparr>vars := (vars E)(n := d)\<rparr>) e l = eval E e l"
proof (induction "size e" arbitrary: e E d l rule: less_induct)
  case less
  have ops: "eval (E\<lparr>vars := (vars E)(n := d)\<rparr>) x l = eval E x l" if "x \<in> set (operand_list e)" for x E d l
  proof -
    have "\<not> expr_uses_var x n"
      using less.prems that unfolding expr_uses_var_step [of e] list_ex_iff by blast
    then show ?thesis by (rule less.hyps [OF operand_size [OF that]])
  qed
  show ?case
  proof (cases "(\<exists>t n. e = Variable t n) \<or> (\<exists>n v b. e = LetE n v b)")
    case False
    then show ?thesis using eval_operands [of e "E\<lparr>vars := (vars E)(n := d)\<rparr>" E] ops by simp
  next
    case True
    then consider t k where "e = Variable t k" | k v b where "e = LetE k v b" by blast
    then show ?thesis
    proof cases
      case 1
      then show ?thesis using less.prems by (simp add: expr_uses_var_step [of "Variable t k"])
    next
      case (2 k v b)
      then have ne: "k \<noteq> n" using less.prems by (simp add: expr_uses_var_LetE)
      let ?E = "\<lambda>E. E\<lparr>vars := (vars E)(k := eval E v)\<rparr>"
      have "eval (E\<lparr>vars := (vars E)(n := d)\<rparr>) v = eval E v" by (rule ext) (rule ops, simp add: 2)
      then have "?E (E\<lparr>vars := (vars E)(n := d)\<rparr>) = (?E E)\<lparr>vars := (vars (?E E))(n := d)\<rparr>"
        using ne by (simp add: fun_upd_twist)
      then show ?thesis using ops [of b "?E E" d l] by (simp add: 2)
    qed
  qed
qed

lemma operand_wf: "x \<in> set (operand_list e) \<Longrightarrow> wf e \<Longrightarrow> wf x"
  by (cases e) (auto simp: list_all_iff)

section \<open>What mutators keep\<close>

text \<open>
  \<open>E\<close> is the environment of the rebuilt node and \<open>E'\<close> that of the node before: where every operand
  keeps its type and its value, the node does.
\<close>

definition same_value :: "eval_env \<Rightarrow> eval_env \<Rightarrow> expr \<Rightarrow> expr \<Rightarrow> bool" where
  "same_value E E' e' e \<longleftrightarrow> etype e' = etype e \<and> wf e' \<and> (\<forall>l. eval E e' l = eval E' e l)"

lemma same_value_refl: "wf e \<Longrightarrow> same_value E E e e"
  by (simp add: same_value_def)

lemma those_same_value:
  assumes "those (map f as) = Some as'" "\<And>x x'. x \<in> set as \<Longrightarrow> f x = Some x' \<Longrightarrow> same_value E E' x' x"
  shows "list_all wf as'" "map etype as' = map etype as" "map (\<lambda>a. eval E a l) as' = map (\<lambda>a. eval E' a l) as"
proof -
  have "list_all2 (\<lambda>x x'. f x = Some x') as as'" using assms(1) by (simp add: those_map_iff)
  then have *: "list_all2 (\<lambda>x x'. same_value E E' x' x) as as'"
    using assms(2) by (auto elim!: list.rel_mono_strong)
  show "list_all wf as'" "map etype as' = map etype as" "map (\<lambda>a. eval E a l) as' = map (\<lambda>a. eval E' a l) as"
    using * by (induction rule: list_all2_induct) (simp_all add: same_value_def)
qed

lemma those_length: "those xs = Some ys \<Longrightarrow> length ys = length xs"
  by (induction xs arbitrary: ys) (auto split: option.splits)

lemma mutate_call:
  assumes "mutate_node f (Call t n as ct vi) = Some e'" "wf (Call t n as ct vi)"
    and ops: "\<And>x x'. x \<in> set as \<Longrightarrow> f x = Some x' \<Longrightarrow> same_value E E' x' x"
    and env: "fns E = fns E'"
  shows "same_value E E' e' (Call t n as ct vi)"
proof -
  obtain as' where as': "those (map f as) = Some as'" and e': "e' = Call t n as' ct vi"
    using assms(1) by (auto simp: bind_eq_Some_conv Call_make_def split: if_splits)
  note s = those_same_value [OF as' ops]
  have l: "length as' = length as" using those_length [OF as'] by simp
  have k: "\<exists>a'. as' = [a'] \<and> etype a' = t" if "\<exists>a. as = [a] \<and> etype a = t"
    using s(2) that by (auto simp: map_eq_Cons_conv)
  have "wf e'" using assms(2) s(1) l k by (auto simp: e')
  moreover have "eval E e' i = eval E' (Call t n as ct vi) i" for i
    using s(3) by (simp only: e' eval.simps env)
  ultimately show ?thesis by (simp add: same_value_def e')
qed

lemma mutate_shuffle:
  assumes "mutate_node f (Shuffle vs is) = Some e'" "wf (Shuffle vs is)"
    and ops: "\<And>x x'. x \<in> set vs \<Longrightarrow> f x = Some x' \<Longrightarrow> same_value E E' x' x"
  shows "same_value E E' e' (Shuffle vs is)"
proof -
  obtain vs' where vs': "those (map f vs) = Some vs'" and e': "Shuffle_make vs' is = Some e'"
    using assms(1) by (auto simp: bind_eq_Some_conv)
  then have e: "e' = Shuffle vs' is" by (simp add: Shuffle_make_def split: if_splits)
  note s = those_same_value [OF vs' ops]
  have l: "length vs' = length vs" using those_length [OF vs'] by simp
  have m: "map (\<lambda>v. lanes (etype v)) vs' = map (\<lambda>v. lanes (etype v)) vs"
    using arg_cong [OF s(2), of "map lanes"] by (simp add: comp_def)
  have ne: "vs \<noteq> []" "vs' \<noteq> []" using assms(2) l by auto
  have h: "etype (hd vs') = etype (hd vs)" using arg_cong [OF s(2), of hd] ne by (simp add: hd_map)
  have "wf e'" using assms(2) s(1) e' by (simp add: e Shuffle_make_def split: if_splits)
  moreover have "eval E e' i = eval E' (Shuffle vs is) i" for i
    using s(3) by (simp only: e eval.simps m l)
  moreover have "etype e' = etype (Shuffle vs is)"
    using h ne by (cases vs; cases vs') (simp_all add: e)
  ultimately show ?thesis unfolding same_value_def by blast
qed

lemma mutate_node_same:
  assumes "mutate_node f e = Some e'" "wf e"
    and ops: "\<And>x x'. x \<in> set (operand_list e) \<Longrightarrow> f x = Some x' \<Longrightarrow> same_value E E' x' x"
    and env: "mem E = mem E'" "fns E = fns E'"
    and plain: "\<not> (\<exists>t n. e = Variable t n)" "\<not> (\<exists>n v b. e = LetE n v b)"
  shows "same_value E E' e' e"
proof (cases e)
  case (Call t n as ct vi)
  then show ?thesis using mutate_call [of f t n as ct vi e' E E'] assms(1,2) ops env by simp
next
  case (Shuffle vs "is")
  then show ?thesis using mutate_shuffle [of f vs "is" e' E E'] assms(1,2) ops by simp
next
  case (Bin op a b)
  then obtain a' b' where "f a = Some a'" "f b = Some b'" "Bin_make op a' b' = Some e'"
    using assms(1) by (auto simp: bind_eq_Some_conv)
  then show ?thesis
    using ops [of a a'] ops [of b b'] assms(2)
    by (simp add: Bin same_value_def Bin_make_def) (auto split: if_splits)
next
  case (Load t n p i im pa al)
  then obtain p' i' where "f p = Some p'" "f i = Some i'" "Load_make t n i' im pa p' al = Some e'"
    using assms(1) by (auto simp: bind_eq_Some_conv)
  then show ?thesis
    using ops [of p p'] ops [of i i'] assms(2) env
    by (auto simp: Load same_value_def Load_make_def split: if_splits cong: if_cong)
next
  case (Cast t a)
  then obtain a' where "f a = Some a'" "Cast_make t a' = Some e'"
    using assms(1) by (auto simp: bind_eq_Some_conv)
  then show ?thesis using ops [of a a'] assms(2) by (auto simp: Cast same_value_def Cast_make_def split: if_splits)
next
  case (Cmp op a b)
  then obtain a' b' where "f a = Some a'" "f b = Some b'" "Cmp_make op a' b' = Some e'"
    using assms(1) by (auto simp: bind_eq_Some_conv)
  then show ?thesis
    using ops [of a a'] ops [of b b'] assms(2) by (auto simp: Cmp same_value_def Cmp_make_def split: if_splits)
next
  case (NotE a)
  then obtain a' where "f a = Some a'" "Not_make a' = Some e'"
    using assms(1) by (auto simp: bind_eq_Some_conv)
  then show ?thesis using ops [of a a'] assms(2) by (auto simp: NotE same_value_def Not_make_def split: if_splits)
next
  case (Select c a b)
  then obtain c' a' b' where "f c = Some c'" "f a = Some a'" "f b = Some b'" "Select_make c' a' b' = Some e'"
    using assms(1) by (auto simp: bind_eq_Some_conv)
  then show ?thesis
    using ops [of c c'] ops [of a a'] ops [of b b'] assms(2)
    by (simp add: Select same_value_def Select_make_def) (auto split: if_splits)
next
  case (Ramp a b n)
  then obtain a' b' where "f a = Some a'" "f b = Some b'" "Ramp_make a' b' n = Some e'"
    using assms(1) by (auto simp: bind_eq_Some_conv)
  then show ?thesis
    using ops [of a a'] ops [of b b'] assms(2) by (auto simp: Ramp same_value_def Ramp_make_def split: if_splits)
next
  case (Broadcast a n)
  then obtain a' where "f a = Some a'" "Broadcast_make a' n = Some e'"
    using assms(1) by (auto simp: bind_eq_Some_conv)
  then show ?thesis using ops [of a a'] assms(2) by (auto simp: Broadcast same_value_def Broadcast_make_def split: if_splits)
qed (use assms(1,2) plain in \<open>auto simp: same_value_def\<close>)

text \<open>Where the constructors accept a node, they accept it again with operands of the same types.\<close>

lemma those_Some [simp]: "those (map Some xs) = Some xs"
  by (induction xs) simp_all

lemma those_types:
  "(\<And>x. x \<in> set as \<Longrightarrow> \<exists>x'. f x = Some x' \<and> etype x' = etype x) \<Longrightarrow>
    \<exists>as'. those (map f as) = Some as' \<and> map etype as' = map etype as"
proof (induction as)
  case (Cons a as)
  obtain as' where "those (map f as) = Some as'" "map etype as' = map etype as" using Cons by auto
  moreover obtain a' where "f a = Some a'" "etype a' = etype a" using Cons.prems by auto
  ultimately show ?case by auto
qed simp

lemma same_types:
  assumes "map etype as' = map etype as"
  shows "list_all (\<lambda>a. P (etype a)) as' \<longleftrightarrow> list_all (\<lambda>a. P (etype a)) as" "length as' = length as"
    "map (\<lambda>a. lanes (etype a)) as' = map (\<lambda>a. lanes (etype a)) as" "as \<noteq> [] \<Longrightarrow> etype (hd as') = etype (hd as)"
    "as' = [] \<longleftrightarrow> as = []"
proof -
  show "list_all (\<lambda>a. P (etype a)) as' \<longleftrightarrow> list_all (\<lambda>a. P (etype a)) as"
    using arg_cong [OF assms, of "list_all P"] by (simp add: list.pred_map comp_def)
  show "length as' = length as" by (metis assms length_map)
  then show "as' = [] \<longleftrightarrow> as = []" by auto
  show "map (\<lambda>a. lanes (etype a)) as' = map (\<lambda>a. lanes (etype a)) as"
    using arg_cong [OF assms, of "map lanes"] by (simp add: comp_def)
  show "as \<noteq> [] \<Longrightarrow> etype (hd as') = etype (hd as)"
    using assms by (cases as) auto
qed

lemma mutate_operands:
  "mutate_node f e = Some e' \<Longrightarrow> those (map f (operand_list e)) = Some (operand_list e')"
  "mutate_node f e = Some e' \<Longrightarrow> (\<exists>t n. e' = Variable t n) \<longleftrightarrow> (\<exists>t n. e = Variable t n)"
  "mutate_node f e = Some e' \<Longrightarrow> (\<exists>n v b. e' = LetE n v b) \<longleftrightarrow> (\<exists>n v b. e = LetE n v b)"
  "mutate_node f e = Some e' \<Longrightarrow> mutate_node Some e' = Some e'"
  by (cases e; auto simp: bind_eq_Some_conv make_defs split: if_splits)+

lemma mutate_node_defined:
  assumes "mutate_node Some e = Some e"
    and ops: "\<And>x. x \<in> set (operand_list e) \<Longrightarrow> \<exists>x'. f x = Some x' \<and> etype x' = etype x"
  shows "\<exists>e'. mutate_node f e = Some e' \<and> etype e' = etype e"
proof (cases e)
  case (Call t n as ct vi)
  then obtain as' where "those (map f as) = Some as'" and t: "map etype as' = map etype as"
    using those_types [of as f] ops by auto
  then show ?thesis
    using assms(1) same_types(1) [OF t, of "\<lambda>t. t = IntT 32 1"] same_types(2) [OF t]
    by (simp add: Call Call_make_def split: if_splits)
next
  case (Shuffle vs "is")
  then obtain vs' where "those (map f vs) = Some vs'" and t: "map etype vs' = map etype vs"
    using those_types [of vs f] ops by auto
  moreover have "vs \<noteq> []" using assms(1) by (simp add: Shuffle Shuffle_make_def split: if_splits)
  moreover have "Shuffle_make vs is = Some (Shuffle vs is)" using assms(1) by (simp add: Shuffle)
  ultimately have "Shuffle_make vs' is = Some (Shuffle vs' is)"
    using same_types(1) [OF t, of "\<lambda>t. element_of t = element_of (etype (hd vs))"] same_types(3-5) [OF t]
    by (simp add: Shuffle_make_def split: if_splits)
  moreover have "etype (Shuffle vs' is) = etype (Shuffle vs is)"
    using same_types(4,5) [OF t] by (cases vs; cases vs') simp_all
  ultimately show ?thesis using \<open>those (map f vs) = Some vs'\<close> by (simp add: Shuffle)
next
  case (Select c a b)
  then obtain c' a' b' where "f c = Some c'" "etype c' = etype c" "f a = Some a'" "etype a' = etype a" "f b = Some b'" "etype b' = etype b"
    using ops [of c] ops [of a] ops [of b] by auto
  then show ?thesis using assms(1) by (auto simp: Select make_defs split: if_splits)
next
  case (Bin op a b)
  then obtain a' b' where "f a = Some a'" "etype a' = etype a" "f b = Some b'" "etype b' = etype b"
    using ops [of a] ops [of b] by auto
  then show ?thesis using assms(1) by (auto simp: Bin make_defs split: if_splits)
next
  case (Cmp op a b)
  then obtain a' b' where "f a = Some a'" "etype a' = etype a" "f b = Some b'" "etype b' = etype b"
    using ops [of a] ops [of b] by auto
  then show ?thesis using assms(1) by (auto simp: Cmp make_defs split: if_splits)
next
  case (NotE a)
  then obtain a' where "f a = Some a'" "etype a' = etype a"
    using ops [of a] by auto
  then show ?thesis using assms(1) by (auto simp: NotE make_defs split: if_splits)
next
  case (Cast t a)
  then obtain a' where "f a = Some a'" "etype a' = etype a"
    using ops [of a] by auto
  then show ?thesis using assms(1) by (auto simp: Cast make_defs split: if_splits)
next
  case (Broadcast a n)
  then obtain a' where "f a = Some a'" "etype a' = etype a"
    using ops [of a] by auto
  then show ?thesis using assms(1) by (auto simp: Broadcast make_defs split: if_splits)
next
  case (Ramp a b n)
  then obtain a' b' where "f a = Some a'" "etype a' = etype a" "f b = Some b'" "etype b' = etype b"
    using ops [of a] ops [of b] by auto
  then show ?thesis using assms(1) by (auto simp: Ramp make_defs split: if_splits)
next
  case (Load t n p i im pa al)
  then obtain p' i' where "f p = Some p'" "etype p' = etype p" "f i = Some i'" "etype i' = etype i"
    using ops [of p] ops [of i] by auto
  then show ?thesis using assms(1) by (auto simp: Load make_defs split: if_splits)
next
  case (LetE n v b)
  then obtain v' b' where "f v = Some v'" "etype v' = etype v" "f b = Some b'" "etype b' = etype b"
    using ops [of v] ops [of b] by auto
  then show ?thesis using assms(1) by (auto simp: LetE make_defs split: if_splits)
qed simp_all

section \<open>Substituting keeps values\<close>

text \<open>
  \<open>built\<close>: the constructors accept every node. \<open>replaceable\<close>: every variable that is replaced has the
  type of its replacement, and no let around one binds a variable that a replacement uses.
\<close>

function built :: "expr \<Rightarrow> bool" where
  "built e \<longleftrightarrow> mutate_node Some e = Some e \<and> list_all built (operand_list e)"
  by pat_completeness auto
termination
  by (relation "measure size") (auto dest: operand_size simp del: operand_list.simps)

declare built.simps [simp del]

function replaceable :: "(string \<Rightarrow> expr option) \<Rightarrow> unit scope \<Rightarrow> expr \<Rightarrow> bool" where
  "replaceable m h e =
     (case e of
        Variable t n \<Rightarrow> (case find_replacement m h n of Some r \<Rightarrow> etype r = t | None \<Rightarrow> True)
      | LetE n v b \<Rightarrow> replaceable m h v \<and> (\<forall>r \<in> ran m. \<not> expr_uses_var r n) \<and> replaceable m (scope_push n () h) b
      | _ \<Rightarrow> list_all (replaceable m h) (operand_list e))"
  by pat_completeness auto
termination
  by (relation "measure (\<lambda>(r, h, e). size e)") (auto dest: operand_size size_in_list)

declare replaceable.simps [simp del]

lemma plain_cases:
  assumes "\<not> (\<exists>t n. e = Variable t n)" "\<not> (\<exists>n v b. e = LetE n v b)"
  shows "substitute_vars m h e = mutate_node (substitute_vars m h) e"
    "replaceable m h e = list_all (replaceable m h) (operand_list e)"
    "substitute_in_all_lets e = mutate_node substitute_in_all_lets e"
  using assms
  by (cases e; simp add: substitute_vars.simps [of m h] replaceable.simps [of m h] substitute_in_all_lets.simps)+

lemma var_value:
  assumes "wf r" "etype r = t"
  shows "(do { v \<leftarrow> eval E r (lane_in t l); if is_num t \<and> norm t v = v then Some v else None }) = eval E r l"
proof -
  have e: "eval E r (lane_in t l) = eval E r l"
    using eval_scalar [OF assms(1), of E "lane_in t l" l] assms(2) by (auto simp: lane_in_def)
  show ?thesis
  proof (cases "eval E r l")
    case (Some v)
    then show ?thesis using eval_range [OF assms(1) Some] assms(2) e by (auto simp: ranged_def)
  qed (simp add: e)
qed

text \<open>\<open>E\<close> is the environment of the result and \<open>E'\<close> the one in which the replaced variables are bound.\<close>

definition linked :: "(string \<Rightarrow> expr option) \<Rightarrow> unit scope \<Rightarrow> eval_env \<Rightarrow> eval_env \<Rightarrow> bool" where
  "linked m h E E' \<longleftrightarrow> mem E = mem E' \<and> fns E = fns E' \<and>
     (\<forall>n. vars E' n = (case find_replacement m h n of Some r \<Rightarrow> eval E r | None \<Rightarrow> vars E n))"

lemma linked_bound:
  "linked m h E (E\<lparr>vars := (\<lambda>n. case find_replacement m h n of Some r \<Rightarrow> eval E r | None \<Rightarrow> vars E n)\<rparr>)"
  by (simp add: linked_def)

lemma linked_let:
  assumes "linked m h E E'" "scope_ok h" "\<forall>r \<in> ran m. \<not> expr_uses_var r n"
  shows "linked m (scope_push n () h) (E\<lparr>vars := (vars E)(n := d)\<rparr>) (E'\<lparr>vars := (vars E')(n := d)\<rparr>)"
proof -
  have f: "find_replacement m (scope_push n () h) k = (if k = n then None else find_replacement m h k)" for k
    using scope_push_get [OF assms(2), of n "()" k] by (auto simp: find_replacement_def split: option.split)
  have u: "eval (E\<lparr>vars := (vars E)(n := d)\<rparr>) r = eval E r" if "find_replacement m h k = Some r" for k r
  proof -
    have "r \<in> ran m" using that by (auto simp: find_replacement_def ran_def split: option.splits if_splits)
    then show ?thesis using eval_unused [of r n E d] assms(3) by auto
  qed
  show ?thesis using assms(1) u by (auto simp: linked_def f split: option.split)
qed

lemma substitute_vars_same:
  assumes "wf e" "built e" "\<forall>r \<in> ran m. wf r" "replaceable m h e" "scope_ok h"
  shows "\<exists>e'. substitute_vars m h e = Some e' \<and> etype e' = etype e \<and> wf e' \<and>
    (\<forall>E E'. linked m h E E' \<longrightarrow> same_value E E' e' e)"
  using assms
proof (induction "size e" arbitrary: e h rule: less_induct)
  case less
  have bo: "built x" if "x \<in> set (operand_list e)" for x
    using less.prems(2) that by (auto simp: built.simps [of e] list_all_iff)
  consider (var) t n where "e = Variable t n" | (let_) n v b where "e = LetE n v b"
    | (plain) "\<not> (\<exists>t n. e = Variable t n)" "\<not> (\<exists>n v b. e = LetE n v b)" by blast
  then show ?case
  proof cases
    case (var t n)
    show ?thesis
    proof (cases "find_replacement m h n")
      case None
      then show ?thesis
        using var less.prems(1) by (auto simp: substitute_vars.simps same_value_def linked_def)
    next
      case (Some r)
      then have "r \<in> ran m" by (auto simp: find_replacement_def ran_def split: option.splits if_splits)
      then have "wf r" "etype r = t"
        using less.prems(3,4) Some var by (auto simp: replaceable.simps [of m h])
      then show ?thesis
        using var Some var_value [of r t] by (auto simp: substitute_vars.simps same_value_def linked_def)
    qed
  next
    case (let_ n v b)
    have p: "replaceable m h v" "\<forall>r \<in> ran m. \<not> expr_uses_var r n" "replaceable m (scope_push n () h) b"
      using less.prems(4) by (simp_all add: let_ replaceable.simps [of m h "LetE n v b"])
    obtain v' where v': "substitute_vars m h v = Some v'" "etype v' = etype v" "wf v'"
      "\<forall>E E'. linked m h E E' \<longrightarrow> same_value E E' v' v"
      using less.hyps [of v h] bo [of v] less.prems p by (auto simp: let_)
    obtain b' where b': "substitute_vars m (scope_push n () h) b = Some b'" "etype b' = etype b" "wf b'"
      "\<forall>E E'. linked m (scope_push n () h) E E' \<longrightarrow> same_value E E' b' b"
      using less.hyps [of b "scope_push n () h"] bo [of b] less.prems p by (auto simp: let_)
    have s: "same_value E E' (LetE n v' b') e" if l: "linked m h E E'" for E E'
    proof -
      have "eval E v' = eval E' v" using v'(4) l by (auto simp: same_value_def fun_eq_iff)
      then show ?thesis
        using b'(4) linked_let [OF l less.prems(5) p(2), of "eval E v'"] b'(2,3) v'(3)
        by (auto simp: let_ same_value_def)
    qed
    then show ?thesis using v' b' by (auto simp: let_ substitute_vars.simps [of m h] Let_make_def)
  next
    case plain
    have ih: "\<exists>x'. substitute_vars m h x = Some x' \<and> etype x' = etype x \<and> wf x' \<and>
        (\<forall>E E'. linked m h E E' \<longrightarrow> same_value E E' x' x)" if x: "x \<in> set (operand_list e)" for x
      using less.hyps [OF operand_size [OF x] operand_wf [OF x less.prems(1)] bo [OF x] less.prems(3)] x less.prems(4,5)
      by (simp add: plain_cases [OF plain] list_all_iff)
    obtain e' where e': "mutate_node (substitute_vars m h) e = Some e'" "etype e' = etype e"
      using mutate_node_defined [of e "substitute_vars m h"] less.prems(2) ih
      unfolding built.simps [of e] by blast
    have s: "same_value E E' e' e" if l: "linked m h E E'" for E E'
    proof (rule mutate_node_same [OF e'(1) less.prems(1) _ _ _ plain])
      show "mem E = mem E'" "fns E = fns E'" using l by (simp_all add: linked_def)
      show "same_value E E' x' x" if "x \<in> set (operand_list e)" "substitute_vars m h x = Some x'" for x x'
        using ih [OF that(1)] that(2) l by auto
    qed
    moreover have "wf e'" using s [OF linked_bound] by (simp add: same_value_def)
    ultimately show ?thesis using e' by (simp add: plain_cases [OF plain])
  qed
qed

theorem substitute_value:
  assumes "wf e" "built e" "wf r" "replaceable [n \<mapsto> r] empty_scope e"
  shows "\<exists>e'. substitute n r e = Some e' \<and> etype e' = etype e \<and> wf e' \<and>
    (\<forall>env l. eval env e' l = eval (env\<lparr>vars := (vars env)(n := eval env r)\<rparr>) e l)"
proof -
  obtain e' where e': "substitute_vars [n \<mapsto> r] empty_scope e = Some e'" "etype e' = etype e" "wf e'"
    "\<forall>E E'. linked [n \<mapsto> r] empty_scope E E' \<longrightarrow> same_value E E' e' e"
    using substitute_vars_same [OF assms(1,2) _ assms(4)] assms(3) by auto
  have "scope_contains (empty_scope :: unit scope) k = False" for k by (simp add: empty_scope_def)
  then have "linked [n \<mapsto> r] empty_scope env (env\<lparr>vars := (vars env)(n := eval env r)\<rparr>)" for env
    unfolding linked_def find_replacement_def by simp
  then show ?thesis using e' by (auto simp: substitute_def same_value_def)
qed

section \<open>Inlining lets\<close>

text \<open>
  \<open>lets_typed\<close>: a variable that a let binds has the type of its value. The types of the variables
  bound around are in \<open>ctx\<close>.
\<close>

function let_free :: "expr \<Rightarrow> bool" where
  "let_free e \<longleftrightarrow> \<not> (\<exists>n v b. e = LetE n v b) \<and> list_all let_free (operand_list e)"
  by pat_completeness auto
termination
  by (relation "measure size") (auto dest: operand_size simp del: operand_list.simps)

function lets_typed :: "(string \<Rightarrow> halide_type option) \<Rightarrow> expr \<Rightarrow> bool" where
  "lets_typed ctx e =
     (case e of
        Variable t n \<Rightarrow> ctx n = None \<or> ctx n = Some t
      | LetE n v b \<Rightarrow> lets_typed ctx v \<and> lets_typed (ctx(n \<mapsto> etype v)) b
      | _ \<Rightarrow> list_all (lets_typed ctx) (operand_list e))"
  by pat_completeness auto
termination
  by (relation "measure (\<lambda>(c, e). size e)") (auto dest: operand_size size_in_list)

declare let_free.simps [simp del] lets_typed.simps [simp del]

lemma lets_typed_plain:
  assumes "\<not> (\<exists>t n. e = Variable t n)" "\<not> (\<exists>n v b. e = LetE n v b)"
  shows "lets_typed ctx e = list_all (lets_typed ctx) (operand_list e)"
    "graph_substitute n v e = mutate_node (graph_substitute n v) e"
  using assms by (cases e; simp add: lets_typed.simps [of ctx] graph_substitute.simps)+

text \<open>The invariant of the inlined expressions, for one context.\<close>

definition inlined :: "(string \<Rightarrow> halide_type option) \<Rightarrow> expr \<Rightarrow> bool" where
  "inlined ctx e \<longleftrightarrow> wf e \<and> built e \<and> let_free e \<and> lets_typed ctx e"

lemma inlined_operand: "inlined ctx e \<Longrightarrow> x \<in> set (operand_list e) \<Longrightarrow> inlined ctx x"
proof -
  assume a: "inlined ctx e" and x: "x \<in> set (operand_list e)"
  show "inlined ctx x"
  proof (cases "\<exists>t n. e = Variable t n")
    case False
    have "\<not> (\<exists>n v b. e = LetE n v b)" using a let_free.simps [of e] by (simp add: inlined_def)
    from lets_typed_plain(1) [OF False this] show ?thesis
      using a x operand_wf [OF x] by (auto simp: inlined_def built.simps [of e] let_free.simps [of e] list_all_iff)
  qed (use x in auto)
qed

text \<open>A mutator whose results on the operands are inlined gives an inlined node.\<close>

lemma mutate_inlined:
  assumes "mutate_node Some e = Some e" "wf e" "mem E = mem E'" "fns E = fns E'"
    and plain: "\<not> (\<exists>t n. e = Variable t n)" "\<not> (\<exists>n v b. e = LetE n v b)"
    and ops: "\<And>x. x \<in> set (operand_list e) \<Longrightarrow> \<exists>x'. f x = Some x' \<and> inlined ctx x' \<and> same_value E E' x' x"
  shows "\<exists>e'. mutate_node f e = Some e' \<and> inlined ctx e' \<and> same_value E E' e' e"
proof -
  obtain e' where e': "mutate_node f e = Some e'"
    using mutate_node_defined [OF assms(1), of f] ops by (metis same_value_def)
  have s: "same_value E E' e' e"
    by (rule mutate_node_same [OF e' assms(2) _ assms(3,4) plain]) (use ops in fastforce)
  have "list_all2 (\<lambda>x x'. f x = Some x') (operand_list e) (operand_list e')"
    using mutate_operands(1) [OF e'] by (simp add: those_map_iff)
  then have "list_all (inlined ctx) (operand_list e')"
    using ops by (fastforce simp: list_all2_conv_all_nth list_all_length in_set_conv_nth)
  moreover have n: "\<not> (\<exists>t n. e' = Variable t n)" "\<not> (\<exists>n v b. e' = LetE n v b)"
    using plain mutate_operands(2,3) [OF e'] by blast+
  ultimately have "inlined ctx e'"
    using s lets_typed_plain(1) [OF n] mutate_operands(4) [OF e'] n
    by (auto simp: inlined_def built.simps [of e'] let_free.simps [of e'] list_all_iff same_value_def)
  then show ?thesis using e' s by blast
qed

lemma graph_substitute_inlined:
  assumes "inlined (ctx(n \<mapsto> etype v)) e" "inlined ctx v"
  shows "\<exists>e'. graph_substitute n v e = Some e' \<and> inlined ctx e' \<and>
    same_value E (E\<lparr>vars := (vars E)(n := eval E v)\<rparr>) e' e"
  using assms(1)
proof (induction "size e" arbitrary: e rule: less_induct)
  case less
  have i: "wf e" "built e" "let_free e" "lets_typed (ctx(n \<mapsto> etype v)) e" using less.prems by (simp_all add: inlined_def)
  have nl: "\<not> (\<exists>n v b. e = LetE n v b)" using i(3) by (simp add: let_free.simps [of e])
  show ?case
  proof (cases "\<exists>t k. e = Variable t k")
    case True
    then obtain t k where e: "e = Variable t k" by blast
    show ?thesis
    proof (cases "k = n")
      case True
      then have "etype v = t" "wf v" using i(4) assms(2) by (simp_all add: e lets_typed.simps inlined_def)
      then show ?thesis
        using assms(2) var_value [of v t] True by (auto simp: e graph_substitute.simps same_value_def)
    next
      case False
      then show ?thesis
        using i by (auto simp: e graph_substitute.simps same_value_def inlined_def lets_typed.simps)
    qed
  next
    case False
    have "\<exists>e'. mutate_node (graph_substitute n v) e = Some e' \<and> inlined ctx e' \<and>
        same_value E (E\<lparr>vars := (vars E)(n := eval E v)\<rparr>) e' e"
      by (rule mutate_inlined [OF _ i(1) _ _ False nl])
        (use i(2) less.hyps operand_size inlined_operand [OF less.prems] in \<open>auto simp: built.simps [of e]\<close>)
    then show ?thesis by (simp add: lets_typed_plain(2) [OF False nl])
  qed
qed

lemma substitute_in_all_lets_inlined:
  assumes "wf e" "built e" "lets_typed ctx e"
  shows "\<exists>e'. substitute_in_all_lets e = Some e' \<and> inlined ctx e' \<and> (\<forall>E. same_value E E e' e)"
  using assms
proof (induction "size e" arbitrary: e ctx rule: less_induct)
  case less
  have bo: "built x" if "x \<in> set (operand_list e)" for x
    using less.prems(2) that by (auto simp: built.simps [of e] list_all_iff)
  consider (var) t n where "e = Variable t n" | (let_) n v b where "e = LetE n v b"
    | (plain) "\<not> (\<exists>t n. e = Variable t n)" "\<not> (\<exists>n v b. e = LetE n v b)" by blast
  then show ?case
  proof cases
    case (var t n)
    then show ?thesis
      using less.prems by (auto simp: substitute_in_all_lets.simps inlined_def let_free.simps same_value_refl)
  next
    case (let_ n v b)
    have t: "lets_typed ctx v" "lets_typed (ctx(n \<mapsto> etype v)) b"
      using less.prems(3) by (simp_all add: let_ lets_typed.simps [of ctx "LetE n v b"])
    obtain v' where v': "substitute_in_all_lets v = Some v'" "inlined ctx v'" "\<forall>E. same_value E E v' v"
      using less.hyps [of v ctx] bo [of v] less.prems t by (auto simp: let_)
    obtain b' where b': "substitute_in_all_lets b = Some b'" "inlined (ctx(n \<mapsto> etype v)) b'" "\<forall>E. same_value E E b' b"
      using less.hyps [of b "ctx(n \<mapsto> etype v)"] bo [of b] less.prems t by (auto simp: let_)
    have ty: "etype v' = etype v" "\<And>E. eval E v' = eval E v" using v'(3) by (auto simp: same_value_def fun_eq_iff)
    note g = graph_substitute_inlined [of ctx n v' b', unfolded ty, OF b'(2) v'(2)]
    obtain e' where e': "graph_substitute n v' b' = Some e'" "inlined ctx e'" using g by blast
    have "same_value E E e' e" for E
      using g [of E] e'(1) b'(3) by (auto simp: let_ same_value_def)
    then show ?thesis using v' b' e' by (auto simp: let_ substitute_in_all_lets.simps [of "LetE n v b"])
  next
    case plain
    have ih: "\<exists>x'. substitute_in_all_lets x = Some x' \<and> inlined ctx x' \<and> (\<forall>E. same_value E E x' x)"
      if x: "x \<in> set (operand_list e)" for x
      using less.hyps [OF operand_size [OF x] operand_wf [OF x less.prems(1)] bo [OF x]] x less.prems(3)
      by (simp add: lets_typed_plain [OF plain] list_all_iff)
    have "\<exists>e'. mutate_node substitute_in_all_lets e = Some e' \<and> inlined ctx e' \<and> same_value E E e' e" for E
      by (rule mutate_inlined [OF _ less.prems(1) _ _ plain])
        (use ih less.prems(2) in \<open>auto simp: built.simps [of e]\<close>)
    then show ?thesis by (simp add: plain_cases [OF plain]) (metis option.inject)
  qed
qed

theorem lets_inlined:
  assumes "wf e" "built e" "lets_typed Map.empty e"
  shows "\<exists>e'. substitute_in_all_lets e = Some e' \<and> let_free e' \<and> etype e' = etype e \<and> wf e' \<and>
    (\<forall>env l. eval env e' l = eval env e l)"
  using substitute_in_all_lets_inlined [OF assms] by (auto simp: inlined_def same_value_def)

section \<open>Replacing expressions\<close>

lemma same_value_LetE:
  "same_value E E v' v \<Longrightarrow> (\<And>E. same_value E E b' b) \<Longrightarrow> same_value E E (LetE n v' b') (LetE n v b)"
proof -
  assume v: "same_value E E v' v" and b: "\<And>E. same_value E E b' b"
  have "eval E v' = eval E v" using v by (auto simp: same_value_def)
  then show ?thesis using v b by (auto simp: same_value_def)
qed

theorem substitute_expr_value:
  assumes "wf e" "built e" "wf r" "etype r = etype target" "\<forall>env l. eval env r l = eval env target l"
  shows "\<exists>e'. substitute_expr F target r e = Some e' \<and> (\<forall>E. same_value E E e' e)"
  using assms(1,2)
proof (induction "size e" arbitrary: e rule: less_induct)
  case less
  have ih: "\<exists>x'. substitute_expr F target r x = Some x' \<and> (\<forall>E. same_value E E x' x)"
    if x: "x \<in> set (operand_list e)" for x
    using less.hyps [OF operand_size [OF x] operand_wf [OF x less.prems(1)]] less.prems(2) x
    by (auto simp: built.simps [of e] list_all_iff)
  obtain e' where e': "mutate_node (substitute_expr F target r) e = Some e'"
    using mutate_node_defined [of e "substitute_expr F target r"] less.prems(2) ih
    unfolding built.simps [of e] same_value_def by blast
  show ?case
  proof (cases "deep_equal F e target")
    case True
    then have "etype e = etype target" "\<And>env l. eval env e l = eval env target l"
      using deep_equal_etype [OF True] deep_equal_eval [OF True] by blast+
    then show ?thesis using assms(3-) True by (auto simp: substitute_expr.simps [of F _ _ e] same_value_def)
  next
    case False
    consider (var) "\<exists>t n. e = Variable t n" | (let_) n v b where "e = LetE n v b"
      | (plain) "\<not> (\<exists>t n. e = Variable t n)" "\<not> (\<exists>n v b. e = LetE n v b)" by blast
    then have "same_value E E e' e" for E
    proof cases
      case var
      then show ?thesis using e' less.prems(1) by (auto simp: same_value_refl)
    next
      case (let_ n v b)
      then show ?thesis
        using e' ih [of v] ih [of b] by (auto simp: bind_eq_Some_conv Let_make_def intro!: same_value_LetE)
    next
      case plain
      show ?thesis
        by (rule mutate_node_same [OF e' less.prems(1) _ refl refl plain]) (use ih in fastforce)
    qed
    then show ?thesis using e' False by (simp add: substitute_expr.simps [of F _ _ e])
  qed
qed

end
