(* ===== verification/Spec2Isabelle.thy ===== *)
theory Spec2Isabelle
  imports RulesLinear RulesDivMod RulesMinMax RulesCompare RulesBool Scope IRCompare ExprInfo ConstFold Cascades Alignment Findings Substitute Monotonic
begin

text \<open>
  The expression core of Halide: integer arithmetic, types, expressions, the rewrite rules of
  the simplifier and the simplifier itself. The sources are the files of \<open>src/src\<close>.

  \<^bold>\<open>Program.\<close> A Halide pipeline is lowered to statements over expressions (\<open>Expr.h\<close>,
  \<open>IR.h\<close>). Nearly every pass calls \<open>simplify\<close>, and correctness of the whole compiler
  rests on it. \<open>Simplify\<close> is a class of visitors, one per kind of node. A visitor mutates
  the operands, computes bounds and an alignment of the result (\<open>ExprInfo\<close>,
  \<open>ModulusRemainder\<close>), and tries rewrite rules written in the pattern language of
  \<open>IRMatch.h\<close>, whose predicates may call the simplifier back to prove a condition. It reads
  \<open>Scope\<close>s of what is known of variables and ordered sets of known facts.

  \<^bold>\<open>Theories.\<close> In the order in which they build on one another:

  \<^item> \<open>Prelude\<close>: \<open>int64_t\<close> with undefined overflow (no result), truncating and Euclidean division.
  \<^item> \<open>IntArith\<close> (\<open>Util.cpp\<close>, \<open>IROperator.h\<close>, \<open>ModulusRemainder.cpp\<close>): overflow tests,
    \<open>div_imp\<close>, \<open>mod_imp\<close>, \<open>gcd\<close> and \<open>lcm\<close>.
  \<^item> \<open>HalideType\<close> (\<open>Type.h\<close>, \<open>Type.cpp\<close>): types and their ranges. \<open>ModRem\<close>
    (\<open>ModulusRemainder.cpp\<close>): alignments; the locale of an abstraction of the integers is
    interpreted on them.
  \<^item> \<open>IR\<close> (\<open>IR.h\<close>, \<open>IR.cpp\<close>, \<open>IROperator.cpp\<close>, \<open>IRMatch.cpp\<close>): nodes, the \<open>make\<close>
    functions with their assertions, constant tests, casts, structural equality.
    \<open>Semantics\<close>, \<open>SemanticsFacts\<close>: the meaning of an expression in one lane.
  \<^item> \<open>Matcher\<close> (\<open>IRMatch.h\<close>): patterns, matching, construction, constant folding, the rewriter.
    \<open>FoldSound\<close>, \<open>MatchSound\<close>, \<open>MakeSound\<close>, \<open>Lanes\<close>, \<open>Rewriting\<close>: a valid rule
    keeps the value, whatever the matched expression. \<open>Rules\<close>, \<open>Limits\<close>: how rules are
    proved valid. \<open>RulesLinear\<close>, \<open>RulesDivMod\<close>, \<open>RulesMinMax\<close>, \<open>RulesCompare\<close>,
    \<open>RulesBool\<close> (\<open>Simplify_Add.cpp\<close>, \<open>Simplify_Sub.cpp\<close>, and so on): every rule table of the visitors.
  \<^item> \<open>Scope\<close> (\<open>Scope.h\<close>): \<open>SmallStack\<close>, \<open>Scope\<close>, \<open>ScopedBinding\<close>, refined to one stack
    per name. \<open>IRCompare\<close> (\<open>IREquality.cpp\<close>): the deep comparison that orders the sets of
    facts. \<open>ExprInfo\<close> (\<open>Simplify_Internal.h\<close>): bounds with an alignment.
  \<^item> \<open>SimpState\<close>: the fields of \<open>Simplify\<close>, the contract of a callback (locale
    \<open>sound_mutator\<close>) and what visitors share. \<open>SimpBounds\<close>, \<open>SimpArith\<close>, \<open>SimpExprs\<close>,
    \<open>SimpBool\<close>, \<open>SimpCompare\<close>: the visitors, each proved inside the locale. \<open>Simplify\<close>: the
    dispatch, \<open>mutate\<close>, the constructor, \<open>simplify\<close>, and the interpretation of the locale on them.
    \<open>Cascades\<close>: the rules of minima, maxima and comparisons in the order in which the code
    tries them, with those that hold only for some types or values.
    \<open>Budget\<close>: results do not depend on the budget. \<open>ConstFold\<close>: what becomes of literals, errors
    included.
  \<^item> \<open>Interval\<close> (\<open>Interval.h\<close>, \<open>Interval.cpp\<close>): intervals of expressions, refined to extended
    integers. \<open>Alignment\<close> (\<open>ModulusRemainder.cpp\<close>): the analysis of an expression.
    \<open>Substitute\<close> (\<open>Substitute.cpp\<close>, \<open>IRMutator.cpp\<close>, \<open>ExprUsesVar.h\<close>): mutators, substitution, inlining
    of lets. \<open>Monotonic\<close> (\<open>Monotonic.cpp\<close>): the direction in which an expression moves.
  \<^item> \<open>Findings\<close>: concrete inputs on which the code is wrong, proved by evaluation.
  \<^item> \<open>Examples\<close>: concrete inputs for the witnesses.

  \<^bold>\<open>Meaning of expressions.\<close> \<open>eval env e l\<close> is the value of \<open>e\<close> in the vector lane \<open>l\<close>.
  It has none where the program has none: division by zero, a variable or a call that the
  environment does not define, \<open>indeterminate_expression\<close>, and floating-point arithmetic, whose
  operations are a parameter (\<open>float_ops\<close>) about which nothing is assumed. Integers of 32 bits
  and more have no overflow in Halide, so their operations are exact and the value need not
  fit the width; the others wrap. Soundness keeps a value where there is one.

  \<^bold>\<open>Failure.\<close> Assertions (\<open>internal_assert\<close>, \<open>user_assert\<close>), undefined behaviour of C++ and the
  constructs that are left out give no result (\<open>None\<close>). The recursion of \<open>mutate\<close> is not
  structural, since results of rules are mutated again, and the code has no argument that
  it ends: it has a budget. Results hold for every budget, a run that has a result has the
  same one with any larger budget, and on closed arithmetic of literals the size of the
  expression is enough.

  \<^bold>\<open>The ghost \<open>tainted\<close>.\<close> Where the code leaves what can be proved, the model sets a flag of
  the state that no branch reads. Soundness is stated for runs that end without it. The
  places are those listed as findings in the manifest (rules that are wrong for narrow
  types, a bound of a product, remainders that are not canonical), literals that do not
  fit their type, and, where values are exact and need not fit the width, the rules that
  compare with the bounds of the type. \<open>Cascades\<close> states what such rules need instead.

  \<^bold>\<open>Counters.\<close> Reports of overflow and of undefined values are numbered by two static
  counters. They are fields of the state; a run starts from the counts of the process and
  returns the new ones.

  \<^bold>\<open>The contract.\<close> \<open>simp_ok\<close> says of a run: the facts of the state are kept (use counts may
  change), and, if it started in a state whose facts are true (\<open>facts_ok\<close>) from a well-formed
  expression with a value, the result is well-formed, has the value, and the bounds and
  alignment returned contain it. Every visitor has it if its callback has it, so
  \<open>mutate\<close> has it by induction on the budget.

  \<^bold>\<open>What is shown.\<close> Each rule table keeps values, and each cascade of the code does where its
  rules hold; so do \<open>simplify\<close> and the bounds it returns.
  Matching, construction and folding of patterns agree with the meaning of patterns. Alignments
  and bounds contain the values they describe. Scopes are stacks; the deep comparison is a
  strict weak order whose equivalence implies equal values. Extrema and intervals are those
  of extended integers. Substitution is evaluation in a changed environment, and inlining the
  lets of an expression keeps its value. Answers about monotonicity are true where arithmetic
  is exact.

  \<^bold>\<open>Not modelled.\<close> In the simplifier: the visitors of calls, lets and shuffles, whose
  expressions are opaque here, statements, and the scoped facts that \<open>if\<close> and \<open>require\<close>
  learn. \<open>same_as\<close> compares pointers of immutable nodes and only saves copies, and so it does not
  appear. Beyond it: bounds inference, the lowering passes and the scheduling
  front end, which work on statements and on objects that share mutable state; the CoreIR, HLS
  and LLVM back ends, which call external libraries or print text; the C runtime.
\<close>

section \<open>Integer arithmetic\<close>

text \<open>C20: The overflow tests of \<open>Util.cpp\<close> are exact: for operands of the given width they
  hold just when the mathematical result does not fit that width.\<close>

theorem would_overflow_exact:
  assumes "0 < n" "n \<le> 64" "fits n a" "fits n b"
  shows "(add_would_overflow n a b \<longleftrightarrow> \<not> fits n (a + b)) \<and>
    (sub_would_overflow n a b \<longleftrightarrow> \<not> fits n (a - b)) \<and>
    (mul_would_overflow n a b \<longleftrightarrow> \<not> fits n (a * b))"
  using assms by (simp add: add_would_overflow_iff sub_would_overflow_iff mul_would_overflow_iff)

theorem would_overflow_exact_witness:
  "add_would_overflow 8 100 100 \<and> \<not> sub_would_overflow 8 100 100 \<and> mul_would_overflow 8 100 100"
  using would_overflow_exact [of 8 100 100] by (simp add: fits_def)

text \<open>C19: \<open>div_imp\<close> and \<open>mod_imp\<close> on \<open>int64_t\<close> compute Euclidean division: the remainder is
  at least zero and below the absolute value of the divisor, whatever the signs. They have
  no result only at a zero divisor, at \<open>INT64_MIN / -1\<close> and, for \<open>mod_imp\<close>, at the divisor
  \<open>INT64_MIN\<close>.\<close>

theorem division_euclidean:
  assumes "int64 a" "int64 b" "b \<noteq> 0" "b \<noteq> int64_min" "\<not> (a = int64_min \<and> b = - 1)"
  shows "\<exists>q r. div_imp a b = Some q \<and> mod_imp a b = Some r \<and> a = q * b + r \<and> 0 \<le> r \<and> r < \<bar>b\<bar>"
  using div_imp_euclid [of a b] mod_imp_euclid [of a b] assms ediv_emod [of a b] emod_bounds [of b a]
  by (simp add: mult.commute)

theorem division_euclidean_witness: "div_imp (- 7) (- 2) = Some 4 \<and> mod_imp (- 7) (- 2) = Some 1"
proof -
  obtain q r where d: "div_imp (- 7) (- 2) = Some q" "mod_imp (- 7) (- 2) = Some r"
    and e: "- 7 = q * - 2 + r" "0 \<le> r" "r < 2"
    using division_euclidean [of "- 7" "- 2"] by (auto simp: int64_def)
  have "q = 4" "r = 1" using e by presburger+
  then show ?thesis using d by (simp only:)
qed

text \<open>C32: Euclid's loop ends with the greatest common divisor, for operands that are not
  negative.\<close>

theorem gcd_terminates:
  assumes "0 \<le> a" "0 \<le> b" "int64 a" "int64 b"
  shows "gcd_imp a b = Some (gcd a b)"
  using assms by (rule gcd_imp_total)

theorem gcd_terminates_witness: "gcd_imp 12 18 = Some 6"
  using gcd_terminates [of 12 18] by (simp add: int64_def gcd_non_0_int)

section \<open>Alignment\<close>

text \<open>C21: The arithmetic of \<open>ModulusRemainder\<close> is sound: the value of an operation on two integers
  belongs to the set that the operation computes from sets they belong to.\<close>

theorem alignment_arith_sound:
  assumes "mr_has a x" "mr_has b y" "mr_int64 a" "mr_int64 b"
  shows "(mr_add a b = Some c \<longrightarrow> mr_has c (x + y)) \<and> (mr_sub a b = Some c \<longrightarrow> mr_has c (x - y)) \<and>
    (mr_mul a b = Some c \<longrightarrow> mr_has c (x * y)) \<and> (mr_div a b = Some c \<longrightarrow> mr_has c (ediv x y)) \<and>
    (mr_modulo a b = Some c \<longrightarrow> mr_has c (emod x y))"
  by (intro conjI impI; (rule mr.add_sound mr.sub_sound mr.mul_sound mr.quot_sound mr.modulo_sound,
      assumption, rule assms, rule assms); rule assms)

theorem alignment_arith_sound_witness: "mr_has (MR 3 2) 5 \<and> mr_has (MR 6 2) (5 * 4)"
  using alignment_arith_sound [of "MR 3 2" 5 "MR 6 4" 4 "MR 6 2"]
  by (simp add: mr_has_def)

text \<open>C33: The union of two alignments has every member of either, and their intersection
  every common member.\<close>

theorem alignment_lattice_sound:
  assumes "mr_unify a b = Some c"
  shows "(mr_has a x \<or> mr_has b x \<longrightarrow> mr_has c x) \<and> (mr_has a x \<and> mr_has b x \<longrightarrow> mr_has (mr_intersect a b) x)"
  using mr.join_sound [OF assms] mr_intersect_sound by blast

theorem alignment_lattice_sound_witness: "mr_has (MR 4 3) 11"
proof -
  have c: "gcd_imp 8 12 = Some 4" "gcd_imp 4 4 = Some 4"
    by (simp_all add: gcd_imp_total int64_def gcd_non_0_int)
  have "mr_unify (MR 8 3) (MR 12 7) = Some (MR 4 3)"
    using c gcd_imp_total [of 12 8] by (simp add: gcd_non_0_int mr_unify_def mr_mod_def mod_imp_def crem64_def chk64_def int64_def smod_int_unfold sdiv_int_unfold)
  then show ?thesis
    using alignment_lattice_sound [of "MR 8 3" "MR 12 7" "MR 4 3" 11] by (simp add: mr_has_def)
qed

text \<open>C34: Sums and differences of canonical alignments, and unions whose remainders are no
  further apart than \<open>INT64_MAX\<close>, are computed without undefined behaviour and canonical.\<close>

theorem alignment_canonical:
  assumes "mr_canonical a" "mr_canonical b"
  shows "(\<exists>c. mr_add a b = Some c \<and> mr_canonical c) \<and> (\<exists>c. mr_sub a b = Some c \<and> mr_canonical c) \<and>
    (int64 (remainder a - remainder b) \<and> int64 (remainder b - remainder a) \<longrightarrow>
       (\<exists>c. mr_unify a b = Some c \<and> mr_canonical c))"
  using mr_add_canonical [OF assms] mr_sub_canonical [OF assms] mr_unify_canonical [OF assms] by blast

theorem alignment_canonical_witness: "\<exists>c. mr_add (MR 8 3) (MR 0 (- 5)) = Some c \<and> mr_canonical c"
  using alignment_canonical [of "MR 8 3" "MR 0 (- 5)"]
  by (simp add: mr_canonical_def mr_int64_def int64_def)

text \<open>C40: The alignment analysis of expressions is sound: if arithmetic is done in types without
  overflow and the scope is right about the variables, the value belongs to the alignment
  that is computed, and \<open>reduce_expr_modulo\<close> returns its remainder.\<close>

theorem alignment_analysis_sound:
  assumes "wf e" "exact_arith known e" "aligned env known s" "eval env e l = Some v"
  shows "(modulus_remainder_in e s = Some m \<longrightarrow> mr_has m v) \<and>
    (reduce_expr_modulo_in e k s = Some (Some r) \<longrightarrow> r = emod v k)"
  using modulus_remainder_in_sound [OF _ assms] reduce_expr_modulo_in_sound [OF _ assms] by blast

theorem alignment_analysis_sound_witness:
  "reduce_expr_modulo_in (LetE ''z'' (Mul var_x (num 4)) (Add (Variable i32 ''z'') (num 3))) 2 empty_scope = Some (Some 1) \<and>
    emod 23 2 = 1"
proof -
  let ?e = "LetE ''z'' (Mul var_x (num 4)) (Add (Variable i32 ''z'') (num 3))"
  have r: "reduce_expr_modulo_in ?e 2 empty_scope = Some (Some 1)"
    by (simp add: reduce_expr_modulo_in_def modulus_remainder_in_def empty_scope_def set_containing_scope_def scope_push_def
        small_stack_push_def small_stack_new_def halide_defs mr_top_def mr_mul_def mr_add_def mr_mod_def mr_reduce_def gcd_imp_def
        gcd_loop.simps run_rules)
  have "1 = emod 23 2"
    using alignment_analysis_sound [of ?e "{}" sample empty_scope 0 23 "MR 4 3" 2 1] r aligned_empty [of sample "{}"]
    by (simp add: samples run_eval no_overflow_int_def lane_in_def)
  then show ?thesis using r by simp
qed

section \<open>Expressions\<close>

text \<open>C35: Expressions that the matcher's structural equality identifies have the same value,
  although it does not look at the predicate of a load.\<close>

theorem equal_same_value:
  assumes "equal F a b" "eval env a l = Some v" "eval env b l = Some w"
  shows "v = w"
  using equal_value [OF assms] .

theorem equal_same_value_witness:
  "equal no_floats (Add var_x var_y) (Add var_x var_y) \<and> eval sample (Add var_x var_y) 0 = Some 14"
  using equal_same_value [of no_floats "Add var_x var_y" "Add var_x var_y" sample 0 14 14]
  by (simp add: samples run_eval equal_def same_head_def)

text \<open>C36: \<open>make_const\<close> builds a well-formed literal of the asked type, in every lane of the
  value that the low bits of the number denote in that type.\<close>

theorem make_const_value:
  assumes "make_const F t v = Some e" "is_num t" "legal_type t"
  shows "wf e \<and> etype e = t \<and> eval env e l = Some (const_val t v)"
  using make_const_eval [OF assms] by blast

theorem make_const_value_witness: "eval sample (UIntImm \<lparr>code = Halide_UInt, bits = 8, lanes = 1\<rparr> 44) 0 = Some 44"
  using make_const_value [of no_floats "\<lparr>code = Halide_UInt, bits = 8, lanes = 1\<rparr>" 300
      "UIntImm \<lparr>code = Halide_UInt, bits = 8, lanes = 1\<rparr> 44" sample 0]
  by (simp add: const_val_def run_eval make_const_def UIntImm_make_def zext_def push_bit_eq_mult drop_bit_eq_div take_bit_eq_mod)

text \<open>C30: \<open>cast\<close> builds an expression of the type it is given whose value is the converted value, in
  every lane, whether it folds a literal, casts below a broadcast or makes a node.\<close>

theorem cast_converts:
  assumes "cast_e F t a = Some e" "legal_type t" "is_num t" "wf a" "is_num (etype a)"
  shows "wf e \<and> etype e = t \<and> (\<forall>v. eval env a l = Some v \<longrightarrow> eval env e l = Some (cast_val (etype a) t v))"
proof -
  have "conv (ety (etype a)) (ety t) v = cast_val (etype a) t v" for v
    by (simp add: conv_def ety_def cast_val_def is_int_def is_uint_def)
  then show ?thesis
    using cast_e_sound [OF assms(1,3,2,4,5), of env l] cast_e_type [OF assms(1,3,2)] by (simp add: casts_to_def)
qed

theorem cast_converts_witness:
  "\<exists>e. cast_e no_floats \<lparr>code = Halide_UInt, bits = 8, lanes = 1\<rparr> (Add var_x (num 300)) = Some e \<and> eval sample e 0 = Some 49"
proof -
  let ?t = "\<lparr>code = Halide_UInt, bits = 8, lanes = 1\<rparr>"
  have c: "cast_e no_floats ?t (Add var_x (num 300)) = Some (Cast ?t (Add var_x (num 300)))"
    by (simp add: cast_e_def cast_const_def Cast_make_def samples run_eval is_vector_def is_handle_def)
  show ?thesis
    using cast_converts [OF c, of sample 0] c by (simp add: samples run_eval cast_val_def take_bit_eq_mod)
qed

text \<open>C31: \<open>Type::min\<close> and \<open>Type::max\<close> make, for every integer type, literals of that type that have
  in every lane the least and the greatest number that \<open>Type::can_represent\<close> accepts.\<close>

theorem type_extremes:
  assumes "legal_type t" "is_num t"
  shows "\<exists>lo hi m M. type_min F t = Some lo \<and> type_max F t = Some hi \<and> wf lo \<and> wf hi \<and> etype lo = t \<and> etype hi = t \<and>
    (\<forall>env l. eval env lo l = Some m \<and> eval env hi l = Some M) \<and> (\<forall>v. can_represent_int t v \<longleftrightarrow> m \<le> v \<and> v \<le> M)"
proof -
  obtain lo hi where e: "type_min F t = Some lo" "type_max F t = Some hi"
    using type_limits [OF assms] make_const_defined [OF assms] by metis
  then have "make_const F t (ety_min (ety t)) = Some lo" "make_const F t (ety_max (ety t)) = Some hi"
    using type_limits [OF assms] by simp_all
  note c = make_const_eval [OF this(1) assms(2,1)] make_const_eval [OF this(2) assms(2,1)]
  have "can_represent_int t v \<longleftrightarrow> ety_min (ety t) \<le> v \<and> v \<le> ety_max (ety t)" for v
    using assms legal_bits [OF assms(1)]
    by (auto simp: can_represent_int_def ety_min_def ety_max_def ety_def is_num_def is_int_def is_uint_def max_int_eq min_int_eq max_uint_eq)
  then show ?thesis using e c const_val_limits [OF assms] by auto
qed

theorem type_extremes_witness:
  "\<exists>hi M. type_max no_floats i32 = Some hi \<and> eval sample hi 0 = Some M \<and> can_represent_int i32 M"
proof -
  have z: "can_represent_int i32 0" by (simp add: can_represent_int_def min_int_eq max_int_eq is_int_def)
  obtain hi m M where "type_max no_floats i32 = Some hi" "eval sample hi 0 = Some M"
    and r: "\<And>v. can_represent_int i32 v \<longleftrightarrow> m \<le> v \<and> v \<le> M"
    using type_extremes [of i32 no_floats] by (auto simp: legal_type_def is_num_def is_int_def)
  moreover have "can_represent_int i32 M" using r [of 0] r [of M] z by simp
  ultimately show ?thesis by blast
qed

section \<open>Matching and rewriting\<close>

text \<open>C17: A match of a pattern assigns its wildcards so that the pattern has the value of the
  expression it matched, under every assignment that agrees with the final state.\<close>

theorem match_sound:
  assumes "pmatch F p e empty_state = Some \<sigma>" "typed p" "wf e" "eval env e l = Some v"
    and "agrees env M \<sigma>" "lane M = l"
  shows "pdef M (ety (etype e)) p \<and> pval M (ety (etype e)) p = v"
  using pmatch_sound [OF assms(1-4) good_empty] assms(5,6) by (simp add: matches_def)

theorem match_sound_witness:
  "\<exists>\<sigma>. pmatch no_floats (X + C0) (Add var_x (num 3)) empty_state = Some \<sigma> \<and>
     pval (vctx_of sample 0 \<sigma>) (ety i32) (X + C0) = 8"
proof -
  obtain \<sigma> where m: "pmatch no_floats (X + C0) (Add var_x (num 3)) empty_state = Some \<sigma>"
    by (simp add: run_rules)
  have g: "good sample 0 \<sigma>"
    using pmatch_sound [OF m _ _ _ good_empty, of sample 0 8]
    by (simp add: matches_def samples run_eval pat_ops)
  have "pval (vctx_of sample 0 \<sigma>) (ety i32) (X + C0) = 8"
    using match_sound [OF m, of sample 0 8 "vctx_of sample 0 \<sigma>"] vctx_of_agrees [OF g]
    by (simp add: samples run_eval pat_ops vctx_of_def)
  then show ?thesis using m by blast
qed

text \<open>C18: A predicate on constants that evaluates to true, without overflow, holds of the
  numbers that the constants denote.\<close>

theorem predicate_holds:
  assumes "pshape p" "make_folded_const F p \<sigma> ty0 = Some (v, ty)" "v \<noteq> 0" "\<not> special (lanes ty)"
    and "good env (lane M) \<sigma>" "agrees env M \<sigma>"
  shows "pholds M p"
  using predicate_sound [OF assms] .

theorem predicate_holds_witness: "pholds (vctx_of sample 0 (set_bound_const 0 3 i32 empty_state)) (lt C0 (Const 5))"
proof -
  let ?\<sigma> = "set_bound_const 0 3 i32 empty_state"
  have g: "good sample 0 ?\<sigma>"
    by (simp add: good_def set_bound_const_def empty_state_def run_eval in_ety_def ety_def rd_def)
  show ?thesis
    using predicate_holds [of "lt C0 (Const 5)" no_floats ?\<sigma> bool_type 1 bool_type sample "vctx_of sample 0 ?\<sigma>"]
      vctx_of_agrees [OF g] g
    by (simp add: run_rules pat_ops vctx_of_def samples)
qed

section \<open>Scopes\<close>

text \<open>C27: A scope refines a family of stacks, one for each name: pushing and popping a name are
  pushing and popping its stack, a pop fails just when the stack is empty, and every operation
  keeps the invariant that no empty stack is stored.\<close>

theorem scope_refines_stacks:
  assumes "scope_ok s"
  shows "(scope_ok (scope_push n x s) \<and> scope_stack (scope_push n x s) = (scope_stack s)(n := x # scope_stack s n)) \<and>
    (scope_pop n s = None \<longleftrightarrow> scope_stack s n = []) \<and>
    (scope_pop n s = Some s' \<longrightarrow> scope_ok s' \<and> scope_stack s' = (scope_stack s)(n := tl (scope_stack s n)))"
  using scope.push_ok [OF assms] scope.push_stack [OF assms] scope.pop_None [OF assms] scope.pop_ok [OF assms]
    scope.pop_stack [OF assms]
  by blast

theorem scope_refines_stacks_witness: "scope_stack (scope_push ''x'' 1 (empty_scope :: int scope)) ''x'' = [1]"
  using scope_refines_stacks [of "empty_scope :: int scope" "''x''" 1] by simp

text \<open>C37: Names may be popped in any order: after as many pops of every name as there were
  pushes, the scope is what it was. The simplifier relies on it when the facts it has learned
  from a condition are forgotten.\<close>

theorem scope_pop_any_order:
  assumes "scope_ok s" "mset ns = mset (map fst bs)"
  shows "pop_all scope_pop ns (push_all scope_push bs s) = Some s"
  using scope_pop_push_all [OF assms] .

theorem scope_pop_any_order_witness:
  "pop_all scope_pop [''x'', ''y'', ''x''] (push_all scope_push [(''x'', 1), (''x'', 2), (''y'', 3)] empty_scope) =
    Some (empty_scope :: int scope)"
  using scope_pop_any_order [of "empty_scope :: int scope" "[''x'', ''y'', ''x'']" "[(''x'', 1), (''x'', 2), (''y'', 3)]"]
  by simp

section \<open>The order on expressions\<close>

text \<open>C28: The order by which sets and maps of expressions are kept is a strict weak order on
  expressions without float literals, whose equivalence is the deep equality.\<close>

theorem deep_order_strict_weak:
  assumes "float_free a" "float_free b" "float_free c"
  shows "\<not> deep_less F a a \<and> (deep_less F a b \<and> deep_less F b c \<longrightarrow> deep_less F a c) \<and>
    (deep_equal F a b \<longleftrightarrow> \<not> deep_less F a b \<and> \<not> deep_less F b a) \<and>
    (deep_equal F a b \<and> deep_equal F b c \<longrightarrow> deep_equal F a c)"
  using deep_less_order [OF assms] .

theorem deep_order_strict_weak_witness:
  "\<not> deep_less no_floats var_x var_x \<and> deep_less no_floats var_x var_y \<and> \<not> deep_equal no_floats var_x var_y"
  using deep_order_strict_weak [of var_x var_y var_y no_floats]
  by (simp add: samples deep_less_def compare_expr_def compare_heads_def and_then_def compare_scalar_def compare_types_def
      compare_names_def)

text \<open>C38: Deeply equal expressions have the same type and the same value, although the comparison
  of two loads ignores the image and the parameter they read.\<close>

theorem deep_equal_same_value:
  assumes "deep_equal F a b"
  shows "etype a = etype b \<and> eval env a l = eval env b l"
  using deep_equal_etype [OF assms] deep_equal_eval [OF assms] by blast

theorem deep_equal_same_value_witness:
  "eval sample (Add var_x var_y) 0 = eval sample (Add var_x var_y) 0 \<and> deep_equal no_floats (Add var_x var_y) (Add var_x var_y)"
  using deep_equal_same_value [of no_floats "Add var_x var_y" "Add var_x var_y" sample 0]
  by (simp add: samples deep_equal_def compare_expr_def compare_heads_def)

section \<open>Bounds and alignment\<close>

text \<open>C39: Rounding the bounds of an expression to its alignment, and combining two pieces of
  knowledge about it, keep every integer that was allowed, as long as the remainder of the
  alignment lies between zero and the modulus.\<close>

theorem info_ops_sound:
  assumes "info_ok i v"
  shows "(trim_bounds_using_alignment i = Some i' \<and> trim_exact (alignment i) \<longrightarrow> info_ok i' v) \<and>
    (info_intersect i other = Some i' \<and> trim_exact (mr_intersect (alignment i) (alignment other)) \<and> info_ok other v \<longrightarrow>
       info_ok i' v)"
  using trim_sound intersect_sound assms by blast

theorem info_ops_sound_witness:
  "info_ok \<lparr>info_min = 3, info_max = 7, min_defined = True, max_defined = True, alignment = MR 4 3\<rparr> 7"
proof -
  let ?i = "\<lparr>info_min = 1, info_max = 10, min_defined = True, max_defined = True, alignment = MR 4 3\<rparr>"
  have "trim_bounds_using_alignment ?i =
      Some \<lparr>info_min = 3, info_max = 7, min_defined = True, max_defined = True, alignment = MR 4 3\<rparr>"
    by (simp add: trim_bounds_using_alignment_def trim_min_def trim_max_def mod_imp_def crem64_def chk64_def int64_def
        smod_int_unfold sdiv_int_unfold)
  then show ?thesis
    using info_ops_sound [of ?i 7 "\<lparr>info_min = 3, info_max = 7, min_defined = True, max_defined = True, alignment = MR 4 3\<rparr>"]
    by (simp add: info_ok_def info_int64_def mr_has_def trim_exact_def int64_def)
qed

section \<open>Intervals\<close>

text \<open>C22: \<open>make_max\<close> and \<open>make_min\<close> always end, and give an end of the same type whose value is
  the maximum or minimum in the integers with both infinities, however nodes are shared.\<close>

theorem extrema_refine:
  assumes "sharing same" "\<not> is_handle t" "end_ok t a" "end_ok t b"
  shows "\<exists>hi lo. make_max same F a b = Some hi \<and> make_min same F a b = Some lo \<and> end_ok t hi \<and> end_ok t lo \<and>
    (\<forall>env l x y. end_val env l a = Some x \<and> end_val env l b = Some y \<longrightarrow>
       end_val env l hi = Some (max x y) \<and> end_val env l lo = Some (min x y))"
  using make_max_ok [OF assms, of F] make_min_ok [OF assms, of F] by blast

theorem extrema_refine_witness:
  "\<exists>hi. make_max (=) no_floats (MaxE var_x (num 3)) (num 4) = Some hi \<and> end_val sample 0 hi = Some (Fin 5)"
proof -
  have "end_val sample 0 (MaxE var_x (num 3)) = Some (Fin 5)" "end_val sample 0 (num 4) = Some (Fin 4)"
    by (simp_all add: end_val_def pos_inf_def neg_inf_def samples run_eval)
  moreover have "end_ok i32 (MaxE var_x (num 3))" "end_ok i32 (num 4)" "\<not> is_handle i32" "sharing (=)"
    by (simp_all add: end_ok_def sharing_def halide_defs run_eval)
  moreover have "max (Fin 5) (Fin 4) = Fin 5" by (simp add: max_def)
  ultimately show ?thesis
    using extrema_refine [of "(=)" i32 "MaxE var_x (num 3)" "num 4" no_floats] by metis
qed

text \<open>C23: The intersection of two intervals with defined ends has just the common values, and
  their union every value of either.\<close>

theorem interval_lattice:
  assumes "sharing same" "\<not> is_handle t" "interval_ok t a" "interval_ok t b"
    and "interval_defined env l a" "interval_defined env l b"
  shows "\<exists>i u. make_intersection same F a b = Some i \<and> make_union same F a b = Some u \<and> interval_ok t i \<and> interval_ok t u \<and>
    (interval_has env l i v \<longleftrightarrow> interval_has env l a v \<and> interval_has env l b v) \<and>
    (interval_has env l a v \<or> interval_has env l b v \<longrightarrow> interval_has env l u v)"
  using make_intersection_ok [OF assms(1-4), of F] make_union_ok [OF assms(1-4), of F] assms(5,6) by blast

theorem interval_lattice_witness:
  "\<exists>i. make_intersection (=) no_floats \<lparr>iv_min = var_x, iv_max = pos_inf\<rparr> \<lparr>iv_min = neg_inf, iv_max = var_y\<rparr> = Some i \<and>
    interval_has sample 0 i 7"
proof -
  let ?a = "\<lparr>iv_min = var_x, iv_max = pos_inf\<rparr>" and ?b = "\<lparr>iv_min = neg_inf, iv_max = var_y\<rparr>"
  have "interval_defined sample 0 ?a" "interval_defined sample 0 ?b" "interval_has sample 0 ?a 7" "interval_has sample 0 ?b 7"
    by (simp_all add: interval_defined_def interval_has_def end_val_def pos_inf_def neg_inf_def samples run_eval halide_defs)
  moreover have "interval_ok i32 ?a" "interval_ok i32 ?b" "\<not> is_handle i32" "sharing (=)"
    by (simp_all add: interval_ok_def end_ok_def sharing_def halide_defs run_eval)
  ultimately show ?thesis
    using interval_lattice [of "(=)" i32 ?a ?b sample 0 no_floats 7] by metis
qed

section \<open>The simplifier\<close>

text \<open>C1: \<open>simplify\<close> keeps the value of an expression. If a run on a well-formed expression, with
  bounds and alignments that hold of the variables, ends without leaving what is proved, then
  its result is well-formed, has the same type, and has the value of the expression in every
  lane.\<close>

theorem simplify_keeps_value:
  assumes "simplify F n e g r bi ai = Some (e', s')" "\<not> tainted s'"
    and "wf e" "l < lanes (etype e)" "given_ok env bi ai" "eval env e l = Some v"
  shows "etype e' = etype e \<and> wf e' \<and> eval env e' l = Some v"
  using simp.plain(2) [OF assms(1) [unfolded simplify_def]]
    simp.plain(3) [OF assms(1) [unfolded simplify_def] assms(3) _ new_simplify_facts [OF assms(5)] assms(6,2)] assms(4)
  by (simp add: lane_okt_def)

theorem simplify_keeps_value_witness:
  "eval sample (num 5) 0 = Some 5 \<and> (\<exists>s. simplify no_floats 3 (Add (num 2) (num 3)) idle True [] [] = Some (num 5, s))"
proof -
  have "\<exists>s. simplify no_floats 3 (Add (num 2) (num 3)) idle True [] [] = Some (num 5, s) \<and> \<not> tainted s"
    by (simp add: run_simplifier run_visitors) (simp add: samples run_rules add_direct_def)
  then show ?thesis
    using simplify_keeps_value [of no_floats 3 "Add (num 2) (num 3)" idle True "[]" "[]" "num 5" _ 0 sample 5]
    by (auto simp: run_eval given_ok_def)
qed

text \<open>C2: The bounds and the alignment that a run returns hold of the value: if the run ends
  without leaving what is proved, the value lies between the bounds that are defined and in
  the set of the alignment.\<close>

theorem simplify_bounds_sound:
  assumes "mutate F n e (Some no_info) s = Some (e', Some i, s')" "\<not> tainted s'"
    and "wf e" "l < lanes (etype e)" "facts_ok env s" "eval env e l = Some v"
  shows "(min_defined i \<longrightarrow> info_min i \<le> v) \<and> (max_defined i \<longrightarrow> v \<le> info_max i) \<and> mr_has (alignment i) v"
proof -
  have "info_ok i v"
    using simp.mu_ok [OF assms(1), of env l v] simp.mu_type [OF assms(1)] assms(2-)
    by (simp add: simp_ok_def simp_pre_def lane_okt_def)
  then show ?thesis by (simp add: info_ok_def)
qed

theorem simplify_bounds_sound_witness:
  "\<exists>i s. mutate no_floats 4 (Mul (num 2) (num 3)) (Some no_info) (new_simplify idle True [] []) = Some (num 6, Some i, s) \<and>
    info_min i \<le> 6 \<and> mr_has (alignment i) 6"
proof -
  have m: "mutate no_floats 4 (Mul (num 2) (num 3)) (Some no_info) (new_simplify idle True [] []) =
      Some (num 6, Some (literal_info 6), new_simplify idle True [] [])"
    using literals_fold [of "Mul (num 2) (num 3)" 6 4 no_floats] by (simp add: folds_def int32_def)
  then have "info_min (literal_info 6) \<le> 6 \<and> mr_has (alignment (literal_info 6)) 6"
    using simplify_bounds_sound [OF m, of 0 sample 6] new_simplify_facts [of sample "[]" "[]" idle True]
    by (simp add: run_eval given_ok_def new_simplify_def literal_info_def)
  then show ?thesis using m by blast
qed

text \<open>C3: Constant expressions are folded: sums, differences, products, minima and maxima of literals
  whose intermediate values fit 32 bits simplify to the literal of their value, for every
  budget above the size of the expression.\<close>

theorem constants_fold:
  assumes "literal_value e = Some v" "size e < n"
  shows "simplify F n e g r bi ai = Some (num v, new_simplify g r bi ai)"
  using assms by (rule simplify_literals)

theorem constants_fold_witness:
  "simplify no_floats 9 (MaxE (Sub (Mul (num 7) (num 6)) (num 2)) (num 3)) idle True [] [] =
    Some (num 40, new_simplify idle True [] [])"
  using constants_fold [of "MaxE (Sub (Mul (num 7) (num 6)) (num 2)) (num 3)" 40 9 no_floats idle True "[]" "[]"]
  by (simp add: int32_def)

text \<open>C29: What constants cannot be folded to is reported: a sum or a difference that leaves 32
  bits becomes a call to \<open>signed_integer_overflow\<close> and a division by zero one to
  \<open>indeterminate_expression\<close>, each with the next number
  of the counter of its kind, which it moves on.\<close>

theorem constant_errors:
  assumes "literal_value a = Some x" "literal_value b = Some y" "size a + size b < n"
  shows "(\<not> int32 (x + y) \<longrightarrow>
      mutate F (Suc n) (Add a b) None s = Some (poison ''signed_integer_overflow'' (overflows s), None, overflowed s)) \<and>
    (\<not> int32 (x - y) \<longrightarrow>
      mutate F (Suc n) (Sub a b) None s = Some (poison ''signed_integer_overflow'' (overflows s), None, overflowed s)) \<and>
    (y = 0 \<longrightarrow>
      mutate F (Suc n) (Div a b) None s = Some (poison ''indeterminate_expression'' (indeterminates s), None, undetermined s))"
  using poisons [OF assms] by blast

theorem constant_errors_witness:
  "mutate no_floats 2 (Add (num 2147483647) (num 1)) None (new_simplify idle True [] []) =
    Some (poison ''signed_integer_overflow'' (overflows (new_simplify idle True [] [])), None, overflowed (new_simplify idle True [] []))"
  using constant_errors [of "num 2147483647" 2147483647 "num 1" 1 1 no_floats "new_simplify idle True [] []"]
  by (simp add: int32_def numeral_2_eq_2)


section \<open>Substitution\<close>

text \<open>C24: Substituting an expression for a variable is evaluating with the variable bound to its
  value. If the constructors accept every node, the variable has the type of the expression and
  no let around it captures a variable of the expression, then there is a result, with the
  type of the original, well-formed, and with that value in every environment.\<close>

theorem substitution_binds:
  assumes "wf e" "built e" "wf r" "replaceable [n \<mapsto> r] empty_scope e"
  shows "\<exists>e'. substitute n r e = Some e' \<and> etype e' = etype e \<and> wf e' \<and>
    (\<forall>env l. eval env e' l = eval (env\<lparr>vars := (vars env)(n := eval env r)\<rparr>) e l)"
  using assms by (rule substitute_value)

theorem substitution_binds_witness:
  "\<exists>e'. substitute ''x'' (Add var_y (num 1)) (LetE ''z'' var_x (Mul (Variable i32 ''z'') var_x)) = Some e' \<and>
    eval sample e' 0 = Some 100"
proof -
  let ?e = "LetE ''z'' var_x (Mul (Variable i32 ''z'') var_x)" and ?r = "Add var_y (num 1)"
  have "wf ?e" "built ?e" "wf ?r" "replaceable [''x'' \<mapsto> ?r] empty_scope ?e"
    by (simp_all add: run_eval built.simps replaceable.simps make_defs expr_uses_var_def expr_uses_vars.simps find_replacement_def
        empty_scope_def scope_push_def small_stack_push_def small_stack_new_def)
  then show ?thesis
    using substitution_binds [of ?e ?r "''x''"] by (auto simp: samples run_eval lane_in_def)
qed

text \<open>C25: \<open>substitute_in_all_lets\<close> removes every let, also nested ones that bind a name again, and
  keeps the value, if variables that are bound have the types of their values.\<close>

theorem lets_substituted:
  assumes "wf e" "built e" "lets_typed Map.empty e"
  shows "\<exists>e'. substitute_in_all_lets e = Some e' \<and> let_free e' \<and> etype e' = etype e \<and> wf e' \<and>
    (\<forall>env l. eval env e' l = eval env e l)"
  using assms by (rule lets_inlined)

theorem lets_substituted_witness:
  "\<exists>e'. substitute_in_all_lets (LetE ''y'' var_x (LetE ''x'' (num 3) (Add var_x var_y))) = Some e' \<and>
    let_free e' \<and> eval sample e' 0 = Some 8"
proof -
  let ?e = "LetE ''y'' var_x (LetE ''x'' (num 3) (Add var_x var_y))"
  have "wf ?e" "built ?e" "lets_typed Map.empty ?e"
    by (simp_all add: run_eval built.simps lets_typed.simps make_defs)
  then show ?thesis
    using lets_substituted [of ?e] by (auto simp: samples run_eval lane_in_def)
qed

section \<open>Monotonicity\<close>

text \<open>C26: What \<open>is_monotonic\<close> answers is true: between two environments that differ in the variable
  alone, in which it does not fall, the value of the expression stays, does not fall or does
  not rise as answered. The prover must only accept what is true, and the arithmetic of the
  expression must be exact in both environments.\<close>

theorem monotonic_analysis_sound:
  assumes "is_monotonic F prove e var = Some r" "proves_true prove" "wf e"
    and "exact_in F var E e" "exact_in F var E' e"
    and "mem E = mem E'" "fns E = fns E'" "\<forall>n l. n \<noteq> var \<longrightarrow> vars E n l = vars E' n l"
    and "\<forall>l x y. vars E var l = Some x \<longrightarrow> vars E' var l = Some y \<longrightarrow> x \<le> y"
    and "eval E e l = Some v" "eval E' e l = Some w"
  shows "(r = Constant \<longrightarrow> v = w) \<and> (r = Increasing \<longrightarrow> v \<le> w) \<and> (r = Decreasing \<longrightarrow> w \<le> v)"
  using is_monotonic_sound [OF assms(1-3) assms(6,7) _ _ assms(4,5) assms(10,11)] assms(8,9) by auto

theorem monotonic_analysis_sound_witness:
  "is_monotonic no_floats (\<lambda>c. c = Cmp OpGE (Add var_x (num 1)) var_x)
     (Select (Cmp OpGT var_x (num 6)) (Add var_x (num 1)) var_x) ''x'' = Some Increasing \<and> (5 :: int) \<le> 9"
proof -
  let ?p = "\<lambda>c. c = Cmp OpGE (Add var_x (num 1)) var_x" and ?e = "Select (Cmp OpGT var_x (num 6)) (Add var_x (num 1)) var_x"
  let ?E = "sample\<lparr>vars := (\<lambda>n l. Some 8)\<rparr>" and ?D = "sample\<lparr>vars := (\<lambda>n l. if n = ''x'' then Some 5 else Some 8)\<rparr>"
  have m: "is_monotonic no_floats ?p ?e ''x'' = Some Increasing"
    by (simp add: is_monotonic_def empty_scope_def mono_bin_def mono_unify_def mono_cmp_def mono_select_def Cmp_make_def Let_def)
  have p: "proves_true ?p"
    by (auto simp: proves_true_def run_eval cmp_val_def bind_eq_Some_conv split: if_splits)
  have "wf ?e" "exact_in no_floats ''x'' ?D ?e" "exact_in no_floats ''x'' ?E ?e" by (simp_all add: run_eval)
  then have "(5 :: int) \<le> 9"
    using monotonic_analysis_sound [OF m p, of ?D ?E 0 5 9] by (simp add: samples run_eval lane_in_def cmp_val_def)
  then show ?thesis using m by blast
qed

end
